(* ===== verification/Rust_Base.thy ===== *)
theory Rust_Base
  imports Complex_Main "HOL-Library.Char_ord" "HOL-Library.List_Lexorder" "HOL-Library.Multiset"
begin

text \<open>
  Shared vocabulary of the development: the outcome of a Rust computation (value, error or
  panic), fallible folds, comparators with the standard library's \<open>sort_by\<close>, \<open>min_by\<close> and
  \<open>max_by\<close>, fixed-width unsigned arithmetic on natural numbers with the range checks written
  out, and two locales for state machines (an invariant kept by every operation; a rank that
  no operation lowers).
\<close>

named_theorems outcome_simps \<open>inversion of successful outcomes\<close>

section \<open>Outcomes\<close>

text \<open>
  \<open>Ok v\<close> and \<open>Err e\<close> are the two constructors of Rust's \<open>Result\<close>; \<open>Panic\<close> is a computation
  that aborts (an \<open>expect\<close> that fails, an index out of a map, arithmetic operators whose
  checked form gives \<open>None\<close>).
\<close>

datatype ('a, 'e) outcome = Ok 'a | Err 'e | Panic

fun and_then :: "('a, 'e) outcome \<Rightarrow> ('a \<Rightarrow> ('b, 'e) outcome) \<Rightarrow> ('b, 'e) outcome" where
  "and_then (Ok x) f = f x"
| "and_then (Err e) f = Err e"
| "and_then Panic f = Panic"

fun map_err :: "('e \<Rightarrow> 'f) \<Rightarrow> ('a, 'e) outcome \<Rightarrow> ('a, 'f) outcome" where
  "map_err g (Ok x) = Ok x"
| "map_err g (Err e) = Err (g e)"
| "map_err g Panic = Panic"

fun ok_or :: "'e \<Rightarrow> 'a option \<Rightarrow> ('a, 'e) outcome" where
  "ok_or e None = Err e"
| "ok_or e (Some x) = Ok x"

fun or_panic :: "'a option \<Rightarrow> ('a, 'e) outcome" where
  "or_panic None = Panic"
| "or_panic (Some x) = Ok x"

text \<open>The guard \<open>if bad { return Err(e) }\<close>.\<close>

definition fail_if :: "bool \<Rightarrow> 'e \<Rightarrow> (unit, 'e) outcome" where
  "fail_if bad e = (if bad then Err e else Ok ())"

fun try_fold :: "('s \<Rightarrow> 'a \<Rightarrow> ('s, 'e) outcome) \<Rightarrow> 's \<Rightarrow> 'a list \<Rightarrow> ('s, 'e) outcome" where
  "try_fold f s [] = Ok s"
| "try_fold f s (x # xs) = and_then (f s x) (\<lambda>s'. try_fold f s' xs)"

definition is_ok :: "('a, 'e) outcome \<Rightarrow> bool" where
  "is_ok r = (case r of Ok _ \<Rightarrow> True | _ \<Rightarrow> False)"

lemma is_ok_simps [simp]: "is_ok (Ok x)" "\<not> is_ok (Err e)" "\<not> is_ok Panic"
  by (simp_all add: is_ok_def)

lemma and_then_Ok [outcome_simps]:
  "and_then m f = Ok y \<longleftrightarrow> (\<exists>x. m = Ok x \<and> f x = Ok y)"
  by (cases m) auto

lemma and_then_Panic:
  "and_then m f = Panic \<longleftrightarrow> m = Panic \<or> (\<exists>x. m = Ok x \<and> f x = Panic)"
  by (cases m) auto

lemma and_then_Err:
  "and_then m f = Err e \<longleftrightarrow> m = Err e \<or> (\<exists>x. m = Ok x \<and> f x = Err e)"
  by (cases m) auto

lemma and_then_cong [fundef_cong]:
  "m = m' \<Longrightarrow> (\<And>x. m' = Ok x \<Longrightarrow> f x = g x) \<Longrightarrow> and_then m f = and_then m' g"
  by (cases m') auto

lemma map_err_Ok [outcome_simps]: "map_err g m = Ok y \<longleftrightarrow> m = Ok y"
  by (cases m) auto

lemma map_err_Panic [simp]: "map_err g m = Panic \<longleftrightarrow> m = Panic"
  by (cases m) auto

lemma ok_or_Ok [outcome_simps]: "ok_or e v = Ok y \<longleftrightarrow> v = Some y"
  by (cases v) auto

lemma ok_or_Err: "ok_or e v = Err e' \<longleftrightarrow> v = None \<and> e' = e"
  by (cases v) auto

lemma ok_or_Panic [simp]: "ok_or e v \<noteq> Panic"
  by (cases v) auto

lemma or_panic_Ok [outcome_simps]: "or_panic v = Ok y \<longleftrightarrow> v = Some y"
  by (cases v) auto

lemma or_panic_Panic [simp]: "or_panic v = Panic \<longleftrightarrow> v = None"
  by (cases v) auto

lemma fail_if_Ok [outcome_simps]: "fail_if b e = Ok u \<longleftrightarrow> \<not> b"
  by (simp add: fail_if_def)

lemma fail_if_Err: "fail_if b e = Err e' \<longleftrightarrow> b \<and> e' = e"
  by (auto simp: fail_if_def)

lemma fail_if_Panic [simp]: "fail_if b e \<noteq> Panic"
  by (simp add: fail_if_def)

lemma fail_if_simps [simp]: "fail_if True e = Err e" "fail_if False e = Ok ()"
  by (simp_all add: fail_if_def)

lemma try_fold_append:
  "try_fold f s (xs @ ys) = and_then (try_fold f s xs) (\<lambda>s'. try_fold f s' ys)"
proof (induction xs arbitrary: s)
  case (Cons x xs)
  then show ?case by (cases "f s x") auto
qed simp

text \<open>An invariant of the accumulator survives a fallible fold.\<close>

lemma try_fold_inv:
  assumes "try_fold f s xs = Ok t" and "P s"
    and "\<And>s x s'. x \<in> set xs \<Longrightarrow> P s \<Longrightarrow> f s x = Ok s' \<Longrightarrow> P s'"
  shows "P t"
  using assms
proof (induction xs arbitrary: s)
  case (Cons x xs)
  from Cons.prems(1) obtain s' where s': "f s x = Ok s'" "try_fold f s' xs = Ok t"
    by (auto simp: outcome_simps)
  have "P s'" using Cons.prems(2) s'(1) by (auto intro: Cons.prems(3))
  with s'(2) show ?case using Cons.prems(3) by (intro Cons.IH) auto
qed simp

lemma try_fold_no_Panic:
  assumes "\<And>s x. x \<in> set xs \<Longrightarrow> P s \<Longrightarrow> f s x \<noteq> Panic"
    and "\<And>s x s'. x \<in> set xs \<Longrightarrow> P s \<Longrightarrow> f s x = Ok s' \<Longrightarrow> P s'" and "P s"
  shows "try_fold f s xs \<noteq> Panic"
  using assms
proof (induction xs arbitrary: s)
  case (Cons x xs)
  show ?case
  proof (cases "f s x")
    case (Ok s')
    have "P s'" using Cons.prems(2) [of x s s'] Cons.prems(3) Ok by simp
    moreover have "\<And>t y. y \<in> set xs \<Longrightarrow> P t \<Longrightarrow> f t y \<noteq> Panic"
      using Cons.prems(1) by simp
    moreover have "\<And>t y t'. y \<in> set xs \<Longrightarrow> P t \<Longrightarrow> f t y = Ok t' \<Longrightarrow> P t'"
      using Cons.prems(2) by (meson list.set_intros(2))
    ultimately have "try_fold f s' xs \<noteq> Panic" using Cons.IH [of s'] by blast
    with Ok show ?thesis by simp
  qed (use Cons.prems in auto)
qed simp

text \<open>A loop that only checks: \<open>for x in xs { f(x)?; }\<close>.\<close>

definition check_all :: "('a \<Rightarrow> (unit, 'e) outcome) \<Rightarrow> 'a list \<Rightarrow> (unit, 'e) outcome" where
  "check_all f xs = try_fold (\<lambda>_ x. f x) () xs"

lemma check_all_simps [simp]:
  "check_all f [] = Ok ()" "check_all f (x # xs) = and_then (f x) (\<lambda>_. check_all f xs)"
proof -
  show "check_all f (x # xs) = and_then (f x) (\<lambda>_. check_all f xs)"
    by (cases "f x") (simp_all add: check_all_def)
qed (simp add: check_all_def)

lemma check_all_Ok [outcome_simps]: "check_all f xs = Ok u \<longleftrightarrow> (\<forall>x \<in> set xs. f x = Ok ())"
  by (induction xs) (auto simp: outcome_simps)

lemma check_all_Err:
  assumes "\<And>x. x \<in> set xs \<Longrightarrow> f x = Ok () \<or> f x = Err e" and "\<exists>x \<in> set xs. f x \<noteq> Ok ()"
  shows "check_all f xs = Err e"
  using assms
proof (induction xs)
  case (Cons x xs)
  then show ?case by (cases "f x = Ok ()") force+
qed simp

lemma check_all_no_Panic: "(\<And>x. x \<in> set xs \<Longrightarrow> f x \<noteq> Panic) \<Longrightarrow> check_all f xs \<noteq> Panic"
  by (induction xs) (auto simp: and_then_Panic)

section \<open>Comparators\<close>

datatype ordering = Less | Equal | Greater

definition cmp :: "'a::linorder \<Rightarrow> 'a \<Rightarrow> ordering" where
  "cmp a b = (if a < b then Less else if a = b then Equal else Greater)"

fun then_with :: "ordering \<Rightarrow> ordering \<Rightarrow> ordering" where
  "then_with Equal r = r"
| "then_with r _ = r"

lemma cmp_simps [simp]:
  "cmp a b = Less \<longleftrightarrow> a < b" "cmp a b = Equal \<longleftrightarrow> a = b" "cmp a b = Greater \<longleftrightarrow> b < a"
  by (auto simp: cmp_def)

lemma then_with_eq:
  "then_with a b = Less \<longleftrightarrow> a = Less \<or> a = Equal \<and> b = Less"
  "then_with a b = Equal \<longleftrightarrow> a = Equal \<and> b = Equal"
  "then_with a b = Greater \<longleftrightarrow> a = Greater \<or> a = Equal \<and> b = Greater"
  by (cases a; simp)+

text \<open>\<open>Iterator::min_by\<close> keeps the first of several minima, \<open>max_by\<close> the last of several maxima.\<close>

fun min_by :: "('a \<Rightarrow> 'a \<Rightarrow> ordering) \<Rightarrow> 'a list \<Rightarrow> 'a option" where
  "min_by c [] = None"
| "min_by c [x] = Some x"
| "min_by c (x # y # ys) = (if c x y = Greater then min_by c (y # ys) else min_by c (x # ys))"

fun max_by :: "('a \<Rightarrow> 'a \<Rightarrow> ordering) \<Rightarrow> 'a list \<Rightarrow> 'a option" where
  "max_by c [] = None"
| "max_by c [x] = Some x"
| "max_by c (x # y # ys) = (if c x y = Greater then max_by c (x # ys) else max_by c (y # ys))"

lemma min_by_in: "min_by c xs = Some x \<Longrightarrow> x \<in> set xs"
  by (induction c xs rule: min_by.induct) (auto split: if_splits)

lemma max_by_in: "max_by c xs = Some x \<Longrightarrow> x \<in> set xs"
  by (induction c xs rule: max_by.induct) (auto split: if_splits)

lemma min_by_None [simp]: "min_by c xs = None \<longleftrightarrow> xs = []"
  by (induction c xs rule: min_by.induct) auto

lemma max_by_None [simp]: "max_by c xs = None \<longleftrightarrow> xs = []"
  by (induction c xs rule: max_by.induct) auto

lemma max_by_cmp: "max_by cmp xs = Some m \<Longrightarrow> x \<in> set xs \<Longrightarrow> x \<le> m"
  for m :: "'a::linorder"
proof (induction "cmp :: 'a \<Rightarrow> 'a \<Rightarrow> ordering" xs arbitrary: x m rule: max_by.induct)
  case (3 y z zs)
  show ?case
  proof (cases "cmp y z = Greater")
    case True
    with "3.prems"(1) have "max_by cmp (y # zs) = Some m" by simp
    with "3.hyps"(1) [OF True this] True "3.prems"(2) show ?thesis by fastforce
  next
    case False
    with "3.prems"(1) have "max_by cmp (z # zs) = Some m" by simp
    with "3.hyps"(2) [OF False this] False "3.prems"(2) show ?thesis by fastforce
  qed
qed simp_all

text \<open>\<open>slice::sort_by\<close> is a stable sort: a stable insertion sort gives the same list.\<close>

fun insert_by :: "('a \<Rightarrow> 'a \<Rightarrow> ordering) \<Rightarrow> 'a \<Rightarrow> 'a list \<Rightarrow> 'a list" where
  "insert_by c x [] = [x]"
| "insert_by c x (y # ys) = (if c x y = Greater then y # insert_by c x ys else x # y # ys)"

fun sort_by :: "('a \<Rightarrow> 'a \<Rightarrow> ordering) \<Rightarrow> 'a list \<Rightarrow> 'a list" where
  "sort_by c [] = []"
| "sort_by c (x # xs) = insert_by c x (sort_by c xs)"

lemma mset_insert_by [simp]: "mset (insert_by c x xs) = add_mset x (mset xs)"
  by (induction xs) auto

lemma mset_sort_by [simp]: "mset (sort_by c xs) = mset xs"
  by (induction xs) auto

lemma set_sort_by [simp]: "set (sort_by c xs) = set xs"
  by (metis mset_sort_by set_mset_mset)

lemma length_sort_by [simp]: "length (sort_by c xs) = length xs"
  by (metis mset_sort_by size_mset)

lemma sorted_insert_by:
  "sorted (map f xs) \<Longrightarrow> sorted (map f (insert_by (\<lambda>l r. cmp (f l) (f r)) x xs))"
proof (induction xs)
  case (Cons y ys)
  have "set (insert_by (\<lambda>l r. cmp (f l) (f r)) x ys) = insert x (set ys)" for x ys
    by (metis mset_insert_by set_mset_mset set_mset_add_mset_insert)
  with Cons show ?case by auto
qed simp

lemma sorted_sort_by: "sorted (map f (sort_by (\<lambda>l r. cmp (f l) (f r)) xs))"
  by (induction xs) (auto intro: sorted_insert_by)

lemma sort_by_perm:
  assumes "mset xs = mset ys" and "distinct (map f xs)"
  shows "sort_by (\<lambda>l r. cmp (f l) (f r)) xs = sort_by (\<lambda>l r. cmp (f l) (f r)) ys"
proof (rule map_sorted_distinct_set_unique [of f])
  have set: "set ys = set xs" using assms(1) by (metis set_mset_mset)
  show "inj_on f (set (sort_by (\<lambda>l r. cmp (f l) (f r)) xs) \<union> set (sort_by (\<lambda>l r. cmp (f l) (f r)) ys))"
    using assms(2) set by (simp add: distinct_map)
  have "distinct (map f zs)" if "mset zs = mset xs" for zs
    using assms(2) that by (metis distinct_count_atmost_1 mset_map set_mset_mset set_map)
  then show "distinct (map f (sort_by (\<lambda>l r. cmp (f l) (f r)) xs))"
    "distinct (map f (sort_by (\<lambda>l r. cmp (f l) (f r)) ys))"
    using assms(1) by simp_all
qed (simp_all add: sorted_sort_by assms(1) [THEN mset_eq_setD])

section \<open>Fixed-width unsigned integers\<close>

text \<open>
  Rust's \<open>u32\<close>, \<open>u64\<close>, \<open>u128\<close> and \<open>usize\<close> (64 bits on the deployed hosts) are modelled as natural
  numbers with the width written out in every operation that can leave the range.
  \<open>saturating_sub\<close> on an unsigned type is subtraction on \<open>nat\<close>.
\<close>

definition checked_add_nat :: "nat \<Rightarrow> nat \<Rightarrow> nat \<Rightarrow> nat option" where
  "checked_add_nat w a b = (if a + b < 2 ^ w then Some (a + b) else None)"

definition checked_mul_nat :: "nat \<Rightarrow> nat \<Rightarrow> nat \<Rightarrow> nat option" where
  "checked_mul_nat w a b = (if a * b < 2 ^ w then Some (a * b) else None)"

definition checked_sub_nat :: "nat \<Rightarrow> nat \<Rightarrow> nat option" where
  "checked_sub_nat a b = (if b \<le> a then Some (a - b) else None)"

definition saturating_add :: "nat \<Rightarrow> nat \<Rightarrow> nat \<Rightarrow> nat" where
  "saturating_add w a b = min (a + b) (2 ^ w - 1)"

definition saturating_mul :: "nat \<Rightarrow> nat \<Rightarrow> nat \<Rightarrow> nat" where
  "saturating_mul w a b = min (a * b) (2 ^ w - 1)"

definition saturating_sub :: "nat \<Rightarrow> nat \<Rightarrow> nat" where
  "saturating_sub a b = a - b"

text \<open>The cast \<open>x as uN\<close> keeps the low bits.\<close>

definition as_width :: "nat \<Rightarrow> nat \<Rightarrow> nat" where
  "as_width w a = a mod 2 ^ w"

lemma checked_add_nat_Some: "checked_add_nat w a b = Some c \<longleftrightarrow> c = a + b \<and> a + b < 2 ^ w"
  by (auto simp: checked_add_nat_def)

lemma checked_add_nat_None: "checked_add_nat w a b = None \<longleftrightarrow> 2 ^ w \<le> a + b"
  by (auto simp: checked_add_nat_def)

lemma checked_mul_nat_Some: "checked_mul_nat w a b = Some c \<longleftrightarrow> c = a * b \<and> a * b < 2 ^ w"
  by (auto simp: checked_mul_nat_def)

lemma checked_sub_nat_Some: "checked_sub_nat a b = Some c \<longleftrightarrow> b \<le> a \<and> c = a - b"
  by (auto simp: checked_sub_nat_def)

lemma as_width_small: "a < 2 ^ w \<Longrightarrow> as_width w a = a"
  by (simp add: as_width_def)

lemma as_width_le: "as_width w a \<le> a"
  by (simp add: as_width_def)

section \<open>State machines\<close>

text \<open>
  \<open>machine\<close> is the contract of every stateful component: its operations, as one function from a
  state and an operation to the state it leaves (also when it reports an error), keep the
  component's invariant. \<open>ranked_machine\<close> adds a quantity no operation lowers.
\<close>

locale machine =
  fixes exec :: "'i \<Rightarrow> 's \<Rightarrow> 's" and invar :: "'s \<Rightarrow> bool"
  assumes invar_exec: "invar s \<Longrightarrow> invar (exec i s)"
begin

lemma invar_run: "invar s \<Longrightarrow> invar (fold exec is s)"
  by (induction "is" arbitrary: s) (auto intro: invar_exec)

end

locale ranked_machine = machine exec invar
  for exec :: "'i \<Rightarrow> 's \<Rightarrow> 's" and invar :: "'s \<Rightarrow> bool" +
  fixes rank :: "'s \<Rightarrow> nat"
  assumes rank_exec: "invar s \<Longrightarrow> rank s \<le> rank (exec i s)"
begin

lemma rank_run: "invar s \<Longrightarrow> rank s \<le> rank (fold exec is s)"
proof (induction "is" arbitrary: s)
  case (Cons i "is")
  have "rank s \<le> rank (exec i s)" using Cons.prems by (rule rank_exec)
  also have "\<dots> \<le> rank (fold exec is (exec i s))"
    using Cons.prems by (intro Cons.IH invar_exec)
  finally show ?case by simp
qed simp

lemma rank_prefix: "invar s \<Longrightarrow> rank (fold exec xs s) \<le> rank (fold exec (xs @ ys) s)"
  by (simp add: invar_run rank_run)

end

end
