(* ===== verification/BTree.thy ===== *)
theory BTree
  imports Rust_Base
begin

text \<open>
  \<open>BTreeMap\<close> and \<open>BTreeSet\<close> of Rust's standard library: maps kept as their entries in
  strictly increasing key order, which is what iteration, equality and serialisation of the
  source's maps observe. The interface the components rely on is the locale \<open>ordered_map\<close>;
  it is interpreted on the type below, and the components use the interpreted facts.
\<close>

section \<open>The interface\<close>

locale ordered_map =
  fixes empty :: "'m"
    and lookup :: "'m \<Rightarrow> 'k::linorder \<Rightarrow> 'v option"
    and update :: "'k \<Rightarrow> 'v \<Rightarrow> 'm \<Rightarrow> 'm"
    and remove :: "'k \<Rightarrow> 'm \<Rightarrow> 'm"
    and items :: "'m \<Rightarrow> ('k \<times> 'v) list"
  assumes items_sorted: "sorted_wrt (<) (map fst (items m))"
    and items_empty: "items empty = []"
    and lookup_items: "lookup m = map_of (items m)"
    and lookup_update: "lookup (update k v m) k' = (if k' = k then Some v else lookup m k')"
    and lookup_remove: "lookup (remove k m) k' = (if k' = k then None else lookup m k')"
    and items_inject: "items m = items m' \<Longrightarrow> m = m'"
begin

lemma distinct_keys: "distinct (map fst (items m))"
  using items_sorted [of m] by (simp add: strict_sorted_iff)

lemma in_items_iff: "(k, v) \<in> set (items m) \<longleftrightarrow> lookup m k = Some v"
  by (simp add: lookup_items distinct_keys)

lemma keys_dom: "set (map fst (items m)) = {k. lookup m k \<noteq> None}"
  by (auto simp: lookup_items map_of_eq_None_iff dom_map_of_conv_image_fst)

lemma items_cong: "(\<And>k. lookup m k = lookup m' k) \<Longrightarrow> items m = items m'"
proof -
  assume *: "\<And>k. lookup m k = lookup m' k"
  have "map_of (items m) = map_of (items m')" using * by (simp add: lookup_items fun_eq_iff)
  then have eq: "set (items m) = set (items m')"
    by (simp add: map_of_inject_set distinct_keys)
  have "inj_on fst (set (items m) \<union> set (items m'))"
    using distinct_keys [of m] by (simp add: eq [symmetric] distinct_map)
  then show ?thesis
    using items_sorted [of m] items_sorted [of m'] eq
    by (auto intro!: map_sorted_distinct_set_unique simp: strict_sorted_iff)
qed

lemma ext: "(\<And>k. lookup m k = lookup m' k) \<Longrightarrow> m = m'"
  by (rule items_inject) (rule items_cong)

lemma update_same: "lookup m k = Some v \<Longrightarrow> update k v m = m"
  by (rule ext) (simp add: lookup_update)

lemma remove_absent: "lookup m k = None \<Longrightarrow> remove k m = m"
  by (rule ext) (simp add: lookup_remove)

lemma remove_update: "remove k (update k v m) = remove k m"
  by (rule ext) (simp add: lookup_update lookup_remove)

lemma update_update: "update k v (update k w m) = update k v m"
  by (rule ext) (simp add: lookup_update)

text \<open>Summing over the values: what an update and a removal change.\<close>

lemma set_items: "set (items m) = {(k, v). lookup m k = Some v}"
  by (auto simp: in_items_iff)

lemma distinct_items: "distinct (items m)"
  using distinct_keys [of m] by (simp add: distinct_map)

lemma sum_items: "sum_list (map f (items m)) = sum f (set (items m))"
  by (simp add: sum_list_distinct_conv_sum_set distinct_items)

lemma sum_items_remove:
  fixes f :: "'k \<times> 'v \<Rightarrow> 'a::ab_group_add"
  assumes "lookup m k = Some v"
  shows "sum_list (map f (items (remove k m))) = sum_list (map f (items m)) - f (k, v)"
proof -
  have "set (items (remove k m)) = set (items m) - {(k, v)}"
    using assms by (auto simp: set_items lookup_remove split: if_splits)
  moreover have "(k, v) \<in> set (items m)"
    using assms by (simp add: in_items_iff)
  ultimately show ?thesis
    by (simp add: sum_items sum_diff1)
qed

lemma sum_items_update_new:
  fixes f :: "'k \<times> 'v \<Rightarrow> 'a::ab_group_add"
  assumes "lookup m k = None"
  shows "sum_list (map f (items (update k v m))) = sum_list (map f (items m)) + f (k, v)"
proof -
  have "sum_list (map f (items (remove k (update k v m))))
      = sum_list (map f (items (update k v m))) - f (k, v)"
    by (rule sum_items_remove) (simp add: lookup_update)
  then show ?thesis using assms by (simp add: remove_update remove_absent)
qed

lemma sum_items_update:
  fixes f :: "'k \<times> 'v \<Rightarrow> 'a::ab_group_add"
  assumes "lookup m k = Some w"
  shows "sum_list (map f (items (update k v m))) = sum_list (map f (items m)) - f (k, w) + f (k, v)"
proof -
  have "sum_list (map f (items (remove k (update k v m))))
      = sum_list (map f (items (update k v m))) - f (k, v)"
    by (rule sum_items_remove) (simp add: lookup_update)
  with sum_items_remove [OF assms, of f] show ?thesis
    by (metis remove_update diff_add_cancel)
qed

end

section \<open>The representation\<close>

typedef (overloaded) ('k, 'v) bmap =
  "{xs :: ('k::linorder \<times> 'v) list. sorted_wrt (<) (map fst xs)}"
  morphisms entries Abs_bmap
  by (rule exI [of _ "[]"]) simp

setup_lifting type_definition_bmap

fun insert_entry :: "'k::linorder \<Rightarrow> 'v \<Rightarrow> ('k \<times> 'v) list \<Rightarrow> ('k \<times> 'v) list" where
  "insert_entry k v [] = [(k, v)]"
| "insert_entry k v ((a, b) # xs) =
     (if k < a then (k, v) # (a, b) # xs
      else if k = a then (k, v) # xs else (a, b) # insert_entry k v xs)"

lemma keys_insert_entry: "fst ` set (insert_entry k v xs) = insert k (fst ` set xs)"
  by (induction k v xs rule: insert_entry.induct) (simp_all, blast)

lemma sorted_insert_entry:
  "sorted_wrt (<) (map fst xs) \<Longrightarrow> sorted_wrt (<) (map fst (insert_entry k v xs))"
proof (induction k v xs rule: insert_entry.induct)
  case (2 k v a b xs)
  show ?case
  proof (cases "a < k")
    case True
    have "\<forall>x \<in> fst ` set (insert_entry k v xs). a < x"
      using True "2.prems" by (simp add: keys_insert_entry)
    with True show ?thesis using 2 by auto
  qed (use 2 in \<open>auto simp: not_less\<close>)
qed simp

lemma map_of_insert_entry: "map_of (insert_entry k v xs) = (map_of xs)(k \<mapsto> v)"
  by (induction k v xs rule: insert_entry.induct) (auto simp: fun_eq_iff)

lemma sorted_filter_entries:
  "sorted_wrt (<) (map fst xs) \<Longrightarrow> sorted_wrt (<) (map fst (filter P xs))"
  by (induction xs) auto

lemma map_of_filter_key: "map_of (filter (\<lambda>x. fst x \<noteq> k) xs) k' = (if k' = k then None else map_of xs k')"
  by (induction xs) auto

lift_definition bempty :: "('k::linorder, 'v) bmap" is "[]"
  by simp

lift_definition binsert :: "'k::linorder \<Rightarrow> 'v \<Rightarrow> ('k, 'v) bmap \<Rightarrow> ('k, 'v) bmap" is insert_entry
  by (rule sorted_insert_entry)

lift_definition bget :: "('k::linorder, 'v) bmap \<Rightarrow> 'k \<Rightarrow> 'v option" is map_of .

lift_definition bremove :: "'k::linorder \<Rightarrow> ('k, 'v) bmap \<Rightarrow> ('k, 'v) bmap" is
  "\<lambda>k. filter (\<lambda>x. fst x \<noteq> k)"
  by (rule sorted_filter_entries)

text \<open>\<open>retain\<close>, and the values mapped under unchanged keys.\<close>

lift_definition bfilter :: "('k \<Rightarrow> 'v \<Rightarrow> bool) \<Rightarrow> ('k::linorder, 'v) bmap \<Rightarrow> ('k, 'v) bmap" is
  "\<lambda>P. filter (\<lambda>x. P (fst x) (snd x))"
  by (rule sorted_filter_entries)

lift_definition bvmap :: "('k \<Rightarrow> 'v \<Rightarrow> 'w) \<Rightarrow> ('k::linorder, 'v) bmap \<Rightarrow> ('k, 'w) bmap" is
  "\<lambda>f. map (\<lambda>x. (fst x, f (fst x) (snd x)))"
  by (simp add: comp_def)

text \<open>\<open>iter().collect()\<close>: later entries replace earlier ones.\<close>

definition bcollect :: "('k::linorder \<times> 'v) list \<Rightarrow> ('k, 'v) bmap" where
  "bcollect xs = fold (\<lambda>x. binsert (fst x) (snd x)) xs bempty"

definition bkeys :: "('k::linorder, 'v) bmap \<Rightarrow> 'k list" where
  "bkeys m = map fst (entries m)"

definition bvals :: "('k::linorder, 'v) bmap \<Rightarrow> 'v list" where
  "bvals m = map snd (entries m)"

definition bhas :: "('k::linorder, 'v) bmap \<Rightarrow> 'k \<Rightarrow> bool" where
  "bhas m k = (bget m k \<noteq> None)"

definition bsize :: "('k::linorder, 'v) bmap \<Rightarrow> nat" where
  "bsize m = length (entries m)"

text \<open>\<open>get(k).copied().unwrap_or(d)\<close>.\<close>

definition bget_or :: "'v \<Rightarrow> ('k::linorder, 'v) bmap \<Rightarrow> 'k \<Rightarrow> 'v" where
  "bget_or d m k = (case bget m k of None \<Rightarrow> d | Some v \<Rightarrow> v)"

text \<open>A \<open>BTreeSet\<close> is a map to \<open>unit\<close>.\<close>

type_synonym 'k bset = "('k, unit) bmap"

definition bset_of :: "'k::linorder list \<Rightarrow> 'k bset" where
  "bset_of ks = bcollect (map (\<lambda>k. (k, ())) ks)"

instantiation bmap :: (linorder, equal) equal
begin

definition equal_bmap :: "('a::linorder, 'b::equal) bmap \<Rightarrow> ('a, 'b) bmap \<Rightarrow> bool" where
  "equal_bmap m m' = (entries m = entries m')"

instance
  by standard (simp add: equal_bmap_def entries_inject)

end

instantiation bmap :: (linorder, type) size
begin

definition size_bmap :: "('a::linorder, 'b) bmap \<Rightarrow> nat" where
  "size_bmap m = bsize m"

instance ..

end

section \<open>The interface holds\<close>

interpretation bm: ordered_map bempty bget binsert bremove entries
proof unfold_locales
  show "sorted_wrt (<) (map fst (entries m))" for m :: "('a::linorder, 'b) bmap"
    using entries [of m] by simp
  show "entries (bempty :: ('a::linorder, 'b) bmap) = []"
    by (simp add: bempty.rep_eq)
  show "bget m = map_of (entries m)" for m :: "('a::linorder, 'b) bmap"
    by (simp add: bget.rep_eq)
  show "bget (binsert k v m) k' = (if k' = k then Some v else bget m k')"
    for k k' :: "'a::linorder" and v :: 'b and m :: "('a, 'b) bmap"
    by (simp add: bget.rep_eq binsert.rep_eq map_of_insert_entry)
  show "bget (bremove k m) k' = (if k' = k then None else bget m k')"
    for k k' :: "'a::linorder" and m :: "('a, 'b) bmap"
    by (simp add: bget.rep_eq bremove.rep_eq map_of_filter_key)
  show "entries m = entries m' \<Longrightarrow> m = m'" for m m' :: "('a::linorder, 'b) bmap"
    by (simp add: entries_inject)
qed

declare bm.items_empty [simp] bm.lookup_update [simp] bm.lookup_remove [simp]

lemmas bmap_eqI = bm.ext
lemmas bentries_iff = bm.in_items_iff

lemma bget_empty [simp]: "bget bempty k = None"
  by (simp add: bm.lookup_items)

lemma bget_filter [simp]:
  fixes m :: "('a::linorder, 'b) bmap"
  shows "bget (bfilter P m) k = (case bget m k of None \<Rightarrow> None | Some v \<Rightarrow> if P k v then Some v else None)"
proof -
  have "map_of (filter (\<lambda>x. P (fst x) (snd x)) xs) k
      = (case map_of xs k of None \<Rightarrow> None | Some v \<Rightarrow> if P k v then Some v else None)"
    if "sorted_wrt (<) (map fst xs)" for xs :: "('a \<times> 'b) list"
    using that
  proof (induction xs)
    case (Cons x xs)
    have "map_of xs (fst x) = None"
      using Cons.prems by (auto simp: map_of_eq_None_iff)
    with Cons show ?case by (cases x) (auto split: option.splits)
  qed simp
  from this [OF bm.items_sorted [of m]] show ?thesis
    by (simp add: bget.rep_eq bfilter.rep_eq)
qed

lemma bget_vmap [simp]:
  fixes m :: "('a::linorder, 'b) bmap"
  shows "bget (bvmap f m) k = map_option (f k) (bget m k)"
proof -
  have "map_of (map (\<lambda>x. (fst x, f (fst x) (snd x))) xs) k = map_option (f k) (map_of xs k)"
    for xs :: "('a \<times> 'b) list"
    by (induction xs) auto
  then show ?thesis by (simp add: bget.rep_eq bvmap.rep_eq)
qed

lemma bhas_simps [simp]:
  "\<not> bhas bempty k" "bhas (binsert k v m) k' \<longleftrightarrow> k' = k \<or> bhas m k'"
  "bhas (bremove k m) k' \<longleftrightarrow> k' \<noteq> k \<and> bhas m k'"
  by (auto simp: bhas_def)

lemma bget_or_simps [simp]:
  "bget_or d bempty k = d" "bget_or d (binsert k v m) k' = (if k' = k then v else bget_or d m k')"
  by (auto simp: bget_or_def)

lemma set_bkeys: "k \<in> set (bkeys m) \<longleftrightarrow> bhas m k"
  using bm.keys_dom [of m] by (simp add: bkeys_def bhas_def set_eq_iff)

lemma bkeys_props: "sorted (bkeys m)" "distinct (bkeys m)"
  using bm.items_sorted [of m] by (simp_all add: bkeys_def strict_sorted_iff)

lemma set_bvals: "v \<in> set (bvals m) \<longleftrightarrow> (\<exists>k. bget m k = Some v)"
  by (auto simp: bvals_def image_iff bentries_iff) (metis bentries_iff snd_conv)

lemma bget_collect_fold:
  "bget (fold (\<lambda>x. binsert (fst x) (snd x)) xs m) k
     = (case map_of (rev xs) k of None \<Rightarrow> bget m k | Some v \<Rightarrow> Some v)"
  by (induction xs arbitrary: m) (auto simp: map_add_Some_iff map_add_def split: option.splits)

lemma bget_collect: "bget (bcollect xs) k = map_of (rev xs) k"
  by (simp add: bcollect_def bget_collect_fold split: option.splits)

lemma bhas_set_of [simp]: "bhas (bset_of ks) k \<longleftrightarrow> k \<in> set ks"
proof -
  have "map_of (map (\<lambda>k. (k, ())) xs) k = (if k \<in> set xs then Some () else None)" for xs
    by (induction xs) auto
  then show ?thesis by (simp add: bhas_def bset_of_def bget_collect rev_map)
qed

lemma bkeys_set_of: "set (bkeys (bset_of ks)) = set ks"
  by (auto simp: set_bkeys)

lemma bget_has: "bget m k = Some v \<Longrightarrow> bhas m k"
  by (simp add: bhas_def)

lemma entries_get: "e \<in> set (entries m) \<longleftrightarrow> bget m (fst e) = Some (snd e)"
  using bentries_iff [of "fst e" "snd e" m] by simp

lemma entries_has: "e \<in> set (entries m) \<Longrightarrow> bhas m (fst e)"
  by (simp add: entries_get bget_has)

lemma bsize_insert_new: "\<not> bhas m k \<Longrightarrow> bsize (binsert k v m) = Suc (bsize m)"
proof -
  have "k \<notin> fst ` set xs \<Longrightarrow> length (insert_entry k v xs) = Suc (length xs)" for xs :: "('a \<times> 'b) list"
    by (induction k v xs rule: insert_entry.induct) auto
  then show "\<not> bhas m k \<Longrightarrow> bsize (binsert k v m) = Suc (bsize m)"
    using set_bkeys [of k m] by (simp add: bsize_def binsert.rep_eq bkeys_def)
qed

lemma bsize_insert_old: "bhas m k \<Longrightarrow> bsize (binsert k v m) = bsize m"
proof -
  assume *: "bhas m k"
  have "set (bkeys (binsert k v m)) = set (bkeys m)"
    using * by (auto simp: set_bkeys)
  then have "bkeys (binsert k v m) = bkeys m"
    by (meson bkeys_props sorted_distinct_set_unique)
  then show ?thesis by (metis bkeys_def bsize_def length_map)
qed

lemma bsize_empty [simp]: "bsize bempty = 0"
  by (simp add: bsize_def)

lemma bsize_remove: "bsize (bremove k m) = (if bhas m k then bsize m - 1 else bsize m)"
proof (cases "bhas m k")
  case True
  then obtain v where v: "bget m k = Some v" by (auto simp: bhas_def)
  have "bsize (binsert k v (bremove k m)) = Suc (bsize (bremove k m))"
    by (rule bsize_insert_new) simp
  moreover have "binsert k v (bremove k m) = m"
    using v by (intro bmap_eqI) simp
  ultimately show ?thesis using True by simp
qed (auto simp: bm.remove_absent bhas_def)

lemma bsize_filter: "bsize (bfilter P m) \<le> bsize m"
  by (simp add: bsize_def bfilter.rep_eq)

lemma bsize_vmap [simp]: "bsize (bvmap f m) = bsize m"
  by (simp add: bsize_def bvmap.rep_eq)

lemma bsize_0 [simp]: "bsize m = 0 \<longleftrightarrow> m = bempty"
  by (metis bm.items_empty bm.items_inject bsize_def length_0_conv)

lemma bsize_remove_has: "bget m k = Some v \<Longrightarrow> Suc (bsize (bremove k m)) = bsize m"
proof -
  assume v: "bget m k = Some v"
  then have "m \<noteq> bempty" by auto
  then have "0 < bsize m" by (metis bsize_0 gr0I)
  with v show ?thesis by (simp add: bsize_remove bget_has)
qed

section \<open>Building a map key by key\<close>

text \<open>
  The loop \<open>for key in keys { let value = f(key)?; map.insert(key, value); }\<close>.
\<close>

definition btraverse ::
  "('k::linorder \<Rightarrow> ('v, 'e) outcome) \<Rightarrow> 'k list \<Rightarrow> (('k, 'v) bmap, 'e) outcome" where
  "btraverse f ks = try_fold (\<lambda>m k. and_then (f k) (\<lambda>v. Ok (binsert k v m))) bempty ks"

lemma btraverse_fold:
  assumes "try_fold (\<lambda>m k. and_then (f k) (\<lambda>v. Ok (binsert k v m))) m0 ks = Ok m"
  shows "(\<forall>k. k \<notin> set ks \<longrightarrow> bget m k = bget m0 k)
       \<and> (\<forall>k. k \<in> set ks \<longrightarrow> (\<exists>v. f k = Ok v \<and> bget m k = Some v))"
  using assms
proof (induction ks arbitrary: m0)
  case (Cons k ks)
  then obtain v where v: "f k = Ok v"
    and rest: "try_fold (\<lambda>m k. and_then (f k) (\<lambda>v. Ok (binsert k v m))) (binsert k v m0) ks = Ok m"
    by (auto simp: outcome_simps)
  from Cons.IH [OF rest] v show ?case by (cases "k \<in> set ks") auto
qed simp

lemma btraverse_get:
  "btraverse f ks = Ok m \<Longrightarrow> k \<in> set ks \<Longrightarrow> \<exists>v. f k = Ok v \<and> bget m k = Some v"
  unfolding btraverse_def by (drule btraverse_fold) blast

lemma btraverse_Some:
  "btraverse f ks = Ok m \<Longrightarrow> bget m k = Some v \<Longrightarrow> k \<in> set ks \<and> f k = Ok v"
  unfolding btraverse_def by (drule btraverse_fold) (metis bget_empty option.distinct(1) option.inject)

lemma btraverse_has: "btraverse f ks = Ok m \<Longrightarrow> bhas m k \<longleftrightarrow> k \<in> set ks"
  using btraverse_get [of f ks m k] btraverse_Some [of f ks m k] by (auto simp: bhas_def)

lemma btraverse_no_Panic: "(\<And>k. k \<in> set ks \<Longrightarrow> f k \<noteq> Panic) \<Longrightarrow> btraverse f ks \<noteq> Panic"
  unfolding btraverse_def
  by (rule try_fold_no_Panic [where P = "\<lambda>_. True"]) (auto simp: and_then_Panic)

text \<open>
  The loop \<open>for value in map.values_mut() { *value = f(value)?; }\<close>.
\<close>

definition btry_vmap ::
  "('k::linorder \<Rightarrow> 'v \<Rightarrow> ('w, 'e) outcome) \<Rightarrow> ('k, 'v) bmap \<Rightarrow> (('k, 'w) bmap, 'e) outcome" where
  "btry_vmap f m = btraverse (\<lambda>k. case bget m k of None \<Rightarrow> Panic | Some v \<Rightarrow> f k v) (bkeys m)"

lemma btry_vmap_Ok:
  assumes "btry_vmap f m = Ok m'"
  shows "bhas m' k = bhas m k"
    and "bget m k = Some v \<Longrightarrow> \<exists>w. f k v = Ok w \<and> bget m' k = Some w"
    and "bget m' k = Some w \<Longrightarrow> \<exists>v. bget m k = Some v \<and> f k v = Ok w"
proof -
  show "bhas m' k = bhas m k"
    using assms unfolding btry_vmap_def by (simp add: btraverse_has set_bkeys)
  show "\<exists>w. f k v = Ok w \<and> bget m' k = Some w" if v: "bget m k = Some v"
  proof -
    have "k \<in> set (bkeys m)" using v by (simp add: set_bkeys bget_has)
    from btraverse_get [OF assms [unfolded btry_vmap_def] this] v show ?thesis by simp
  qed
  show "\<exists>v. bget m k = Some v \<and> f k v = Ok w" if "bget m' k = Some w"
    using btraverse_Some [OF assms [unfolded btry_vmap_def] that] by (auto split: option.splits)
qed

lemma btry_vmap_no_Panic: "(\<And>k v. bget m k = Some v \<Longrightarrow> f k v \<noteq> Panic) \<Longrightarrow> btry_vmap f m \<noteq> Panic"
  unfolding btry_vmap_def
  by (rule btraverse_no_Panic) (auto simp: set_bkeys bhas_def split: option.splits)

lemma keys_eq: "(\<And>k. bhas m k = bhas m' k) \<Longrightarrow> bkeys m = bkeys m'"
  by (rule sorted_distinct_set_unique) (auto simp: bkeys_props set_bkeys)

lemma map_bvals: "map f (bvals m) = map (\<lambda>k. f (the (bget m k))) (bkeys m)"
  by (auto simp: bvals_def bkeys_def bentries_iff)

lemma set_bset: "set (bkeys (bset_of ks)) = set ks"
  by (auto simp: set_bkeys)

end
