(* ===== verification/Decimal_Arith.thy ===== *)
theory Decimal_Arith
  imports Rust_Base
begin

text \<open>
  Decimal values. \<open>rust_decimal::Decimal\<close> is a third-party type: a value is its rational number,
  comparison, negation, \<open>abs\<close>, \<open>min\<close>, \<open>max\<close>, \<open>floor\<close> and \<open>ceil\<close> are exact, and the four rounding
  operations are a parameter \<open>A\<close> of every definition that uses them. What the development relies
  on, where it relies on anything, is \<open>faithful_arith\<close>: an operation that returns a value returns a
  representable one and never crosses a representable number by rounding (so it is exact whenever
  the exact result is representable). \<open>exact_arith\<close> describes an execution in which no rounding
  happens (division by zero has no result). Both hold of the concrete \<open>exact_ops\<close>, which the witnesses use.

  Decimal distinguishes a negative zero, which its comparisons identify with zero; the model has a
  single zero.
\<close>

record decimal_ops =
  d_add :: "rat \<Rightarrow> rat \<Rightarrow> rat option"
  d_sub :: "rat \<Rightarrow> rat \<Rightarrow> rat option"
  d_mul :: "rat \<Rightarrow> rat \<Rightarrow> rat option"
  d_div :: "rat \<Rightarrow> rat \<Rightarrow> rat option"

section \<open>Representable values\<close>

definition is_integer :: "rat \<Rightarrow> bool" where
  "is_integer x = (of_int \<lfloor>x\<rfloor> = x)"

text \<open>A mantissa below \<open>2^96\<close> and a scale of at most 28 decimal digits.\<close>

definition representable :: "rat \<Rightarrow> bool" where
  "representable x = list_ex (\<lambda>s. is_integer (x * 10 ^ s) \<and> \<bar>x * 10 ^ s\<bar> < 2 ^ 96) [0..<29]"

lemma representable_int: "\<bar>n\<bar> < 2 ^ 96 \<Longrightarrow> representable (of_int n)"
proof -
  assume *: "\<bar>n\<bar> < 2 ^ 96"
  have "\<bar>of_int n :: rat\<bar> = of_int \<bar>n\<bar>" by simp
  also have "\<dots> < of_int (2 ^ 96)" using * by (simp only: of_int_less_iff)
  finally have lt: "\<bar>of_int n :: rat\<bar> < 2 ^ 96" by simp
  have "is_integer (of_int n * 10 ^ 0) \<and> \<bar>of_int n * 10 ^ 0 :: rat\<bar> < 2 ^ 96"
    using lt by (simp add: is_integer_def)
  moreover have "(0::nat) \<in> set [0..<29]" by simp
  ultimately show ?thesis
    unfolding representable_def list_ex_iff by blast
qed

lemma representable_0 [simp]: "representable 0"
  using representable_int [of 0] by simp

lemma representable_1 [simp]: "representable 1"
  using representable_int [of 1] by simp

lemma is_integer_minus: "is_integer x \<Longrightarrow> is_integer (- x)"
  unfolding is_integer_def by (metis floor_of_int of_int_minus)

lemma representable_minus: "representable (- x) = representable x"
proof -
  have "representable x \<Longrightarrow> representable (- x)" for x
    unfolding representable_def list_ex_iff by (auto dest: is_integer_minus)
  from this [of x] this [of "- x"] show ?thesis by auto
qed

lemma representable_abs: "representable x \<Longrightarrow> representable \<bar>x\<bar>"
  by (simp add: abs_if representable_minus)

section \<open>What the library promises\<close>

definition faithful :: "(rat \<Rightarrow> rat \<Rightarrow> rat) \<Rightarrow> (rat \<Rightarrow> rat \<Rightarrow> rat option) \<Rightarrow> bool" where
  "faithful exact op = (\<forall>x y z. op x y = Some z \<longrightarrow> representable z
     \<and> (\<forall>r. representable r \<longrightarrow> (exact x y \<le> r \<longrightarrow> z \<le> r) \<and> (r \<le> exact x y \<longrightarrow> r \<le> z)))"

definition faithful_arith :: "decimal_ops \<Rightarrow> bool" where
  "faithful_arith A = (faithful (+) (d_add A) \<and> faithful (-) (d_sub A)
     \<and> faithful (*) (d_mul A) \<and> faithful (/) (d_div A))"

definition exact_op :: "(rat \<Rightarrow> rat \<Rightarrow> rat) \<Rightarrow> (rat \<Rightarrow> rat \<Rightarrow> rat option) \<Rightarrow> bool" where
  "exact_op exact op = (\<forall>x y z. op x y = Some z \<longrightarrow> z = exact x y)"

definition exact_arith :: "decimal_ops \<Rightarrow> bool" where
  "exact_arith A = (exact_op (+) (d_add A) \<and> exact_op (-) (d_sub A)
     \<and> exact_op (*) (d_mul A) \<and> exact_op (/) (d_div A) \<and> (\<forall>x. d_div A x 0 = None))"

lemma faithful_exact:
  "faithful exact op \<Longrightarrow> op x y = Some z \<Longrightarrow> representable (exact x y) \<Longrightarrow> z = exact x y"
  unfolding faithful_def by (meson antisym order_refl)

lemma faithful_le:
  "faithful exact op \<Longrightarrow> op x y = Some z \<Longrightarrow> representable r \<Longrightarrow> exact x y \<le> r \<Longrightarrow> z \<le> r"
  by (simp add: faithful_def)

lemma faithful_ge:
  "faithful exact op \<Longrightarrow> op x y = Some z \<Longrightarrow> representable r \<Longrightarrow> r \<le> exact x y \<Longrightarrow> r \<le> z"
  by (simp add: faithful_def)

lemma faithful_representable: "faithful exact op \<Longrightarrow> op x y = Some z \<Longrightarrow> representable z"
  by (simp add: faithful_def)

lemma faithful_arithD:
  assumes "faithful_arith A"
  shows "faithful (+) (d_add A)" "faithful (-) (d_sub A)" "faithful (*) (d_mul A)"
    "faithful (/) (d_div A)"
  using assms by (simp_all add: faithful_arith_def)

lemma exact_arithD:
  assumes "exact_arith A"
  shows "d_add A x y = Some z \<Longrightarrow> z = x + y" "d_sub A x y = Some z \<Longrightarrow> z = x - y"
    "d_mul A x y = Some z \<Longrightarrow> z = x * y" "d_div A x y = Some z \<Longrightarrow> z = x / y"
  using assms by (auto simp: exact_arith_def exact_op_def)

lemma exact_div_nonzero: "exact_arith A \<Longrightarrow> d_div A x y = Some z \<Longrightarrow> y \<noteq> 0"
  by (auto simp: exact_arith_def)

text \<open>The sign of a result.\<close>

lemma mul_nonneg: "faithful_arith A \<Longrightarrow> d_mul A x y = Some z \<Longrightarrow> 0 \<le> x \<Longrightarrow> 0 \<le> y \<Longrightarrow> 0 \<le> z"
  by (rule faithful_ge [of "(*)" "d_mul A"]) (auto dest: faithful_arithD)

lemma div_nonneg: "faithful_arith A \<Longrightarrow> d_div A x y = Some z \<Longrightarrow> 0 \<le> x \<Longrightarrow> 0 \<le> y \<Longrightarrow> 0 \<le> z"
  by (rule faithful_ge [of "(/)" "d_div A"]) (auto dest: faithful_arithD)

lemma add_nonneg: "faithful_arith A \<Longrightarrow> d_add A x y = Some z \<Longrightarrow> 0 \<le> x \<Longrightarrow> 0 \<le> y \<Longrightarrow> 0 \<le> z"
  by (rule faithful_ge [of "(+)" "d_add A"]) (auto dest: faithful_arithD)

lemma add_nonpos: "faithful_arith A \<Longrightarrow> d_add A x y = Some z \<Longrightarrow> x \<le> 0 \<Longrightarrow> y \<le> 0 \<Longrightarrow> z \<le> 0"
  by (rule faithful_le [of "(+)" "d_add A"]) (auto dest: faithful_arithD)

lemma add_zero: "faithful_arith A \<Longrightarrow> d_add A x 0 = Some z \<Longrightarrow> representable x \<Longrightarrow> z = x"
  using faithful_exact [of "(+)" "d_add A" x 0 z] by (simp add: faithful_arithD)

section \<open>Operators\<close>

text \<open>The operators \<open>+ - * /\<close> panic where the checked form returns \<open>None\<close>.\<close>

definition dec_add :: "decimal_ops \<Rightarrow> rat \<Rightarrow> rat \<Rightarrow> (rat, 'e) outcome" where
  "dec_add A x y = or_panic (d_add A x y)"

definition dec_sub :: "decimal_ops \<Rightarrow> rat \<Rightarrow> rat \<Rightarrow> (rat, 'e) outcome" where
  "dec_sub A x y = or_panic (d_sub A x y)"

definition dec_mul :: "decimal_ops \<Rightarrow> rat \<Rightarrow> rat \<Rightarrow> (rat, 'e) outcome" where
  "dec_mul A x y = or_panic (d_mul A x y)"

definition dec_div :: "decimal_ops \<Rightarrow> rat \<Rightarrow> rat \<Rightarrow> (rat, 'e) outcome" where
  "dec_div A x y = or_panic (d_div A x y)"

lemmas dec_ops_def = dec_add_def dec_sub_def dec_mul_def dec_div_def

definition signum :: "rat \<Rightarrow> int" where
  "signum d = (if d < 0 then -1 else if d = 0 then 0 else 1)"

text \<open>\<open>Ord::clamp\<close> panics when the bounds are out of order.\<close>

definition clamp :: "rat \<Rightarrow> rat \<Rightarrow> rat \<Rightarrow> (rat, 'e) outcome" where
  "clamp x lo hi = (if hi < lo then Panic else Ok (if x < lo then lo else if hi < x then hi else x))"

lemma clamp_Ok: "clamp x lo hi = Ok y \<longleftrightarrow> lo \<le> hi \<and> y = min (max x lo) hi"
  by (auto simp: clamp_def min_def max_def)

lemma clamp_bounds: "clamp x lo hi = Ok y \<Longrightarrow> lo \<le> y \<and> y \<le> hi"
  by (auto simp: clamp_def split: if_splits)

lemma clamp_Panic: "clamp x lo hi = Panic \<longleftrightarrow> hi < lo"
  by (simp add: clamp_def)

text \<open>Where the scale of a value matters it is a mantissa with its scale.\<close>

datatype scaled = Scaled (mantissa: int) (scale: nat)

definition scaled_value :: "scaled \<Rightarrow> rat" where
  "scaled_value d = of_int (mantissa d) / 10 ^ scale d"

section \<open>A concrete arithmetic\<close>

definition when_representable :: "rat \<Rightarrow> rat option" where
  "when_representable z = (if representable z then Some z else None)"

definition exact_ops :: decimal_ops where
  "exact_ops = \<lparr>d_add = (\<lambda>x y. when_representable (x + y)),
     d_sub = (\<lambda>x y. when_representable (x - y)),
     d_mul = (\<lambda>x y. when_representable (x * y)),
     d_div = (\<lambda>x y. if y = 0 then None else when_representable (x / y))\<rparr>"

lemma when_representable_Some: "when_representable x = Some z \<longleftrightarrow> z = x \<and> representable x"
  by (auto simp: when_representable_def)

lemma exact_ops_exact: "exact_arith exact_ops"
  by (auto simp: exact_arith_def exact_op_def exact_ops_def when_representable_Some split: if_splits)

lemma exact_ops_faithful: "faithful_arith exact_ops"
  by (auto simp: faithful_arith_def faithful_def exact_ops_def when_representable_Some split: if_splits)

lemma exact_ops_eval:
  "representable (x + y) \<Longrightarrow> d_add exact_ops x y = Some (x + y)"
  "representable (x - y) \<Longrightarrow> d_sub exact_ops x y = Some (x - y)"
  "representable (x * y) \<Longrightarrow> d_mul exact_ops x y = Some (x * y)"
  "y \<noteq> 0 \<Longrightarrow> representable (x / y) \<Longrightarrow> d_div exact_ops x y = Some (x / y)"
  by (simp_all add: exact_ops_def when_representable_def)

lemma representable_numeral [simp]:
  "(numeral n :: int) < 2 ^ 96 \<Longrightarrow> representable (numeral n)"
  "(numeral n :: int) < 2 ^ 96 \<Longrightarrow> representable (- numeral n)"
  using representable_int [of "numeral n"] by (simp_all add: representable_minus)

end
