(* ===== verification/Portfolio_Risk.thy ===== *)
theory Portfolio_Risk
  imports BTree Decimal_Arith
begin

text \<open>
  The portfolio projection (\<open>copytrade-core/src/portfolio_risk.rs\<close>): targets are clamped and
  scaled to the caps, turned into rounded order deltas, and the worst case of every asset and of
  the whole portfolio is validated before anything is proposed.
\<close>

section \<open>Data\<close>

type_synonym asset = string

datatype order_side = Buy | Sell

datatype open_order_lifecycle =
  Acknowledged | CancelRequested | CancelConfirmed | SubmissionUnknown | Unknown

record open_order_exposure =
  oo_asset :: asset
  oo_side :: "order_side option"
  oo_notional :: "rat option"
  oo_lifecycle :: open_order_lifecycle

record market_rules =
  mark_price :: rat
  price_tick :: rat
  size_step :: rat

record exposure_range =
  minimum :: rat
  maximum :: rat

record portfolio_projection_input =
  current_equity :: rat
  curve_leverage :: rat
  global_risk_scale :: rat
  max_single_asset_equity_pct :: rat
  max_net_equity_pct :: rat
  filled_positions :: "(asset, rat) bmap"
  filled_position_state_complete :: bool
  acknowledged_open_orders :: "open_order_exposure list"
  open_order_state_complete :: bool
  unconstrained_targets :: "(asset, rat) bmap"
  rules_of :: "(asset, market_rules) bmap"

record portfolio_projection =
  constrained_targets :: "(asset, rat) bmap"
  proposed_deltas :: "(asset, rat) bmap"
  rounded_deltas :: "(asset, rat) bmap"
  exposure_ranges :: "(asset, exposure_range) bmap"
  maximum_projected_gross :: rat
  minimum_projected_net :: rat
  maximum_projected_net :: rat

datatype risk_violation =
    InvalidInput string
  | MissingMarketRules asset
  | IncompleteFilledPositionState
  | IncompleteOpenOrderState
  | UnknownOpenOrderState asset
  | ArithmeticOverflow string
  | AssetCapExceeded asset
  | GrossCapExceeded rat rat
  | NetCapExceeded
  | ExistingRiskIncreased asset

text \<open>\<open>Decimal::from_f64\<close> is a parameter.\<close>

definition decimal_from_f64 :: "('f \<Rightarrow> rat option) \<Rightarrow> 'f \<Rightarrow> string \<Rightarrow> (rat, risk_violation) outcome" where
  "decimal_from_f64 from_f64 x name =
     ok_or (InvalidInput (name @ '' is not finite or representable'')) (from_f64 x)"

section \<open>Checked arithmetic\<close>

type_synonym 'a risk = "('a, risk_violation) outcome"

definition checked_add :: "decimal_ops \<Rightarrow> rat \<Rightarrow> rat \<Rightarrow> string \<Rightarrow> rat risk" where
  "checked_add A x y what = ok_or (ArithmeticOverflow what) (d_add A x y)"

definition checked_sub :: "decimal_ops \<Rightarrow> rat \<Rightarrow> rat \<Rightarrow> string \<Rightarrow> rat risk" where
  "checked_sub A x y what = ok_or (ArithmeticOverflow what) (d_sub A x y)"

definition checked_mul :: "decimal_ops \<Rightarrow> rat \<Rightarrow> rat \<Rightarrow> string \<Rightarrow> rat risk" where
  "checked_mul A x y what = ok_or (ArithmeticOverflow what) (d_mul A x y)"

definition checked_div :: "decimal_ops \<Rightarrow> rat \<Rightarrow> rat \<Rightarrow> string \<Rightarrow> rat risk" where
  "checked_div A x y what = ok_or (ArithmeticOverflow what) (d_div A x y)"

definition sum_checked :: "decimal_ops \<Rightarrow> rat list \<Rightarrow> string \<Rightarrow> rat risk" where
  "sum_checked A xs what = try_fold (\<lambda>total x. checked_add A total x what) 0 xs"

text \<open>\<open>range.minimum.abs().max(range.maximum.abs())\<close>, and the same of a net range.\<close>

definition worst :: "rat \<Rightarrow> rat \<Rightarrow> rat" where
  "worst lo hi = max \<bar>lo\<bar> \<bar>hi\<bar>"

definition magnitude :: "exposure_range \<Rightarrow> rat" where
  "magnitude r = worst (minimum r) (maximum r)"

section \<open>Input validation\<close>

definition min_launch_risk_scale :: rat where "min_launch_risk_scale = 25 / 1000"
definition max_launch_risk_scale :: rat where "max_launch_risk_scale = 10 / 100"

definition portfolio_assets :: "portfolio_projection_input \<Rightarrow> asset list" where
  "portfolio_assets inp = bkeys (bset_of
     (bkeys (filled_positions inp) @ bkeys (unconstrained_targets inp)
      @ map oo_asset (filter (\<lambda>ord. oo_lifecycle ord \<noteq> CancelConfirmed) (acknowledged_open_orders inp))))"

definition validate_rules :: "portfolio_projection_input \<Rightarrow> asset \<Rightarrow> unit risk" where
  "validate_rules inp a = and_then (ok_or (MissingMarketRules a) (bget (rules_of inp) a)) (\<lambda>rules.
     fail_if (mark_price rules \<le> 0 \<or> price_tick rules \<le> 0 \<or> size_step rules \<le> 0)
       (InvalidInput (''invalid market rules for '' @ a)))"

definition validate_input :: "portfolio_projection_input \<Rightarrow> unit risk" where
  "validate_input inp =
    and_then (fail_if (current_equity inp \<le> 0) (InvalidInput ''current_equity must be positive'')) (\<lambda>_.
    and_then (fail_if (curve_leverage inp \<le> 0) (InvalidInput ''curve_leverage must be positive'')) (\<lambda>_.
    and_then (fail_if (\<not> (min_launch_risk_scale \<le> global_risk_scale inp
                          \<and> global_risk_scale inp \<le> max_launch_risk_scale))
       (InvalidInput ''global_risk_scale is outside the approved launch range'')) (\<lambda>_.
    and_then (fail_if (\<not> (0 \<le> max_single_asset_equity_pct inp \<and> max_single_asset_equity_pct inp \<le> 1))
       (InvalidInput ''max_single_asset_equity_pct must be within [0, 1]'')) (\<lambda>_.
    and_then (fail_if (\<not> (0 \<le> max_net_equity_pct inp \<and> max_net_equity_pct inp \<le> 1))
       (InvalidInput ''max_net_equity_pct must be within [0, 1]'')) (\<lambda>_.
    and_then (fail_if (\<not> filled_position_state_complete inp) IncompleteFilledPositionState) (\<lambda>_.
    and_then (fail_if (\<not> open_order_state_complete inp) IncompleteOpenOrderState) (\<lambda>_.
    check_all (validate_rules inp) (portfolio_assets inp))))))))"

section \<open>Open orders\<close>

definition add_open_order ::
  "decimal_ops \<Rightarrow> (asset, rat \<times> rat) bmap \<Rightarrow> open_order_exposure \<Rightarrow> (asset, rat \<times> rat) bmap risk" where
  "add_open_order A exposure order =
    (if oo_lifecycle order = CancelConfirmed then Ok exposure
     else if oo_lifecycle order = Unknown then Err (UnknownOpenOrderState (oo_asset order))
     else
      and_then (ok_or (UnknownOpenOrderState (oo_asset order)) (oo_side order)) (\<lambda>side.
      and_then (ok_or (UnknownOpenOrderState (oo_asset order)) (oo_notional order)) (\<lambda>notional.
      and_then (fail_if (notional < 0)
        (InvalidInput (''open-order notional must be non-negative for '' @ oo_asset order))) (\<lambda>_.
      let entry = bget_or (0, 0) exposure (oo_asset order) in
      case side of
        Buy \<Rightarrow> and_then (checked_add A (fst entry) notional ''open buys'') (\<lambda>buys.
          Ok (binsert (oo_asset order) (buys, snd entry) exposure))
      | Sell \<Rightarrow> and_then (checked_add A (snd entry) notional ''open sells'') (\<lambda>sells.
          Ok (binsert (oo_asset order) (fst entry, sells) exposure))))))"

definition active_open_exposure ::
  "decimal_ops \<Rightarrow> portfolio_projection_input \<Rightarrow> (asset, rat \<times> rat) bmap risk" where
  "active_open_exposure A inp = try_fold (add_open_order A) bempty (acknowledged_open_orders inp)"

section \<open>Targets\<close>

definition trim_gross_residual ::
  "decimal_ops \<Rightarrow> (asset, rat) bmap \<Rightarrow> rat \<Rightarrow> (asset, rat) bmap risk" where
  "trim_gross_residual A targets gross_cap =
    and_then (sum_checked A (map abs (bvals targets)) ''scaled target gross'') (\<lambda>scaled_gross.
    if scaled_gross \<le> gross_cap then Ok targets else
    and_then (checked_sub A scaled_gross gross_cap ''gross scaling residual'') (\<lambda>residual.
    and_then (ok_or (ArithmeticOverflow ''gross residual target'')
      (max_by (\<lambda>l r. then_with (cmp \<bar>snd l\<bar> \<bar>snd r\<bar>) (cmp (fst r) (fst l)))
        (filter (\<lambda>e. snd e \<noteq> 0) (entries targets)))) (\<lambda>(a, target).
    and_then (fail_if (\<bar>target\<bar> < residual) (ArithmeticOverflow ''gross residual exceeds target'')) (\<lambda>_.
    and_then (if 0 \<le> target then checked_sub A target residual ''positive gross residual''
              else checked_add A target residual ''negative gross residual'') (\<lambda>trimmed.
    Ok (binsert a trimmed targets))))))"

definition scale_targets_to_gross_cap ::
  "decimal_ops \<Rightarrow> (asset, rat) bmap \<Rightarrow> rat \<Rightarrow> (asset, rat) bmap risk" where
  "scale_targets_to_gross_cap A targets gross_cap =
    and_then (sum_checked A (map abs (bvals targets)) ''target gross'') (\<lambda>gross.
    if gross \<le> gross_cap \<or> gross = 0 then Ok targets else
    and_then (checked_div A gross_cap gross ''gross scaling'') (\<lambda>scale.
    and_then (btry_vmap (\<lambda>_ t. checked_mul A t scale ''scaled target'') targets) (\<lambda>scaled.
    trim_gross_residual A scaled gross_cap)))"

definition enforce_target_net_cap ::
  "decimal_ops \<Rightarrow> (asset, rat) bmap \<Rightarrow> rat \<Rightarrow> (asset, rat) bmap risk" where
  "enforce_target_net_cap A targets net_cap =
    and_then (sum_checked A (filter (\<lambda>x. 0 < x) (bvals targets)) ''positive targets'') (\<lambda>positive.
    and_then (sum_checked A (map abs (filter (\<lambda>x. x < 0) (bvals targets))) ''negative targets'') (\<lambda>negative.
    and_then (checked_sub A positive negative ''target net'') (\<lambda>net.
    if net > net_cap \<and> positive \<noteq> 0 then
      and_then (checked_add A negative net_cap ''allowed positive target'') (\<lambda>allowed.
      and_then (checked_div A allowed positive ''positive net scaling'') (\<lambda>scale.
      btry_vmap (\<lambda>_ t. if 0 < t then checked_mul A t scale ''net-scaled positive target'' else Ok t) targets))
    else if net < - net_cap \<and> negative \<noteq> 0 then
      and_then (checked_add A positive net_cap ''allowed negative target'') (\<lambda>allowed.
      and_then (checked_div A allowed negative ''negative net scaling'') (\<lambda>scale.
      btry_vmap (\<lambda>_ t. if t < 0 then checked_mul A t scale ''net-scaled negative target'' else Ok t) targets))
    else Ok targets)))"

section \<open>Rounding\<close>

definition round_down_to_step :: "decimal_ops \<Rightarrow> rat \<Rightarrow> rat \<Rightarrow> rat risk" where
  "round_down_to_step A x step =
    and_then (checked_div A x step ''round-down units'') (\<lambda>units.
    checked_mul A (of_int \<lfloor>units\<rfloor>) step ''round-down result'')"

definition round_up_to_step :: "decimal_ops \<Rightarrow> rat \<Rightarrow> rat \<Rightarrow> rat risk" where
  "round_up_to_step A x step =
    and_then (checked_div A x step ''round-up units'') (\<lambda>units.
    checked_mul A (of_int \<lceil>units\<rceil>) step ''round-up result'')"

definition round_delta :: "decimal_ops \<Rightarrow> rat \<Rightarrow> market_rules \<Rightarrow> rat risk" where
  "round_delta A delta rules =
    (if delta = 0 then Ok 0 else
     and_then (if 0 < delta then round_up_to_step A (mark_price rules) (price_tick rules)
               else round_down_to_step A (mark_price rules) (price_tick rules)) (\<lambda>rounded_price.
     and_then (checked_div A \<bar>delta\<bar> rounded_price ''unrounded quantity'') (\<lambda>quantity.
     and_then (round_down_to_step A quantity (size_step rules)) (\<lambda>rounded_quantity.
     and_then (checked_mul A rounded_quantity rounded_price ''rounded notional'') (\<lambda>notional.
     Ok (if 0 < delta then notional else - notional))))))"

section \<open>Worst-case ranges\<close>

definition projected_range ::
  "decimal_ops \<Rightarrow> portfolio_projection_input \<Rightarrow> (asset, rat \<times> rat) bmap \<Rightarrow> (asset, rat) bmap
     \<Rightarrow> asset \<Rightarrow> exposure_range risk" where
  "projected_range A inp opens deltas a =
    (let filled = bget_or 0 (filled_positions inp) a;
         entry = bget_or (0, 0) opens a;
         delta = bget_or 0 deltas a;
         proposed_buy = max delta 0;
         proposed_sell = max (- delta) 0 in
     and_then (checked_sub A filled (snd entry) ''range minimum open sells'') (\<lambda>lo.
     and_then (checked_sub A lo proposed_sell ''range minimum proposed sells'') (\<lambda>lo'.
     and_then (checked_add A filled (fst entry) ''range maximum open buys'') (\<lambda>hi.
     and_then (checked_add A hi proposed_buy ''range maximum proposed buys'') (\<lambda>hi'.
     Ok \<lparr>minimum = lo', maximum = hi'\<rparr>)))))"

definition projected_ranges ::
  "decimal_ops \<Rightarrow> portfolio_projection_input \<Rightarrow> asset list \<Rightarrow> (asset, rat \<times> rat) bmap
     \<Rightarrow> (asset, rat) bmap \<Rightarrow> (asset, exposure_range) bmap risk" where
  "projected_ranges A inp assets opens deltas = btraverse (projected_range A inp opens deltas) assets"

definition range_metrics ::
  "decimal_ops \<Rightarrow> (asset, exposure_range) bmap \<Rightarrow> (rat \<times> rat \<times> rat) risk" where
  "range_metrics A ranges =
    and_then (sum_checked A (map magnitude (bvals ranges)) ''projected gross'') (\<lambda>gross.
    and_then (sum_checked A (map minimum (bvals ranges)) ''minimum net'') (\<lambda>minimum_net.
    and_then (sum_checked A (map maximum (bvals ranges)) ''maximum net'') (\<lambda>maximum_net.
    Ok (gross, minimum_net, maximum_net))))"

section \<open>Staging risk-reducing deltas\<close>

definition stage_delta ::
  "decimal_ops \<Rightarrow> portfolio_projection_input \<Rightarrow> asset list \<Rightarrow> (asset, rat \<times> rat) bmap
     \<Rightarrow> (asset, exposure_range) bmap \<Rightarrow> (asset, rat) bmap \<Rightarrow> asset \<Rightarrow> rat risk" where
  "stage_delta A inp assets opens baseline deltas a =
    (let delta = bget_or 0 deltas a in
     if delta = 0 then Ok 0 else
     and_then (projected_ranges A inp assets opens (binsert a delta bempty)) (\<lambda>with_delta.
     and_then (or_panic (bget baseline a)) (\<lambda>b.
     and_then (or_panic (bget with_delta a)) (\<lambda>w.
     Ok (if magnitude w \<le> magnitude b then delta else 0)))))"

definition offending_negative :: "rat \<Rightarrow> rat \<Rightarrow> bool" where
  "offending_negative lo hi = (\<bar>hi\<bar> \<le> \<bar>lo\<bar> \<and> lo < 0)"

definition pick_removal :: "bool \<Rightarrow> (asset, rat) bmap \<Rightarrow> asset option" where
  "pick_removal negative staged = map_option fst
     (min_by (\<lambda>l r. then_with (cmp \<bar>snd l\<bar> \<bar>snd r\<bar>) (cmp (fst l) (fst r)))
       (filter (\<lambda>e. if negative then snd e < 0 else 0 < snd e) (entries staged)))"

definition nonzero_count :: "(asset, rat) bmap \<Rightarrow> nat" where
  "nonzero_count m = bsize (bfilter (\<lambda>_ d. d \<noteq> 0) m)"

lemma pick_removal_nonzero:
  "pick_removal negative staged = Some a \<Longrightarrow> \<exists>d. bget staged a = Some d \<and> d \<noteq> 0"
  unfolding pick_removal_def
  by (auto dest!: min_by_in simp: bentries_iff split: if_splits)

lemma nonzero_count_zero:
  assumes "bget m a = Some d" and "d \<noteq> 0"
  shows "nonzero_count (binsert a 0 m) < nonzero_count m"
proof -
  have "bfilter (\<lambda>_ d. d \<noteq> 0) (binsert a 0 m) = bremove a (bfilter (\<lambda>_ d. d \<noteq> 0) m)"
    by (intro bmap_eqI) (auto split: option.splits)
  moreover have "bhas (bfilter (\<lambda>_ d. d \<noteq> 0) m) a" using assms by (simp add: bhas_def)
  moreover from this have "0 < bsize (bfilter (\<lambda>_ d. d \<noteq> 0) m)"
    by (metis bhas_simps(1) bsize_0 gr0I)
  ultimately show ?thesis by (simp add: nonzero_count_def bsize_remove)
qed

function prune_worsening ::
  "decimal_ops \<Rightarrow> portfolio_projection_input \<Rightarrow> asset list \<Rightarrow> (asset, rat \<times> rat) bmap \<Rightarrow> rat
     \<Rightarrow> (asset, rat) bmap \<Rightarrow> (asset, rat) bmap risk" where
  "prune_worsening A inp assets opens baseline_worst_net staged =
    and_then (projected_ranges A inp assets opens staged) (\<lambda>ranges.
    and_then (range_metrics A ranges) (\<lambda>m.
    if worst (fst (snd m)) (snd (snd m)) \<le> baseline_worst_net then Ok staged else
    (case pick_removal (offending_negative (fst (snd m)) (snd (snd m))) staged of
       None \<Rightarrow> Err (ArithmeticOverflow ''net-worsening staged reduction'')
     | Some a \<Rightarrow> prune_worsening A inp assets opens baseline_worst_net (binsert a 0 staged))))"
  by pat_completeness auto
termination
  by (relation "measure (\<lambda>(A, inp, assets, opens, base, staged). nonzero_count staged)")
     (auto dest!: pick_removal_nonzero intro: nonzero_count_zero)

declare prune_worsening.simps [simp del]

definition stage_risk_reducing_deltas ::
  "decimal_ops \<Rightarrow> portfolio_projection_input \<Rightarrow> asset list \<Rightarrow> (asset, rat \<times> rat) bmap
     \<Rightarrow> (asset, rat) bmap \<Rightarrow> (asset, rat) bmap risk" where
  "stage_risk_reducing_deltas A inp assets opens deltas =
    and_then (projected_ranges A inp assets opens bempty) (\<lambda>baseline.
    and_then (btraverse (stage_delta A inp assets opens baseline deltas) assets) (\<lambda>staged.
    if list_ex (\<lambda>d. d \<noteq> 0) (bvals staged) then
      and_then (range_metrics A baseline) (\<lambda>m.
      prune_worsening A inp assets opens (worst (fst (snd m)) (snd (snd m))) staged)
    else Ok staged))"

section \<open>Final validation\<close>

definition filled_ranges :: "portfolio_projection_input \<Rightarrow> (asset, exposure_range) bmap" where
  "filled_ranges inp = bvmap (\<lambda>_ filled. \<lparr>minimum = filled, maximum = filled\<rparr>) (filled_positions inp)"

definition filled_violation ::
  "portfolio_projection_input \<Rightarrow> rat \<Rightarrow> rat \<Rightarrow> rat \<Rightarrow> rat \<times> rat \<times> rat \<Rightarrow> bool" where
  "filled_violation inp asset_cap gross_cap net_cap m =
    (list_ex (\<lambda>r. asset_cap < magnitude r) (bvals (filled_ranges inp))
     \<or> gross_cap < fst m \<or> net_cap < worst (fst (snd m)) (snd (snd m)))"

definition check_recovery_delta ::
  "portfolio_projection_input \<Rightarrow> (asset, exposure_range) bmap \<Rightarrow> (asset, exposure_range) bmap
     \<Rightarrow> asset \<times> rat \<Rightarrow> unit risk" where
  "check_recovery_delta inp ranges baseline e =
    (let a = fst e; delta = snd e; filled = bget_or 0 (filled_positions inp) a in
     if delta = 0 then Ok ()
     else if filled = 0 \<or> signum delta = signum filled \<or> \<bar>filled\<bar> < \<bar>delta\<bar>
       then Err (ExistingRiskIncreased a)
     else and_then (or_panic (bget ranges a)) (\<lambda>r.
          and_then (or_panic (bget baseline a)) (\<lambda>b.
          fail_if (magnitude b < magnitude r) (ExistingRiskIncreased a))))"

definition validate_final_ranges ::
  "decimal_ops \<Rightarrow> portfolio_projection_input \<Rightarrow> (asset, exposure_range) bmap \<Rightarrow> (asset, rat) bmap
     \<Rightarrow> rat \<Rightarrow> rat \<Rightarrow> rat \<Rightarrow> rat \<times> rat \<times> rat \<Rightarrow> (asset, rat \<times> rat) bmap \<Rightarrow> unit risk" where
  "validate_final_ranges A inp ranges deltas asset_cap gross_cap net_cap m opens =
    and_then (range_metrics A (filled_ranges inp)) (\<lambda>fm.
    if \<not> filled_violation inp asset_cap gross_cap net_cap fm then
      (case List.find (\<lambda>e. asset_cap < magnitude (snd e)) (entries ranges) of
         Some e \<Rightarrow> Err (AssetCapExceeded (fst e))
       | None \<Rightarrow>
         and_then (fail_if (gross_cap < fst m) (GrossCapExceeded (fst m) gross_cap)) (\<lambda>_.
         fail_if (net_cap < worst (fst (snd m)) (snd (snd m))) NetCapExceeded))
    else
      and_then (projected_ranges A inp (portfolio_assets inp) opens bempty) (\<lambda>baseline.
      and_then (range_metrics A baseline) (\<lambda>bm.
      and_then (check_all (check_recovery_delta inp ranges baseline) (entries deltas)) (\<lambda>_.
      fail_if (fst bm < fst m
          \<or> worst (fst (snd bm)) (snd (snd bm)) < worst (fst (snd m)) (snd (snd m)))
        (GrossCapExceeded (fst m) (fst bm))))))"

section \<open>The projection\<close>

definition portfolio_caps :: "decimal_ops \<Rightarrow> portfolio_projection_input \<Rightarrow> (rat \<times> rat \<times> rat) risk" where
  "portfolio_caps A inp =
    and_then (checked_mul A (current_equity inp) (max_single_asset_equity_pct inp) ''single-asset cap'') (\<lambda>asset_cap.
    and_then (checked_mul A (current_equity inp) (curve_leverage inp) ''leveraged equity'') (\<lambda>leveraged.
    and_then (checked_mul A leveraged (global_risk_scale inp) ''gross cap'') (\<lambda>gross_cap.
    and_then (checked_mul A (current_equity inp) (max_net_equity_pct inp) ''net cap'') (\<lambda>net_cap.
    Ok (asset_cap, gross_cap, net_cap)))))"

definition constrain_targets ::
  "decimal_ops \<Rightarrow> portfolio_projection_input \<Rightarrow> asset list \<Rightarrow> rat \<Rightarrow> rat \<Rightarrow> rat \<Rightarrow> (asset, rat) bmap risk" where
  "constrain_targets A inp assets asset_cap gross_cap net_cap =
    and_then (btraverse (\<lambda>a. clamp (bget_or 0 (unconstrained_targets inp) a) (- asset_cap) asset_cap) assets)
      (\<lambda>clamped.
    and_then (scale_targets_to_gross_cap A clamped gross_cap) (\<lambda>scaled.
    enforce_target_net_cap A scaled net_cap))"

definition propose_delta ::
  "decimal_ops \<Rightarrow> portfolio_projection_input \<Rightarrow> (asset, rat) bmap \<Rightarrow> (asset, rat \<times> rat) bmap
     \<Rightarrow> asset \<Rightarrow> (rat \<times> rat) risk" where
  "propose_delta A inp targets opens a =
    (let filled = bget_or 0 (filled_positions inp) a;
         target = bget_or 0 targets a;
         entry = bget_or (0, 0) opens a in
     and_then (checked_sub A (fst entry) (snd entry) ''signed open exposure'') (\<lambda>signed_open.
     and_then (checked_sub A target filled ''target less filled'') (\<lambda>gap.
     and_then (checked_sub A gap signed_open ''target less open exposure'') (\<lambda>proposed.
     and_then (ok_or (MissingMarketRules a) (bget (rules_of inp) a)) (\<lambda>rules.
     and_then (round_delta A proposed rules) (\<lambda>rounded.
     Ok (proposed, rounded)))))))"

definition transition_breaches ::
  "rat \<Rightarrow> rat \<Rightarrow> rat \<Rightarrow> (asset, exposure_range) bmap \<Rightarrow> rat \<times> rat \<times> rat \<Rightarrow> bool" where
  "transition_breaches asset_cap gross_cap net_cap ranges m =
    (list_ex (\<lambda>r. asset_cap < magnitude r) (bvals ranges)
     \<or> gross_cap < fst m \<or> net_cap < worst (fst (snd m)) (snd (snd m)))"

definition project_and_validate_portfolio ::
  "decimal_ops \<Rightarrow> portfolio_projection_input \<Rightarrow> portfolio_projection risk" where
  "project_and_validate_portfolio A inp =
    and_then (validate_input inp) (\<lambda>_.
    and_then (portfolio_caps A inp) (\<lambda>(asset_cap, gross_cap, net_cap).
    let assets = portfolio_assets inp in
    and_then (active_open_exposure A inp) (\<lambda>opens.
    and_then (constrain_targets A inp assets asset_cap gross_cap net_cap) (\<lambda>targets.
    and_then (btraverse (propose_delta A inp targets opens) assets) (\<lambda>pairs.
    let proposed = bvmap (\<lambda>_. fst) pairs; rounded = bvmap (\<lambda>_. snd) pairs in
    and_then (projected_ranges A inp assets opens rounded) (\<lambda>ranges.
    and_then (range_metrics A ranges) (\<lambda>m.
    and_then
      (if transition_breaches asset_cap gross_cap net_cap ranges m then
         and_then (stage_risk_reducing_deltas A inp assets opens rounded) (\<lambda>staged.
         and_then (projected_ranges A inp assets opens staged) (\<lambda>ranges'.
         and_then (range_metrics A ranges') (\<lambda>m'.
         Ok (staged, ranges', m'))))
       else Ok (rounded, ranges, m)) (\<lambda>(deltas, ranges', m').
    and_then (validate_final_ranges A inp ranges' deltas asset_cap gross_cap net_cap m' opens) (\<lambda>_.
    Ok \<lparr>constrained_targets = targets, proposed_deltas = proposed, rounded_deltas = deltas,
        exposure_ranges = ranges', maximum_projected_gross = fst m',
        minimum_projected_net = fst (snd m'), maximum_projected_net = snd (snd m')\<rparr>)))))))))"

section \<open>Inversion and absence of panics\<close>

lemmas risk_checked_defs = checked_add_def checked_sub_def checked_mul_def checked_div_def

lemma checked_no_Panic [simp]:
  "checked_add A x y w \<noteq> Panic" "checked_sub A x y w \<noteq> Panic"
  "checked_mul A x y w \<noteq> Panic" "checked_div A x y w \<noteq> Panic"
  by (simp_all add: risk_checked_defs)

lemma sum_checked_no_Panic [simp]: "sum_checked A xs w \<noteq> Panic"
  unfolding sum_checked_def by (rule try_fold_no_Panic [where P = "\<lambda>_. True"]) auto

lemma round_no_Panic [simp]:
  "round_down_to_step A x s \<noteq> Panic" "round_up_to_step A x s \<noteq> Panic" "round_delta A d r \<noteq> Panic"
  by (simp_all add: round_down_to_step_def round_up_to_step_def round_delta_def and_then_Panic)

lemma range_metrics_no_Panic [simp]: "range_metrics A ranges \<noteq> Panic"
  by (simp add: range_metrics_def and_then_Panic)

lemma projected_ranges_no_Panic [simp]: "projected_ranges A inp assets opens deltas \<noteq> Panic"
  unfolding projected_ranges_def
  by (rule btraverse_no_Panic) (simp add: projected_range_def and_then_Panic Let_def)

lemma projected_ranges_has:
  "projected_ranges A inp assets opens deltas = Ok ranges \<Longrightarrow> bhas ranges a \<longleftrightarrow> a \<in> set assets"
  unfolding projected_ranges_def by (rule btraverse_has)

lemma validate_input_no_Panic [simp]: "validate_input inp \<noteq> Panic"
  unfolding validate_input_def
  by (simp add: and_then_Panic validate_rules_def check_all_no_Panic)

lemma active_open_exposure_no_Panic [simp]: "active_open_exposure A inp \<noteq> Panic"
  unfolding active_open_exposure_def
  by (rule try_fold_no_Panic [where P = "\<lambda>_. True"])
     (auto simp: add_open_order_def and_then_Panic Let_def split: order_side.splits)

lemma trim_gross_residual_no_Panic [simp]: "trim_gross_residual A targets cap \<noteq> Panic"
  by (auto simp: trim_gross_residual_def and_then_Panic split: if_splits)

lemma scale_targets_no_Panic [simp]: "scale_targets_to_gross_cap A targets cap \<noteq> Panic"
  by (auto simp: scale_targets_to_gross_cap_def and_then_Panic btry_vmap_no_Panic split: if_splits)

lemma enforce_net_no_Panic [simp]: "enforce_target_net_cap A targets cap \<noteq> Panic"
  by (auto simp: enforce_target_net_cap_def and_then_Panic btry_vmap_no_Panic split: if_splits)

lemma prune_no_Panic: "prune_worsening A inp assets opens base staged \<noteq> Panic"
proof (induction A inp assets opens base staged rule: prune_worsening.induct)
  case (1 A inp assets opens base staged)
  show ?case
    by (subst prune_worsening.simps) (auto simp: and_then_Panic dest: 1 split: option.splits if_splits)
qed

lemma stage_no_Panic [simp]: "stage_risk_reducing_deltas A inp assets opens deltas \<noteq> Panic"
proof -
  have "btraverse (stage_delta A inp assets opens baseline deltas) assets \<noteq> Panic"
    if "projected_ranges A inp assets opens bempty = Ok baseline" for baseline
  proof (rule btraverse_no_Panic)
    fix a assume "a \<in> set assets"
    then have "bhas baseline a" "\<And>d r. projected_ranges A inp assets opens d = Ok r \<Longrightarrow> bhas r a"
      using that by (auto simp: projected_ranges_has)
    then show "stage_delta A inp assets opens baseline deltas a \<noteq> Panic"
      by (auto simp: stage_delta_def Let_def and_then_Panic bhas_def)
  qed
  then show ?thesis
    by (auto simp: stage_risk_reducing_deltas_def and_then_Panic prune_no_Panic split: if_splits)
qed

text \<open>
  What the pruning loop keeps, and what it ends with: an invariant that survives zeroing a nonzero
  delta holds of the result, whose worst net exposure is within the bound.
\<close>

lemma prune_result:
  assumes "prune_worsening A inp assets opens base staged = Ok res" and "P staged"
    and step: "\<And>m a d. P m \<Longrightarrow> bget m a = Some d \<Longrightarrow> d \<noteq> 0 \<Longrightarrow> P (binsert a 0 m)"
  shows "P res \<and> (\<exists>ranges m. projected_ranges A inp assets opens res = Ok ranges
      \<and> range_metrics A ranges = Ok m \<and> worst (fst (snd m)) (snd (snd m)) \<le> base)"
  using assms(1,2)
proof (induction A inp assets opens base staged rule: prune_worsening.induct)
  case (1 A inp assets opens base staged)
  from "1.prems"(1) obtain ranges m where r: "projected_ranges A inp assets opens staged = Ok ranges"
    "range_metrics A ranges = Ok m"
    by (subst (asm) prune_worsening.simps) (auto simp: outcome_simps)
  show ?case
  proof (cases "worst (fst (snd m)) (snd (snd m)) \<le> base")
    case True
    then have "res = staged"
      using "1.prems"(1) r by (subst (asm) prune_worsening.simps) simp
    with True r "1.prems"(2) show ?thesis by blast
  next
    case False
    then obtain a where a: "pick_removal (offending_negative (fst (snd m)) (snd (snd m))) staged = Some a"
      "prune_worsening A inp assets opens base (binsert a 0 staged) = Ok res"
      using "1.prems"(1) r
      by (subst (asm) prune_worsening.simps) (auto split: option.splits)
    from pick_removal_nonzero [OF a(1)] have "P (binsert a 0 staged)"
      using step [OF "1.prems"(2)] by blast
    with "1.IH" [OF r(1) r(2) False a(1) a(2)] show ?thesis by simp
  qed
qed

definition staged_from ::
  "decimal_ops \<Rightarrow> portfolio_projection_input \<Rightarrow> asset list \<Rightarrow> (asset, rat \<times> rat) bmap
     \<Rightarrow> (asset, rat) bmap \<Rightarrow> asset \<Rightarrow> rat \<Rightarrow> bool" where
  "staged_from A inp assets opens deltas a d =
    (d = 0 \<or> d = bget_or 0 deltas a \<and> stage_delta A inp assets opens
       (case projected_ranges A inp assets opens bempty of Ok b \<Rightarrow> b | _ \<Rightarrow> bempty) deltas a = Ok d)"

lemma stage_result:
  assumes "stage_risk_reducing_deltas A inp assets opens deltas = Ok res"
  shows "bhas res a \<longleftrightarrow> a \<in> set assets"
    and "bget res a = Some d \<Longrightarrow> staged_from A inp assets opens deltas a d"
proof -
  from assms obtain baseline staged where b: "projected_ranges A inp assets opens bempty = Ok baseline"
    and st: "btraverse (stage_delta A inp assets opens baseline deltas) assets = Ok staged"
    and res: "(\<exists>bound. prune_worsening A inp assets opens bound staged = Ok res) \<or> res = staged"
    by (auto simp: stage_risk_reducing_deltas_def outcome_simps split: if_splits)
  define P where "P m \<longleftrightarrow> (\<forall>a. bhas m a \<longleftrightarrow> a \<in> set assets)
      \<and> (\<forall>a d. bget m a = Some d \<longrightarrow> staged_from A inp assets opens deltas a d)" for m
  have "staged_from A inp assets opens deltas a d" if "bget staged a = Some d" for a d
    using btraverse_Some [OF st that] b
    by (auto simp: staged_from_def stage_delta_def Let_def outcome_simps split: if_splits)
  then have "P staged" by (simp add: P_def btraverse_has [OF st])
  moreover have "P (binsert a 0 m)" if "P m" "bget m a = Some d" for m a d
    using that by (auto simp: P_def staged_from_def dest: bget_has)
  ultimately have "P res" using res prune_result [of A inp assets opens _ staged res P] by blast
  then show "bhas res a \<longleftrightarrow> a \<in> set assets"
    and "bget res a = Some d \<Longrightarrow> staged_from A inp assets opens deltas a d"
    by (simp_all add: P_def)
qed

lemma project_inversion:
  assumes "project_and_validate_portfolio A inp = Ok p"
  obtains ac gc nc opens deltas0 where
    "validate_input inp = Ok ()"
    "portfolio_caps A inp = Ok (ac, gc, nc)"
    "active_open_exposure A inp = Ok opens"
    "constrain_targets A inp (portfolio_assets inp) ac gc nc = Ok (constrained_targets p)"
    "rounded_deltas p = deltas0
       \<or> stage_risk_reducing_deltas A inp (portfolio_assets inp) opens deltas0 = Ok (rounded_deltas p)"
    "\<And>a d. bget deltas0 a = Some d \<Longrightarrow>
       propose_delta A inp (constrained_targets p) opens a = Ok (bget_or 0 (proposed_deltas p) a, d)"
    "\<And>a. bhas deltas0 a \<longleftrightarrow> a \<in> set (portfolio_assets inp)"
    "projected_ranges A inp (portfolio_assets inp) opens (rounded_deltas p) = Ok (exposure_ranges p)"
    "range_metrics A (exposure_ranges p)
       = Ok (maximum_projected_gross p, minimum_projected_net p, maximum_projected_net p)"
    "validate_final_ranges A inp (exposure_ranges p) (rounded_deltas p) ac gc nc
       (maximum_projected_gross p, minimum_projected_net p, maximum_projected_net p) opens = Ok ()"
proof -
  from assms obtain ac gc nc opens targets pairs ranges m deltas ranges' m' where
    *: "validate_input inp = Ok ()" "portfolio_caps A inp = Ok (ac, gc, nc)"
    "active_open_exposure A inp = Ok opens"
    "constrain_targets A inp (portfolio_assets inp) ac gc nc = Ok targets"
    "btraverse (propose_delta A inp targets opens) (portfolio_assets inp) = Ok pairs"
    "projected_ranges A inp (portfolio_assets inp) opens (bvmap (\<lambda>_. snd) pairs) = Ok ranges"
    "range_metrics A ranges = Ok m"
    "(if transition_breaches ac gc nc ranges m then
         and_then (stage_risk_reducing_deltas A inp (portfolio_assets inp) opens (bvmap (\<lambda>_. snd) pairs)) (\<lambda>staged.
         and_then (projected_ranges A inp (portfolio_assets inp) opens staged) (\<lambda>ranges'.
         and_then (range_metrics A ranges') (\<lambda>m'.
         Ok (staged, ranges', m'))))
       else Ok (bvmap (\<lambda>_. snd) pairs, ranges, m)) = Ok (deltas, ranges', m')"
    "validate_final_ranges A inp ranges' deltas ac gc nc m' opens = Ok ()"
    and p: "p = \<lparr>constrained_targets = targets, proposed_deltas = bvmap (\<lambda>_. fst) pairs,
        rounded_deltas = deltas, exposure_ranges = ranges', maximum_projected_gross = fst m',
        minimum_projected_net = fst (snd m'), maximum_projected_net = snd (snd m')\<rparr>"
    unfolding project_and_validate_portfolio_def
    by (auto simp: outcome_simps Let_def split: prod.splits)
  have pairs: "propose_delta A inp targets opens a = Ok (bget_or 0 (bvmap (\<lambda>_. fst) pairs) a, d)"
    if "bget (bvmap (\<lambda>_. snd) pairs) a = Some d" for a d
    using that btraverse_Some [OF *(5)] by (auto simp: bget_or_def)
  have has: "bhas (bvmap (\<lambda>_. snd) pairs) a \<longleftrightarrow> a \<in> set (portfolio_assets inp)" for a
    using btraverse_has [OF *(5)] by (simp add: bhas_def)
  show thesis
  proof (rule that [of ac gc nc opens "bvmap (\<lambda>_. snd) pairs"])
    show "rounded_deltas p = bvmap (\<lambda>_. snd) pairs \<or>
        stage_risk_reducing_deltas A inp (portfolio_assets inp) opens (bvmap (\<lambda>_. snd) pairs)
          = Ok (rounded_deltas p)"
      using *(8) by (auto simp: p outcome_simps split: if_splits)
    show "projected_ranges A inp (portfolio_assets inp) opens (rounded_deltas p) = Ok (exposure_ranges p)"
      using *(6,8) by (auto simp: p outcome_simps split: if_splits)
    show "range_metrics A (exposure_ranges p)
       = Ok (maximum_projected_gross p, minimum_projected_net p, maximum_projected_net p)"
      using *(7,8) by (auto simp: p outcome_simps split: if_splits)
  qed (use * pairs has in \<open>simp_all add: p\<close>)
qed

section \<open>What an accepted input and an accepted recovery delta satisfy\<close>

lemma validate_inputD:
  assumes "validate_input inp = Ok ()"
  shows "0 < current_equity inp" "0 < curve_leverage inp" "25 / 1000 \<le> global_risk_scale inp"
    "global_risk_scale inp \<le> 1 / 10" "0 \<le> max_single_asset_equity_pct inp"
    "max_single_asset_equity_pct inp \<le> 1" "0 \<le> max_net_equity_pct inp" "max_net_equity_pct inp \<le> 1"
    "filled_position_state_complete inp" "open_order_state_complete inp"
    "\<And>a. a \<in> set (portfolio_assets inp) \<Longrightarrow> \<exists>rules. bget (rules_of inp) a = Some rules
       \<and> 0 < mark_price rules \<and> 0 < price_tick rules \<and> 0 < size_step rules"
  using assms
  by (auto simp: validate_input_def outcome_simps validate_rules_def min_launch_risk_scale_def
      max_launch_risk_scale_def not_le not_less)

lemma add_open_order_accepted:
  "add_open_order A exposure ord = Ok exposure' \<Longrightarrow> oo_lifecycle ord \<noteq> CancelConfirmed \<Longrightarrow>
     oo_lifecycle ord \<noteq> Unknown \<and> oo_side ord \<noteq> None \<and> (\<exists>n. oo_notional ord = Some n \<and> 0 \<le> n)"
  by (auto simp: add_open_order_def outcome_simps split: if_splits)

lemma active_open_exposureD:
  assumes "active_open_exposure A inp = Ok opens" "ord \<in> set (acknowledged_open_orders inp)"
    "oo_lifecycle ord \<noteq> CancelConfirmed"
  shows "oo_lifecycle ord \<noteq> Unknown \<and> oo_side ord \<noteq> None \<and> (\<exists>n. oo_notional ord = Some n \<and> 0 \<le> n)"
proof -
  from assms(2) obtain xs ys where "acknowledged_open_orders inp = xs @ ord # ys"
    by (auto dest: split_list)
  with assms(1) obtain e e' where "add_open_order A e ord = Ok e'"
    by (auto simp: active_open_exposure_def try_fold_append outcome_simps)
  with assms(3) show ?thesis by (rule add_open_order_accepted [rotated])
qed

text \<open>A proposed delta that reduces the risk of its asset.\<close>

definition reduces_risk ::
  "portfolio_projection_input \<Rightarrow> (asset, exposure_range) bmap \<Rightarrow> (asset, exposure_range) bmap
     \<Rightarrow> asset \<Rightarrow> rat \<Rightarrow> bool" where
  "reduces_risk inp ranges baseline a d =
    (let filled = bget_or 0 (filled_positions inp) a in
     d * filled < 0 \<and> \<bar>d\<bar> \<le> \<bar>filled\<bar>
     \<and> (case (bget ranges a, bget baseline a) of
          (Some r, Some b) \<Rightarrow> magnitude r \<le> magnitude b | _ \<Rightarrow> False))"

lemma recovery_delta_ok:
  assumes "check_recovery_delta inp ranges baseline (a, d) = Ok ()" and "d \<noteq> 0"
  shows "reduces_risk inp ranges baseline a d"
proof -
  have "d * bget_or 0 (filled_positions inp) a < 0"
    using assms by (auto simp: check_recovery_delta_def Let_def signum_def mult_less_0_iff
        split: if_splits)
  with assms show ?thesis
    by (auto simp: check_recovery_delta_def reduces_risk_def Let_def outcome_simps split: if_splits)
qed

lemma check_recovery_delta_no_Panic:
  "bhas ranges (fst e) \<Longrightarrow> bhas baseline (fst e) \<Longrightarrow> check_recovery_delta inp ranges baseline e \<noteq> Panic"
  by (auto simp: check_recovery_delta_def Let_def and_then_Panic bhas_def)

lemma validate_final_no_Panic:
  assumes "\<And>a. bhas deltas a \<longleftrightarrow> a \<in> set (portfolio_assets inp)"
    and "\<And>a. bhas ranges a \<longleftrightarrow> a \<in> set (portfolio_assets inp)"
  shows "validate_final_ranges A inp ranges deltas ac gc nc m opens \<noteq> Panic"
proof -
  have "check_recovery_delta inp ranges baseline e \<noteq> Panic"
    if "projected_ranges A inp (portfolio_assets inp) opens bempty = Ok baseline"
      "e \<in> set (entries deltas)" for baseline e
  proof -
    have "bhas deltas (fst e)" using that(2) by (rule entries_has)
    with assms show ?thesis
      by (intro check_recovery_delta_no_Panic) (simp_all add: projected_ranges_has [OF that(1)])
  qed
  then have "check_all (check_recovery_delta inp ranges baseline) (entries deltas) \<noteq> Panic"
    if "projected_ranges A inp (portfolio_assets inp) opens bempty = Ok baseline" for baseline
    using that by (intro check_all_no_Panic) blast
  then show ?thesis
    by (auto simp: validate_final_ranges_def and_then_Panic split: option.splits)
qed

lemma constrain_no_Panic: "0 \<le> ac \<Longrightarrow> constrain_targets A inp assets ac gc nc \<noteq> Panic"
  by (auto simp: constrain_targets_def and_then_Panic clamp_Panic intro!: btraverse_no_Panic
      dest!: btraverse_no_Panic [THEN notE, rotated])

text \<open>The inversion, one fact at a time.\<close>

lemma project_validated:
  "project_and_validate_portfolio A inp = Ok p \<Longrightarrow> validate_input inp = Ok ()"
  by (erule project_inversion)

lemma project_targets:
  assumes "project_and_validate_portfolio A inp = Ok p" "portfolio_caps A inp = Ok (ac, gc, nc)"
  shows "constrain_targets A inp (portfolio_assets inp) ac gc nc = Ok (constrained_targets p)"
  by (rule project_inversion [OF assms(1)]) (use assms(2) in simp)

lemma project_delta:
  assumes "project_and_validate_portfolio A inp = Ok p" and o: "active_open_exposure A inp = Ok opens"
    and d: "bget (rounded_deltas p) a = Some d"
  shows "d = 0 \<or> a \<in> set (portfolio_assets inp)
    \<and> propose_delta A inp (constrained_targets p) opens a = Ok (bget_or 0 (proposed_deltas p) a, d)"
proof (rule project_inversion [OF assms(1)])
  fix ac gc nc opens' deltas0
  assume "active_open_exposure A inp = Ok opens'"
    and d0: "rounded_deltas p = deltas0
       \<or> stage_risk_reducing_deltas A inp (portfolio_assets inp) opens' deltas0 = Ok (rounded_deltas p)"
      "\<And>a d. bget deltas0 a = Some d \<Longrightarrow>
        propose_delta A inp (constrained_targets p) opens' a = Ok (bget_or 0 (proposed_deltas p) a, d)"
      "\<And>a. bhas deltas0 a \<longleftrightarrow> a \<in> set (portfolio_assets inp)"
  then have opens': "opens' = opens" using o by simp
  have "d = 0 \<or> bget deltas0 a = Some d"
    using d0(1)
  proof
    assume st: "stage_risk_reducing_deltas A inp (portfolio_assets inp) opens' deltas0 = Ok (rounded_deltas p)"
    have "bhas deltas0 a" using stage_result(1) [OF st] d0(3) bget_has [OF d] by blast
    with stage_result(2) [OF st d] show ?thesis
      by (auto simp: staged_from_def bget_or_def bhas_def)
  qed (use d in simp)
  then show ?thesis
  proof
    assume "bget deltas0 a = Some d"
    with d0(2) [OF this] d0(3) [of a] opens' show ?thesis by (simp add: bget_has)
  qed simp
qed

lemma project_final:
  assumes "project_and_validate_portfolio A inp = Ok p" "portfolio_caps A inp = Ok (ac, gc, nc)"
  shows "\<exists>opens. active_open_exposure A inp = Ok opens
    \<and> validate_final_ranges A inp (exposure_ranges p) (rounded_deltas p) ac gc nc
       (maximum_projected_gross p, minimum_projected_net p, maximum_projected_net p) opens = Ok ()"
  by (rule project_inversion [OF assms(1)]) (use assms(2) in simp)

section \<open>Exact sums and scaling\<close>

lemma sum_checked_exact:
  assumes "exact_arith A" "sum_checked A xs what = Ok y"
  shows "y = sum_list xs"
proof -
  have "try_fold (\<lambda>t x. checked_add A t x what) s xs = Ok t \<Longrightarrow> t = s + sum_list xs" for s t
  proof (induction xs arbitrary: s)
    case (Cons x xs)
    from Cons.prems obtain s' where "d_add A s x = Some s'" "try_fold (\<lambda>t x. checked_add A t x what) s' xs = Ok t"
      by (auto simp: outcome_simps checked_add_def)
    with Cons.IH exact_arithD(1) [OF assms(1)] have "t = s' + sum_list xs" "s' = s + x" by blast+
    then show ?case by simp
  qed simp
  from this [OF assms(2) [unfolded sum_checked_def]] show ?thesis by simp
qed

lemma checked_exact:
  assumes "exact_arith A"
  shows "checked_add A x y w = Ok z \<Longrightarrow> z = x + y" "checked_sub A x y w = Ok z \<Longrightarrow> z = x - y"
    "checked_mul A x y w = Ok z \<Longrightarrow> z = x * y" "checked_div A x y w = Ok z \<Longrightarrow> z = x / y"
  using exact_arithD [OF assms] by (simp_all add: risk_checked_defs ok_or_Ok)

text \<open>The gross and net of the values of a map.\<close>

definition gross_of :: "rat list \<Rightarrow> rat" where "gross_of xs = sum_list (map abs xs)"

definition pos_sum :: "rat list \<Rightarrow> rat" where "pos_sum xs = sum_list (filter (\<lambda>x. 0 < x) xs)"

definition neg_sum :: "rat list \<Rightarrow> rat" where "neg_sum xs = sum_list (map abs (filter (\<lambda>x. x < 0) xs))"

lemmas sums_def = gross_of_def pos_sum_def neg_sum_def

lemma sums_nonneg: "0 \<le> gross_of xs" "0 \<le> pos_sum xs" "0 \<le> neg_sum xs"
  by (auto simp: sums_def intro!: sum_list_nonneg)

lemma gross_split: "gross_of xs = pos_sum xs + neg_sum xs"
  by (induction xs) (auto simp: sums_def)

lemma net_split: "sum_list xs = pos_sum xs - neg_sum xs"
  by (induction xs) (auto simp: sums_def)

lemma gross_scale: "0 \<le> s \<Longrightarrow> gross_of (map (\<lambda>x. x * s) xs) = gross_of xs * s"
  by (induction xs) (auto simp: sums_def abs_mult algebra_simps)

lemma scale_pos:
  assumes "0 \<le> s"
  shows "pos_sum (map (\<lambda>x. if 0 < x then x * s else x) xs) = pos_sum xs * s"
    "neg_sum (map (\<lambda>x. if 0 < x then x * s else x) xs) = neg_sum xs"
  using assms by (induction xs) (auto simp: sums_def algebra_simps mult_less_0_iff zero_less_mult_iff)

lemma scale_neg:
  assumes "0 \<le> s"
  shows "neg_sum (map (\<lambda>x. if x < 0 then x * s else x) xs) = neg_sum xs * s"
    "pos_sum (map (\<lambda>x. if x < 0 then x * s else x) xs) = pos_sum xs"
  using assms by (induction xs) (auto simp: sums_def algebra_simps mult_less_0_iff zero_less_mult_iff abs_mult)

text \<open>\<open>shrunk m m'\<close>: every value of \<open>m'\<close> has the sign of the one of \<open>m\<close> and is no larger.\<close>

definition shrunk :: "(asset, rat) bmap \<Rightarrow> (asset, rat) bmap \<Rightarrow> bool" where
  "shrunk m m' = (\<forall>a t'. bget m' a = Some t' \<longrightarrow>
     (\<exists>t. bget m a = Some t \<and> \<bar>t'\<bar> \<le> \<bar>t\<bar> \<and> 0 \<le> t' * t))"

lemma shrunk_refl [simp]: "shrunk m m"
  by (simp add: shrunk_def)

lemma shrunk_step: "\<bar>c\<bar> \<le> \<bar>t\<bar> \<Longrightarrow> 0 \<le> c * t \<Longrightarrow> \<bar>b\<bar> \<le> \<bar>c\<bar> \<Longrightarrow> 0 \<le> b * c \<Longrightarrow> 0 \<le> b * t"
  for b c t :: rat
  by (cases "c = 0") (auto simp: zero_le_mult_iff)

lemma shrunk_trans: "shrunk m m' \<Longrightarrow> shrunk m' m'' \<Longrightarrow> shrunk m m''"
  unfolding shrunk_def by (meson order_trans shrunk_step)

lemma scaled_value:
  fixes s t :: rat
  assumes "0 \<le> s" "s \<le> 1"
  shows "\<bar>t * s\<bar> \<le> \<bar>t\<bar>" "0 \<le> t * s * t"
proof -
  show "\<bar>t * s\<bar> \<le> \<bar>t\<bar>" using assms by (simp add: abs_mult mult_left_le)
  have "t * s * t = s * (t * t)" by simp
  then show "0 \<le> t * s * t" using assms(1) by (metis mult_nonneg_nonneg zero_le_square)
qed

lemma btry_vmap_bvals:
  assumes "btry_vmap f m = Ok m'" and "\<And>k v w. bget m k = Some v \<Longrightarrow> f k v = Ok w \<Longrightarrow> w = g v"
  shows "bvals m' = map g (bvals m)"
proof -
  have keys: "bkeys m' = bkeys m"
    by (rule keys_eq) (rule btry_vmap_Ok(1) [OF assms(1)])
  have "the (bget m' k) = g (the (bget m k))" if "k \<in> set (bkeys m)" for k
  proof -
    from that obtain v where v: "bget m k = Some v" by (auto simp: set_bkeys bhas_def)
    from btry_vmap_Ok(2) [OF assms(1) v] v show ?thesis by (auto dest: assms(2))
  qed
  then show ?thesis
    using map_bvals [of "\<lambda>x. x" m'] map_bvals [of g m] by (simp add: keys)
qed

lemma btry_vmap_shrunk:
  assumes "btry_vmap f m = Ok m'"
    and "\<And>k v w. f k v = Ok w \<Longrightarrow> \<bar>w\<bar> \<le> \<bar>v\<bar> \<and> 0 \<le> w * v"
  shows "shrunk m m'"
  unfolding shrunk_def using btry_vmap_Ok(3) [OF assms(1)] assms(2) by metis

lemma scale_targets_sound:
  assumes A: "exact_arith A" and r: "scale_targets_to_gross_cap A m cap = Ok m'" and "0 \<le> cap"
  shows "gross_of (bvals m') \<le> cap \<and> shrunk m m'"
proof -
  from r obtain gross where g: "sum_checked A (map abs (bvals m)) ''target gross'' = Ok gross"
    by (auto simp: scale_targets_to_gross_cap_def outcome_simps)
  have gross: "gross = gross_of (bvals m)"
    using sum_checked_exact [OF A g] by (simp add: gross_of_def)
  show ?thesis
  proof (cases "gross \<le> cap \<or> gross = 0")
    case True
    with r g \<open>0 \<le> cap\<close> gross show ?thesis by (auto simp: scale_targets_to_gross_cap_def)
  next
    case False
    with r g obtain scale scaled where sc: "checked_div A cap gross ''gross scaling'' = Ok scale"
      "btry_vmap (\<lambda>_ t. checked_mul A t scale ''scaled target'') m = Ok scaled"
      and trim: "trim_gross_residual A scaled cap = Ok m'"
      by (auto simp: scale_targets_to_gross_cap_def outcome_simps)
    have pos: "0 < gross" using False \<open>0 \<le> cap\<close> by simp
    have scale: "scale = cap / gross" using checked_exact(4) [OF A sc(1)] .
    from False have "cap \<le> gross" by simp
    with pos \<open>0 \<le> cap\<close> have s01: "0 \<le> scale" "scale \<le> 1" by (simp_all add: scale)
    have vals: "bvals scaled = map (\<lambda>t. t * scale) (bvals m)"
      by (rule btry_vmap_bvals [OF sc(2)]) (rule checked_exact(3) [OF A])
    have eq: "gross_of (bvals scaled) = cap"
    proof -
      have "gross_of (bvals scaled) = gross * scale" by (simp only: vals gross_scale s01 gross)
      then show ?thesis using pos by (simp add: scale)
    qed
    have "m' = scaled"
      using trim sum_checked_exact [OF A] eq
      by (force simp: trim_gross_residual_def outcome_simps gross_of_def split: if_splits)
    moreover have "shrunk m scaled"
      by (rule btry_vmap_shrunk [OF sc(2)]) (auto dest!: checked_exact(3) [OF A] simp: scaled_value s01)
    ultimately show ?thesis using eq by simp
  qed
qed

lemma net_scale_bounds:
  fixes p q c :: rat
  assumes "c < p - q" "p \<noteq> 0" "0 \<le> p" "0 \<le> q" "0 \<le> c"
  shows "0 \<le> (q + c) / p" "(q + c) / p \<le> 1" "p * ((q + c) / p) = q + c"
  using assms by (simp_all add: field_simps)

lemma enforce_net_sound:
  assumes A: "exact_arith A" and r: "enforce_target_net_cap A m cap = Ok m'" and "0 \<le> cap"
  shows "gross_of (bvals m') \<le> gross_of (bvals m) \<and> \<bar>sum_list (bvals m')\<bar> \<le> cap \<and> shrunk m m'"
proof -
  from r obtain positive negative net where
    s: "sum_checked A (filter (\<lambda>x. 0 < x) (bvals m)) ''positive targets'' = Ok positive"
      "sum_checked A (map abs (filter (\<lambda>x. x < 0) (bvals m))) ''negative targets'' = Ok negative"
      "checked_sub A positive negative ''target net'' = Ok net"
    by (auto simp: enforce_target_net_cap_def outcome_simps)
  have e: "positive = pos_sum (bvals m)" "negative = neg_sum (bvals m)" "net = positive - negative"
    using sum_checked_exact [OF A s(1)] sum_checked_exact [OF A s(2)] checked_exact(2) [OF A s(3)]
    by (simp_all add: sums_def)
  note nn = sums_nonneg [of "bvals m", folded e(1,2)]
  consider (long) "cap < positive - negative" "positive \<noteq> 0" | (short) "\<not> (cap < positive - negative \<and> positive \<noteq> 0)" "cap < negative - positive" "negative \<noteq> 0"
    | (within) "\<not> (cap < positive - negative \<and> positive \<noteq> 0)" "\<not> (cap < negative - positive \<and> negative \<noteq> 0)" by blast
  then show ?thesis
  proof cases
    case long
    with r s obtain scale where sc: "scale = (negative + cap) / positive"
      and m': "btry_vmap (\<lambda>_ t. if 0 < t then checked_mul A t scale ''net-scaled positive target'' else Ok t) m = Ok m'"
      by (auto simp: enforce_target_net_cap_def outcome_simps e(3)
          dest!: checked_exact(1) [OF A] checked_exact(4) [OF A])
    have s01: "0 \<le> scale" "scale \<le> 1" and ps: "positive * scale = negative + cap"
      using net_scale_bounds [OF long nn(2,3) \<open>0 \<le> cap\<close>] by (simp_all add: sc)
    have vals: "bvals m' = map (\<lambda>t. if 0 < t then t * scale else t) (bvals m)"
      by (rule btry_vmap_bvals [OF m']) (auto dest: checked_exact(3) [OF A] split: if_splits)
    have "shrunk m m'"
      by (rule btry_vmap_shrunk [OF m'])
         (metis checked_exact(3) [OF A] scaled_value s01 outcome.inject(1) order_refl zero_le_square)
    with long nn ps \<open>0 \<le> cap\<close> show ?thesis
      by (simp add: vals gross_split net_split scale_pos s01 e(1,2) [symmetric])
  next
    case short
    with r s obtain scale where sc: "scale = (positive + cap) / negative"
      and m': "btry_vmap (\<lambda>_ t. if t < 0 then checked_mul A t scale ''net-scaled negative target'' else Ok t) m = Ok m'"
      by (auto simp: enforce_target_net_cap_def outcome_simps e(3)
          dest!: checked_exact(1) [OF A] checked_exact(4) [OF A])
    have s01: "0 \<le> scale" "scale \<le> 1" and ps: "negative * scale = positive + cap"
      using net_scale_bounds [OF short(2,3) nn(3,2) \<open>0 \<le> cap\<close>] by (simp_all add: sc)
    have vals: "bvals m' = map (\<lambda>t. if t < 0 then t * scale else t) (bvals m)"
      by (rule btry_vmap_bvals [OF m']) (auto dest: checked_exact(3) [OF A] split: if_splits)
    have "shrunk m m'"
      by (rule btry_vmap_shrunk [OF m'])
         (metis checked_exact(3) [OF A] scaled_value s01 outcome.inject(1) order_refl zero_le_square)
    with short nn ps \<open>0 \<le> cap\<close> show ?thesis
      by (simp add: vals gross_split net_split scale_neg s01 e(1,2) [symmetric])
  next
    case within
    then have "m' = m" using r s by (auto simp: enforce_target_net_cap_def e(3))
    moreover have "\<bar>sum_list (bvals m)\<bar> \<le> cap"
      using within nn \<open>0 \<le> cap\<close> by (auto simp: net_split e(1,2) [symmetric])
    ultimately show ?thesis by simp
  qed
qed

text \<open>Rounding a delta never enlarges or flips it.\<close>

lemma floor_steps_le:
  fixes x s :: rat
  assumes "0 \<le> x" "0 < s"
  shows "0 \<le> of_int \<lfloor>x / s\<rfloor> * s" "of_int \<lfloor>x / s\<rfloor> * s \<le> x"
proof -
  show "0 \<le> of_int \<lfloor>x / s\<rfloor> * s" using assms by simp
  have "of_int \<lfloor>x / s\<rfloor> * s \<le> x / s * s"
    using assms by (intro mult_right_mono) simp_all
  then show "of_int \<lfloor>x / s\<rfloor> * s \<le> x" using assms by simp
qed

lemma round_down_sound:
  assumes "exact_arith A" "round_down_to_step A x s = Ok y" "0 \<le> x" "0 < s"
  shows "0 \<le> y \<and> y \<le> x"
  using assms floor_steps_le [of x s]
  by (auto simp: round_down_to_step_def outcome_simps dest!: checked_exact(3,4) [OF assms(1)])

lemma round_up_nonneg:
  assumes "exact_arith A" "round_up_to_step A x s = Ok y" "0 \<le> x" "0 < s"
  shows "x \<le> y"
proof -
  have "x / s * s \<le> of_int \<lceil>x / s\<rceil> * s" using assms(3,4) by (intro mult_right_mono) simp_all
  with assms show ?thesis
    by (auto simp: round_up_to_step_def outcome_simps dest!: checked_exact(3,4) [OF assms(1)])
qed

lemma round_delta_sound:
  assumes A: "exact_arith A" and r: "round_delta A d rules = Ok y"
    and pos: "0 < mark_price rules" "0 < price_tick rules" "0 < size_step rules"
  shows "\<bar>y\<bar> \<le> \<bar>d\<bar> \<and> 0 \<le> y * d"
proof (cases "d = 0")
  case False
  with r obtain price quantity units notional where
    p: "(if 0 < d then round_up_to_step A (mark_price rules) (price_tick rules)
         else round_down_to_step A (mark_price rules) (price_tick rules)) = Ok price"
    and q: "checked_div A \<bar>d\<bar> price ''unrounded quantity'' = Ok quantity"
    and u: "round_down_to_step A quantity (size_step rules) = Ok units"
    and n: "checked_mul A units price ''rounded notional'' = Ok notional"
    and y: "y = (if 0 < d then notional else - notional)"
    by (auto simp: round_delta_def outcome_simps)
  have price: "0 \<le> price"
    using p pos round_up_nonneg [OF A] round_down_sound [OF A]
    by (metis less_eq_rat_def order_trans)
  have quantity: "quantity = \<bar>d\<bar> / price" using checked_exact(4) [OF A q] .
  have units: "0 \<le> units" "units \<le> quantity"
    using round_down_sound [OF A u _ pos(3)] price by (simp_all add: quantity)
  have "notional = units * price" using checked_exact(3) [OF A n] .
  moreover have "units * price \<le> \<bar>d\<bar>"
  proof (cases "price = 0")
    case False
    have "units * price \<le> quantity * price" using units price by (intro mult_right_mono)
    also have "quantity * price = \<bar>d\<bar>" using False by (simp add: quantity)
    finally show ?thesis .
  qed simp
  ultimately have "0 \<le> notional" "notional \<le> \<bar>d\<bar>" using units price by simp_all
  then show ?thesis by (auto simp: y mult_nonneg_nonneg mult_nonneg_nonpos)
qed (use r in \<open>simp add: round_delta_def\<close>)

text \<open>Staging keeps deltas that were asked for and never worsens the net.\<close>

lemma projected_ranges_cong:
  "(\<And>a. bget_or 0 deltas a = bget_or 0 deltas' a) \<Longrightarrow>
     projected_ranges A inp assets opens deltas = projected_ranges A inp assets opens deltas'"
  by (simp add: projected_ranges_def projected_range_def [abs_def])

lemma stage_net:
  assumes st: "stage_risk_reducing_deltas A inp assets opens deltas = Ok res"
    and b: "projected_ranges A inp assets opens bempty = Ok baseline"
      "range_metrics A baseline = Ok (g0, lo0, hi0)"
    and r: "projected_ranges A inp assets opens res = Ok ranges" "range_metrics A ranges = Ok (g, lo, hi)"
  shows "worst lo hi \<le> worst lo0 hi0"
proof -
  consider (pruned) staged where "prune_worsening A inp assets opens (worst lo0 hi0) staged = Ok res"
    | (none) "\<not> list_ex (\<lambda>d. d \<noteq> 0) (bvals res)"
    using st b by (auto simp: stage_risk_reducing_deltas_def outcome_simps split: if_splits)
  then show ?thesis
  proof cases
    case pruned
    from prune_result [OF this, of "\<lambda>_. True"] r show ?thesis by auto
  next
    case none
    then have "bget_or 0 res a = bget_or 0 bempty a" for a
      by (auto simp: list_ex_iff set_bvals bget_or_def split: option.splits)
    then have "projected_ranges A inp assets opens res = projected_ranges A inp assets opens bempty"
      by (rule projected_ranges_cong)
    with b r show ?thesis by simp
  qed
qed

lemma clamp_shrunk:
  assumes "clamp x (- c) c = (Ok y :: rat risk)"
  shows "\<bar>y\<bar> \<le> \<bar>x\<bar> \<and> 0 \<le> y * x \<and> \<bar>y\<bar> \<le> c"
  using assms by (auto simp: clamp_def zero_le_mult_iff split: if_splits)

lemma caps_nonneg:
  assumes "exact_arith A" "validate_input inp = Ok ()" "portfolio_caps A inp = Ok (ac, gc, nc)"
  shows "0 \<le> ac" "0 \<le> gc" "0 \<le> nc"
  using assms(3) validate_inputD [OF assms(2)]
  by (auto simp: portfolio_caps_def outcome_simps dest!: checked_exact(3) [OF assms(1)])

lemma constrain_sound:
  assumes A: "exact_arith A" and r: "constrain_targets A inp assets ac gc nc = Ok m"
    and "0 \<le> gc" "0 \<le> nc"
  shows "gross_of (bvals m) \<le> gc \<and> \<bar>sum_list (bvals m)\<bar> \<le> nc
    \<and> (bget m a = Some t \<longrightarrow> \<bar>t\<bar> \<le> ac \<and> \<bar>t\<bar> \<le> \<bar>bget_or 0 (unconstrained_targets inp) a\<bar>
         \<and> 0 \<le> t * bget_or 0 (unconstrained_targets inp) a)"
proof -
  from r obtain clamped scaled where
    c: "btraverse (\<lambda>a. clamp (bget_or 0 (unconstrained_targets inp) a) (- ac) ac) assets = (Ok clamped :: _ risk)"
    and s: "scale_targets_to_gross_cap A clamped gc = Ok scaled"
    and n: "enforce_target_net_cap A scaled nc = Ok m"
    by (auto simp: constrain_targets_def outcome_simps)
  note S = scale_targets_sound [OF A s \<open>0 \<le> gc\<close>] and N = enforce_net_sound [OF A n \<open>0 \<le> nc\<close>]
  have "shrunk clamped m" using S N shrunk_trans by blast
  then have "\<bar>t\<bar> \<le> ac \<and> \<bar>t\<bar> \<le> \<bar>bget_or 0 (unconstrained_targets inp) a\<bar>
         \<and> 0 \<le> t * bget_or 0 (unconstrained_targets inp) a" if "bget m a = Some t"
  proof -
    from \<open>shrunk clamped m\<close> that obtain c where c': "bget clamped a = Some c" "\<bar>t\<bar> \<le> \<bar>c\<bar>" "0 \<le> t * c"
      by (auto simp: shrunk_def)
    from btraverse_Some [OF c c'(1)] clamp_shrunk
    have "\<bar>c\<bar> \<le> \<bar>bget_or 0 (unconstrained_targets inp) a\<bar>"
      "0 \<le> c * bget_or 0 (unconstrained_targets inp) a" "\<bar>c\<bar> \<le> ac" by blast+
    with c'(2,3) show ?thesis using shrunk_step by (meson order_trans)
  qed
  with S N show ?thesis by auto
qed

section \<open>Sample input\<close>

definition sample_rules :: market_rules where
  "sample_rules = \<lparr>mark_price = 10, price_tick = 1 / 10, size_step = 1\<rparr>"

definition sample_input :: "(asset \<times> rat) list \<Rightarrow> (asset \<times> rat) list \<Rightarrow> portfolio_projection_input" where
  "sample_input filled targets = \<lparr>current_equity = 1000, curve_leverage = 2, global_risk_scale = 1 / 10,
     max_single_asset_equity_pct = 1 / 10, max_net_equity_pct = 1 / 2,
     filled_positions = bcollect filled, filled_position_state_complete = True,
     acknowledged_open_orders =
       [\<lparr>oo_asset = ''ETH'', oo_side = Some Sell, oo_notional = Some 20, oo_lifecycle = SubmissionUnknown\<rparr>],
     open_order_state_complete = True, unconstrained_targets = bcollect targets,
     rules_of = bcollect [(''BTC'', sample_rules), (''ETH'', sample_rules)]\<rparr>"

lemma sample_caps:
  "portfolio_caps exact_ops (sample_input filled targets) = Ok (100, 200, 500)"
  by (simp add: sample_input_def portfolio_caps_def) code_simp

lemma sample_project:
  "is_ok (project_and_validate_portfolio exact_ops (sample_input [] [(''BTC'', 250)]))"
  by code_simp

lemma sample_recovery:
  "is_ok (project_and_validate_portfolio exact_ops (sample_input [(''BTC'', 150)] [(''BTC'', 50)]))"
  by code_simp

section \<open>Properties\<close>


text \<open>
  C18. When the filled portfolio already breaks a cap, every order an accepted projection proposes
  reduces risk: it is opposite to the filled position and no larger, the asset's worst case does
  not grow, and neither do the portfolio's worst-case gross and net exposures.
\<close>

theorem recovery_only_reduces:
  assumes "project_and_validate_portfolio A inp = Ok p"
    and "portfolio_caps A inp = Ok (asset_cap, gross_cap, net_cap)"
    and "range_metrics A (filled_ranges inp) = Ok fm"
    and "filled_violation inp asset_cap gross_cap net_cap fm"
    and "active_open_exposure A inp = Ok opens"
  shows "\<exists>baseline gross lo hi.
    projected_ranges A inp (portfolio_assets inp) opens bempty = Ok baseline
    \<and> range_metrics A baseline = Ok (gross, lo, hi)
    \<and> maximum_projected_gross p \<le> gross
    \<and> worst (minimum_projected_net p) (maximum_projected_net p) \<le> worst lo hi
    \<and> (\<forall>a d. bget (rounded_deltas p) a = Some d \<longrightarrow> d \<noteq> 0 \<longrightarrow>
          reduces_risk inp (exposure_ranges p) baseline a d)"
proof -
  from project_final [OF assms(1,2)] assms(5) obtain baseline m where b: "projected_ranges A inp (portfolio_assets inp) opens bempty = Ok baseline"
    "range_metrics A baseline = Ok m" "maximum_projected_gross p \<le> fst m"
    "worst (minimum_projected_net p) (maximum_projected_net p) \<le> worst (fst (snd m)) (snd (snd m))"
    and "\<forall>e \<in> set (entries (rounded_deltas p)).
      check_recovery_delta inp (exposure_ranges p) baseline e = Ok ()"
    using assms(3,4) by (auto simp: validate_final_ranges_def outcome_simps)
  then have "reduces_risk inp (exposure_ranges p) baseline a d"
    if "bget (rounded_deltas p) a = Some d" "d \<noteq> 0" for a d
    using that by (intro recovery_delta_ok) (auto simp: bentries_iff)
  with b show ?thesis by (metis prod.collapse)
qed


lemma recovery_only_reduces_witness:
  "\<exists>p baseline. project_and_validate_portfolio exact_ops (sample_input [(''BTC'', 150)] [(''BTC'', 50)]) = Ok p
     \<and> bget (rounded_deltas p) ''BTC'' = Some (- 100)
     \<and> reduces_risk (sample_input [(''BTC'', 150)] [(''BTC'', 50)]) (exposure_ranges p) baseline ''BTC'' (- 100)"
proof -
  let ?inp = "sample_input [(''BTC'', 150)] [(''BTC'', 50)]"
  obtain p where p: "project_and_validate_portfolio exact_ops ?inp = Ok p"
    using sample_recovery by (auto simp: is_ok_def split: outcome.splits)
  have "map_option entries (case project_and_validate_portfolio exact_ops ?inp of
      Ok p \<Rightarrow> Some (rounded_deltas p) | _ \<Rightarrow> None) = Some [(''BTC'', - 100), (''ETH'', 0)]"
    by code_simp
  then have d: "bget (rounded_deltas p) ''BTC'' = Some (- 100)"
    by (simp add: p bm.lookup_items)
  have m: "range_metrics exact_ops (filled_ranges ?inp) = Ok (150, 150, 150)"
    by code_simp
  have v: "filled_violation ?inp 100 200 500 (150, 150, 150)"
    by code_simp
  obtain opens where "active_open_exposure exact_ops ?inp = Ok opens"
    by (rule project_inversion [OF p], rule that)
  from recovery_only_reduces [OF p sample_caps m v this] obtain baseline where
    "\<And>a d. bget (rounded_deltas p) a = Some d \<Longrightarrow> d \<noteq> 0 \<Longrightarrow> reduces_risk ?inp (exposure_ranges p) baseline a d"
    by blast
  from this [OF d] d p show ?thesis by (intro exI conjI) simp_all
qed

text \<open>
  With exact arithmetic the constrained targets keep every cap before any order is derived:
  each is within the single-asset cap, their gross within the gross cap, their net within the net
  cap; and constraining only shrinks a target, never enlarges it or flips its side.
\<close>

theorem constrained_targets_within_caps:
  assumes "exact_arith A"
    and "project_and_validate_portfolio A inp = Ok p"
    and "portfolio_caps A inp = Ok (asset_cap, gross_cap, net_cap)"
  shows "gross_of (bvals (constrained_targets p)) \<le> gross_cap
    \<and> \<bar>sum_list (bvals (constrained_targets p))\<bar> \<le> net_cap
    \<and> (\<forall>a t. bget (constrained_targets p) a = Some t \<longrightarrow>
         \<bar>t\<bar> \<le> asset_cap \<and> \<bar>t\<bar> \<le> \<bar>bget_or 0 (unconstrained_targets inp) a\<bar>
         \<and> 0 \<le> t * bget_or 0 (unconstrained_targets inp) a)"
proof -
  have "validate_input inp = Ok ()" using assms(2) by (rule project_validated)
  from caps_nonneg(2,3) [OF assms(1) this assms(3)] show ?thesis
    using constrain_sound [OF assms(1) project_targets [OF assms(2,3)]] by blast
qed

lemma constrained_targets_within_caps_witness:
  "\<exists>p. project_and_validate_portfolio exact_ops (sample_input [] [(''BTC'', 250)]) = Ok p
     \<and> gross_of (bvals (constrained_targets p)) \<le> 200"
proof -
  obtain p where p: "project_and_validate_portfolio exact_ops (sample_input [] [(''BTC'', 250)]) = Ok p"
    using sample_project by (auto simp: is_ok_def split: outcome.splits)
  from constrained_targets_within_caps [OF exact_ops_exact p sample_caps] p show ?thesis by blast
qed

text \<open>
  With exact arithmetic every order delta of an accepted projection is at most the gap it
  closes, on the same side: the gap is the constrained target less the filled position less the
  signed exposure of the open orders, and rounding or staging never overshoots it.
\<close>

theorem rounded_delta_never_overshoots:
  assumes "exact_arith A"
    and "project_and_validate_portfolio A inp = Ok p"
    and "active_open_exposure A inp = Ok opens"
    and "bget (rounded_deltas p) a = Some d"
  shows "\<exists>gap. gap = bget_or 0 (constrained_targets p) a - bget_or 0 (filled_positions inp) a
        - (fst (bget_or (0, 0) opens a) - snd (bget_or (0, 0) opens a))
      \<and> \<bar>d\<bar> \<le> \<bar>gap\<bar> \<and> 0 \<le> d * gap"
  using project_delta [OF assms(2-4)]
proof
  assume d: "a \<in> set (portfolio_assets inp)
    \<and> propose_delta A inp (constrained_targets p) opens a = Ok (bget_or 0 (proposed_deltas p) a, d)"
  then obtain gap rules where
    gap: "gap = bget_or 0 (constrained_targets p) a - bget_or 0 (filled_positions inp) a
      - (fst (bget_or (0, 0) opens a) - snd (bget_or (0, 0) opens a))"
    and rules: "bget (rules_of inp) a = Some rules" "round_delta A gap rules = Ok d"
    by (auto simp: propose_delta_def Let_def outcome_simps dest!: checked_exact(2) [OF assms(1)])
  from validate_inputD(11) [OF project_validated [OF assms(2)], of a] d rules(1)
  have "0 < mark_price rules" "0 < price_tick rules" "0 < size_step rules" by auto
  from round_delta_sound [OF assms(1) rules(2) this] gap show ?thesis by blast
qed simp

lemma rounded_delta_never_overshoots_witness:
  "\<exists>p opens gap. project_and_validate_portfolio exact_ops (sample_input [] [(''BTC'', 250)]) = Ok p
     \<and> gap = bget_or 0 (constrained_targets p) ''BTC'' - 0
        - (fst (bget_or (0, 0) opens ''BTC'') - snd (bget_or (0, 0) opens ''BTC''))
     \<and> 100 \<le> \<bar>gap\<bar>"
proof -
  let ?inp = "sample_input [] [(''BTC'', 250)]"
  obtain p where p: "project_and_validate_portfolio exact_ops ?inp = Ok p"
    using sample_project by (auto simp: is_ok_def split: outcome.splits)
  obtain opens where o: "active_open_exposure exact_ops ?inp = Ok opens"
    by (rule project_inversion [OF p], rule that)
  have "map_option entries (case project_and_validate_portfolio exact_ops ?inp of
      Ok p \<Rightarrow> Some (rounded_deltas p) | _ \<Rightarrow> None) = Some [(''BTC'', 100), (''ETH'', 20)]"
    by code_simp
  then have "bget (rounded_deltas p) ''BTC'' = Some 100"
    by (simp add: p bm.lookup_items)
  from rounded_delta_never_overshoots [OF exact_ops_exact p o this]
  have "\<exists>gap. gap = bget_or 0 (constrained_targets p) ''BTC'' - 0
        - (fst (bget_or (0, 0) opens ''BTC'') - snd (bget_or (0, 0) opens ''BTC'')) \<and> 100 \<le> \<bar>gap\<bar>"
    by (auto simp: sample_input_def bcollect_def)
  with p show ?thesis by blast
qed

text \<open>
  Staging, which replaces the proposed orders when the full transition would break a cap, only
  drops orders (each staged delta is the requested one or zero) and leaves the portfolio's
  worst-case net exposure no worse than without any order; the loop that prunes them terminates.
\<close>

theorem staging_only_drops_orders:
  assumes "stage_risk_reducing_deltas A inp assets opens deltas = Ok staged"
    and "projected_ranges A inp assets opens bempty = Ok baseline"
    and "range_metrics A baseline = Ok (g0, lo0, hi0)"
    and "projected_ranges A inp assets opens staged = Ok ranges"
    and "range_metrics A ranges = Ok (g, lo, hi)"
  shows "worst lo hi \<le> worst lo0 hi0
    \<and> (\<forall>a d. bget staged a = Some d \<longrightarrow> d = 0 \<or> d = bget_or 0 deltas a)"
  using stage_net [OF assms] stage_result(2) [OF assms(1)] by (auto simp: staged_from_def)

lemma staging_only_drops_orders_witness:
  "\<exists>staged. stage_risk_reducing_deltas exact_ops (sample_input [(''BTC'', 150)] []) [''BTC'', ''ETH''] bempty
        (bcollect [(''BTC'', -100), (''ETH'', -50)]) = Ok staged
     \<and> (\<forall>a d. bget staged a = Some d \<longrightarrow> d = 0 \<or> d = bget_or 0 (bcollect [(''BTC'', -100), (''ETH'', -50)]) a)"
proof -
  let ?inp = "sample_input [(''BTC'', 150)] []" and ?d = "bcollect [(''BTC'', -100), (''ETH'', -50)] :: (asset, rat) bmap"
  let ?assets = "[''BTC'', ''ETH'']"
  have "is_ok (stage_risk_reducing_deltas exact_ops ?inp ?assets bempty ?d)" by code_simp
  then obtain staged where st: "stage_risk_reducing_deltas exact_ops ?inp ?assets bempty ?d = Ok staged"
    by (auto simp: is_ok_def split: outcome.splits)
  have "is_ok (and_then (projected_ranges exact_ops ?inp ?assets bempty bempty) (range_metrics exact_ops))"
    by code_simp
  then obtain b g0 lo0 hi0 where b: "projected_ranges exact_ops ?inp ?assets bempty bempty = Ok b"
    "range_metrics exact_ops b = Ok (g0, lo0, hi0)"
    by (auto simp: is_ok_def outcome_simps split: outcome.splits)
  have "is_ok (and_then (stage_risk_reducing_deltas exact_ops ?inp ?assets bempty ?d)
      (\<lambda>s. and_then (projected_ranges exact_ops ?inp ?assets bempty s) (range_metrics exact_ops)))"
    by code_simp
  then obtain r g lo hi where r: "projected_ranges exact_ops ?inp ?assets bempty staged = Ok r"
    "range_metrics exact_ops r = Ok (g, lo, hi)"
    by (auto simp: is_ok_def outcome_simps st split: outcome.splits)
  from staging_only_drops_orders [OF st b r] st show ?thesis by blast
qed

text \<open>
  The projection never panics, for any input: the clamp bounds are ordered and every map index
  it takes is present.
\<close>

theorem projection_never_panics:
  assumes "faithful_arith A"
  shows "project_and_validate_portfolio A inp \<noteq> Panic"
proof -
  have targets: "constrain_targets A inp assets ac gc nc \<noteq> Panic"
    if "validate_input inp = Ok ()" "portfolio_caps A inp = Ok (ac, gc, nc)" for assets ac gc nc
  proof (rule constrain_no_Panic)
    show "0 \<le> ac"
      using that(2) validate_inputD [OF that(1)]
      by (auto simp: portfolio_caps_def outcome_simps checked_mul_def intro: mul_nonneg [OF assms])
  qed
  have caps: "portfolio_caps A inp \<noteq> Panic" by (simp add: portfolio_caps_def and_then_Panic)
  have pairs: "btraverse (propose_delta A inp targets opens) assets \<noteq> Panic" for targets opens assets
    by (rule btraverse_no_Panic) (auto simp: propose_delta_def Let_def and_then_Panic)
  have final: "validate_final_ranges A inp ranges deltas ac gc nc m opens \<noteq> Panic"
    if "projected_ranges A inp (portfolio_assets inp) opens' deltas = Ok ranges"
      "btraverse f (portfolio_assets inp) = Ok pairs"
      "deltas = bvmap (\<lambda>_. snd) pairs
        \<or> stage_risk_reducing_deltas A inp (portfolio_assets inp) opens' (bvmap (\<lambda>_. snd) pairs) = Ok deltas"
    for ranges deltas ac gc nc m opens opens' f and pairs :: "(asset, rat \<times> rat) bmap"
  proof (rule validate_final_no_Panic)
    show "bhas ranges a \<longleftrightarrow> a \<in> set (portfolio_assets inp)" for a
      using that(1) by (rule projected_ranges_has)
    have "bhas (bvmap (\<lambda>_. snd) pairs) a \<longleftrightarrow> a \<in> set (portfolio_assets inp)" for a
      using btraverse_has [OF that(2)] by (simp add: bhas_def)
    then show "bhas deltas a \<longleftrightarrow> a \<in> set (portfolio_assets inp)" for a
      using that(3) stage_result(1) by blast
  qed
  show ?thesis
    unfolding project_and_validate_portfolio_def Let_def
    by (auto simp: and_then_Panic outcome_simps pairs caps targets
        split: prod.splits if_splits dest: final)
qed

lemma projection_never_panics_witness:
  "project_and_validate_portfolio exact_ops (sample_input [] [(''BTC'', 250)]) \<noteq> Panic"
  by (rule projection_never_panics [OF exact_ops_faithful])

text \<open>
  The projection fails closed: an accepted input had complete position and order state, every
  open order still able to fill had a known side and a non-negative size, and every asset involved
  had positive market rules.
\<close>

theorem accepted_projection_had_complete_state:
  assumes "project_and_validate_portfolio A inp = Ok p"
  shows "filled_position_state_complete inp \<and> open_order_state_complete inp
    \<and> list_all (\<lambda>ord. oo_lifecycle ord = CancelConfirmed \<or> oo_lifecycle ord \<noteq> Unknown
        \<and> oo_side ord \<noteq> None \<and> (\<exists>n. oo_notional ord = Some n \<and> 0 \<le> n)) (acknowledged_open_orders inp)
    \<and> list_all (\<lambda>a. \<exists>rules. bget (rules_of inp) a = Some rules
        \<and> 0 < mark_price rules \<and> 0 < price_tick rules \<and> 0 < size_step rules) (portfolio_assets inp)"
proof -
  obtain opens where o: "active_open_exposure A inp = Ok opens"
    by (rule project_inversion [OF assms], rule that)
  have "list_all (\<lambda>ord. oo_lifecycle ord = CancelConfirmed \<or> oo_lifecycle ord \<noteq> Unknown
        \<and> oo_side ord \<noteq> None \<and> (\<exists>n. oo_notional ord = Some n \<and> 0 \<le> n)) (acknowledged_open_orders inp)"
    using active_open_exposureD [OF o] unfolding list_all_iff by blast
  then show ?thesis
    using validate_inputD(9-11) [OF project_validated [OF assms]] unfolding list_all_iff by blast
qed

lemma accepted_projection_had_complete_state_witness:
  "filled_position_state_complete (sample_input [] [(''BTC'', 250)])"
proof -
  obtain p where p: "project_and_validate_portfolio exact_ops (sample_input [] [(''BTC'', 250)]) = Ok p"
    using sample_project by (auto simp: is_ok_def split: outcome.splits)
  from accepted_projection_had_complete_state [OF p] show ?thesis by blast
qed

end
