(* ===== verification/Identity.thy ===== *)
theory Identity
  imports Portfolio_Risk "HOL-Library.Word"
begin

text \<open>
  Identities of decisions and actions (\<open>copytrade-core/src/decision.rs\<close>): the canonical byte
  encoding, the hashes derived from it and the planned client order ids. SHA-256 is a parameter
  \<open>H\<close> from byte strings to byte strings and \<open>Decimal::to_string\<close> a parameter \<open>dec_str\<close>.
\<close>

type_synonym byte = "8 word"
type_synonym bytes = "byte list"

text \<open>The \<open>byte_id!\<close> types are byte strings of fixed length.\<close>

type_synonym snapshot_set_id = bytes
type_synonym decision_id = bytes
type_synonym planned_cloid = bytes
type_synonym engine_instance_id = bytes
type_synonym config_hash = bytes
type_synonym risk_policy_hash = bytes
type_synonym market_snapshot_id = bytes
type_synonym payload_hash = bytes
type_synonym eligibility_hash = bytes
type_synonym target_hash = bytes
type_synonym projection_hash = bytes
type_synonym target_version = nat
type_synonym timestamp = nat

datatype identity_error =
    DuplicateCandidate string
  | EligibilityMismatch
  | InvalidIdentityInput string
  | IdentityOverflow string
  | Risk risk_violation

type_synonym 'a identity = "('a, identity_error) outcome"

section \<open>Canonical encoding\<close>

fun be_bytes :: "nat \<Rightarrow> nat \<Rightarrow> bytes" where
  "be_bytes 0 n = []"
| "be_bytes (Suc k) n = be_bytes k (n div 256) @ [word_of_nat (n mod 256)]"

definition enc_u8 :: "nat \<Rightarrow> bytes" where "enc_u8 n = be_bytes 1 n"
definition enc_u32 :: "nat \<Rightarrow> bytes" where "enc_u32 n = be_bytes 4 n"
definition enc_u64 :: "nat \<Rightarrow> bytes" where "enc_u64 n = be_bytes 8 n"

definition char_byte :: "char \<Rightarrow> byte" where
  "char_byte c = word_of_nat (of_char c)"

definition str_bytes :: "string \<Rightarrow> bytes" where
  "str_bytes s = map char_byte s"

definition enc_length :: "nat \<Rightarrow> bytes identity" where
  "enc_length n = (if n < 2 ^ 32 then Ok (enc_u32 n) else Err (IdentityOverflow ''canonical length''))"

definition enc_string :: "string \<Rightarrow> bytes identity" where
  "enc_string s = and_then (enc_length (length s)) (\<lambda>l. Ok (l @ str_bytes s))"

text \<open>\<open>normalize\<close> strips trailing zeros: the scale is the least one that makes the value integral.\<close>

definition normal_scale :: "rat \<Rightarrow> nat" where
  "normal_scale x = (case List.find (\<lambda>s. is_integer (x * 10 ^ s)) [0..<29] of Some s \<Rightarrow> s | None \<Rightarrow> 28)"

definition normal_mantissa :: "rat \<Rightarrow> int" where
  "normal_mantissa x = \<lfloor>x * 10 ^ normal_scale x\<rfloor>"

text \<open>\<open>i128::to_be_bytes\<close>: sixteen bytes, two's complement.\<close>

definition enc_i128 :: "int \<Rightarrow> bytes" where
  "enc_i128 i = be_bytes 16 (nat (i mod 2 ^ 128))"

definition enc_decimal :: "rat \<Rightarrow> bytes" where
  "enc_decimal x = enc_i128 (normal_mantissa x) @ enc_u32 (normal_scale x)"

fun enc_all :: "('a \<Rightarrow> bytes identity) \<Rightarrow> 'a list \<Rightarrow> bytes identity" where
  "enc_all f [] = Ok []"
| "enc_all f (x # xs) = and_then (f x) (\<lambda>b. and_then (enc_all f xs) (\<lambda>bs. Ok (b @ bs)))"

definition enc_bool :: "bool \<Rightarrow> bytes" where
  "enc_bool b = enc_u8 (if b then 1 else 0)"

definition SNAPSHOT_DOMAIN :: bytes where "SNAPSHOT_DOMAIN = str_bytes ''HL1E/SNAPSHOT_SET/V1''"
definition ELIGIBILITY_DOMAIN :: bytes where "ELIGIBILITY_DOMAIN = str_bytes ''HL1E/ELIGIBILITY/V1''"
definition DECISION_DOMAIN :: bytes where "DECISION_DOMAIN = str_bytes ''HL1E/DECISION/V1''"
definition CLOID_DOMAIN :: bytes where "CLOID_DOMAIN = str_bytes ''HL1E/PLANNED_CLOID/V1''"
definition TARGET_DOMAIN :: bytes where "TARGET_DOMAIN = str_bytes ''HL1E/TARGET_VECTOR/V1''"
definition CONFIG_DOMAIN :: bytes where "CONFIG_DOMAIN = str_bytes ''HL1E/CONFIG/V1''"
definition RISK_DOMAIN :: bytes where "RISK_DOMAIN = str_bytes ''HL1E/RISK_POLICY/V1''"
definition MARKET_DOMAIN :: bytes where "MARKET_DOMAIN = str_bytes ''HL1E/MARKET_SNAPSHOT/V1''"
definition PAYLOAD_DOMAIN :: bytes where "PAYLOAD_DOMAIN = str_bytes ''HL1E/PAYLOAD/V1''"
definition PROJECTION_DOMAIN :: bytes where "PROJECTION_DOMAIN = str_bytes ''LIVE/PORTFOLIO_PROJECTION/V1''"

definition domain_hash :: "(bytes \<Rightarrow> bytes) \<Rightarrow> bytes \<Rightarrow> bytes \<Rightarrow> bytes" where
  "domain_hash H domain payload = H (domain @ payload)"

text \<open>\<open>hex_bytes\<close>.\<close>

definition hex_digit :: "nat \<Rightarrow> char" where
  "hex_digit n = ''0123456789abcdef'' ! n"

definition hex_bytes :: "bytes \<Rightarrow> string" where
  "hex_bytes bs = ''0x'' @ concat (map (\<lambda>b. [hex_digit (unat b div 16), hex_digit (unat b mod 16)]) bs)"

section \<open>Snapshot sets and eligibility\<close>

record snapshot_set_member =
  candidate_id :: string
  accepted_sequence :: nat
  payload_hash_of :: payload_hash
  received_at_mono :: timestamp
  valid_until_mono :: timestamp

datatype exclusion_reason = Disabled | Quarantined | Stale | InvalidPayload | ZeroWeight | MissingSnapshot

fun exclusion_code :: "exclusion_reason \<Rightarrow> nat" where
  "exclusion_code Disabled = 0"
| "exclusion_code Quarantined = 1"
| "exclusion_code Stale = 2"
| "exclusion_code InvalidPayload = 3"
| "exclusion_code ZeroWeight = 4"
| "exclusion_code MissingSnapshot = 5"

record source_eligibility_summary =
  active_ids :: "string bset"
  excluded :: "(string, exclusion_reason) bmap"

text \<open>The first of two neighbours with the same id, as \<open>windows(2)\<close> finds it.\<close>

fun adjacent_duplicate :: "('a \<Rightarrow> string) \<Rightarrow> 'a list \<Rightarrow> string option" where
  "adjacent_duplicate f (x # y # zs) = (if f x = f y then Some (f x) else adjacent_duplicate f (y # zs))"
| "adjacent_duplicate f _ = None"

definition enc_member :: "snapshot_set_member \<Rightarrow> bytes identity" where
  "enc_member mb =
    and_then (fail_if (valid_until_mono mb < received_at_mono mb)
      (InvalidIdentityInput (''invalid freshness interval for '' @ candidate_id mb))) (\<lambda>_.
    and_then (enc_string (candidate_id mb)) (\<lambda>name.
    Ok (name @ enc_u64 (accepted_sequence mb) @ payload_hash_of mb
        @ enc_u64 (received_at_mono mb) @ enc_u64 (valid_until_mono mb))))"

definition sort_members :: "snapshot_set_member list \<Rightarrow> snapshot_set_member list" where
  "sort_members ms = sort_by (\<lambda>l r. cmp (candidate_id l) (candidate_id r)) ms"

definition snapshot_set_bytes :: "snapshot_set_member list \<Rightarrow> bytes identity" where
  "snapshot_set_bytes members =
    (let ms = sort_members members in
     case adjacent_duplicate candidate_id ms of
       Some c \<Rightarrow> Err (DuplicateCandidate c)
     | None \<Rightarrow>
       and_then (enc_length (length ms)) (\<lambda>l.
       and_then (enc_all enc_member ms) (\<lambda>body. Ok (SNAPSHOT_DOMAIN @ l @ body))))"

definition derive_snapshot_set_id :: "(bytes \<Rightarrow> bytes) \<Rightarrow> snapshot_set_member list \<Rightarrow> snapshot_set_id identity" where
  "derive_snapshot_set_id H members = and_then (snapshot_set_bytes members) (\<lambda>b. Ok (H b))"

definition derive_eligibility_hash :: "(bytes \<Rightarrow> bytes) \<Rightarrow> source_eligibility_summary \<Rightarrow> eligibility_hash identity" where
  "derive_eligibility_hash H summary =
    (if list_ex (bhas (excluded summary)) (bkeys (active_ids summary)) then Err EligibilityMismatch
     else
      and_then (enc_length (bsize (active_ids summary))) (\<lambda>l1.
      and_then (enc_all enc_string (bkeys (active_ids summary))) (\<lambda>b1.
      and_then (enc_length (bsize (excluded summary))) (\<lambda>l2.
      and_then (enc_all (\<lambda>e. and_then (enc_string (fst e)) (\<lambda>s. Ok (s @ enc_u8 (exclusion_code (snd e)))))
                 (entries (excluded summary))) (\<lambda>b2.
      Ok (H (ELIGIBILITY_DOMAIN @ l1 @ b1 @ l2 @ b2)))))))"

section \<open>Decisions, targets and projections\<close>

record decision_identity_input =
  di_engine_instance_id :: engine_instance_id
  di_decision_sequence :: nat
  di_config_hash :: config_hash
  di_risk_policy_hash :: risk_policy_hash
  di_snapshot_set_id :: snapshot_set_id
  di_eligibility_hash :: eligibility_hash
  di_market_snapshot_id :: market_snapshot_id
  di_target_version :: target_version

definition derive_decision_id :: "(bytes \<Rightarrow> bytes) \<Rightarrow> decision_identity_input \<Rightarrow> decision_id" where
  "derive_decision_id H inp = H (DECISION_DOMAIN @ di_engine_instance_id inp
     @ enc_u64 (di_decision_sequence inp) @ di_config_hash inp @ di_risk_policy_hash inp
     @ di_snapshot_set_id inp @ di_eligibility_hash inp @ di_market_snapshot_id inp
     @ enc_u64 (di_target_version inp))"

definition hash_config_bytes :: "(bytes \<Rightarrow> bytes) \<Rightarrow> bytes \<Rightarrow> config_hash" where
  "hash_config_bytes H b = domain_hash H CONFIG_DOMAIN b"

definition hash_risk_policy_bytes :: "(bytes \<Rightarrow> bytes) \<Rightarrow> bytes \<Rightarrow> risk_policy_hash" where
  "hash_risk_policy_bytes H b = domain_hash H RISK_DOMAIN b"

definition hash_market_snapshot_bytes :: "(bytes \<Rightarrow> bytes) \<Rightarrow> bytes \<Rightarrow> market_snapshot_id" where
  "hash_market_snapshot_bytes H b = domain_hash H MARKET_DOMAIN b"

definition hash_payload_bytes :: "(bytes \<Rightarrow> bytes) \<Rightarrow> bytes \<Rightarrow> payload_hash" where
  "hash_payload_bytes H b = domain_hash H PAYLOAD_DOMAIN b"

record previous_target_state =
  pt_version :: target_version
  pt_target_hash :: target_hash

definition target_bytes :: "(asset, rat) bmap \<Rightarrow> bytes identity" where
  "target_bytes targets =
    and_then (enc_length (bsize targets)) (\<lambda>l.
    and_then (enc_all (\<lambda>e. and_then (enc_string (fst e)) (\<lambda>s. Ok (s @ enc_decimal (snd e)))) (entries targets))
      (\<lambda>body. Ok (TARGET_DOMAIN @ l @ body)))"

definition canonical_target_hash :: "(bytes \<Rightarrow> bytes) \<Rightarrow> (asset, rat) bmap \<Rightarrow> target_hash identity" where
  "canonical_target_hash H targets = and_then (target_bytes targets) (\<lambda>b. Ok (H b))"

definition resolve_target_version ::
  "(bytes \<Rightarrow> bytes) \<Rightarrow> previous_target_state option \<Rightarrow> (asset, rat) bmap \<Rightarrow> (target_version \<times> target_hash) identity" where
  "resolve_target_version H previous targets =
    and_then (canonical_target_hash H targets) (\<lambda>current.
    case previous of
      None \<Rightarrow> Ok (0, current)
    | Some prev \<Rightarrow>
        if pt_target_hash prev = current then Ok (pt_version prev, current)
        else and_then (ok_or (IdentityOverflow ''target version'') (checked_add_nat 64 (pt_version prev) 1))
               (\<lambda>v. Ok (v, current)))"

definition next_decision_sequence :: "nat \<Rightarrow> nat identity" where
  "next_decision_sequence current = ok_or (IdentityOverflow ''decision sequence'') (checked_add_nat 64 current 1)"

definition enc_decimal_map :: "(rat \<Rightarrow> string) \<Rightarrow> (asset, rat) bmap \<Rightarrow> bytes identity" where
  "enc_decimal_map dec_str m =
    and_then (enc_length (bsize m)) (\<lambda>l.
    and_then (enc_all (\<lambda>e. and_then (enc_string (fst e)) (\<lambda>a.
        and_then (enc_string (dec_str (snd e))) (\<lambda>v. Ok (a @ v)))) (entries m)) (\<lambda>b. Ok (l @ b)))"

definition derive_projection_hash ::
  "(bytes \<Rightarrow> bytes) \<Rightarrow> (rat \<Rightarrow> string) \<Rightarrow> portfolio_projection \<Rightarrow> projection_hash identity" where
  "derive_projection_hash H dec_str p =
    and_then (enc_decimal_map dec_str (constrained_targets p)) (\<lambda>b1.
    and_then (enc_decimal_map dec_str (proposed_deltas p)) (\<lambda>b2.
    and_then (enc_decimal_map dec_str (rounded_deltas p)) (\<lambda>b3.
    and_then (enc_length (bsize (exposure_ranges p))) (\<lambda>l.
    and_then (enc_all (\<lambda>e. and_then (enc_string (fst e)) (\<lambda>a.
        and_then (enc_string (dec_str (minimum (snd e)))) (\<lambda>lo.
        and_then (enc_string (dec_str (maximum (snd e)))) (\<lambda>hi. Ok (a @ lo @ hi))))) (entries (exposure_ranges p))) (\<lambda>b4.
    and_then (enc_string (dec_str (maximum_projected_gross p))) (\<lambda>g.
    and_then (enc_string (dec_str (minimum_projected_net p))) (\<lambda>lo.
    and_then (enc_string (dec_str (maximum_projected_net p))) (\<lambda>hi.
    Ok (H (PROJECTION_DOMAIN @ b1 @ b2 @ b3 @ l @ b4 @ g @ lo @ hi))))))))))"

section \<open>Planned actions\<close>

text \<open>\<open>Side\<close> is declared like \<open>OrderSide\<close>; the model shares \<open>order_side\<close>.\<close>

type_synonym side = order_side

fun side_code :: "side \<Rightarrow> nat" where
  "side_code Buy = 0"
| "side_code Sell = 1"

record planned_action =
  pa_decision_id :: decision_id
  pa_target_version :: target_version
  pa_asset :: asset
  pa_side :: side
  pa_rounded_notional :: rat
  pa_reduce_only :: bool
  pa_action_ordinal :: nat
  pa_retry_generation :: nat
  pa_planned_cloid :: planned_cloid

record planned_cloid_input =
  pc_engine_instance_id :: engine_instance_id
  pc_decision_id :: decision_id
  pc_target_version :: target_version
  pc_asset :: asset
  pc_side :: side
  pc_reduce_only :: bool
  pc_action_ordinal :: nat
  pc_retry_generation :: nat

definition planned_cloid_bytes :: "planned_cloid_input \<Rightarrow> bytes identity" where
  "planned_cloid_bytes inp =
    and_then (fail_if (pc_asset inp = []) (InvalidIdentityInput ''planned action asset must not be empty'')) (\<lambda>_.
    and_then (enc_string (pc_asset inp)) (\<lambda>a.
    Ok (CLOID_DOMAIN @ pc_engine_instance_id inp @ pc_decision_id inp @ enc_u64 (pc_target_version inp)
        @ a @ enc_u8 (side_code (pc_side inp)) @ enc_bool (pc_reduce_only inp)
        @ enc_u32 (pc_action_ordinal inp) @ enc_u32 (pc_retry_generation inp))))"

definition derive_planned_cloid :: "(bytes \<Rightarrow> bytes) \<Rightarrow> planned_cloid_input \<Rightarrow> planned_cloid identity" where
  "derive_planned_cloid H inp = and_then (planned_cloid_bytes inp) (\<lambda>b. Ok (take 16 (H b)))"

definition action_sides :: "rat \<Rightarrow> side" where
  "action_sides d = (if 0 < d then Buy else Sell)"

definition plan_action ::
  "(bytes \<Rightarrow> bytes) \<Rightarrow> engine_instance_id \<Rightarrow> decision_id \<Rightarrow> target_version \<Rightarrow> portfolio_projection
     \<Rightarrow> (asset, bool) bmap \<Rightarrow> planned_action list \<Rightarrow> asset \<times> rat \<Rightarrow> planned_action list identity" where
  "plan_action H engine did version projection reduce_only_by_asset actions e =
    (let a = fst e; delta = snd e;
         reduce_only = bget_or False reduce_only_by_asset a;
         actionable = (if delta = 0 \<and> reduce_only then bget_or 0 (proposed_deltas projection) a else delta) in
     if actionable = 0 then Ok actions else
     and_then (fail_if (2 ^ 32 \<le> length actions) (IdentityOverflow ''action ordinal'')) (\<lambda>_.
     let inp = \<lparr>pc_engine_instance_id = engine, pc_decision_id = did, pc_target_version = version,
                pc_asset = a, pc_side = action_sides actionable, pc_reduce_only = reduce_only,
                pc_action_ordinal = length actions, pc_retry_generation = 0\<rparr> in
     and_then (derive_planned_cloid H inp) (\<lambda>cloid.
     Ok (actions @ [\<lparr>pa_decision_id = did, pa_target_version = version, pa_asset = a,
         pa_side = action_sides actionable, pa_rounded_notional = \<bar>actionable\<bar>,
         pa_reduce_only = reduce_only, pa_action_ordinal = length actions,
         pa_retry_generation = 0, pa_planned_cloid = cloid\<rparr>]))))"

definition construct_planned_actions ::
  "(bytes \<Rightarrow> bytes) \<Rightarrow> engine_instance_id \<Rightarrow> decision_id \<Rightarrow> target_version \<Rightarrow> portfolio_projection
     \<Rightarrow> (asset, bool) bmap \<Rightarrow> planned_action list identity" where
  "construct_planned_actions H engine did version projection reduce_only_by_asset =
    try_fold (plan_action H engine did version projection reduce_only_by_asset) []
      (entries (rounded_deltas projection))"

section \<open>Prefix codes\<close>

text \<open>
  The contract of an encoder whose output is parsed back uniquely: whatever follows, two encodings
  that agree encode the same value and are followed by the same bytes.
\<close>

locale prefix_code =
  fixes enc :: "'a \<Rightarrow> bytes identity" and valid :: "'a \<Rightarrow> bool"
  assumes unique: "enc x = Ok b \<Longrightarrow> enc y = Ok c \<Longrightarrow> valid x \<Longrightarrow> valid y \<Longrightarrow> b @ r = c @ s \<Longrightarrow>
    x = y \<and> r = s"
begin

lemma enc_all_unique:
  "enc_all enc xs = Ok b \<Longrightarrow> enc_all enc ys = Ok c \<Longrightarrow> length xs = length ys \<Longrightarrow>
     list_all valid xs \<Longrightarrow> list_all valid ys \<Longrightarrow> b @ r = c @ s \<Longrightarrow> xs = ys \<and> r = s"
proof (induction xs arbitrary: ys b c)
  case (Cons x xs)
  then obtain y ys' where ys: "ys = y # ys'" by (cases ys) auto
  from Cons.prems(1) obtain b1 b2 where b: "enc x = Ok b1" "enc_all enc xs = Ok b2" "b = b1 @ b2"
    by (auto simp: outcome_simps)
  from Cons.prems(2) obtain c1 c2 where c: "enc y = Ok c1" "enc_all enc ys' = Ok c2" "c = c1 @ c2"
    by (auto simp: outcome_simps ys)
  have "b1 @ (b2 @ r) = c1 @ (c2 @ s)" using Cons.prems(6) b(3) c(3) by simp
  from unique [OF b(1) c(1) _ _ this] Cons.prems(4,5) have "x = y" "b2 @ r = c2 @ s"
    by (simp_all add: ys)
  with Cons.IH [OF b(2) c(2)] Cons.prems(3-5) show ?case by (simp add: ys)
qed (auto simp: outcome_simps)

end

lemma length_be_bytes [simp]: "length (be_bytes k n) = k"
  by (induction k arbitrary: n) auto

lemma byte_inj: "a < 256 \<Longrightarrow> b < 256 \<Longrightarrow> (word_of_nat a :: byte) = word_of_nat b \<Longrightarrow> a = b"
  by (drule arg_cong [where f = unat]) (simp add: unat_of_nat)

lemma be_bytes_inj: "be_bytes k n = be_bytes k m \<Longrightarrow> n < 256 ^ k \<Longrightarrow> m < 256 ^ k \<Longrightarrow> n = m"
proof (induction k arbitrary: n m)
  case (Suc k)
  from Suc.prems(1) have "be_bytes k (n div 256) = be_bytes k (m div 256)"
    and low: "(word_of_nat (n mod 256) :: byte) = word_of_nat (m mod 256)" by simp_all
  moreover have "n div 256 < 256 ^ k" "m div 256 < 256 ^ k"
    using Suc.prems(2,3) by (simp_all add: less_mult_imp_div_less mult.commute)
  ultimately have "n div 256 = m div 256" using Suc.IH by blast
  moreover have "n mod 256 = m mod 256" using low by (rule byte_inj [rotated 2]) simp_all
  ultimately show ?case by (metis div_mult_mod_eq)
qed simp

lemma enc_inj:
  "enc_u8 n = enc_u8 m \<Longrightarrow> n < 2 ^ 8 \<Longrightarrow> m < 2 ^ 8 \<Longrightarrow> n = m"
  "enc_u32 n = enc_u32 m \<Longrightarrow> n < 2 ^ 32 \<Longrightarrow> m < 2 ^ 32 \<Longrightarrow> n = m"
  "enc_u64 n = enc_u64 m \<Longrightarrow> n < 2 ^ 64 \<Longrightarrow> m < 2 ^ 64 \<Longrightarrow> n = m"
  unfolding enc_u8_def enc_u32_def enc_u64_def by (erule be_bytes_inj, simp_all)+

lemma length_enc [simp]:
  "length (enc_u8 n) = 1" "length (enc_u32 n) = 4" "length (enc_u64 n) = 8"
  "length (enc_i128 i) = 16" "length (enc_decimal x) = 20" "length (enc_bool b) = 1"
  by (simp_all add: enc_u8_def enc_u32_def enc_u64_def enc_i128_def enc_decimal_def enc_bool_def)

lemma char_byte_inj: "char_byte c = char_byte d \<Longrightarrow> c = d"
proof -
  assume "char_byte c = char_byte d"
  then have "(of_char c :: nat) = of_char d"
    unfolding char_byte_def by (rule byte_inj [rotated 2]) simp_all
  then show ?thesis by simp
qed

lemma str_bytes_inj: "str_bytes s = str_bytes t \<Longrightarrow> s = t"
  unfolding str_bytes_def by (metis char_byte_inj injI inj_map_eq_map)

lemma enc_length_Ok [outcome_simps]: "enc_length n = Ok b \<longleftrightarrow> n < 2 ^ 32 \<and> b = enc_u32 n"
  by (auto simp: enc_length_def)

lemma enc_length_no_Panic [simp]: "enc_length n \<noteq> Panic"
  by (simp add: enc_length_def)

lemma enc_string_no_Panic [simp]: "enc_string s \<noteq> Panic"
  by (simp add: enc_string_def and_then_Panic)

lemma enc_all_no_Panic: "(\<And>x. x \<in> set xs \<Longrightarrow> f x \<noteq> Panic) \<Longrightarrow> enc_all f xs \<noteq> Panic"
  by (induction xs) (auto simp: and_then_Panic)

interpretation strings: prefix_code enc_string "\<lambda>_. True"
proof
  fix x y and b c r s :: bytes
  assume "enc_string x = Ok b" "enc_string y = Ok c" "b @ r = c @ s"
  then have l: "length x < 2 ^ 32" "length y < 2 ^ 32"
    and eq: "enc_u32 (length x) @ (str_bytes x @ r) = enc_u32 (length y) @ (str_bytes y @ s)"
    by (auto simp: enc_string_def outcome_simps)
  from eq have e: "enc_u32 (length x) = enc_u32 (length y)" "str_bytes x @ r = str_bytes y @ s"
    by (simp_all add: append_eq_append_conv)
  then have "length x = length y" using l by (intro enc_inj(2))
  then have "str_bytes x = str_bytes y \<and> r = s"
    using e(2) by (simp add: append_eq_append_conv str_bytes_def)
  then show "x = y \<and> r = s" using str_bytes_inj by blast
qed

lemma is_integer_floor: "is_integer x \<Longrightarrow> of_int \<lfloor>x\<rfloor> = x"
  by (simp add: is_integer_def)

lemma normal_scale_props:
  assumes "representable x"
  shows "normal_scale x < 29" "is_integer (x * 10 ^ normal_scale x)"
    "\<bar>normal_mantissa x\<bar> < 2 ^ 96"
proof -
  from assms obtain s0 where s0: "s0 < 29" "is_integer (x * 10 ^ s0)" "\<bar>x * 10 ^ s0\<bar> < 2 ^ 96"
    by (auto simp: representable_def list_ex_iff)
  obtain s where s: "List.find (\<lambda>s. is_integer (x * 10 ^ s)) [0..<29] = Some s"
    using s0(1,2) by (cases "List.find (\<lambda>s. is_integer (x * 10 ^ s)) [0..<29]") (auto simp: find_None_iff)
  then obtain i where i: "i < 29" "is_integer (x * 10 ^ i)" "s = i" "\<forall>j<i. \<not> is_integer (x * 10 ^ j)"
    by (auto simp: find_Some_iff)
  have eq: "normal_scale x = s" using s by (simp add: normal_scale_def)
  show "normal_scale x < 29" "is_integer (x * 10 ^ normal_scale x)"
    using i by (simp_all add: eq)
  have "s \<le> s0" using i s0(2) by (metis not_le)
  then have "\<bar>x * 10 ^ s\<bar> \<le> \<bar>x * 10 ^ s0\<bar>"
    by (simp add: abs_mult mult_left_mono power_increasing)
  with s0(3) have "\<bar>x * 10 ^ s\<bar> < 2 ^ 96" by simp
  moreover have "\<bar>of_int (normal_mantissa x) :: rat\<bar> = \<bar>x * 10 ^ s\<bar>"
    using i(2,3) by (simp add: normal_mantissa_def eq is_integer_floor)
  ultimately have "of_int \<bar>normal_mantissa x\<bar> < (of_int (2 ^ 96) :: rat)" by simp
  then show "\<bar>normal_mantissa x\<bar> < 2 ^ 96" by (simp only: of_int_less_iff)
qed

lemma enc_i128_inj: "enc_i128 i = enc_i128 j \<Longrightarrow> \<bar>i\<bar> < 2 ^ 96 \<Longrightarrow> \<bar>j\<bar> < 2 ^ 96 \<Longrightarrow> i = j"
proof -
  assume eq: "enc_i128 i = enc_i128 j" and b: "\<bar>i\<bar> < 2 ^ 96" "\<bar>j\<bar> < 2 ^ 96"
  have "nat (i mod 2 ^ 128) = nat (j mod 2 ^ 128)"
    using eq unfolding enc_i128_def
    by (rule be_bytes_inj) (simp_all add: nat_less_iff)
  then have "i mod 2 ^ 128 = j mod 2 ^ 128" by (simp add: nat_eq_iff)
  then have "(2 :: int) ^ 128 dvd i - j" by (simp add: mod_eq_dvd_iff)
  moreover have "\<bar>i - j\<bar> < 2 ^ 128" using b by simp
  ultimately have "i - j = 0"
    using dvd_imp_le_int [of "i - j" "2 ^ 128"] by fastforce
  then show "i = j" by simp
qed

lemma enc_decimal_inj:
  "enc_decimal x = enc_decimal y \<Longrightarrow> representable x \<Longrightarrow> representable y \<Longrightarrow> x = y"
proof -
  assume eq: "enc_decimal x = enc_decimal y" and rep: "representable x" "representable y"
  note px = normal_scale_props [OF rep(1)] and py = normal_scale_props [OF rep(2)]
  from eq have "enc_i128 (normal_mantissa x) = enc_i128 (normal_mantissa y)"
    "enc_u32 (normal_scale x) = enc_u32 (normal_scale y)"
    by (simp_all add: enc_decimal_def append_eq_append_conv)
  then have e: "enc_i128 (normal_mantissa x) = enc_i128 (normal_mantissa y)"
    "enc_u32 (normal_scale x) = enc_u32 (normal_scale y)" by simp_all
  have m: "normal_mantissa x = normal_mantissa y"
    using e(1) px(3) py(3) by (rule enc_i128_inj)
  have small: "n < 29 \<Longrightarrow> n < 2 ^ 32" for n :: nat by simp
  have s: "normal_scale x = normal_scale y"
    using e(2) small [OF px(1)] small [OF py(1)] by (rule enc_inj(2))
  have "x * 10 ^ normal_scale x = of_int (normal_mantissa x)"
    using is_integer_floor [OF px(2)] by (simp only: normal_mantissa_def)
  moreover have "y * 10 ^ normal_scale y = of_int (normal_mantissa y)"
    using is_integer_floor [OF py(2)] by (simp only: normal_mantissa_def)
  ultimately have "x * 10 ^ normal_scale x = y * 10 ^ normal_scale x" by (simp only: m s)
  then show "x = y" by (simp only: mult_cancel_right) simp
qed

section \<open>Properties\<close>

text \<open>A planned cloid input as the program builds it: identifiers and integers at their width.\<close>

definition cloid_input_ok :: "planned_cloid_input \<Rightarrow> bool" where
  "cloid_input_ok i = (length (pc_engine_instance_id i) = 16 \<and> length (pc_decision_id i) = 32
     \<and> pc_target_version i < 2 ^ 64 \<and> pc_action_ordinal i < 2 ^ 32 \<and> pc_retry_generation i < 2 ^ 32)"

lemma side_code_inj: "enc_u8 (side_code a) = enc_u8 (side_code b) \<Longrightarrow> a = b"
  by (cases a; cases b) (auto dest!: enc_inj(1))

lemma enc_bool_inj: "enc_bool a = enc_bool b \<Longrightarrow> a = b"
  unfolding enc_bool_def by (drule enc_inj(1)) (auto split: if_splits)

text \<open>
  The bytes a planned client order id is hashed from determine every field of its input, so
  two distinct actions (in engine, decision, target version, asset, side, reduce-only flag,
  ordinal or retry generation) never hash the same message.
\<close>

theorem planned_cloid_encoding_injective:
  assumes "planned_cloid_bytes i = Ok b" "planned_cloid_bytes j = Ok b"
    and "cloid_input_ok i" "cloid_input_ok j"
  shows "i = j"
proof -
  from assms(1) obtain s where i: "enc_string (pc_asset i) = Ok s"
    "b = CLOID_DOMAIN @ pc_engine_instance_id i @ pc_decision_id i @ enc_u64 (pc_target_version i)
        @ s @ enc_u8 (side_code (pc_side i)) @ enc_bool (pc_reduce_only i)
        @ enc_u32 (pc_action_ordinal i) @ enc_u32 (pc_retry_generation i)"
    by (auto simp: planned_cloid_bytes_def outcome_simps)
  from assms(2) obtain t where j: "enc_string (pc_asset j) = Ok t"
    "b = CLOID_DOMAIN @ pc_engine_instance_id j @ pc_decision_id j @ enc_u64 (pc_target_version j)
        @ t @ enc_u8 (side_code (pc_side j)) @ enc_bool (pc_reduce_only j)
        @ enc_u32 (pc_action_ordinal j) @ enc_u32 (pc_retry_generation j)"
    by (auto simp: planned_cloid_bytes_def outcome_simps)
  note ok = assms(3,4) [unfolded cloid_input_ok_def]
  from i(2) j(2) ok have head: "pc_engine_instance_id i = pc_engine_instance_id j"
    "pc_decision_id i = pc_decision_id j" "enc_u64 (pc_target_version i) = enc_u64 (pc_target_version j)"
    and "s @ enc_u8 (side_code (pc_side i)) @ enc_bool (pc_reduce_only i)
        @ enc_u32 (pc_action_ordinal i) @ enc_u32 (pc_retry_generation i)
      = t @ enc_u8 (side_code (pc_side j)) @ enc_bool (pc_reduce_only j)
        @ enc_u32 (pc_action_ordinal j) @ enc_u32 (pc_retry_generation j)"
    by (simp_all add: append_eq_append_conv)
  from strings.unique [OF i(1) j(1) _ _ this(4)] have a: "pc_asset i = pc_asset j"
    and "enc_u8 (side_code (pc_side i)) @ enc_bool (pc_reduce_only i)
        @ enc_u32 (pc_action_ordinal i) @ enc_u32 (pc_retry_generation i)
      = enc_u8 (side_code (pc_side j)) @ enc_bool (pc_reduce_only j)
        @ enc_u32 (pc_action_ordinal j) @ enc_u32 (pc_retry_generation j)" by simp_all
  then have "pc_side i = pc_side j" "pc_reduce_only i = pc_reduce_only j"
    "enc_u32 (pc_action_ordinal i) = enc_u32 (pc_action_ordinal j)"
    "enc_u32 (pc_retry_generation i) = enc_u32 (pc_retry_generation j)"
    by (simp_all add: append_eq_append_conv side_code_inj enc_bool_inj)
  with head a ok show ?thesis
    by (intro planned_cloid_input.equality) (auto dest: enc_inj(2,3))
qed

definition sample_cloid_input :: planned_cloid_input where
  "sample_cloid_input = \<lparr>pc_engine_instance_id = replicate 16 1, pc_decision_id = replicate 32 2,
     pc_target_version = 7, pc_asset = ''BTC'', pc_side = Sell, pc_reduce_only = True,
     pc_action_ordinal = 3, pc_retry_generation = 0\<rparr>"

lemma planned_cloid_encoding_injective_witness:
  "\<exists>b. planned_cloid_bytes sample_cloid_input = Ok b
     \<and> planned_cloid_bytes (sample_cloid_input\<lparr>pc_retry_generation := 1\<rparr>) \<noteq> Ok b"
proof -
  have "is_ok (planned_cloid_bytes sample_cloid_input)"
    by (simp add: planned_cloid_bytes_def enc_string_def enc_length_def sample_cloid_input_def)
  then obtain b where b: "planned_cloid_bytes sample_cloid_input = Ok b"
    by (auto simp: is_ok_def split: outcome.splits)
  have ok: "cloid_input_ok sample_cloid_input" "cloid_input_ok (sample_cloid_input\<lparr>pc_retry_generation := 1\<rparr>)"
    by (simp_all add: cloid_input_ok_def sample_cloid_input_def)
  have "sample_cloid_input \<noteq> sample_cloid_input\<lparr>pc_retry_generation := 1\<rparr>"
    by (simp add: sample_cloid_input_def)
  with planned_cloid_encoding_injective [OF b _ ok] b show ?thesis by blast
qed

text \<open>The entries of a target vector, and the maps they come from.\<close>

definition enc_target :: "asset \<times> rat \<Rightarrow> bytes identity" where
  "enc_target e = and_then (enc_string (fst e)) (\<lambda>s. Ok (s @ enc_decimal (snd e)))"

interpretation targets: prefix_code enc_target "\<lambda>e. representable (snd e)"
proof
  fix x y :: "asset \<times> rat" and b c r s :: bytes
  assume "enc_target x = Ok b" "enc_target y = Ok c" and rep: "representable (snd x)" "representable (snd y)"
    and eq: "b @ r = c @ s"
  then obtain b1 c1 where s: "enc_string (fst x) = Ok b1" "enc_string (fst y) = Ok c1"
    and bc: "b = b1 @ enc_decimal (snd x)" "c = c1 @ enc_decimal (snd y)"
    by (auto simp: enc_target_def outcome_simps)
  have "b1 @ (enc_decimal (snd x) @ r) = c1 @ (enc_decimal (snd y) @ s)" using eq bc by simp
  from strings.unique [OF s _ _ this] have "fst x = fst y"
    "enc_decimal (snd x) @ r = enc_decimal (snd y) @ s" by simp_all
  then show "x = y \<and> r = s"
    using enc_decimal_inj [OF _ rep] by (auto simp: append_eq_append_conv prod_eq_iff)
qed

text \<open>
  The bytes a target vector is hashed from determine the vector: two target vectors of
  representable values with the same canonical bytes are equal, so a changed target never keeps
  its version by an encoding collision.
\<close>

theorem target_encoding_injective:
  assumes "target_bytes t = Ok b" "target_bytes u = Ok b"
    and "list_all representable (bvals t)" "list_all representable (bvals u)"
  shows "t = u"
proof -
  have enc: "enc_target = (\<lambda>e. and_then (enc_string (fst e)) (\<lambda>s. Ok (s @ enc_decimal (snd e))))"
    by (simp add: fun_eq_iff enc_target_def)
  from assms(1) obtain bt where t: "bsize t < 2 ^ 32" "enc_all enc_target (entries t) = Ok bt"
    "b = TARGET_DOMAIN @ enc_u32 (bsize t) @ bt"
    by (auto simp: target_bytes_def outcome_simps enc)
  from assms(2) obtain bu where u: "bsize u < 2 ^ 32" "enc_all enc_target (entries u) = Ok bu"
    "b = TARGET_DOMAIN @ enc_u32 (bsize u) @ bu"
    by (auto simp: target_bytes_def outcome_simps enc)
  from t(3) u(3) have "enc_u32 (bsize t) = enc_u32 (bsize u)" "bt = bu"
    by (simp_all add: append_eq_append_conv)
  then have "bsize t = bsize u" using t(1) u(1) by (intro enc_inj(2))
  then have len: "length (entries t) = length (entries u)" by (simp add: bsize_def)
  have reps: "list_all (\<lambda>e. representable (snd e)) (entries m)" if "list_all representable (bvals m)" for m :: "(asset, rat) bmap"
    using that by (simp add: bvals_def list_all_iff)
  have "bt @ [] = bu @ []" using \<open>bt = bu\<close> by simp
  from targets.enc_all_unique [OF t(2) u(2) len reps [OF assms(3)] reps [OF assms(4)] this]
  show ?thesis using bm.items_inject by blast
qed

lemma target_encoding_injective_witness:
  "\<exists>b. target_bytes (bcollect [(''BTC'', 3 / 2)]) = Ok b \<and> target_bytes (bcollect [(''BTC'', 15)]) \<noteq> Ok b"
proof -
  let ?t = "bcollect [(''BTC'', 3 / 2)] :: (asset, rat) bmap" and ?u = "bcollect [(''BTC'', 15)] :: (asset, rat) bmap"
  have ents: "entries ?t = [(''BTC'', 3 / 2)]" by code_simp
  have "is_ok (target_bytes ?t)"
    by (simp add: target_bytes_def enc_string_def enc_length_def ents bsize_def)
  then obtain b where b: "target_bytes ?t = Ok b" by (auto simp: is_ok_def split: outcome.splits)
  have r: "list_all representable (bvals ?t)" "list_all representable (bvals ?u)" by code_simp+
  have "bget ?t ''BTC'' \<noteq> bget ?u ''BTC''" by (simp add: bcollect_def)
  with target_encoding_injective [OF b _ r] b show ?thesis by metis
qed

text \<open>
  The snapshot-set id does not depend on the order the members arrive in: any permutation of
  members with distinct candidates derives the same id (or the same error).
\<close>

theorem snapshot_set_id_order_independent:
  assumes "mset ms = mset ns" and "distinct (map candidate_id ms)"
  shows "derive_snapshot_set_id H ms = derive_snapshot_set_id H ns"
  using sort_by_perm [OF assms]
  by (simp add: derive_snapshot_set_id_def snapshot_set_bytes_def sort_members_def)

definition sample_member :: "string \<Rightarrow> snapshot_set_member" where
  "sample_member c = \<lparr>candidate_id = c, accepted_sequence = 1, payload_hash_of = replicate 32 0,
     received_at_mono = 5, valid_until_mono = 9\<rparr>"

lemma snapshot_set_id_order_independent_witness:
  "derive_snapshot_set_id id [sample_member ''b'', sample_member ''a'']
     = derive_snapshot_set_id id [sample_member ''a'', sample_member ''b'']"
  by (rule snapshot_set_id_order_independent) (simp_all add: sample_member_def)

text \<open>What the actions built so far satisfy.\<close>

definition actions_ok :: "portfolio_projection \<Rightarrow> (asset, bool) bmap \<Rightarrow> planned_action list \<Rightarrow> bool" where
  "actions_ok projection reduce actions =
    (map pa_action_ordinal actions = [0..<length actions] \<and>
     (\<forall>a \<in> set actions. 0 < pa_rounded_notional a \<and> pa_retry_generation a = 0
        \<and> pa_reduce_only a = bget_or False reduce (pa_asset a)
        \<and> (let delta = bget_or 0 (rounded_deltas projection) (pa_asset a);
               d = (if delta = 0 \<and> pa_reduce_only a then bget_or 0 (proposed_deltas projection) (pa_asset a) else delta)
           in d \<noteq> 0 \<and> pa_side a = action_sides d \<and> pa_rounded_notional a = \<bar>d\<bar>)))"

lemma actions_ok_Nil: "actions_ok projection reduce []"
  by (simp add: actions_ok_def)

lemma plan_action_ok:
  assumes "plan_action H engine did version projection reduce actions e = Ok actions'"
    and "actions_ok projection reduce actions" and "e \<in> set (entries (rounded_deltas projection))"
  shows "actions_ok projection reduce actions'
    \<and> map pa_asset actions' = map pa_asset actions @ (if length actions' = length actions then [] else [fst e])"
proof -
  have "bget_or 0 (rounded_deltas projection) (fst e) = snd e"
    using assms(3) by (simp add: entries_get bget_or_def)
  with assms(1,2) show ?thesis
    by (auto simp: plan_action_def Let_def outcome_simps actions_ok_def split: if_splits)
qed

text \<open>
  The actions planned from a decision are numbered 0, 1, 2, ... in asset order, at most one
  per asset; each has a positive notional and the side of the delta it executes (the rounded
  delta, or the proposed one where a reduction rounded to zero), and starts at retry generation 0.
\<close>

theorem planned_actions_well_formed:
  assumes "construct_planned_actions H engine did version projection reduce = Ok actions"
  shows "actions_ok projection reduce actions \<and> sorted_wrt (<) (map pa_asset actions)"
proof -
  let ?f = "plan_action H engine did version projection reduce"
  have "try_fold ?f acc es = Ok res \<Longrightarrow> actions_ok projection reduce acc \<Longrightarrow>
      set es \<subseteq> set (entries (rounded_deltas projection)) \<Longrightarrow>
      sorted_wrt (<) (map pa_asset acc @ map fst es) \<Longrightarrow>
      actions_ok projection reduce res \<and> sorted_wrt (<) (map pa_asset res)" for acc es res
  proof (induction es arbitrary: acc)
    case (Cons e es)
    from Cons.prems(1) obtain acc' where s: "?f acc e = Ok acc'" "try_fold ?f acc' es = Ok res"
      by (auto simp: outcome_simps)
    have "e \<in> set (entries (rounded_deltas projection))" using Cons.prems(3) by simp
    from plan_action_ok [OF s(1) Cons.prems(2) this] Cons.prems(4)
    have "actions_ok projection reduce acc'" "sorted_wrt (<) (map pa_asset acc' @ map fst es)"
      by (auto simp: sorted_wrt_append)
    with Cons.IH [OF s(2)] Cons.prems(3) show ?case by simp
  qed simp
  note run = this [OF assms [unfolded construct_planned_actions_def] actions_ok_Nil order_refl]
  have "sorted_wrt (<) (map pa_asset [] @ map fst (entries (rounded_deltas projection)))"
    using bm.items_sorted [of "rounded_deltas projection"] by simp
  then show ?thesis by (rule run)
qed

lemma planned_actions_well_formed_witness:
  "\<exists>actions p. construct_planned_actions (\<lambda>b. replicate 32 0) [] [] 0 p bempty = Ok actions
     \<and> length actions = 2 \<and> sorted_wrt (<) (map pa_asset actions)"
proof -
  define p :: portfolio_projection where "p = \<lparr>constrained_targets = bempty, proposed_deltas = bempty,
    rounded_deltas = bcollect [(''ETH'', -3), (''BTC'', 2)], exposure_ranges = bempty,
    maximum_projected_gross = 5, minimum_projected_net = -3, maximum_projected_net = 2\<rparr>"
  have "(case construct_planned_actions (\<lambda>b. replicate 32 0) [] [] 0 p bempty of
      Ok as \<Rightarrow> length as = 2 | _ \<Rightarrow> False)"
  proof -
    have ents: "entries (bcollect [(''ETH'', -3), (''BTC'', 2)] :: (asset, rat) bmap) = [(''BTC'', 2), (''ETH'', -3)]"
      by code_simp
    show ?thesis
      by (simp add: p_def construct_planned_actions_def ents plan_action_def Let_def derive_planned_cloid_def
          planned_cloid_bytes_def enc_string_def enc_length_def)
  qed
  then obtain actions where "construct_planned_actions (\<lambda>b. replicate 32 0) [] [] 0 p bempty = Ok actions"
    "length actions = 2" by (auto split: outcome.splits)
  with planned_actions_well_formed [OF this(1)] show ?thesis by blast
qed

end
