(* ===== verification/Lifecycle.thy ===== *)
theory Lifecycle
  imports Identity
begin

text \<open>
  The life of a planned action (\<open>copytrade-core/src/lifecycle.rs\<close>): the transition function from
  construction to reconciliation, the retry it authorizes, and the registry of all actions.
\<close>

section \<open>States, events and policy\<close>

type_synonym exchange_order_ref = string
type_synonym rejection_reason = string

datatype lifecycle_state =
    DecisionConstructed decision_id
  | RiskValidated decision_id
  | ActionPlanned planned_action
  | AwaitingFutureSubmission planned_action
  | SubmissionUnknown planned_action timestamp nat "timestamp list"
  | ReconciledNotFound planned_action
  | ReconciledOpen planned_action exchange_order_ref
  | ReconciledPartiallyFilled planned_action exchange_order_ref rat
  | ReconciledFilled planned_action exchange_order_ref rat
  | ReconciledCancelled planned_action "exchange_order_ref option"
  | ReconciledRejected planned_action rejection_reason

datatype reconciliation_observation =
    NotFound timestamp
  | Open exchange_order_ref rat rat timestamp
  | Filled exchange_order_ref rat timestamp
  | Cancelled exchange_order_ref rat timestamp
  | Rejected rejection_reason timestamp

datatype lifecycle_event =
    EventRiskValidated decision_id
  | EventActionPlanned planned_action
  | AwaitFutureSubmission
  | FutureSubmissionUnknown timestamp
  | ReconciliationObserved reconciliation_observation

fun observed_at :: "reconciliation_observation \<Rightarrow> timestamp" where
  "observed_at (NotFound t) = t"
| "observed_at (Open _ _ _ t) = t"
| "observed_at (Filled _ _ t) = t"
| "observed_at (Cancelled _ _ t) = t"
| "observed_at (Rejected _ t) = t"

record reconciliation_policy =
  required_not_found_confirmations :: nat
  minimum_confirmation_interval_ms :: nat
  maximum_attempts :: nat
  maximum_unknown_lifetime_ms :: nat

datatype transition_error =
    InvalidTransition | IdentityMismatch | InvalidObservation | ReconciliationAttemptLimit
  | UnknownLifetimeExceeded | ReconciliationConflict | InvalidPolicy
  | RetryGenerationNotAuthorized | RetryGenerationOverflow

type_synonym 'a transition = "('a, transition_error) outcome"

definition validate_policy :: "reconciliation_policy \<Rightarrow> reconciliation_policy transition" where
  "validate_policy p = and_then (fail_if
     (required_not_found_confirmations p = 0 \<or> minimum_confirmation_interval_ms p = 0
      \<or> maximum_attempts p < required_not_found_confirmations p
      \<or> maximum_unknown_lifetime_ms p = 0) InvalidPolicy) (\<lambda>_. Ok p)"

fun action_of :: "lifecycle_state \<Rightarrow> planned_action option" where
  "action_of (DecisionConstructed _) = None"
| "action_of (RiskValidated _) = None"
| "action_of (ActionPlanned a) = Some a"
| "action_of (AwaitingFutureSubmission a) = Some a"
| "action_of (SubmissionUnknown a _ _ _) = Some a"
| "action_of (ReconciledNotFound a) = Some a"
| "action_of (ReconciledOpen a _) = Some a"
| "action_of (ReconciledPartiallyFilled a _ _) = Some a"
| "action_of (ReconciledFilled a _ _) = Some a"
| "action_of (ReconciledCancelled a _) = Some a"
| "action_of (ReconciledRejected a _) = Some a"

fun is_terminal :: "lifecycle_state \<Rightarrow> bool" where
  "is_terminal (ReconciledNotFound _) = True"
| "is_terminal (ReconciledFilled _ _ _) = True"
| "is_terminal (ReconciledCancelled _ _) = True"
| "is_terminal (ReconciledRejected _ _) = True"
| "is_terminal _ = False"

section \<open>Transitions\<close>

definition validate_filled :: "rat \<Rightarrow> unit transition" where
  "validate_filled filled = fail_if (filled \<le> 0) InvalidObservation"

fun positive_state ::
  "decimal_ops \<Rightarrow> planned_action \<Rightarrow> reconciliation_observation \<Rightarrow> lifecycle_state transition" where
  "positive_state A a (Open ref original remaining _) =
    and_then (fail_if (original \<le> 0 \<or> remaining < 0 \<or> original < remaining) InvalidObservation) (\<lambda>_.
    and_then (ok_or InvalidObservation (d_sub A original remaining)) (\<lambda>filled.
    Ok (if filled = 0 then ReconciledOpen a ref else ReconciledPartiallyFilled a ref filled)))"
| "positive_state A a (Filled ref filled _) =
    and_then (validate_filled filled) (\<lambda>_. Ok (ReconciledFilled a ref filled))"
| "positive_state A a (Cancelled ref filled _) =
    and_then (fail_if (filled < 0) InvalidObservation) (\<lambda>_. Ok (ReconciledCancelled a (Some ref)))"
| "positive_state A a (Rejected reason _) = Ok (ReconciledRejected a reason)"
| "positive_state A a (NotFound _) = Err InvalidObservation"

text \<open>The exchange reference an observation carries.\<close>

fun observed_ref :: "reconciliation_observation \<Rightarrow> exchange_order_ref option" where
  "observed_ref (Open ref _ _ _) = Some ref"
| "observed_ref (Filled ref _ _) = Some ref"
| "observed_ref (Cancelled ref _ _) = Some ref"
| "observed_ref _ = None"

definition accept_candidate :: "lifecycle_state \<Rightarrow> lifecycle_state \<Rightarrow> lifecycle_state transition" where
  "accept_candidate current candidate =
    (if candidate = current then Ok current else
     case current of
       ReconciledOpen _ _ \<Rightarrow> Ok candidate
     | ReconciledPartiallyFilled _ _ filled \<Rightarrow>
         (case candidate of
            ReconciledPartiallyFilled _ _ next \<Rightarrow>
              if filled \<le> next then Ok candidate else Err ReconciliationConflict
          | ReconciledFilled _ _ next \<Rightarrow>
              if filled \<le> next then Ok candidate else Err ReconciliationConflict
          | ReconciledCancelled _ _ \<Rightarrow> Ok candidate
          | _ \<Rightarrow> Err ReconciliationConflict)
     | ReconciledFilled _ _ _ \<Rightarrow> Err ReconciliationConflict
     | ReconciledCancelled _ _ \<Rightarrow> Err ReconciliationConflict
     | _ \<Rightarrow> Err InvalidTransition)"

definition reconcile_known_positive ::
  "decimal_ops \<Rightarrow> lifecycle_state \<Rightarrow> planned_action \<Rightarrow> exchange_order_ref option
     \<Rightarrow> reconciliation_observation \<Rightarrow> lifecycle_state transition" where
  "reconcile_known_positive A current a known observation =
    (case observation of
       NotFound _ \<Rightarrow> Ok current
     | Rejected _ _ \<Rightarrow> Err ReconciliationConflict
     | _ \<Rightarrow>
       if known \<noteq> None \<and> known \<noteq> observed_ref observation then Err ReconciliationConflict
       else and_then (positive_state A a observation) (accept_candidate current))"

definition confirm_not_found ::
  "reconciliation_policy \<Rightarrow> planned_action \<Rightarrow> timestamp \<Rightarrow> nat \<Rightarrow> timestamp list \<Rightarrow> timestamp
     \<Rightarrow> lifecycle_state transition" where
  "confirm_not_found policy a first_unknown_at attempts confirmations t =
    (if maximum_unknown_lifetime_ms policy < saturating_sub t first_unknown_at
       then Err UnknownLifetimeExceeded
     else if confirmations \<noteq> [] \<and> last confirmations = t
       then Ok (SubmissionUnknown a first_unknown_at attempts confirmations)
     else if maximum_attempts policy \<le> attempts then Err ReconciliationAttemptLimit
     else if confirmations \<noteq> []
         \<and> saturating_sub t (last confirmations) < minimum_confirmation_interval_ms policy
       then Err InvalidObservation
     else
       let confirmations' = confirmations @ [t] in
       if required_not_found_confirmations policy \<le> as_width 32 (length confirmations')
       then Ok (ReconciledNotFound a)
       else Ok (SubmissionUnknown a first_unknown_at (attempts + 1) confirmations'))"

fun apply_reconciliation_observation ::
  "decimal_ops \<Rightarrow> lifecycle_state \<Rightarrow> reconciliation_observation \<Rightarrow> reconciliation_policy
     \<Rightarrow> lifecycle_state transition" where
  "apply_reconciliation_observation A (SubmissionUnknown a first_unknown_at attempts confirmations) obs policy =
    (if observed_at obs < first_unknown_at then Err InvalidObservation
     else case obs of
       NotFound t \<Rightarrow> confirm_not_found policy a first_unknown_at attempts confirmations t
     | _ \<Rightarrow> positive_state A a obs)"
| "apply_reconciliation_observation A (ReconciledNotFound a) obs policy =
    (case obs of NotFound _ \<Rightarrow> Ok (ReconciledNotFound a) | _ \<Rightarrow> positive_state A a obs)"
| "apply_reconciliation_observation A (ReconciledOpen a ref) obs policy =
    reconcile_known_positive A (ReconciledOpen a ref) a (Some ref) obs"
| "apply_reconciliation_observation A (ReconciledPartiallyFilled a ref filled) obs policy =
    reconcile_known_positive A (ReconciledPartiallyFilled a ref filled) a (Some ref) obs"
| "apply_reconciliation_observation A (ReconciledFilled a ref filled) obs policy =
    reconcile_known_positive A (ReconciledFilled a ref filled) a (Some ref) obs"
| "apply_reconciliation_observation A (ReconciledCancelled a ref) obs policy =
    reconcile_known_positive A (ReconciledCancelled a ref) a ref obs"
| "apply_reconciliation_observation A (ReconciledRejected a reason) obs policy =
    (case obs of
       Rejected observed _ \<Rightarrow>
         if reason = observed then Ok (ReconciledRejected a reason) else Err ReconciliationConflict
     | NotFound _ \<Rightarrow> Ok (ReconciledRejected a reason)
     | _ \<Rightarrow> Err ReconciliationConflict)"
| "apply_reconciliation_observation A _ obs policy = Err InvalidTransition"

definition apply_event :: "decimal_ops \<Rightarrow> lifecycle_state \<Rightarrow> lifecycle_event \<Rightarrow> reconciliation_policy
     \<Rightarrow> lifecycle_state transition" where
  "apply_event A current event policy =
    (case event of
       EventRiskValidated event_id \<Rightarrow>
         (case current of
            DecisionConstructed d \<Rightarrow> if d = event_id then Ok (RiskValidated d) else Err InvalidTransition
          | RiskValidated d \<Rightarrow> if d = event_id then Ok current else Err InvalidTransition
          | _ \<Rightarrow> Err InvalidTransition)
     | EventActionPlanned a \<Rightarrow>
         (case current of
            RiskValidated d \<Rightarrow> if d = pa_decision_id a then Ok (ActionPlanned a) else Err InvalidTransition
          | ActionPlanned b \<Rightarrow> if b = a then Ok current else Err InvalidTransition
          | _ \<Rightarrow> Err InvalidTransition)
     | AwaitFutureSubmission \<Rightarrow>
         (case current of
            ActionPlanned a \<Rightarrow> Ok (AwaitingFutureSubmission a)
          | AwaitingFutureSubmission _ \<Rightarrow> Ok current
          | _ \<Rightarrow> Err InvalidTransition)
     | FutureSubmissionUnknown t \<Rightarrow>
         (case current of
            AwaitingFutureSubmission a \<Rightarrow> Ok (SubmissionUnknown a t 0 [])
          | SubmissionUnknown _ t0 _ _ \<Rightarrow> if t0 = t then Ok current else Err InvalidTransition
          | _ \<Rightarrow> Err InvalidTransition)
     | ReconciliationObserved obs \<Rightarrow> apply_reconciliation_observation A current obs policy)"

definition apply_lifecycle_event ::
  "decimal_ops \<Rightarrow> lifecycle_state \<Rightarrow> lifecycle_event \<Rightarrow> reconciliation_policy \<Rightarrow> lifecycle_state transition" where
  "apply_lifecycle_event A current event policy =
    and_then (validate_policy policy) (apply_event A current event)"

section \<open>Retry\<close>

definition plan_reconciled_retry ::
  "(bytes \<Rightarrow> bytes) \<Rightarrow> lifecycle_state \<Rightarrow> engine_instance_id \<Rightarrow> planned_action transition" where
  "plan_reconciled_retry H current engine =
    (case current of
       ReconciledNotFound a \<Rightarrow>
         and_then (ok_or RetryGenerationOverflow (checked_add_nat 32 (pa_retry_generation a) 1)) (\<lambda>g.
         and_then (map_err (\<lambda>_. RetryGenerationOverflow) (derive_planned_cloid H
           \<lparr>pc_engine_instance_id = engine, pc_decision_id = pa_decision_id a,
            pc_target_version = pa_target_version a, pc_asset = pa_asset a, pc_side = pa_side a,
            pc_reduce_only = pa_reduce_only a, pc_action_ordinal = pa_action_ordinal a,
            pc_retry_generation = g\<rparr>)) (\<lambda>cloid.
         Ok (a\<lparr>pa_retry_generation := g, pa_planned_cloid := cloid\<rparr>)))
     | _ \<Rightarrow> Err RetryGenerationNotAuthorized)"

section \<open>Registry\<close>

datatype risk_authorization = NoIncreasePermitted | ReduceOnlyPermitted | NormalPlanningPermitted

datatype registry_error =
  DuplicateCloid | CapacityExhausted | MissingCloid | Transition transition_error

record lifecycle_registry =
  by_cloid :: "(planned_cloid, lifecycle_state) bmap"
  by_asset :: "(asset, planned_cloid bset) bmap"
  blocked_assets :: "asset bset"
  maximum_entries :: nat

definition new_registry :: "nat \<Rightarrow> (lifecycle_registry, registry_error) outcome" where
  "new_registry n = (if n = 0 then Err CapacityExhausted
     else Ok \<lparr>by_cloid = bempty, by_asset = bempty, blocked_assets = bempty, maximum_entries = n\<rparr>)"

definition registry_insert ::
  "lifecycle_registry \<Rightarrow> lifecycle_state \<Rightarrow> (lifecycle_registry, registry_error) outcome" where
  "registry_insert reg state =
    and_then (ok_or MissingCloid (action_of state)) (\<lambda>a.
    and_then (fail_if (bhas (by_cloid reg) (pa_planned_cloid a)) DuplicateCloid) (\<lambda>_.
    and_then (fail_if (maximum_entries reg \<le> bsize (by_cloid reg)) CapacityExhausted) (\<lambda>_.
    Ok (reg\<lparr>by_asset := binsert (pa_asset a)
              (binsert (pa_planned_cloid a) () (bget_or bempty (by_asset reg) (pa_asset a))) (by_asset reg),
            by_cloid := binsert (pa_planned_cloid a) state (by_cloid reg)\<rparr>))))"

text \<open>\<open>apply\<close> changes the registry on success and also when it reports a conflict.\<close>

definition registry_apply ::
  "decimal_ops \<Rightarrow> lifecycle_registry \<Rightarrow> planned_cloid \<Rightarrow> lifecycle_event \<Rightarrow> reconciliation_policy
     \<Rightarrow> (lifecycle_state, registry_error) outcome \<times> lifecycle_registry" where
  "registry_apply A reg cloid event policy =
    (case bget (by_cloid reg) cloid of
       None \<Rightarrow> (Err MissingCloid, reg)
     | Some current \<Rightarrow>
         (case action_of current of
            None \<Rightarrow> (Err MissingCloid, reg)
          | Some a \<Rightarrow>
              (case apply_lifecycle_event A current event policy of
                 Ok next \<Rightarrow> (Ok next, reg\<lparr>by_cloid := binsert cloid next (by_cloid reg)\<rparr>)
               | Err ReconciliationConflict \<Rightarrow>
                   (Err (Transition ReconciliationConflict),
                    reg\<lparr>blocked_assets := binsert (pa_asset a) () (blocked_assets reg)\<rparr>)
               | Err e \<Rightarrow> (Err (Transition e), reg)
               | Panic \<Rightarrow> (Panic, reg))))"

fun is_unknown :: "lifecycle_state \<Rightarrow> bool" where
  "is_unknown (SubmissionUnknown _ _ _ _) = True"
| "is_unknown _ = False"

definition authorization_for_asset :: "lifecycle_registry \<Rightarrow> asset \<Rightarrow> risk_authorization" where
  "authorization_for_asset reg a =
    (if bhas (blocked_assets reg) a
        \<or> (case bget (by_asset reg) a of None \<Rightarrow> False | Some cloids \<Rightarrow>
             list_ex (\<lambda>c. case bget (by_cloid reg) c of None \<Rightarrow> False | Some s \<Rightarrow> is_unknown s) (bkeys cloids))
     then NoIncreasePermitted else NormalPlanningPermitted)"

definition compact_one :: "planned_cloid \<Rightarrow> lifecycle_registry \<Rightarrow> lifecycle_registry" where
  "compact_one c reg =
    (case bget (by_cloid reg) c of
       None \<Rightarrow> reg
     | Some state \<Rightarrow>
         let reg' = reg\<lparr>by_cloid := bremove c (by_cloid reg)\<rparr> in
         (case action_of state of
            None \<Rightarrow> reg'
          | Some a \<Rightarrow>
              (case bget (by_asset reg') (pa_asset a) of
                 None \<Rightarrow> reg'
               | Some cloids \<Rightarrow>
                   let cloids' = bremove c cloids in
                   reg'\<lparr>by_asset := (if bsize cloids' = 0 then bremove (pa_asset a) (by_asset reg')
                                     else binsert (pa_asset a) cloids' (by_asset reg'))\<rparr>)))"

definition compact_terminal :: "nat \<Rightarrow> lifecycle_registry \<Rightarrow> nat \<times> lifecycle_registry" where
  "compact_terminal maximum_to_remove reg =
    (let removable = take maximum_to_remove
           (map fst (filter (\<lambda>e. is_terminal (snd e)) (entries (by_cloid reg)))) in
     (length removable, fold compact_one removable reg))"

section \<open>Case analysis of a transition\<close>

lemmas lifecycle_split = lifecycle_state.splits lifecycle_event.splits reconciliation_observation.splits
lemmas lifecycle_defs = apply_event_def confirm_not_found_def reconcile_known_positive_def accept_candidate_def
  validate_filled_def

lemma validate_policyD:
  "validate_policy p = Ok q \<Longrightarrow> q = p \<and> 0 < required_not_found_confirmations p
     \<and> 0 < minimum_confirmation_interval_ms p"
  by (auto simp: validate_policy_def outcome_simps)

lemma apply_lifecycle_eventD:
  assumes "apply_lifecycle_event A s event policy = Ok s'"
  shows "apply_event A s event policy = Ok s'" "0 < required_not_found_confirmations policy"
    "0 < minimum_confirmation_interval_ms policy"
  using assms by (auto simp: apply_lifecycle_event_def outcome_simps dest: validate_policyD)

lemma positive_state_action: "positive_state A a obs = Ok s \<Longrightarrow> action_of s = Some a"
  by (cases obs) (auto simp: outcome_simps split: if_splits)

lemma positive_state_not_unknown: "positive_state A a obs = Ok s \<Longrightarrow> \<not> is_unknown s \<and> s \<noteq> ReconciledNotFound b"
  by (cases obs) (auto simp: outcome_simps split: if_splits)

lemma accept_candidate_Ok: "accept_candidate s c = Ok s' \<Longrightarrow> s' = c"
  by (auto simp: accept_candidate_def split: if_splits lifecycle_state.splits)

lemma known_positive_Ok:
  assumes "reconcile_known_positive A s a known obs = Ok s'"
  shows "(\<exists>t. obs = NotFound t) \<and> s' = s
    \<or> (known = None \<or> known = observed_ref obs) \<and> positive_state A a obs = Ok s' \<and> accept_candidate s s' = Ok s'"
  using assms accept_candidate_Ok
  by (cases obs) (auto simp: reconcile_known_positive_def outcome_simps split: if_splits dest: accept_candidate_Ok)

text \<open>What every state knows of the action: its decision, and the action once it is planned.\<close>

fun decision_of :: "lifecycle_state \<Rightarrow> decision_id" where
  "decision_of (DecisionConstructed d) = d"
| "decision_of (RiskValidated d) = d"
| "decision_of s = pa_decision_id (the (action_of s))"

definition same_identity :: "lifecycle_state \<Rightarrow> lifecycle_state \<Rightarrow> bool" where
  "same_identity s s' = (decision_of s' = decision_of s \<and> (action_of s \<noteq> None \<longrightarrow> action_of s' = action_of s))"

lemma decision_of_action: "action_of s = Some a \<Longrightarrow> decision_of s = pa_decision_id a"
  by (cases s) auto

lemma same_identity_action: "action_of s = Some a \<Longrightarrow> action_of s' = Some a \<Longrightarrow> same_identity s s'"
  by (simp add: same_identity_def decision_of_action)

lemma same_identity_refl [simp]: "same_identity s s"
  by (simp add: same_identity_def)

lemma confirm_not_found_action: "confirm_not_found p a t0 n confs t = Ok s' \<Longrightarrow> action_of s' = Some a"
  by (auto simp: confirm_not_found_def Let_def split: if_splits)

lemma observation_same_identity:
  "apply_reconciliation_observation A s obs policy = Ok s' \<Longrightarrow> same_identity s s'"
  by (induction A s obs policy rule: apply_reconciliation_observation.induct)
     (auto simp del: positive_state.simps split: if_splits reconciliation_observation.splits
       dest: confirm_not_found_action positive_state_action known_positive_Ok
       intro!: same_identity_action)

lemma event_same_identity: "apply_event A s event policy = Ok s' \<Longrightarrow> same_identity s s'"
  by (cases event)
     (auto simp: apply_event_def same_identity_def split: lifecycle_state.splits if_splits
       dest: observation_same_identity)

section \<open>Confirmations of a missing order\<close>

fun spaced :: "nat \<Rightarrow> nat list \<Rightarrow> bool" where
  "spaced d (x # y # zs) = (x + d \<le> y \<and> spaced d (y # zs))"
| "spaced d _ = True"

lemma spaced_snoc: "spaced d (xs @ [x]) \<longleftrightarrow> spaced d xs \<and> (xs \<noteq> [] \<longrightarrow> last xs + d \<le> x)"
  by (induction d xs rule: spaced.induct) auto

definition confirmations_ok :: "reconciliation_policy \<Rightarrow> timestamp \<Rightarrow> timestamp list \<Rightarrow> bool" where
  "confirmations_ok p t0 confs = (spaced (minimum_confirmation_interval_ms p) confs
     \<and> list_all (\<lambda>t. t0 \<le> t \<and> t \<le> t0 + maximum_unknown_lifetime_ms p) confs)"

text \<open>The policy's integers are \<open>u32\<close> and \<open>u64\<close>.\<close>

definition policy_in_range :: "reconciliation_policy \<Rightarrow> bool" where
  "policy_in_range p = (required_not_found_confirmations p < 2 ^ 32 \<and> maximum_attempts p < 2 ^ 32)"

fun unknown_ok :: "reconciliation_policy \<Rightarrow> lifecycle_state \<Rightarrow> bool" where
  "unknown_ok p (SubmissionUnknown a t0 n confs) =
     (n = length confs \<and> (confs \<noteq> [] \<longrightarrow> n < required_not_found_confirmations p) \<and> confirmations_ok p t0 confs)"
| "unknown_ok p _ = True"

lemma confirm_not_found_ok:
  assumes "confirm_not_found p a t0 n confs t = Ok s'" and "policy_in_range p"
    and "unknown_ok p (SubmissionUnknown a t0 n confs)" "t0 \<le> t" "0 < required_not_found_confirmations p"
    "0 < minimum_confirmation_interval_ms p"
  shows "unknown_ok p s' \<and> (s' = ReconciledNotFound b \<longrightarrow> b = a
    \<and> length (confs @ [t]) = required_not_found_confirmations p \<and> confirmations_ok p t0 (confs @ [t]))"
proof (cases "confs \<noteq> [] \<and> last confs = t")
  case True
  with assms show ?thesis by (auto simp: confirm_not_found_def split: if_splits)
next
  case False
  let ?r = "required_not_found_confirmations p"
  have n: "n = length confs" "length confs < ?r" and ok: "confirmations_ok p t0 confs"
    using assms(3,5) by auto
  have w: "as_width 32 (length (confs @ [t])) = Suc (length confs)"
    using n(2) assms(2) by (auto simp: policy_in_range_def intro: as_width_small)
  have t: "t \<le> t0 + maximum_unknown_lifetime_ms p"
    and gap: "confs \<noteq> [] \<longrightarrow> minimum_confirmation_interval_ms p \<le> t - last confs"
    and s': "s' = (if ?r \<le> Suc (length confs) then ReconciledNotFound a
                   else SubmissionUnknown a t0 (Suc n) (confs @ [t]))"
    using assms(1) False w by (auto simp: confirm_not_found_def saturating_sub_def Let_def split: if_splits)
  have "confirmations_ok p t0 (confs @ [t])"
  proof (cases "confs = []")
    case False
    with gap assms(6) have "last confs + minimum_confirmation_interval_ms p \<le> t" by auto
    with ok t \<open>t0 \<le> t\<close> show ?thesis by (simp add: confirmations_ok_def spaced_snoc)
  qed (use t \<open>t0 \<le> t\<close> in \<open>simp add: confirmations_ok_def\<close>)
  then show ?thesis using n s' by auto
qed

lemma observation_unknown_ok:
  assumes "apply_reconciliation_observation A s obs p = Ok s'" "policy_in_range p" "unknown_ok p s"
    "0 < required_not_found_confirmations p" "0 < minimum_confirmation_interval_ms p"
  shows "unknown_ok p s' \<and> (s' = ReconciledNotFound b \<longrightarrow> s = s' \<or> (\<exists>t0 confs t.
      s = SubmissionUnknown b t0 (length confs) confs \<and> obs = NotFound t
      \<and> length (confs @ [t]) = required_not_found_confirmations p \<and> confirmations_ok p t0 (confs @ [t])))"
proof -
  have other: ?thesis if "\<not> is_unknown s'" "s' = ReconciledNotFound b \<longrightarrow> s = s'"
    using that by (cases s') auto
  show ?thesis
  proof (cases s)
    case (SubmissionUnknown a t0 n confs)
    show ?thesis
    proof (cases "\<exists>t. obs = NotFound t")
      case True
      then obtain t where obs: "obs = NotFound t" ..
      from assms(1) have c: "confirm_not_found p a t0 n confs t = Ok s'" and t: "t0 \<le> t"
        by (auto simp: SubmissionUnknown obs split: if_splits)
      from confirm_not_found_ok [OF c assms(2) assms(3) [unfolded SubmissionUnknown] t assms(4,5), of b]
      show ?thesis using assms(3) by (auto simp: SubmissionUnknown obs)
    next
      case False
      with assms(1) have "positive_state A a obs = Ok s'"
        by (auto simp: SubmissionUnknown simp del: positive_state.simps
            split: if_splits reconciliation_observation.splits)
      from positive_state_not_unknown [OF this] show ?thesis by (intro other) auto
    qed
  next
    case (ReconciledNotFound a)
    with assms(1) show ?thesis
      by (intro other) (auto simp del: positive_state.simps split: reconciliation_observation.splits
          dest: positive_state_not_unknown)
  next
    case (ReconciledRejected a r)
    with assms(1) show ?thesis
      by (intro other) (auto split: reconciliation_observation.splits if_splits)
  qed (use assms(1) in \<open>intro other; auto dest!: known_positive_Ok dest: positive_state_not_unknown\<close>)+
qed

definition lifecycle_exec :: "decimal_ops \<Rightarrow> reconciliation_policy \<Rightarrow> lifecycle_event \<Rightarrow> lifecycle_state \<Rightarrow> lifecycle_state" where
  "lifecycle_exec A policy event s = (case apply_lifecycle_event A s event policy of Ok s' \<Rightarrow> s' | _ \<Rightarrow> s)"

lemma event_unknown_ok:
  assumes "apply_lifecycle_event A s event p = Ok s'" "policy_in_range p" "unknown_ok p s"
  shows "unknown_ok p s'"
proof (cases event)
  case (ReconciliationObserved obs)
  with observation_unknown_ok [OF _ assms(2,3)] apply_lifecycle_eventD [OF assms(1)]
  show ?thesis by (auto simp: apply_event_def)
qed (use apply_lifecycle_eventD(1) [OF assms(1)] assms(3) in
     \<open>auto simp: apply_event_def confirmations_ok_def split: lifecycle_state.splits if_splits\<close>)

interpretation lifecycle: machine "lifecycle_exec A policy" "\<lambda>s. policy_in_range policy \<longrightarrow> unknown_ok policy s"
  for A policy
  by unfold_locales (auto simp: lifecycle_exec_def split: outcome.splits dest: event_unknown_ok)

lemma lifecycle_reachable:
  assumes "policy_in_range policy"
  shows "unknown_ok policy (fold (lifecycle_exec A policy) events (DecisionConstructed d))"
  using lifecycle.invar_run [of policy "DecisionConstructed d" A events] assms by simp

section \<open>Fills\<close>

fun known_fill :: "lifecycle_state \<Rightarrow> rat option" where
  "known_fill (ReconciledOpen _ _) = Some 0"
| "known_fill (ReconciledPartiallyFilled _ _ q) = Some q"
| "known_fill (ReconciledFilled _ _ q) = Some q"
| "known_fill _ = None"

fun is_settled :: "lifecycle_state \<Rightarrow> bool" where
  "is_settled (ReconciledFilled _ _ _) = True"
| "is_settled (ReconciledCancelled _ _) = True"
| "is_settled (ReconciledRejected _ _) = True"
| "is_settled _ = False"

lemma positive_state_fill:
  "faithful_arith A \<Longrightarrow> positive_state A a obs = Ok s \<Longrightarrow> known_fill s = Some q \<Longrightarrow> 0 \<le> q"
  using faithful_ge [of "(-)" "d_sub A" _ _ _ 0]
  by (cases obs) (auto simp: outcome_simps validate_filled_def faithful_arithD split: if_splits)

lemma accept_candidate_fill:
  "accept_candidate s c = Ok s' \<Longrightarrow> known_fill s = Some q \<Longrightarrow> known_fill s' = Some q' \<Longrightarrow>
     (s = c \<and> s' = c) \<or> q \<le> q' \<or> (\<exists>a r. s = ReconciledOpen a r \<and> s' = c)"
  by (auto simp: accept_candidate_def split: if_splits lifecycle_state.splits)

lemma known_positive_fill:
  assumes "faithful_arith A" "reconcile_known_positive A s a known obs = Ok s'"
    "known_fill s = Some q" "known_fill s' = Some q'"
  shows "q \<le> q'"
  using known_positive_Ok [OF assms(2)]
proof
  assume *: "(known = None \<or> known = observed_ref obs) \<and> positive_state A a obs = Ok s' \<and> accept_candidate s s' = Ok s'"
  then have "0 \<le> q'" using positive_state_fill [OF assms(1)] assms(4) by blast
  with accept_candidate_fill [OF _ assms(3,4)] * assms(3,4) show ?thesis by fastforce
qed (use assms(3,4) in auto)

lemma known_positive_settled:
  "reconcile_known_positive A s a known obs = Ok s' \<Longrightarrow> is_settled s \<Longrightarrow> s' = s"
  by (drule known_positive_Ok) (auto simp: accept_candidate_def split: if_splits lifecycle_state.splits)

section \<open>The registry's indices\<close>

definition indexed :: "lifecycle_registry \<Rightarrow> planned_cloid \<Rightarrow> asset \<Rightarrow> bool" where
  "indexed reg c x = (case bget (by_asset reg) x of None \<Rightarrow> False | Some cs \<Rightarrow> bhas cs c)"

definition holds :: "lifecycle_registry \<Rightarrow> planned_cloid \<Rightarrow> asset \<Rightarrow> bool" where
  "holds reg c x = (case bget (by_cloid reg) c of None \<Rightarrow> False
     | Some s \<Rightarrow> (case action_of s of None \<Rightarrow> False | Some a \<Rightarrow> pa_planned_cloid a = c \<and> pa_asset a = x))"

definition registry_ok :: "lifecycle_registry \<Rightarrow> bool" where
  "registry_ok reg = ((\<forall>c x. indexed reg c x = holds reg c x)
     \<and> (\<forall>c. bhas (by_cloid reg) c \<longrightarrow> (\<exists>x. holds reg c x))
     \<and> (\<forall>x. bhas (by_asset reg) x \<longrightarrow> (\<exists>c. holds reg c x))
     \<and> bsize (by_cloid reg) \<le> maximum_entries reg)"

lemma registry_okI:
  assumes "\<And>c x. indexed reg c x = holds reg c x"
    and "\<And>c. bhas (by_cloid reg) c \<Longrightarrow> \<exists>x. holds reg c x"
    and "\<And>x. bhas (by_asset reg) x \<Longrightarrow> \<exists>c. indexed reg c x"
    and "bsize (by_cloid reg) \<le> maximum_entries reg"
  shows "registry_ok reg"
  using assms by (simp add: registry_ok_def)

lemma registry_okD:
  assumes "registry_ok reg"
  shows "indexed reg c x = holds reg c x" "bhas (by_cloid reg) c \<Longrightarrow> \<exists>x. holds reg c x"
    "bhas (by_asset reg) x \<Longrightarrow> \<exists>c. holds reg c x" "bsize (by_cloid reg) \<le> maximum_entries reg"
  using assms by (auto simp: registry_ok_def)

lemma holds_unique: "holds reg c x \<Longrightarrow> holds reg c y \<Longrightarrow> x = y"
  by (auto simp: holds_def split: option.splits)

lemma registry_new_ok: "new_registry n = Ok reg \<Longrightarrow> registry_ok reg"
  by (auto simp: new_registry_def registry_ok_def indexed_def holds_def split: if_splits)

lemma registry_insert_ok:
  assumes "registry_insert reg s = Ok reg'" "registry_ok reg"
  shows "registry_ok reg'"
proof -
  from assms(1) obtain a where a: "action_of s = Some a" and new: "\<not> bhas (by_cloid reg) (pa_planned_cloid a)"
    and room: "bsize (by_cloid reg) < maximum_entries reg"
    and reg': "reg' = reg\<lparr>by_asset := binsert (pa_asset a)
              (binsert (pa_planned_cloid a) () (bget_or bempty (by_asset reg) (pa_asset a))) (by_asset reg),
            by_cloid := binsert (pa_planned_cloid a) s (by_cloid reg)\<rparr>"
    by (auto simp: registry_insert_def outcome_simps)
  have ind: "indexed reg' c x \<longleftrightarrow> indexed reg c x \<or> c = pa_planned_cloid a \<and> x = pa_asset a" for c x
    by (auto simp: reg' indexed_def bget_or_def split: option.splits)
  have none: "\<not> holds reg (pa_planned_cloid a) x" for x
    using new by (auto simp: holds_def bhas_def)
  have hol: "holds reg' c x \<longleftrightarrow> (if c = pa_planned_cloid a then x = pa_asset a else holds reg c x)" for c x
    using a by (auto simp: reg' holds_def)
  show ?thesis
  proof (rule registry_okI)
    show "indexed reg' c x = holds reg' c x" for c x
      using none [of x] registry_okD(1) [OF assms(2), of c x] by (auto simp: ind hol)
    show "\<exists>x. holds reg' c x" if "bhas (by_cloid reg') c" for c
      using that registry_okD(2) [OF assms(2), of c] by (auto simp: reg' hol [unfolded reg'])
    show "\<exists>c. indexed reg' c x" if "bhas (by_asset reg') x" for x
      using that registry_okD(1,3) [OF assms(2)] by (fastforce simp: ind [unfolded reg'] reg')
    show "bsize (by_cloid reg') \<le> maximum_entries reg'"
      using room by (simp add: reg' bsize_insert_new new)
  qed
qed

lemma registry_apply_cases:
  obtains (same) "snd (registry_apply A reg c event p) = reg"
  | (blocked) x where "snd (registry_apply A reg c event p)
      = reg\<lparr>blocked_assets := binsert x () (blocked_assets reg)\<rparr>"
  | (moved) s s' a where "bget (by_cloid reg) c = Some s" "action_of s = Some a"
      "apply_lifecycle_event A s event p = Ok s'"
      "snd (registry_apply A reg c event p) = reg\<lparr>by_cloid := binsert c s' (by_cloid reg)\<rparr>"
proof (cases "bget (by_cloid reg) c")
  case (Some s)
  show ?thesis
  proof (cases "action_of s")
    case (Some a)
    show ?thesis
    proof (cases "apply_lifecycle_event A s event p")
      case (Ok s')
      with \<open>bget (by_cloid reg) c = Some s\<close> Some show ?thesis
        by (intro moved [of s a s']) (simp_all add: registry_apply_def)
    next
      case (Err e)
      with \<open>bget (by_cloid reg) c = Some s\<close> Some show ?thesis
        by (cases "e = ReconciliationConflict")
           (rule blocked [of "pa_asset a"], simp add: registry_apply_def,
            rule same, cases e, simp_all add: registry_apply_def)
    next
      case Panic
      with \<open>bget (by_cloid reg) c = Some s\<close> Some show ?thesis
        by (intro same) (simp add: registry_apply_def)
    qed
  qed (rule same, use Some in \<open>simp add: registry_apply_def\<close>)
qed (rule same, simp add: registry_apply_def)

lemma registry_apply_ok:
  assumes "registry_ok reg"
  shows "registry_ok (snd (registry_apply A reg c event p))"
proof (rule registry_apply_cases [where A = A and reg = reg and c = c and event = event and p = p])
  assume "snd (registry_apply A reg c event p) = reg"
  with assms show ?thesis by simp
next
  fix x assume "snd (registry_apply A reg c event p) = reg\<lparr>blocked_assets := binsert x () (blocked_assets reg)\<rparr>"
  moreover have "indexed (reg\<lparr>blocked_assets := b\<rparr>) = indexed reg" "holds (reg\<lparr>blocked_assets := b\<rparr>) = holds reg" for b
    by (simp_all add: fun_eq_iff indexed_def holds_def)
  ultimately show ?thesis
    using registry_okD [OF assms] by (intro registry_okI) auto
next
  fix s s' a
  assume moved: "bget (by_cloid reg) c = Some s" "action_of s = Some a"
      "apply_lifecycle_event A s event p = Ok s'"
      "snd (registry_apply A reg c event p) = reg\<lparr>by_cloid := binsert c s' (by_cloid reg)\<rparr>"
    let ?reg = "reg\<lparr>by_cloid := binsert c s' (by_cloid reg)\<rparr>"
    have "action_of s' = Some a"
      using event_same_identity [OF apply_lifecycle_eventD(1) [OF moved(3)]] moved(2)
      by (simp add: same_identity_def)
    then have "holds ?reg c' x = holds reg c' x" "indexed ?reg c' x = indexed reg c' x" for c' x
      using moved(1,2) by (auto simp: holds_def indexed_def)
    moreover have "bsize (by_cloid ?reg) = bsize (by_cloid reg)"
      using moved(1) by (simp add: bsize_insert_old bget_has)
    moreover have "bhas (by_cloid ?reg) c' = bhas (by_cloid reg) c'" for c'
      using moved(1) by (auto simp: bget_has)
    ultimately show ?thesis using assms by (simp add: moved(4) registry_ok_def)
qed

lemma compact_one_ok:
  assumes "registry_ok reg"
  shows "registry_ok (compact_one c reg) \<and> by_cloid (compact_one c reg) = bremove c (by_cloid reg)
    \<and> blocked_assets (compact_one c reg) = blocked_assets reg"
proof (cases "bget (by_cloid reg) c")
  case None
  then show ?thesis using assms by (simp add: compact_one_def bm.remove_absent)
next
  case (Some s)
  then obtain x where x: "holds reg c x" using assms by (auto simp: registry_ok_def bhas_def)
  with Some obtain a where a: "action_of s = Some a" "pa_planned_cloid a = c" "pa_asset a = x"
    by (auto simp: holds_def split: option.splits)
  from x assms have "indexed reg c x" by (simp add: registry_ok_def)
  then obtain cs where cs: "bget (by_asset reg) x = Some cs" "bhas cs c"
    by (auto simp: indexed_def split: option.splits)
  let ?reg = "compact_one c reg"
  have reg: "?reg = reg\<lparr>by_cloid := bremove c (by_cloid reg),
      by_asset := (if bremove c cs = bempty then bremove x (by_asset reg)
                   else binsert x (bremove c cs) (by_asset reg))\<rparr>"
    using Some a cs by (simp add: compact_one_def Let_def)
  have ind: "indexed ?reg c' y \<longleftrightarrow> indexed reg c' y \<and> \<not> (c' = c \<and> y = x)" for c' y
  proof (cases "y = x")
    case True
    have "bhas (bremove c cs) c' \<longleftrightarrow> bhas cs c' \<and> c' \<noteq> c" by auto
    with True cs show ?thesis
      by (cases "bremove c cs = bempty") (auto simp: reg indexed_def)
  next
    case False
    then show ?thesis by (auto simp: reg indexed_def)
  qed
  have hol: "holds ?reg c' y \<longleftrightarrow> holds reg c' y \<and> c' \<noteq> c" for c' y
    by (auto simp: reg holds_def)
  have "\<exists>c'. indexed ?reg c' y" if "bhas (by_asset ?reg) y" for y
  proof (cases "y = x")
    case True
    with that have "bremove c cs \<noteq> bempty" by (auto simp: reg split: if_splits)
    then obtain c' where "bhas (bremove c cs) c'" by (metis bmap_eqI bget_empty bhas_def)
    with cs True show ?thesis by (auto simp: ind) (auto simp: indexed_def)
  next
    case False
    with that assms show ?thesis by (auto simp: ind registry_ok_def) (auto simp: reg split: if_splits)
  qed
  moreover have "bsize (by_cloid ?reg) \<le> maximum_entries ?reg"
    using registry_okD(4) [OF assms] by (auto simp: reg bsize_remove)
  moreover have "indexed reg c y \<Longrightarrow> y = x" for y
    using assms x holds_unique by (auto simp: registry_ok_def)
  moreover have "indexed ?reg c' y = holds ?reg c' y" for c' y
  proof -
    have "indexed reg c' y = holds reg c' y" using assms by (simp add: registry_ok_def)
    with \<open>\<And>y. indexed reg c y \<Longrightarrow> y = x\<close> show ?thesis by (cases "c' = c") (auto simp: ind hol)
  qed
  moreover have "\<exists>y. holds ?reg c' y" if "bhas (by_cloid ?reg) c'" for c'
  proof -
    from that have "c' \<noteq> c" "bhas (by_cloid reg) c'" by (simp_all add: reg)
    with assms show ?thesis by (simp add: hol registry_ok_def)
  qed
  ultimately have "registry_ok ?reg" by (intro registry_okI)
  then show ?thesis by (simp add: reg)
qed

lemma compact_fold_ok:
  "registry_ok reg \<Longrightarrow> registry_ok (fold compact_one cs reg)
     \<and> bget (by_cloid (fold compact_one cs reg)) c = (if c \<in> set cs then None else bget (by_cloid reg) c)
     \<and> blocked_assets (fold compact_one cs reg) = blocked_assets reg"
proof (induction cs arbitrary: reg)
  case (Cons d cs)
  from compact_one_ok [OF Cons.prems, of d] Cons.IH [of "compact_one d reg"] show ?case by auto
qed simp

datatype registry_op =
    InsertState lifecycle_state
  | ApplyEvent planned_cloid lifecycle_event reconciliation_policy
  | CompactTerminal nat

fun registry_exec :: "decimal_ops \<Rightarrow> registry_op \<Rightarrow> lifecycle_registry \<Rightarrow> lifecycle_registry" where
  "registry_exec A (InsertState s) reg = (case registry_insert reg s of Ok reg' \<Rightarrow> reg' | _ \<Rightarrow> reg)"
| "registry_exec A (ApplyEvent c event p) reg = snd (registry_apply A reg c event p)"
| "registry_exec A (CompactTerminal n) reg = snd (compact_terminal n reg)"

lemma registry_exec_ok: "registry_ok reg \<Longrightarrow> registry_ok (registry_exec A op reg)"
  by (cases op) (auto simp: registry_apply_ok compact_terminal_def Let_def compact_fold_ok
      split: outcome.splits intro: registry_insert_ok)

interpretation registry: machine "registry_exec A" registry_ok for A
  by unfold_locales (rule registry_exec_ok)

lemma registry_exec_blocked:
  "registry_ok reg \<and> bhas (blocked_assets reg) x \<Longrightarrow>
     registry_ok (registry_exec A op reg) \<and> bhas (blocked_assets (registry_exec A op reg)) x"
proof (intro conjI)
  assume *: "registry_ok reg \<and> bhas (blocked_assets reg) x"
  then show "registry_ok (registry_exec A op reg)" by (simp add: registry_exec_ok)
  from * show "bhas (blocked_assets (registry_exec A op reg)) x"
    by (cases op) (auto simp: registry_insert_def registry_apply_def compact_terminal_def Let_def compact_fold_ok
      outcome_simps split: outcome.splits option.splits transition_error.splits)
qed

interpretation blocked: machine "registry_exec A" "\<lambda>reg. registry_ok reg \<and> bhas (blocked_assets reg) x" for A x
  by unfold_locales (rule registry_exec_blocked)

lemma authorization_unknown:
  assumes "registry_ok reg"
  shows "authorization_for_asset reg x = NoIncreasePermitted \<longleftrightarrow> bhas (blocked_assets reg) x
    \<or> (\<exists>c s. holds reg c x \<and> bget (by_cloid reg) c = Some s \<and> is_unknown s)"
proof -
  have "(case bget (by_asset reg) x of None \<Rightarrow> False | Some cloids \<Rightarrow>
             list_ex (\<lambda>c. case bget (by_cloid reg) c of None \<Rightarrow> False | Some s \<Rightarrow> is_unknown s) (bkeys cloids))
      \<longleftrightarrow> (\<exists>c s. indexed reg c x \<and> bget (by_cloid reg) c = Some s \<and> is_unknown s)"
    by (auto simp: indexed_def list_ex_iff set_bkeys split: option.splits)
  with assms show ?thesis by (auto simp: authorization_for_asset_def registry_ok_def)
qed

section \<open>Properties\<close>

definition sample_action :: planned_action where
  "sample_action = \<lparr>pa_decision_id = [1], pa_target_version = 4, pa_asset = ''BTC'', pa_side = Buy,
     pa_rounded_notional = 50, pa_reduce_only = False, pa_action_ordinal = 0,
     pa_retry_generation = 0, pa_planned_cloid = [9]\<rparr>"

definition sample_policy :: reconciliation_policy where
  "sample_policy = \<lparr>required_not_found_confirmations = 2, minimum_confirmation_interval_ms = 10,
     maximum_attempts = 4, maximum_unknown_lifetime_ms = 100\<rparr>"

definition sample_events :: "lifecycle_event list" where
  "sample_events = [EventRiskValidated [1], EventActionPlanned sample_action, AwaitFutureSubmission,
     FutureSubmissionUnknown 5, ReconciliationObserved (NotFound 6)]"

text \<open>
  C19. An action whose submission is unknown is declared missing only on enough evidence: in every
  reachable state, the transition to not-found comes from exactly the required number of
  not-found observations, each at least the minimum interval after the previous one and none
  later than the maximum lifetime after the submission became unknown.
\<close>

theorem not_found_needs_every_confirmation:
  assumes "policy_in_range policy"
    and "s = fold (lifecycle_exec A policy) events (DecisionConstructed d)"
    and "apply_lifecycle_event A s event policy = Ok (ReconciledNotFound a)"
    and "s \<noteq> ReconciledNotFound a"
  shows "\<exists>t0 confs t. s = SubmissionUnknown a t0 (length confs) confs
    \<and> event = ReconciliationObserved (NotFound t)
    \<and> length (confs @ [t]) = required_not_found_confirmations policy
    \<and> spaced (minimum_confirmation_interval_ms policy) (confs @ [t])
    \<and> list_all (\<lambda>x. t0 \<le> x \<and> x \<le> t0 + maximum_unknown_lifetime_ms policy) (confs @ [t])"
proof -
  have ok: "unknown_ok policy s" unfolding assms(2) using assms(1) by (rule lifecycle_reachable)
  note ev = apply_lifecycle_eventD [OF assms(3)]
  from ev(1) obtain obs where obs: "event = ReconciliationObserved obs"
    "apply_reconciliation_observation A s obs policy = Ok (ReconciledNotFound a)"
    using assms(4) by (cases event) (auto simp: apply_event_def split: lifecycle_state.splits if_splits)
  from observation_unknown_ok [OF obs(2) assms(1) ok ev(2,3), of a] assms(4) obs(1)
  show ?thesis unfolding confirmations_ok_def by blast
qed

lemma not_found_needs_every_confirmation_witness:
  "\<exists>t0 confs t. fold (lifecycle_exec exact_ops sample_policy) sample_events (DecisionConstructed [1])
     = SubmissionUnknown sample_action t0 (length confs) confs \<and> length (confs @ [t]) = 2"
proof -
  let ?s = "fold (lifecycle_exec exact_ops sample_policy) sample_events (DecisionConstructed [1])"
  have "policy_in_range sample_policy" by (simp add: policy_in_range_def sample_policy_def)
  moreover have s: "?s = SubmissionUnknown sample_action 5 1 [6]"
    by (simp add: sample_events_def lifecycle_exec_def apply_lifecycle_event_def apply_event_def
        validate_policy_def sample_policy_def confirm_not_found_def saturating_sub_def as_width_def
        sample_action_def)
  moreover have "apply_lifecycle_event exact_ops ?s (ReconciliationObserved (NotFound 20)) sample_policy
      = Ok (ReconciledNotFound sample_action)"
    unfolding s
    by (simp add: apply_lifecycle_event_def apply_event_def validate_policy_def sample_policy_def
        confirm_not_found_def saturating_sub_def as_width_def)
  moreover have "?s \<noteq> ReconciledNotFound sample_action" by (simp add: s)
  ultimately obtain t0 confs t where "?s = SubmissionUnknown sample_action t0 (length confs) confs"
    "length (confs @ [t]) = required_not_found_confirmations sample_policy"
    using not_found_needs_every_confirmation [OF _ refl] by blast
  then show ?thesis by (simp add: sample_policy_def)
qed

text \<open>
  The attempt limit is never what stops a reconciliation: in every reachable state the number
  of attempts is the number of confirmations, which stays below the required number and so below
  the limit the policy must allow; only the interval and the lifetime checks can refuse.
\<close>

theorem attempt_limit_never_reached:
  assumes "policy_in_range policy"
  shows "apply_lifecycle_event A (fold (lifecycle_exec A policy) events (DecisionConstructed d)) event policy
    \<noteq> Err ReconciliationAttemptLimit"
proof
  let ?s = "fold (lifecycle_exec A policy) events (DecisionConstructed d)"
  assume "apply_lifecycle_event A ?s event policy = Err ReconciliationAttemptLimit"
  then have v: "validate_policy policy = Ok policy"
    and e: "apply_event A ?s event policy = Err ReconciliationAttemptLimit"
    by (auto simp: apply_lifecycle_event_def and_then_Err validate_policy_def outcome_simps fail_if_Err)
  have ok: "unknown_ok policy ?s" using assms by (rule lifecycle_reachable)
  have pos: "positive_state A a obs \<noteq> Err ReconciliationAttemptLimit" for a obs
    by (cases obs) (auto simp: and_then_Err fail_if_Err ok_or_Err validate_filled_def)
  have acc: "accept_candidate s c \<noteq> Err ReconciliationAttemptLimit" for s c
    by (auto simp: accept_candidate_def split: lifecycle_state.splits)
  have known: "reconcile_known_positive A s a k obs \<noteq> Err ReconciliationAttemptLimit" for s a k obs
    by (auto simp: reconcile_known_positive_def and_then_Err pos acc simp del: positive_state.simps
        split: reconciliation_observation.splits)
  from e obtain a t0 n confs t where s: "?s = SubmissionUnknown a t0 n confs"
    "confirm_not_found policy a t0 n confs t = Err ReconciliationAttemptLimit"
    by (cases event; cases ?s)
       (auto simp: apply_event_def pos known simp del: positive_state.simps
         split: if_splits reconciliation_observation.splits)
  with ok v show False
    by (cases "confs = []")
       (auto simp: confirm_not_found_def validate_policy_def outcome_simps Let_def split: if_splits)
qed

lemma attempt_limit_never_reached_witness:
  "apply_lifecycle_event exact_ops (fold (lifecycle_exec exact_ops sample_policy) sample_events (DecisionConstructed [1]))
     (ReconciliationObserved (NotFound 7)) sample_policy \<noteq> Err ReconciliationAttemptLimit"
  by (rule attempt_limit_never_reached) (simp add: policy_in_range_def sample_policy_def)

text \<open>
  Reconciliation never forgets a fill: a transition between open, partially filled and filled
  never lowers the filled quantity, and a filled, cancelled or rejected action never changes again.
\<close>

theorem fills_never_regress:
  assumes "faithful_arith A" and "apply_lifecycle_event A s event policy = Ok s'"
  shows "(is_settled s \<longrightarrow> s' = s)
    \<and> (\<forall>q q'. known_fill s = Some q \<longrightarrow> known_fill s' = Some q' \<longrightarrow> q \<le> q')"
proof (cases event)
  case (ReconciliationObserved obs)
  with apply_lifecycle_eventD(1) [OF assms(2)] have
    o: "apply_reconciliation_observation A s obs policy = Ok s'" by (simp add: apply_event_def)
  show ?thesis
  proof (cases s)
    case (ReconciledRejected a r)
    with o show ?thesis by (auto split: reconciliation_observation.splits if_splits)
  qed (use o known_positive_fill [OF assms(1), of s _ _ obs s'] known_positive_settled [of A s _ _ obs s']
       in \<open>auto simp del: positive_state.simps\<close>)
qed (use apply_lifecycle_eventD(1) [OF assms(2)] in
     \<open>auto simp: apply_event_def split: lifecycle_state.splits if_splits\<close>)

lemma fills_never_regress_witness:
  "apply_lifecycle_event exact_ops (ReconciledPartiallyFilled sample_action ''x'' 3)
      (ReconciliationObserved (Filled ''x'' 5 9)) sample_policy = Ok (ReconciledFilled sample_action ''x'' 5)
    \<and> (3 :: rat) \<le> 5"
proof -
  have *: "apply_lifecycle_event exact_ops (ReconciledPartiallyFilled sample_action ''x'' 3)
      (ReconciliationObserved (Filled ''x'' 5 9)) sample_policy = Ok (ReconciledFilled sample_action ''x'' 5)"
    by code_simp
  from fills_never_regress [OF exact_ops_faithful this] * show ?thesis by simp
qed

text \<open>
  The lifecycle never swaps an action for another: every accepted event keeps the decision,
  and once an action is planned, the action with all its fields.
\<close>

theorem lifecycle_keeps_identity:
  assumes "apply_lifecycle_event A s event policy = Ok s'"
  shows "decision_of s' = decision_of s \<and> (action_of s \<noteq> None \<longrightarrow> action_of s' = action_of s)"
  using event_same_identity [OF apply_lifecycle_eventD(1) [OF assms]] by (simp add: same_identity_def)

lemma lifecycle_keeps_identity_witness:
  "decision_of (RiskValidated [1]) = decision_of (DecisionConstructed [1])"
proof -
  have "apply_lifecycle_event exact_ops (DecisionConstructed [1]) (EventRiskValidated [1]) sample_policy
      = Ok (RiskValidated [1])" by code_simp
  from lifecycle_keeps_identity [OF this] show ?thesis by blast
qed

text \<open>
  C26. The registry's authorization is exact after any sequence of insertions, events and
  compactions: an asset may not increase precisely when it was blocked by a conflict or one of
  its registered actions has an unknown submission.
\<close>

theorem authorization_exact:
  assumes "new_registry n = Ok reg0" and "reg = fold (registry_exec A) ops reg0"
  shows "authorization_for_asset reg x = NoIncreasePermitted \<longleftrightarrow> bhas (blocked_assets reg) x
    \<or> (\<exists>c a t0 k confs. bget (by_cloid reg) c = Some (SubmissionUnknown a t0 k confs) \<and> pa_asset a = x)"
proof -
  have ok: "registry_ok reg"
    unfolding assms(2) by (rule registry.invar_run) (rule registry_new_ok [OF assms(1)])
  have "(\<exists>c s. holds reg c x \<and> bget (by_cloid reg) c = Some s \<and> is_unknown s)
    \<longleftrightarrow> (\<exists>c a t0 k confs. bget (by_cloid reg) c = Some (SubmissionUnknown a t0 k confs) \<and> pa_asset a = x)"
    (is "?l = ?r")
  proof
    assume ?l
    then obtain c s where *: "holds reg c x" "bget (by_cloid reg) c = Some s" "is_unknown s" by blast
    from *(3) obtain a t0 k confs where "s = SubmissionUnknown a t0 k confs" by (cases s) auto
    with *(1,2) show ?r
      by (intro exI [of _ c] exI [of _ a] exI [of _ t0] exI [of _ k] exI [of _ confs]) (simp add: holds_def)
  next
    assume ?r
    then obtain c a t0 k confs where *: "bget (by_cloid reg) c = Some (SubmissionUnknown a t0 k confs)"
      "pa_asset a = x" by blast
    from registry_okD(2) [OF ok bget_has [OF *(1)]] obtain y where "holds reg c y" ..
    with * show ?l by (auto simp: holds_def intro!: exI [of _ c])
  qed
  with authorization_unknown [OF ok] show ?thesis by simp
qed

lemma authorization_exact_witness:
  "\<exists>reg0. new_registry 4 = Ok reg0 \<and> authorization_for_asset
      (fold (registry_exec exact_ops) [InsertState (SubmissionUnknown sample_action 5 0 [])] reg0) ''BTC''
      = NoIncreasePermitted"
proof -
  let ?ops = "[InsertState (SubmissionUnknown sample_action 5 0 [])]"
  obtain reg0 where r: "new_registry 4 = Ok reg0" by (simp add: new_registry_def)
  have "bget (by_cloid (fold (registry_exec exact_ops) ?ops reg0)) [9]
      = Some (SubmissionUnknown sample_action 5 0 [])" "pa_asset sample_action = ''BTC''"
    using r by (auto simp: new_registry_def registry_insert_def sample_action_def)
  with authorization_exact [OF r refl, of exact_ops ?ops "''BTC''"] r show ?thesis by blast
qed

text \<open>
  A reconciliation conflict blocks its asset for good: once an event on an action was refused
  with a conflict, no later sequence of operations permits increasing that action's asset.
\<close>

theorem conflict_blocks_asset_for_good:
  assumes "new_registry n = Ok reg0" and "reg = fold (registry_exec A) ops reg0"
    and "registry_apply A reg c event policy = (Err (Transition ReconciliationConflict), reg')"
    and "bget (by_cloid reg) c = Some s" "action_of s = Some a"
  shows "authorization_for_asset (fold (registry_exec B) later reg') (pa_asset a) = NoIncreasePermitted"
proof -
  have ok: "registry_ok reg"
    unfolding assms(2) by (rule registry.invar_run) (rule registry_new_ok [OF assms(1)])
  from assms(3-5) have reg': "reg' = reg\<lparr>blocked_assets := binsert (pa_asset a) () (blocked_assets reg)\<rparr>"
    by (auto simp: registry_apply_def split: outcome.splits transition_error.splits)
  have "registry_ok reg'" using registry_apply_ok [OF ok, of A c event policy] assms(3) by simp
  moreover have "bhas (blocked_assets reg') (pa_asset a)" by (simp add: reg')
  ultimately have "registry_ok (fold (registry_exec B) later reg')
      \<and> bhas (blocked_assets (fold (registry_exec B) later reg')) (pa_asset a)"
    by (intro blocked.invar_run) simp
  then show ?thesis by (simp add: authorization_unknown)
qed

lemma conflict_blocks_asset_for_good_witness:
  "\<exists>reg reg'. registry_apply exact_ops reg [9] (ReconciliationObserved (Rejected ''r'' 9)) sample_policy
      = (Err (Transition ReconciliationConflict), reg')
    \<and> authorization_for_asset (fold (registry_exec exact_ops) [CompactTerminal 5] reg') ''BTC'' = NoIncreasePermitted"
proof -
  let ?ops = "[InsertState (ReconciledFilled sample_action ''x'' 5)]"
  obtain reg0 where r: "new_registry 4 = Ok reg0" by (simp add: new_registry_def)
  define reg where "reg = fold (registry_exec exact_ops) ?ops reg0"
  have s: "bget (by_cloid reg) [9] = Some (ReconciledFilled sample_action ''x'' 5)"
    using r by (auto simp: reg_def new_registry_def registry_insert_def sample_action_def)
  have "apply_lifecycle_event exact_ops (ReconciledFilled sample_action ''x'' 5)
      (ReconciliationObserved (Rejected ''r'' 9)) sample_policy = Err ReconciliationConflict"
    by code_simp
  with s obtain reg' where c: "registry_apply exact_ops reg [9] (ReconciliationObserved (Rejected ''r'' 9)) sample_policy
      = (Err (Transition ReconciliationConflict), reg')"
    by (simp add: registry_apply_def)
  from conflict_blocks_asset_for_good [OF r reg_def c s, of sample_action exact_ops "[CompactTerminal 5]"] c
  show ?thesis by (auto simp: sample_action_def)
qed

text \<open>
  A retry is planned only for an action confirmed missing, and is that action with the next
  generation (below \<open>2^32\<close>) and the order id derived for it; nothing else of it changes.
\<close>

theorem retry_is_next_generation:
  assumes "plan_reconciled_retry H s engine = Ok r"
  shows "\<exists>a. s = ReconciledNotFound a \<and> pa_retry_generation r = pa_retry_generation a + 1
    \<and> pa_retry_generation r < 2 ^ 32
    \<and> r = a\<lparr>pa_retry_generation := pa_retry_generation r, pa_planned_cloid := pa_planned_cloid r\<rparr>
    \<and> derive_planned_cloid H \<lparr>pc_engine_instance_id = engine, pc_decision_id = pa_decision_id r,
        pc_target_version = pa_target_version r, pc_asset = pa_asset r, pc_side = pa_side r,
        pc_reduce_only = pa_reduce_only r, pc_action_ordinal = pa_action_ordinal r,
        pc_retry_generation = pa_retry_generation r\<rparr> = Ok (pa_planned_cloid r)"
proof -
  from assms obtain a where s: "s = ReconciledNotFound a"
    by (auto simp: plan_reconciled_retry_def split: lifecycle_state.splits)
  with assms obtain g cloid where g: "g = pa_retry_generation a + 1" "g < 2 ^ 32"
    and c: "derive_planned_cloid H \<lparr>pc_engine_instance_id = engine, pc_decision_id = pa_decision_id a,
        pc_target_version = pa_target_version a, pc_asset = pa_asset a, pc_side = pa_side a,
        pc_reduce_only = pa_reduce_only a, pc_action_ordinal = pa_action_ordinal a,
        pc_retry_generation = g\<rparr> = Ok cloid"
    and r: "r = a\<lparr>pa_retry_generation := g, pa_planned_cloid := cloid\<rparr>"
    by (auto simp: plan_reconciled_retry_def outcome_simps checked_add_nat_Some)
  have "pa_retry_generation r < 2 ^ 32" using g(2) by (simp add: r)
  then show ?thesis using c by (intro exI [of _ a]) (simp add: s g(1) r)
qed

lemma retry_is_next_generation_witness:
  "\<exists>r. plan_reconciled_retry (\<lambda>b. replicate 32 0) (ReconciledNotFound sample_action) [] = Ok r
     \<and> pa_retry_generation r < 2 ^ 32"
proof -
  have "is_ok (plan_reconciled_retry (\<lambda>b. replicate 32 0) (ReconciledNotFound sample_action) [])"
    by (simp add: plan_reconciled_retry_def sample_action_def checked_add_nat_def derive_planned_cloid_def
        planned_cloid_bytes_def enc_string_def enc_length_def)
  then obtain r where r: "plan_reconciled_retry (\<lambda>b. replicate 32 0) (ReconciledNotFound sample_action) [] = Ok r"
    by (auto simp: is_ok_def split: outcome.splits)
  from retry_is_next_generation [OF r] r show ?thesis by blast
qed

end
