(* ===== verification/Submission_Registry.thy ===== *)
theory Submission_Registry
  imports Identity
begin

text \<open>
  The signer's durable record of submissions (\<open>copytrade-signer/src/lib.rs\<close>): intents and their
  validation, the submission state machine, the registry with its history, what \<open>restore\<close> accepts
  after a restart, and the lock-free nonce allocator. JSON encoding and file access are outside the
  model: \<open>restore_check\<close> is what \<open>restore\<close> does with the decoded registry.
\<close>

section \<open>Intents\<close>

record approved_execution_intent =
  ei_decision_id :: string
  ei_target_version :: nat
  ei_root_cloid :: string
  ei_cloid :: string
  ei_parent_cloid :: "string option"
  ei_continuation_generation :: nat
  ei_asset :: asset
  ei_asset_index :: nat
  ei_is_buy :: bool
  ei_reduce_only :: bool
  ei_limit_price :: scaled
  ei_quantity :: scaled
  ei_risk_projection_hash :: string
  ei_risk_policy_hash :: string
  ei_configuration_hash :: string
  ei_release_manifest_hash :: string
  ei_decision_reference_price :: rat
  ei_decision_timestamp_ms :: nat
  ei_expires_at_mono :: nat
  ei_canonical_intent_hash :: string

datatype signer_error =
    InvalidIntent | InvalidContinuation | InvalidDecimal | InvalidConfiguration | DuplicateCloid
  | UnknownCloid | AssetBlockedByUnknownResult | InvalidTransition | NonceOverflow
  | UnsafeSecretPermissions | InvalidSecret | SecretIo string | Encode string | Signing string
  | Transport string | ExchangeHttp nat | Decode string | UnknownSubmissionResult nat
  | UnexpectedExchangeResponse | IocUnexpectedlyResting nat | ConfirmationTooSoon | CloidMismatch
  | RegistryCapacityExhausted | RegistryIo string | StartupNotReconciled | Authorization string
  | Reconciliation string | MissingMarketRules | InvalidExchangeState | Ledger string
  | ExchangeFillMismatch | AmbiguousExchangeEventOrdering

type_synonym 'a signer = "('a, signer_error) outcome"

definition is_lower_hex :: "string \<Rightarrow> bool" where
  "is_lower_hex s = list_all (\<lambda>c. c \<in> set ''0123456789abcdef'') s"

definition valid_cloid :: "string \<Rightarrow> bool" where
  "valid_cloid s = (length s = 34 \<and> take 2 s = ''0x'' \<and> is_lower_hex (drop 2 s))"

definition hex64 :: "string \<Rightarrow> bool" where
  "hex64 s = (length s = 64 \<and> is_lower_hex s)"

definition validate_intent :: "approved_execution_intent \<Rightarrow> unit signer" where
  "validate_intent i =
    and_then (fail_if
      (\<not> hex64 (ei_decision_id i) \<or> \<not> hex64 (ei_risk_projection_hash i) \<or> \<not> hex64 (ei_risk_policy_hash i)
       \<or> \<not> hex64 (ei_configuration_hash i) \<or> \<not> hex64 (ei_release_manifest_hash i)
       \<or> \<not> hex64 (ei_canonical_intent_hash i) \<or> \<not> valid_cloid (ei_root_cloid i) \<or> \<not> valid_cloid (ei_cloid i)
       \<or> (case ei_parent_cloid i of None \<Rightarrow> False | Some v \<Rightarrow> \<not> valid_cloid v)
       \<or> ei_asset i = [] \<or> scaled_value (ei_limit_price i) \<le> 0 \<or> scaled_value (ei_quantity i) \<le> 0
       \<or> ei_decision_reference_price i \<le> 0 \<or> ei_expires_at_mono i = 0
       \<or> 8 < scale (ei_limit_price i) \<or> 8 < scale (ei_quantity i)) InvalidIntent) (\<lambda>_.
    and_then (fail_if (ei_continuation_generation i = 0 \<and> ei_parent_cloid i \<noteq> None) InvalidContinuation) (\<lambda>_.
    fail_if (0 < ei_continuation_generation i \<and> ei_parent_cloid i = None) InvalidContinuation))"

definition canonical_decimal :: "(rat \<Rightarrow> string) \<Rightarrow> scaled \<Rightarrow> string signer" where
  "canonical_decimal dec_str d =
    and_then (fail_if (scaled_value d \<le> 0 \<or> 8 < scale d) InvalidDecimal) (\<lambda>_. Ok (dec_str (scaled_value d)))"

section \<open>Submission states\<close>

datatype submission_state =
    Authorized
  | AuthorizedNotSubmitted
  | NonceAllocated nat
  | Signed nat
  | SubmissionStarted nat
  | Acknowledged string
  | PartiallyFilled string rat
  | Filled string rat
  | Cancelled "string option" rat
  | Rejected string
  | UnknownResult nat
  | ReconciledNotFound

fun unresolved :: "submission_state \<Rightarrow> bool" where
  "unresolved (Filled _ _) = False"
| "unresolved (Cancelled _ _) = False"
| "unresolved (Rejected _) = False"
| "unresolved ReconciledNotFound = False"
| "unresolved _ = True"

fun state_order_id :: "submission_state \<Rightarrow> string option" where
  "state_order_id (Acknowledged x) = Some x"
| "state_order_id (PartiallyFilled x _) = Some x"
| "state_order_id (Filled x _) = Some x"
| "state_order_id (Cancelled x _) = x"
| "state_order_id _ = None"

definition valid_transition :: "submission_state \<Rightarrow> submission_state \<Rightarrow> bool" where
  "valid_transition current next =
    (case current of
       Authorized \<Rightarrow>
         (case next of NonceAllocated _ \<Rightarrow> True | AuthorizedNotSubmitted \<Rightarrow> True | Rejected _ \<Rightarrow> True | _ \<Rightarrow> False)
     | AuthorizedNotSubmitted \<Rightarrow>
         (case next of NonceAllocated _ \<Rightarrow> True | Authorized \<Rightarrow> True | Rejected _ \<Rightarrow> True | _ \<Rightarrow> False)
     | NonceAllocated _ \<Rightarrow>
         (case next of AuthorizedNotSubmitted \<Rightarrow> True | Rejected _ \<Rightarrow> True | Signed _ \<Rightarrow> True | _ \<Rightarrow> False)
     | Signed _ \<Rightarrow>
         (case next of AuthorizedNotSubmitted \<Rightarrow> True | Rejected _ \<Rightarrow> True | SubmissionStarted _ \<Rightarrow> True | _ \<Rightarrow> False)
     | SubmissionStarted _ \<Rightarrow>
         (case next of Acknowledged _ \<Rightarrow> True | UnknownResult _ \<Rightarrow> True | Filled _ _ \<Rightarrow> True
          | Rejected _ \<Rightarrow> True | _ \<Rightarrow> False)
     | Acknowledged _ \<Rightarrow>
         (case next of Acknowledged _ \<Rightarrow> True | PartiallyFilled _ _ \<Rightarrow> True | Filled _ _ \<Rightarrow> True
          | Cancelled _ _ \<Rightarrow> True | Rejected _ \<Rightarrow> True | _ \<Rightarrow> False)
     | PartiallyFilled _ _ \<Rightarrow>
         (case next of PartiallyFilled _ _ \<Rightarrow> True | Filled _ _ \<Rightarrow> True | Cancelled _ _ \<Rightarrow> True | _ \<Rightarrow> False)
     | UnknownResult _ \<Rightarrow>
         (case next of Acknowledged _ \<Rightarrow> True | PartiallyFilled _ _ \<Rightarrow> True | Filled _ _ \<Rightarrow> True
          | Cancelled _ _ \<Rightarrow> True | Rejected _ \<Rightarrow> True | _ \<Rightarrow> False)
     | _ \<Rightarrow> False)"

fun is_unknown_result :: "submission_state \<Rightarrow> bool" where
  "is_unknown_result (UnknownResult _) = True"
| "is_unknown_result _ = False"

text \<open>The states that lift an asset's block: \<open>Filled\<close>, \<open>Cancelled\<close>, \<open>Rejected\<close>, \<open>ReconciledNotFound\<close>.\<close>

fun lifts_block :: "submission_state \<Rightarrow> bool" where
  "lifts_block (Filled _ _) = True"
| "lifts_block (Cancelled _ _) = True"
| "lifts_block (Rejected _) = True"
| "lifts_block ReconciledNotFound = True"
| "lifts_block _ = False"

section \<open>The registry\<close>

record transition_record =
  tr_cloid :: string
  tr_state :: submission_state
  recorded_at_ms :: nat

record submission_registry =
  submissions :: "(string, approved_execution_intent \<times> submission_state) bmap"
  unknown_assets :: "asset bset"
  not_found_confirmations :: "(string, nat list) bmap"
  maximum_submissions :: nat
  history :: "transition_record list"

definition with_capacity :: "nat \<Rightarrow> submission_registry signer" where
  "with_capacity n = and_then (fail_if (n = 0) InvalidConfiguration) (\<lambda>_.
     Ok \<lparr>submissions = bempty, unknown_assets = bempty, not_found_confirmations = bempty,
         maximum_submissions = n, history = []\<rparr>)"

definition register :: "submission_registry \<Rightarrow> approved_execution_intent \<Rightarrow> submission_registry signer" where
  "register reg i =
    and_then (validate_intent i) (\<lambda>_.
    and_then (fail_if (bhas (submissions reg) (ei_cloid i)) DuplicateCloid) (\<lambda>_.
    and_then (fail_if (\<not> ei_reduce_only i \<and> bhas (unknown_assets reg) (ei_asset i))
      AssetBlockedByUnknownResult) (\<lambda>_.
    and_then (fail_if (maximum_submissions reg \<le> bsize (submissions reg)) RegistryCapacityExhausted) (\<lambda>_.
    Ok (reg\<lparr>submissions := binsert (ei_cloid i) (i, Authorized) (submissions reg),
            history := history reg @ [\<lparr>tr_cloid = ei_cloid i, tr_state = Authorized, recorded_at_ms = 0\<rparr>]\<rparr>)))))"

definition submission_state_of :: "submission_registry \<Rightarrow> string \<Rightarrow> submission_state option" where
  "submission_state_of reg c = map_option snd (bget (submissions reg) c)"

definition approved_intent :: "submission_registry \<Rightarrow> string \<Rightarrow> approved_execution_intent signer" where
  "approved_intent reg c =
    and_then (ok_or UnknownCloid (bget (submissions reg) c)) (\<lambda>e.
    and_then (fail_if (snd e \<noteq> Authorized \<and> snd e \<noteq> AuthorizedNotSubmitted) InvalidTransition) (\<lambda>_.
    Ok (fst e)))"

text \<open>The guards of \<open>transition_at\<close> on order ids and fills.\<close>

definition transition_guards :: "string \<Rightarrow> submission_state \<Rightarrow> submission_state \<Rightarrow> unit signer" where
  "transition_guards c current next =
    and_then (fail_if (case (state_order_id current, state_order_id next) of
        (Some x, Some y) \<Rightarrow> x \<noteq> c \<and> x \<noteq> y | _ \<Rightarrow> False) InvalidTransition) (\<lambda>_.
    and_then (fail_if (case (current, next) of
        (Acknowledged x, Acknowledged y) \<Rightarrow> x \<noteq> c \<or> y = c | _ \<Rightarrow> False) InvalidTransition) (\<lambda>_.
    and_then (fail_if (case (current, next) of
        (PartiallyFilled x f, PartiallyFilled y g) \<Rightarrow> x \<noteq> y \<or> g < f | _ \<Rightarrow> False) InvalidTransition) (\<lambda>_.
    fail_if (\<not> valid_transition current next) InvalidTransition)))"

definition transition_at ::
  "submission_registry \<Rightarrow> string \<Rightarrow> submission_state \<Rightarrow> nat \<Rightarrow> submission_registry signer" where
  "transition_at reg c next now =
    and_then (ok_or UnknownCloid (bget (submissions reg) c)) (\<lambda>e.
    if snd e = next then Ok reg else
    and_then (transition_guards c (snd e) next) (\<lambda>_.
    let a = ei_asset (fst e);
        unknown = (if is_unknown_result next then binsert a () (unknown_assets reg) else unknown_assets reg);
        unknown' = (if lifts_block next then bremove a unknown else unknown);
        confirmations = (if lifts_block next then bremove c (not_found_confirmations reg)
                         else not_found_confirmations reg) in
    Ok (reg\<lparr>submissions := binsert c (fst e, next) (submissions reg), unknown_assets := unknown',
            not_found_confirmations := confirmations,
            history := history reg @ [\<lparr>tr_cloid = c, tr_state = next, recorded_at_ms = now\<rparr>]\<rparr>)))"

definition submission_transition :: "submission_registry \<Rightarrow> string \<Rightarrow> submission_state \<Rightarrow> submission_registry signer" where
  "submission_transition reg c next = transition_at reg c next 0"

definition has_authorized_not_submitted :: "submission_registry \<Rightarrow> bool" where
  "has_authorized_not_submitted reg = list_ex (\<lambda>e. snd e = AuthorizedNotSubmitted) (bvals (submissions reg))"

definition durable_sequence :: "submission_registry \<Rightarrow> nat signer" where
  "durable_sequence reg = (if length (history reg) < 2 ^ 64 then Ok (length (history reg))
     else Err RegistryCapacityExhausted)"

fun state_nonce :: "submission_state \<Rightarrow> nat option" where
  "state_nonce (NonceAllocated n) = Some n"
| "state_nonce (Signed n) = Some n"
| "state_nonce (SubmissionStarted n) = Some n"
| "state_nonce (UnknownResult n) = Some n"
| "state_nonce _ = None"

definition history_nonces :: "submission_registry \<Rightarrow> nat list" where
  "history_nonces reg = List.map_filter (\<lambda>e. state_nonce (tr_state e)) (history reg)"

definition next_nonce_floor :: "submission_registry \<Rightarrow> nat signer" where
  "next_nonce_floor reg =
    (case max_by cmp (history_nonces reg) of
       None \<Rightarrow> Ok 0
     | Some n \<Rightarrow> ok_or NonceOverflow (checked_add_nat 64 n 1))"

definition permits_increase :: "submission_registry \<Rightarrow> asset \<Rightarrow> bool" where
  "permits_increase reg a = (\<not> bhas (unknown_assets reg) a)"

definition confirm_submission_not_found ::
  "submission_registry \<Rightarrow> string \<Rightarrow> nat \<Rightarrow> nat \<Rightarrow> nat \<Rightarrow> (bool \<times> submission_registry) signer" where
  "confirm_submission_not_found reg c observed_at required interval =
    and_then (fail_if (required < 2 \<or> interval = 0) InvalidConfiguration) (\<lambda>_.
    and_then (ok_or UnknownCloid (bget (submissions reg) c)) (\<lambda>e.
    and_then (fail_if (\<not> is_unknown_result (snd e)) InvalidTransition) (\<lambda>_.
    let confirmations = bget_or [] (not_found_confirmations reg) c in
    and_then (fail_if (confirmations \<noteq> [] \<and> observed_at < saturating_add 64 (last confirmations) interval)
      ConfirmationTooSoon) (\<lambda>_.
    let confirmations' = confirmations @ [observed_at] in
    if length confirmations' < required
    then Ok (False, reg\<lparr>not_found_confirmations := binsert c confirmations' (not_found_confirmations reg)\<rparr>)
    else Ok (True, reg\<lparr>submissions := binsert c (fst e, ReconciledNotFound) (submissions reg),
                      unknown_assets := bremove (ei_asset (fst e)) (unknown_assets reg),
                      not_found_confirmations := bremove c (not_found_confirmations reg)\<rparr>)))))"

definition unresolved_count :: "submission_registry \<Rightarrow> nat" where
  "unresolved_count reg = length (filter (\<lambda>e. unresolved (snd e)) (bvals (submissions reg)))"

section \<open>Restart\<close>

text \<open>\<open>history.iter().rev().find(..)\<close>.\<close>

definition last_event :: "transition_record list \<Rightarrow> string \<Rightarrow> transition_record option" where
  "last_event h c = List.find (\<lambda>e. tr_cloid e = c) (rev h)"

definition expected_unknown :: "submission_registry \<Rightarrow> asset bset" where
  "expected_unknown reg = bset_of (map (\<lambda>e. ei_asset (fst e))
     (filter (\<lambda>e. is_unknown_result (snd e)) (bvals (submissions reg))))"

definition restore_entry :: "string \<times> approved_execution_intent \<times> submission_state \<Rightarrow> unit signer" where
  "restore_entry e = and_then (validate_intent (fst (snd e))) (\<lambda>_.
     fail_if (fst e \<noteq> ei_cloid (fst (snd e))) CloidMismatch)"

definition restore_history ::
  "transition_record list \<Rightarrow> string \<times> approved_execution_intent \<times> submission_state \<Rightarrow> unit signer" where
  "restore_history h e =
    (case last_event h (fst e) of
       None \<Rightarrow> Err InvalidExchangeState
     | Some t \<Rightarrow> fail_if (tr_state t \<noteq> snd (snd e)) InvalidExchangeState)"

definition restore_check :: "submission_registry \<Rightarrow> submission_registry signer" where
  "restore_check reg =
    and_then (fail_if (maximum_submissions reg = 0 \<or> maximum_submissions reg < bsize (submissions reg))
      InvalidConfiguration) (\<lambda>_.
    and_then (check_all restore_entry (entries (submissions reg))) (\<lambda>_.
    and_then (fail_if (unknown_assets reg \<noteq> expected_unknown reg) InvalidExchangeState) (\<lambda>_.
    and_then (check_all (restore_history (history reg)) (entries (submissions reg))) (\<lambda>_.
    Ok reg))))"

section \<open>Nonces\<close>

text \<open>
  \<open>NonceAllocator::next\<close> called by any number of threads: a call starts with the time it was given,
  loads the shared counter, and its compare-exchange either replaces the value it loaded and
  returns or fails and goes back to the load. \<open>emitted\<close> lists the nonces returned so far.
\<close>

datatype thread = Idle | Calling nat | Loaded nat nat

record allocator =
  counter :: nat
  threads :: "thread list"
  emitted :: "nat list"

datatype allocator_step = Call nat nat | Load nat | CompareExchange nat

definition new_allocator :: "nat \<Rightarrow> nat \<Rightarrow> allocator" where
  "new_allocator initial n = \<lparr>counter = initial, threads = replicate n Idle, emitted = []\<rparr>"

definition compare_exchange :: "nat \<Rightarrow> nat \<Rightarrow> nat \<Rightarrow> allocator \<Rightarrow> allocator" where
  "compare_exchange i observed unix_millis s =
    (let nonce = max observed unix_millis in
     case checked_add_nat 64 nonce 1 of
       None \<Rightarrow> s\<lparr>threads := (threads s)[i := Idle]\<rparr>
     | Some following \<Rightarrow>
         if counter s = observed
         then s\<lparr>counter := following, threads := (threads s)[i := Idle], emitted := emitted s @ [nonce]\<rparr>
         else s\<lparr>threads := (threads s)[i := Calling unix_millis]\<rparr>)"

fun allocator_exec :: "allocator_step \<Rightarrow> allocator \<Rightarrow> allocator" where
  "allocator_exec (Call i unix_millis) s =
    (if i < length (threads s) \<and> threads s ! i = Idle
     then s\<lparr>threads := (threads s)[i := Calling unix_millis]\<rparr> else s)"
| "allocator_exec (Load i) s =
    (if i < length (threads s) then
       (case threads s ! i of
          Calling unix_millis \<Rightarrow> s\<lparr>threads := (threads s)[i := Loaded (counter s) unix_millis]\<rparr>
        | _ \<Rightarrow> s)
     else s)"
| "allocator_exec (CompareExchange i) s =
    (if i < length (threads s) then
       (case threads s ! i of Loaded observed unix_millis \<Rightarrow> compare_exchange i observed unix_millis s | _ \<Rightarrow> s)
     else s)"

section \<open>Allocated nonces\<close>

definition allocator_ok :: "nat \<Rightarrow> allocator \<Rightarrow> bool" where
  "allocator_ok initial s = (sorted_wrt (<) (emitted s) \<and> (\<forall>n \<in> set (emitted s). initial \<le> n \<and> n < counter s)
     \<and> initial \<le> counter s)"

lemma allocator_exec_ok: "allocator_ok initial s \<Longrightarrow> allocator_ok initial (allocator_exec step s)"
  by (cases step)
     (auto simp: allocator_ok_def compare_exchange_def Let_def checked_add_nat_Some sorted_wrt_append less_Suc_eq
       max_def split: thread.splits option.splits if_splits)

interpretation allocation: ranked_machine allocator_exec "allocator_ok initial" counter for initial
proof
  show "allocator_ok initial s \<Longrightarrow> allocator_ok initial (allocator_exec step s)" for s step
    by (rule allocator_exec_ok)
  show "counter s \<le> counter (allocator_exec step s)" for s step
    by (cases step) (auto simp: compare_exchange_def Let_def checked_add_nat_Some max_def
        split: thread.splits option.splits)
qed

section \<open>Well-formed registries\<close>

text \<open>The states the history records for an order, oldest first.\<close>

definition path_of :: "transition_record list \<Rightarrow> string \<Rightarrow> submission_state list" where
  "path_of h c = map tr_state (filter (\<lambda>e. tr_cloid e = c) h)"

fun valid_path :: "submission_state list \<Rightarrow> bool" where
  "valid_path (s # t # r) = (valid_transition s t \<and> valid_path (t # r))"
| "valid_path _ = True"

definition registry_inv :: "submission_registry \<Rightarrow> bool" where
  "registry_inv reg = (
     bsize (submissions reg) \<le> maximum_submissions reg \<and> 0 < maximum_submissions reg
     \<and> (\<forall>c i s. bget (submissions reg) c = Some (i, s) \<longrightarrow>
          ei_cloid i = c \<and> validate_intent i = Ok ()
          \<and> path_of (history reg) c \<noteq> [] \<and> hd (path_of (history reg) c) = Authorized
          \<and> (if s = ReconciledNotFound then is_unknown_result (last (path_of (history reg) c))
             else last (path_of (history reg) c) = s))
     \<and> (\<forall>c. valid_path (path_of (history reg) c))
     \<and> (\<forall>c. \<not> bhas (submissions reg) c \<longrightarrow> path_of (history reg) c = []))"

lemma path_append: "path_of (h @ [e]) c = path_of h c @ (if tr_cloid e = c then [tr_state e] else [])"
  by (simp add: path_of_def)

lemma valid_path_snoc: "valid_path (xs @ [x]) \<longleftrightarrow> valid_path xs \<and> (xs \<noteq> [] \<longrightarrow> valid_transition (last xs) x)"
  by (induction xs rule: valid_path.induct) auto

lemma last_event_path: "map_option tr_state (last_event h c)
    = (if path_of h c = [] then None else Some (last (path_of h c)))"
proof (induction h rule: rev_induct)
  case (snoc e h)
  then show ?case by (auto simp: last_event_def path_of_def)
qed (simp add: last_event_def path_of_def)

lemma registry_invD:
  assumes "registry_inv reg"
  shows "bsize (submissions reg) \<le> maximum_submissions reg" "0 < maximum_submissions reg"
    "valid_path (path_of (history reg) c)" "\<not> bhas (submissions reg) c \<Longrightarrow> path_of (history reg) c = []"
    "bget (submissions reg) c = Some (i, s) \<Longrightarrow> ei_cloid i = c \<and> validate_intent i = Ok ()"
    "bget (submissions reg) c = Some (i, s) \<Longrightarrow> path_of (history reg) c \<noteq> []
       \<and> hd (path_of (history reg) c) = Authorized
       \<and> (if s = ReconciledNotFound then is_unknown_result (last (path_of (history reg) c))
          else last (path_of (history reg) c) = s)"
  using assms by (auto simp: registry_inv_def)

lemma with_capacity_inv: "with_capacity n = Ok reg \<Longrightarrow> registry_inv reg"
  by (auto simp: with_capacity_def outcome_simps registry_inv_def path_of_def)

lemma register_inv:
  assumes "register reg i = Ok reg'" "registry_inv reg"
  shows "registry_inv reg'"
proof -
  note D = registry_invD [OF assms(2)]
  from assms(1) have v: "validate_intent i = Ok ()" and new: "\<not> bhas (submissions reg) (ei_cloid i)"
    and room: "bsize (submissions reg) < maximum_submissions reg"
    and reg': "reg' = reg\<lparr>submissions := binsert (ei_cloid i) (i, Authorized) (submissions reg),
        history := history reg @ [\<lparr>tr_cloid = ei_cloid i, tr_state = Authorized, recorded_at_ms = 0\<rparr>]\<rparr>"
    by (auto simp: register_def outcome_simps)
  have p: "path_of (history reg') c = (if c = ei_cloid i then [Authorized] else path_of (history reg) c)" for c
    using D(4) [OF new] by (simp add: reg' path_append)
  show ?thesis
    unfolding registry_inv_def p
    using D(2,3,4,5,6) v new room by (auto simp: reg' bsize_insert_new)
qed

lemma transition_at_cases:
  assumes "transition_at reg c nxt now = Ok reg'"
  obtains (same) i where "reg' = reg" "bget (submissions reg) c = Some (i, nxt)"
  | (moved) i s where "bget (submissions reg) c = Some (i, s)" "s \<noteq> nxt" "valid_transition s nxt"
      "transition_guards c s nxt = Ok ()"
      "submissions reg' = binsert c (i, nxt) (submissions reg)"
      "maximum_submissions reg' = maximum_submissions reg"
      "history reg' = history reg @ [\<lparr>tr_cloid = c, tr_state = nxt, recorded_at_ms = now\<rparr>]"
      "\<And>a. bhas (unknown_assets reg') a \<longleftrightarrow>
        (if a = ei_asset i \<and> lifts_block nxt then False
         else a = ei_asset i \<and> is_unknown_result nxt \<or> bhas (unknown_assets reg) a)"
proof -
  from assms obtain i s where e: "bget (submissions reg) c = Some (i, s)"
    by (auto simp: transition_at_def outcome_simps)
  show thesis
  proof (cases "s = nxt")
    case True
    with assms e show thesis by (intro same [of i]) (simp_all add: transition_at_def)
  next
    case False
    define unknown where "unknown = (if is_unknown_result nxt
        then binsert (ei_asset i) () (unknown_assets reg) else unknown_assets reg)"
    define unknown' where "unknown' = (if lifts_block nxt then bremove (ei_asset i) unknown else unknown)"
    from assms e False have g: "transition_guards c s nxt = Ok ()"
      and r: "submissions reg' = binsert c (i, nxt) (submissions reg)"
        "maximum_submissions reg' = maximum_submissions reg"
        "history reg' = history reg @ [\<lparr>tr_cloid = c, tr_state = nxt, recorded_at_ms = now\<rparr>]"
        "unknown_assets reg' = unknown'"
      by (auto simp: transition_at_def outcome_simps Let_def unknown_def unknown'_def)
    have "valid_transition s nxt" using g by (simp add: transition_guards_def outcome_simps)
    moreover have "bhas (unknown_assets reg') a \<longleftrightarrow>
        (if a = ei_asset i \<and> lifts_block nxt then False
         else a = ei_asset i \<and> is_unknown_result nxt \<or> bhas (unknown_assets reg) a)" for a
      by (auto simp: r(4) unknown'_def unknown_def)
    ultimately show thesis using e False g r by (intro moved)
  qed
qed

lemma not_found_unreachable: "\<not> valid_transition s ReconciledNotFound" "\<not> valid_transition ReconciledNotFound s"
  by (auto simp: valid_transition_def split: submission_state.splits)

lemma transition_at_inv:
  assumes "transition_at reg c nxt now = Ok reg'" "registry_inv reg"
  shows "registry_inv reg'"
  using assms(1)
proof (cases rule: transition_at_cases)
  case (moved i s)
  note D = registry_invD [OF assms(2)]
  have s: "s \<noteq> ReconciledNotFound" "nxt \<noteq> ReconciledNotFound"
    using moved(3) not_found_unreachable by auto
  have p: "path_of (history reg') d = path_of (history reg) d @ (if d = c then [nxt] else [])" for d
    by (simp add: moved(7) path_append)
  from D(6) [OF moved(1)] s(1) have pc: "path_of (history reg) c \<noteq> []"
    "hd (path_of (history reg) c) = Authorized" "last (path_of (history reg) c) = s" by auto
  have has: "bhas (submissions reg) c" using moved(1) by (rule bget_has)
  show ?thesis
    unfolding registry_inv_def
  proof (intro conjI allI impI)
    show "bsize (submissions reg') \<le> maximum_submissions reg'" "0 < maximum_submissions reg'"
      using D(1,2) by (simp_all add: moved(5,6) bsize_insert_old has)
    show "valid_path (path_of (history reg') d)" for d
      using D(3) [of d] pc moved(3) by (auto simp: p valid_path_snoc)
    show "path_of (history reg') d = []" if "\<not> bhas (submissions reg') d" for d
      using that D(4) [of d] by (simp add: moved(5) p)
    fix d j t assume e: "bget (submissions reg') d = Some (j, t)"
    show "ei_cloid j = d" "validate_intent j = Ok ()"
      using e D(5) [OF moved(1)] D(5) [of d j t] by (auto simp: moved(5) split: if_splits)
    show "path_of (history reg') d \<noteq> []" "hd (path_of (history reg') d) = Authorized"
      using e pc D(6) [of d j t] by (auto simp: moved(5) p split: if_splits)
    show "if t = ReconciledNotFound then is_unknown_result (last (path_of (history reg') d))
          else last (path_of (history reg') d) = t"
      using e s(2) D(6) [of d j t] by (auto simp: moved(5) p split: if_splits)
  qed
qed (use assms(2) in simp)

lemma confirm_cases:
  assumes "confirm_submission_not_found reg c t required interval = Ok (done, reg')"
  obtains (more) i s where "bget (submissions reg) c = Some (i, s)" "is_unknown_result s" "\<not> done"
      "submissions reg' = submissions reg" "history reg' = history reg" "unknown_assets reg' = unknown_assets reg"
      "maximum_submissions reg' = maximum_submissions reg"
  | (resolved) i s where "bget (submissions reg) c = Some (i, s)" "is_unknown_result s" "done"
      "submissions reg' = binsert c (i, ReconciledNotFound) (submissions reg)" "history reg' = history reg"
      "unknown_assets reg' = bremove (ei_asset i) (unknown_assets reg)"
      "maximum_submissions reg' = maximum_submissions reg"
  using assms by (fastforce simp: confirm_submission_not_found_def outcome_simps Let_def split: if_splits)

lemma confirm_inv:
  assumes "confirm_submission_not_found reg c t required interval = Ok (done, reg')" "registry_inv reg"
  shows "registry_inv reg'"
  using assms(1)
proof (cases rule: confirm_cases)
  case (more i s)
  with assms(2) show ?thesis by (simp add: registry_inv_def)
next
  case (resolved i s)
  note D = registry_invD [OF assms(2)]
  have "s \<noteq> ReconciledNotFound" using resolved(2) by auto
  with D(6) [OF resolved(1)] resolved(2) have "is_unknown_result (last (path_of (history reg) c))"
    "path_of (history reg) c \<noteq> []" "hd (path_of (history reg) c) = Authorized" by auto
  moreover have "bhas (submissions reg) c" using resolved(1) by (rule bget_has)
  moreover have "ei_cloid i = c" "validate_intent i = Ok ()" using D(5) [OF resolved(1)] by auto
  ultimately show ?thesis
    using D(1-4) D(5,6) unfolding registry_inv_def
    by (auto simp: resolved(4-7) bsize_insert_old)
qed

datatype submission_op =
    Register approved_execution_intent
  | TransitionAt string submission_state nat
  | ConfirmNotFound string nat nat nat

fun submission_exec :: "submission_op \<Rightarrow> submission_registry \<Rightarrow> submission_registry" where
  "submission_exec (Register i) reg = (case register reg i of Ok reg' \<Rightarrow> reg' | _ \<Rightarrow> reg)"
| "submission_exec (TransitionAt c s t) reg = (case transition_at reg c s t of Ok reg' \<Rightarrow> reg' | _ \<Rightarrow> reg)"
| "submission_exec (ConfirmNotFound c t r k) reg =
    (case confirm_submission_not_found reg c t r k of Ok (_, reg') \<Rightarrow> reg' | _ \<Rightarrow> reg)"

interpretation submission: machine submission_exec registry_inv
proof
  show "registry_inv reg \<Longrightarrow> registry_inv (submission_exec op reg)" for reg op
    by (cases op) (auto split: outcome.splits intro: register_inv transition_at_inv confirm_inv)
qed

lemma submission_reachable:
  "with_capacity n = Ok reg0 \<Longrightarrow> registry_inv (fold submission_exec ops reg0)"
  by (rule submission.invar_run) (rule with_capacity_inv)

section \<open>What a restart accepts\<close>

lemma restore_entries_ok:
  assumes "registry_inv reg" shows "check_all restore_entry (entries (submissions reg)) = Ok ()"
proof -
  have "restore_entry e = Ok ()" if "e \<in> set (entries (submissions reg))" for e
  proof -
    obtain c i s where e: "e = (c, i, s)" by (cases e)
    with that have "bget (submissions reg) c = Some (i, s)" by (simp add: bentries_iff)
    from registry_invD(5) [OF assms this] show ?thesis by (simp add: restore_entry_def e)
  qed
  then show ?thesis by (simp add: check_all_Ok)
qed

lemma restore_history_entry:
  assumes "registry_inv reg" "bget (submissions reg) c = Some (i, s)"
  shows "restore_history (history reg) (c, i, s)
    = (if s = ReconciledNotFound then Err InvalidExchangeState else Ok ())"
proof -
  note P = registry_invD(6) [OF assms]
  then have "map_option tr_state (last_event (history reg) c) = Some (last (path_of (history reg) c))"
    by (simp add: last_event_path)
  then obtain t where "last_event (history reg) c = Some t" "tr_state t = last (path_of (history reg) c)"
    by auto
  with P show ?thesis by (auto simp: restore_history_def fail_if_def split: if_splits)
qed

lemma restore_check_exact:
  assumes "registry_inv reg"
  shows "restore_check reg = (if unknown_assets reg = expected_unknown reg
      \<and> (\<forall>c i. bget (submissions reg) c \<noteq> Some (i, ReconciledNotFound))
    then Ok reg else Err InvalidExchangeState)"
proof (cases "\<forall>c i. bget (submissions reg) c \<noteq> Some (i, ReconciledNotFound)")
  case True
  have "restore_history (history reg) e = Ok ()" if "e \<in> set (entries (submissions reg))" for e
  proof -
    obtain c i s where e: "e = (c, i, s)" by (cases e)
    with that have "bget (submissions reg) c = Some (i, s)" by (simp add: bentries_iff)
    with restore_history_entry [OF assms this] True show ?thesis by (auto simp: e)
  qed
  then have "check_all (restore_history (history reg)) (entries (submissions reg)) = Ok ()"
    by (simp add: check_all_Ok)
  with True registry_invD(1,2) [OF assms] restore_entries_ok [OF assms] show ?thesis
    by (simp add: restore_check_def)
next
  case False
  then obtain c i where c: "bget (submissions reg) c = Some (i, ReconciledNotFound)" by blast
  have "check_all (restore_history (history reg)) (entries (submissions reg)) = Err InvalidExchangeState"
  proof (rule check_all_Err)
    fix e assume e: "e \<in> set (entries (submissions reg))"
    obtain d j s where d: "e = (d, j, s)" by (cases e)
    with e have "bget (submissions reg) d = Some (j, s)" by (simp add: bentries_iff)
    from restore_history_entry [OF assms this]
    show "restore_history (history reg) e = Ok () \<or> restore_history (history reg) e = Err InvalidExchangeState"
      by (simp add: d)
  next
    have "(c, i, ReconciledNotFound) \<in> set (entries (submissions reg))" using c by (simp add: bentries_iff)
    with restore_history_entry [OF assms c]
    show "\<exists>e \<in> set (entries (submissions reg)). restore_history (history reg) e \<noteq> Ok ()" by force
  qed
  with False registry_invD(1,2) [OF assms] restore_entries_ok [OF assms] show ?thesis
    by (auto simp: restore_check_def fail_if_def)
qed

section \<open>Properties\<close>

definition sample_intent :: "char \<Rightarrow> approved_execution_intent" where
  "sample_intent ch = \<lparr>ei_decision_id = replicate 64 ch, ei_target_version = 1,
     ei_root_cloid = ''0x'' @ replicate 32 ch, ei_cloid = ''0x'' @ replicate 32 ch, ei_parent_cloid = None,
     ei_continuation_generation = 0, ei_asset = ''BTC'', ei_asset_index = 0, ei_is_buy = True,
     ei_reduce_only = False, ei_limit_price = Scaled 1000 1, ei_quantity = Scaled 5 2,
     ei_risk_projection_hash = replicate 64 ch, ei_risk_policy_hash = replicate 64 ch,
     ei_configuration_hash = replicate 64 ch, ei_release_manifest_hash = replicate 64 ch,
     ei_decision_reference_price = 100, ei_decision_timestamp_ms = 0, ei_expires_at_mono = 9,
     ei_canonical_intent_hash = replicate 64 ch\<rparr>"

definition cloid_a :: string where "cloid_a = ''0x'' @ replicate 32 (CHR ''a'')"
definition cloid_b :: string where "cloid_b = ''0x'' @ replicate 32 (CHR ''b'')"

text \<open>The operations that bring a registered order to an unknown result.\<close>

definition to_unknown :: "string \<Rightarrow> nat \<Rightarrow> submission_op list" where
  "to_unknown c n = [TransitionAt c (NonceAllocated n) 1, TransitionAt c (Signed n) 2,
     TransitionAt c (SubmissionStarted n) 3, TransitionAt c (UnknownResult n) 4]"

lemma sample_intent_ok: "validate_intent (sample_intent (CHR ''a'')) = Ok ()"
    "validate_intent (sample_intent (CHR ''b'')) = Ok ()"
    "ei_cloid (sample_intent (CHR ''a'')) = cloid_a" "ei_cloid (sample_intent (CHR ''b'')) = cloid_b"
    "ei_asset (sample_intent ch) = ''BTC''" "ei_reduce_only (sample_intent ch) = False" "cloid_a \<noteq> cloid_b"
  by (simp_all add: validate_intent_def sample_intent_def hex64_def is_lower_hex_def valid_cloid_def
      scaled_value_def cloid_a_def cloid_b_def list_all_iff numeral_eq_Suc)

text \<open>A registry holding one sample order.\<close>

definition sreg :: "submission_state \<Rightarrow> asset bset \<Rightarrow> (string, nat list) bmap \<Rightarrow> transition_record list \<Rightarrow> submission_registry" where
  "sreg s unknown conf h = \<lparr>submissions = binsert cloid_a (sample_intent (CHR ''a''), s) bempty,
     unknown_assets = unknown, not_found_confirmations = conf, maximum_submissions = 10, history = h\<rparr>"

lemma sreg_simps:
  "submissions (sreg s u f h) = binsert cloid_a (sample_intent (CHR ''a''), s) bempty"
  "unknown_assets (sreg s u f h) = u" "not_found_confirmations (sreg s u f h) = f"
  "maximum_submissions (sreg s u f h) = 10" "history (sreg s u f h) = h"
  by (simp_all add: sreg_def)

lemma sreg_register: "with_capacity 10 = Ok reg0 \<Longrightarrow> register reg0 (sample_intent (CHR ''a''))
   = Ok (sreg Authorized bempty bempty [\<lparr>tr_cloid = cloid_a, tr_state = Authorized, recorded_at_ms = 0\<rparr>])"
  by (auto simp: with_capacity_def register_def sample_intent_ok sreg_def)

lemma sreg_transition: 
  assumes "s \<noteq> t" "transition_guards cloid_a s t = Ok ()" "\<not> lifts_block t"
  shows "transition_at (sreg s u f h) cloid_a t now
   = Ok (sreg t (if is_unknown_result t then binsert ''BTC'' () u else u) f
        (h @ [\<lparr>tr_cloid = cloid_a, tr_state = t, recorded_at_ms = now\<rparr>]))"
  using assms by (simp add: transition_at_def sreg_def sample_intent_ok bm.update_update)

lemma sreg_confirm:
  "confirm_submission_not_found (sreg (UnknownResult n) u bempty h) cloid_a t 2 100
    = Ok (False, sreg (UnknownResult n) u (binsert cloid_a [t] bempty) h)"
  by (simp add: confirm_submission_not_found_def sreg_def bget_or_def)

lemma sreg_to_unknown:
  assumes "with_capacity 10 = Ok reg0"
  shows "\<exists>h. fold submission_exec (Register (sample_intent (CHR ''a'')) # to_unknown cloid_a 7) reg0
    = sreg (UnknownResult 7) (binsert ''BTC'' () bempty) bempty h"
  using sreg_register [OF assms]
  by (simp add: to_unknown_def sreg_transition transition_guards_def valid_transition_def) (rule exI, rule refl)

text \<open>
  An order confirmed missing cannot survive a restart: after any operations, once
  \<open>confirm_not_found\<close> resolves an unknown result, the registry it leaves (and production persists)
  is one that \<open>restore\<close> refuses, because the resolution is not appended to the history.
\<close>

theorem confirmed_not_found_breaks_restart:
  assumes "with_capacity n = Ok reg0" and "reg = fold submission_exec ops reg0"
    and "confirm_submission_not_found reg c t required interval = Ok (True, reg')"
  shows "restore_check reg' = Err InvalidExchangeState"
proof -
  have "registry_inv reg" unfolding assms(2) by (rule submission_reachable [OF assms(1)])
  note restored = restore_check_exact [OF confirm_inv [OF assms(3) this]]
  from assms(3) have "\<exists>i. bget (submissions reg') c = Some (i, ReconciledNotFound)"
    by (cases rule: confirm_cases) auto
  with restored show ?thesis by (simp only: if_False) auto
qed

definition confirmed_ops :: "submission_op list" where
  "confirmed_ops = Register (sample_intent (CHR ''a'')) # to_unknown cloid_a 7 @ [ConfirmNotFound cloid_a 1000 2 100]"

lemma confirmed_not_found_breaks_restart_witness:
  "\<exists>reg0 reg'. with_capacity 10 = Ok reg0
     \<and> confirm_submission_not_found (fold submission_exec confirmed_ops reg0) cloid_a 1100 2 100 = Ok (True, reg')
     \<and> restore_check reg' = Err InvalidExchangeState"
proof -
  obtain reg0 where r: "with_capacity 10 = Ok reg0" by (simp add: with_capacity_def)
  obtain h where "fold submission_exec (Register (sample_intent (CHR ''a'')) # to_unknown cloid_a 7) reg0
      = sreg (UnknownResult 7) (binsert ''BTC'' () bempty) bempty h"
    using sreg_to_unknown [OF r] by blast
  then have "fold submission_exec confirmed_ops reg0
      = sreg (UnknownResult 7) (binsert ''BTC'' () bempty) (binsert cloid_a [1000] bempty) h"
    by (simp add: confirmed_ops_def sreg_confirm)
  then have "\<exists>reg'. confirm_submission_not_found (fold submission_exec confirmed_ops reg0) cloid_a 1100 2 100
      = Ok (True, reg')"
    by (simp add: confirm_submission_not_found_def sreg_simps bget_or_def saturating_add_def Let_def)
  then obtain reg' where c: "confirm_submission_not_found (fold submission_exec confirmed_ops reg0) cloid_a 1100 2 100
      = Ok (True, reg')" ..
  from confirmed_not_found_breaks_restart [OF r refl c] r c show ?thesis by blast
qed

text \<open>
  What a restart accepts, exactly: of the registries the operations can produce, \<open>restore\<close>
  accepts those whose blocked assets are the assets of the unknown results and in which no order
  is confirmed missing, and returns them unchanged; it refuses the others as inconsistent.
\<close>

theorem restore_accepts_exactly:
  assumes "with_capacity n = Ok reg0" and "reg = fold submission_exec ops reg0"
  shows "restore_check reg = (if unknown_assets reg = expected_unknown reg
      \<and> (\<forall>c i. bget (submissions reg) c \<noteq> Some (i, ReconciledNotFound))
    then Ok reg else Err InvalidExchangeState)"
  unfolding assms(2) by (rule restore_check_exact) (rule submission_reachable [OF assms(1)])

lemma restore_accepts_exactly_witness:
  "\<exists>reg0. with_capacity 10 = Ok reg0 \<and> (let reg = fold submission_exec [Register (sample_intent (CHR ''a''))] reg0 in
     restore_check reg = Ok reg)"
proof -
  obtain reg0 where r: "with_capacity 10 = Ok reg0" by (simp add: with_capacity_def)
  let ?ops = "[Register (sample_intent (CHR ''a''))]"
  obtain h where reg: "fold submission_exec ?ops reg0 = sreg Authorized bempty bempty h"
    using sreg_register [OF r] by simp
  have "bvals (submissions (sreg Authorized bempty bempty h)) = [(sample_intent (CHR ''a''), Authorized)]"
    by (simp add: sreg_simps bvals_def binsert.rep_eq bempty.rep_eq)
  then have "expected_unknown (sreg Authorized bempty bempty h) = bempty"
    by (simp add: expected_unknown_def bset_of_def bcollect_def)
  then have "restore_check (fold submission_exec ?ops reg0) = Ok (fold submission_exec ?ops reg0)"
    unfolding restore_accepts_exactly [OF r refl] unfolding reg by (simp add: sreg_simps)
  with r show ?thesis by (auto simp: Let_def)
qed

text \<open>
  An order found open after an unknown result cannot survive a restart either: the transition
  from unknown to acknowledged or partially filled leaves the asset marked unknown, and unless
  another order of the asset is still unknown \<open>restore\<close> refuses the registry.
\<close>

theorem open_after_unknown_breaks_restart:
  assumes "with_capacity n = Ok reg0" and "reg = fold submission_exec ops reg0"
    and "bget (submissions reg) c = Some (i, UnknownResult k)" and "\<not> permits_increase reg (ei_asset i)"
    and "\<forall>d j m. bget (submissions reg) d = Some (j, UnknownResult m) \<and> ei_asset j = ei_asset i \<longrightarrow> d = c"
    and "nxt = Acknowledged order \<or> nxt = PartiallyFilled order filled"
    and "transition_at reg c nxt now = Ok reg'"
  shows "restore_check reg' = Err InvalidExchangeState"
proof -
  have "registry_inv reg" unfolding assms(2) by (rule submission_reachable [OF assms(1)])
  then have inv: "registry_inv reg'" using transition_at_inv assms(7) by blast
  have plain: "nxt \<noteq> UnknownResult k" "\<not> lifts_block nxt" "\<not> is_unknown_result nxt" using assms(6) by auto
  from assms(7) have r: "submissions reg' = binsert c (i, nxt) (submissions reg)
      \<and> bhas (unknown_assets reg') (ei_asset i)"
  proof (cases rule: transition_at_cases)
    case same
    with assms(3) plain show ?thesis by simp
  next
    case (moved j s)
    then have "j = i" using assms(3) by simp
    with moved(5,8) plain assms(4) show ?thesis by (simp add: permits_increase_def)
  qed
  have "\<not> bhas (expected_unknown reg') (ei_asset i)"
  proof
    assume "bhas (expected_unknown reg') (ei_asset i)"
    then obtain e where e: "e \<in> set (bvals (submissions reg'))" "is_unknown_result (snd e)"
      "ei_asset (fst e) = ei_asset i"
      by (auto simp: expected_unknown_def)
    then obtain d where d: "bget (submissions reg') d = Some e" by (auto simp: set_bvals)
    from e(2) obtain m where m: "snd e = UnknownResult m" by (cases "snd e") auto
    show False
    proof (cases "d = c")
      case True
      with d r assms(6) m show False by auto
    next
      case False
      with d r m have "bget (submissions reg) d = Some (fst e, UnknownResult m)"
        by (cases e) simp
      with assms(5) e(3) False show False by blast
    qed
  qed
  with r have "unknown_assets reg' \<noteq> expected_unknown reg'" by auto
  with restore_check_exact [OF inv] show ?thesis by simp
qed

lemma open_after_unknown_breaks_restart_witness:
  "\<exists>reg0 reg'. with_capacity 10 = Ok reg0
     \<and> transition_at (fold submission_exec (Register (sample_intent (CHR ''a'')) # to_unknown cloid_a 7) reg0)
         cloid_a (Acknowledged ''91'') 5 = Ok reg'
     \<and> restore_check reg' = Err InvalidExchangeState"
proof -
  obtain reg0 where r: "with_capacity 10 = Ok reg0" by (simp add: with_capacity_def)
  let ?ops = "Register (sample_intent (CHR ''a'')) # to_unknown cloid_a 7"
  obtain h where reg: "fold submission_exec ?ops reg0
      = sreg (UnknownResult 7) (binsert ''BTC'' () bempty) bempty h"
    using sreg_to_unknown [OF r] by blast
  have s: "bget (submissions (fold submission_exec ?ops reg0)) cloid_a = Some (sample_intent (CHR ''a''), UnknownResult 7)"
    "\<not> permits_increase (fold submission_exec ?ops reg0) (ei_asset (sample_intent (CHR ''a'')))"
    "\<forall>d j m. bget (submissions (fold submission_exec ?ops reg0)) d = Some (j, UnknownResult m)
        \<and> ei_asset j = ei_asset (sample_intent (CHR ''a'')) \<longrightarrow> d = cloid_a"
    unfolding reg by (auto simp: sreg_simps permits_increase_def sample_intent_ok split: if_splits)
  obtain reg' where t: "transition_at (fold submission_exec ?ops reg0) cloid_a (Acknowledged ''91'') 5 = Ok reg'"
    unfolding reg by (simp add: sreg_transition transition_guards_def valid_transition_def)
  from open_after_unknown_breaks_restart [OF r refl s disjI1 [OF refl] t] r t show ?thesis by blast
qed

text \<open>The effect of an accepted transition to a new state.\<close>

definition moved_to ::
  "submission_registry \<Rightarrow> string \<Rightarrow> approved_execution_intent \<Rightarrow> submission_state \<Rightarrow> nat \<Rightarrow> submission_registry" where
  "moved_to reg c i t now =
    (let unknown = (if is_unknown_result t then binsert (ei_asset i) () (unknown_assets reg) else unknown_assets reg) in
     reg\<lparr>submissions := binsert c (i, t) (submissions reg),
         unknown_assets := (if lifts_block t then bremove (ei_asset i) unknown else unknown),
         not_found_confirmations := (if lifts_block t then bremove c (not_found_confirmations reg)
                                     else not_found_confirmations reg),
         history := history reg @ [\<lparr>tr_cloid = c, tr_state = t, recorded_at_ms = now\<rparr>]\<rparr>)"

lemma exec_transition:
  assumes "bget (submissions reg) c = Some (i, s)" "s \<noteq> t" "transition_guards c s t = Ok ()"
  shows "submission_exec (TransitionAt c t now) reg = moved_to reg c i t now"
  using assms by (simp add: transition_at_def moved_to_def Let_def)

lemma submissions_moved [simp]: "submissions (moved_to reg c i t now) = binsert c (i, t) (submissions reg)"
  by (simp add: moved_to_def Let_def)

lemma unknown_moved: "lifts_block t \<Longrightarrow> \<not> bhas (unknown_assets (moved_to reg c i t now)) (ei_asset i)"
  by (simp add: moved_to_def Let_def)

definition both_unknown :: "submission_op list" where
  "both_unknown = Register (sample_intent (CHR ''a'')) # Register (sample_intent (CHR ''b''))
     # to_unknown cloid_a 7 @ to_unknown cloid_b 8"

lemma both_unknown_run:
  assumes "with_capacity 10 = Ok reg0"
  shows "bget (submissions (fold submission_exec both_unknown reg0)) cloid_a = Some (sample_intent (CHR ''a''), UnknownResult 7)
    \<and> bget (submissions (fold submission_exec both_unknown reg0)) cloid_b = Some (sample_intent (CHR ''b''), UnknownResult 8)"
proof -
  define start where "start = submission_exec (Register (sample_intent (CHR ''b'')))
      (submission_exec (Register (sample_intent (CHR ''a''))) reg0)"
  have "bget (submissions start) cloid_a = Some (sample_intent (CHR ''a''), Authorized)"
    "bget (submissions start) cloid_b = Some (sample_intent (CHR ''b''), Authorized)"
  proof -
    have "start = submission_exec (Register (sample_intent (CHR ''b''))) (sreg Authorized bempty bempty
        [\<lparr>tr_cloid = cloid_a, tr_state = Authorized, recorded_at_ms = 0\<rparr>])"
      by (simp add: start_def sreg_register [OF assms])
    then show "bget (submissions start) cloid_a = Some (sample_intent (CHR ''a''), Authorized)"
      "bget (submissions start) cloid_b = Some (sample_intent (CHR ''b''), Authorized)"
      by (simp_all add: register_def sample_intent_ok sample_intent_ok(7) [symmetric] sreg_simps bsize_insert_new)
  qed
  moreover have "fold submission_exec both_unknown reg0
      = fold submission_exec (to_unknown cloid_a 7 @ to_unknown cloid_b 8) start"
    by (simp add: both_unknown_def start_def del: submission_exec.simps)
  ultimately show ?thesis
    using sample_intent_ok(7)
    by (simp add: to_unknown_def exec_transition transition_guards_def valid_transition_def
        del: submission_exec.simps)
qed

text \<open>
  Two unknown orders on one asset lose their block: when two orders of an asset are both
  unknown and one of them is rejected, the registry permits increasing the asset although the
  other order's result is still unknown.
\<close>

theorem block_lost_with_two_unknown_orders:
  "\<exists>reg0. with_capacity 10 = Ok reg0
    \<and> (let reg = fold submission_exec (both_unknown @ [TransitionAt cloid_a (Rejected ''x'') 9]) reg0 in
        permits_increase reg ''BTC''
        \<and> (\<exists>i. bget (submissions reg) cloid_b = Some (i, UnknownResult 8) \<and> ei_asset i = ''BTC''))"
proof -
  obtain reg0 where r: "with_capacity 10 = Ok reg0" by (simp add: with_capacity_def)
  note u = both_unknown_run [OF r]
  then have "submission_exec (TransitionAt cloid_a (Rejected ''x'') 9) (fold submission_exec both_unknown reg0)
      = moved_to (fold submission_exec both_unknown reg0) cloid_a (sample_intent (CHR ''a'')) (Rejected ''x'') 9"
    by (intro exec_transition [of _ _ _ "UnknownResult 7"])
       (simp_all add: transition_guards_def valid_transition_def)
  moreover have "\<not> bhas (unknown_assets (moved_to (fold submission_exec both_unknown reg0) cloid_a
      (sample_intent (CHR ''a'')) (Rejected ''x'') 9)) ''BTC''"
    using unknown_moved [of "Rejected ''x''" _ _ "sample_intent (CHR ''a'')"] sample_intent_ok(5) by simp
  ultimately show ?thesis
    using u r sample_intent_ok(5,7)
    by (intro exI [of _ reg0]) (simp add: Let_def permits_increase_def del: submission_exec.simps)
qed


text \<open>
  C21. The history is an audit trail of the state machine: after any operations, the states recorded
  for a registered order start at authorized, each follows from the previous one by a valid
  transition, and the last is the order's current state (or the unknown result it was confirmed
  missing from).
\<close>

theorem history_is_a_valid_path:
  assumes "with_capacity n = Ok reg0" and "reg = fold submission_exec ops reg0"
    and "bget (submissions reg) c = Some (i, s)"
  shows "\<exists>states. path_of (history reg) c = Authorized # states \<and> valid_path (Authorized # states)
    \<and> (last (Authorized # states) = s
       \<or> s = ReconciledNotFound \<and> is_unknown_result (last (Authorized # states)))"
proof -
  have inv: "registry_inv reg" unfolding assms(2) by (rule submission_reachable [OF assms(1)])
  from registry_invD(6) [OF inv assms(3)] have p: "path_of (history reg) c \<noteq> []"
    "hd (path_of (history reg) c) = Authorized"
    "last (path_of (history reg) c) = s \<or> s = ReconciledNotFound \<and> is_unknown_result (last (path_of (history reg) c))"
    by (auto split: if_splits)
  then have "path_of (history reg) c = Authorized # tl (path_of (history reg) c)"
    by (metis list.collapse)
  with p(3) registry_invD(3) [OF inv, of c] show ?thesis by metis
qed

lemma history_is_a_valid_path_witness:
  "\<exists>reg0 states. with_capacity 10 = Ok reg0
     \<and> path_of (history (fold submission_exec (Register (sample_intent (CHR ''a'')) # to_unknown cloid_a 7) reg0)) cloid_a
         = Authorized # states \<and> last (Authorized # states) = UnknownResult 7"
proof -
  obtain reg0 where r: "with_capacity 10 = Ok reg0" by (simp add: with_capacity_def)
  let ?reg = "fold submission_exec (Register (sample_intent (CHR ''a'')) # to_unknown cloid_a 7) reg0"
  obtain h where reg: "?reg = sreg (UnknownResult 7) (binsert ''BTC'' () bempty) bempty h"
    using sreg_to_unknown [OF r] by blast
  have "bget (submissions ?reg) cloid_a = Some (sample_intent (CHR ''a''), UnknownResult 7)"
    unfolding reg by (simp add: sreg_simps)
  from history_is_a_valid_path [OF r refl this] obtain states where
    "path_of (history ?reg) cloid_a = Authorized # states"
    "last (Authorized # states) = UnknownResult 7 \<or> UnknownResult 7 = ReconciledNotFound \<and> is_unknown_result (last (Authorized # states))"
    by blast
  moreover from this(2) have "last (Authorized # states) = UnknownResult 7" by simp
  ultimately show ?thesis using r by blast
qed

text \<open>
  C27. Nonces never repeat: whatever the threads and their interleaving, the allocator returns
  strictly increasing nonces, none below the value it was created with, so a registry's nonce
  floor keeps new nonces above every nonce of its history.
\<close>

theorem nonces_strictly_increase:
  assumes "next_nonce_floor reg = Ok lowest" and "lowest \<le> initial"
  shows "sorted_wrt (<) (emitted (fold allocator_exec steps (new_allocator initial k)))
    \<and> list_all (\<lambda>old. list_all (\<lambda>new. old < new) (emitted (fold allocator_exec steps (new_allocator initial k))))
        (history_nonces reg)"
proof -
  let ?s = "fold allocator_exec steps (new_allocator initial k)"
  have "allocator_ok initial ?s"
    by (rule allocation.invar_run) (simp add: allocator_ok_def new_allocator_def)
  then have e: "sorted_wrt (<) (emitted ?s)" "\<forall>m \<in> set (emitted ?s). initial \<le> m"
    by (auto simp: allocator_ok_def)
  have "old < lowest" if "old \<in> set (history_nonces reg)" for old
  proof -
    from that assms(1) obtain m where m: "max_by cmp (history_nonces reg) = Some m" "lowest = m + 1"
      by (auto simp: next_nonce_floor_def outcome_simps checked_add_nat_Some split: option.splits)
    with max_by_cmp [OF m(1) that] show ?thesis by simp
  qed
  with e assms(2) show ?thesis by (fastforce simp: list_all_iff)
qed

lemma nonces_strictly_increase_witness:
  "sorted_wrt (<) (emitted (fold allocator_exec
     [Call 0 5, Call 1 9, Load 0, Load 1, CompareExchange 0, CompareExchange 1, Load 1, CompareExchange 1]
     (new_allocator 3 2)))"
proof -
  obtain reg0 where r: "with_capacity 10 = Ok reg0" by (simp add: with_capacity_def)
  then have "next_nonce_floor reg0 = Ok 0"
    by (auto simp: with_capacity_def next_nonce_floor_def history_nonces_def map_filter_def)
  moreover have "(0 :: nat) \<le> 3" by simp
  ultimately show ?thesis by (rule nonces_strictly_increase [THEN conjunct1])
qed


end
