(* ===== verification/Scheduler.thy ===== *)
theory Scheduler
  imports BTree "HOL-Library.Option_ord" "HOL-Library.Product_Lexorder" "HOL-Library.Word"
begin

unbundle bit_operations_syntax

text \<open>
  The read-request scheduler (\<open>copytrade-core/src/scheduler.rs\<close>): the policy and its validation,
  the weighted token bucket, the queue with its in-flight set and successors, dispatch, retry and
  the store of accepted snapshots. The clock is an argument of every operation; the mutexes and
  the semaphore serialize the operations, so a run is a sequence of them.
\<close>

section \<open>Requests\<close>

datatype read_request_kind =
  SourceState | MarketMids | ExchangeMetadata | OrderBook | FollowerState | FollowerOpenOrders

datatype request_subject = Candidate string | Follower string | AssetSubject string | Market

datatype request_key = RequestKey (subject: request_subject) (key_kind: read_request_kind)

datatype request_priority = Low | Normal | High | Critical

datatype budget_class = NormalBudget | SourcePolling | CriticalBudget

datatype source_tier = Active | Inactive

fun kind_rank :: "read_request_kind \<Rightarrow> nat" where
  "kind_rank SourceState = 0"
| "kind_rank MarketMids = 1"
| "kind_rank ExchangeMetadata = 2"
| "kind_rank OrderBook = 3"
| "kind_rank FollowerState = 4"
| "kind_rank FollowerOpenOrders = 5"

fun subject_rank :: "request_subject \<Rightarrow> nat \<times> string" where
  "subject_rank (Candidate s) = (0, s)"
| "subject_rank (Follower s) = (1, s)"
| "subject_rank (AssetSubject s) = (2, s)"
| "subject_rank Market = (3, [])"

fun priority_rank :: "request_priority \<Rightarrow> nat" where
  "priority_rank Low = 0"
| "priority_rank Normal = 1"
| "priority_rank High = 2"
| "priority_rank Critical = 3"

fun tier_rank :: "source_tier \<Rightarrow> nat" where
  "tier_rank Active = 0"
| "tier_rank Inactive = 1"

text \<open>The derived orders: by constructor, then by its argument; keys by subject, then by kind.\<close>

lemma kind_rank_inj: "kind_rank a = kind_rank b \<Longrightarrow> a = b"
  by (cases a; cases b; simp)

lemma subject_rank_inj: "subject_rank a = subject_rank b \<Longrightarrow> a = b"
  by (cases a; cases b; simp)

lemma priority_rank_inj: "priority_rank a = priority_rank b \<Longrightarrow> a = b"
  by (cases a; cases b; simp)

lemma tier_rank_inj: "tier_rank a = tier_rank b \<Longrightarrow> a = b"
  by (cases a; cases b; simp)

lemmas rank_inj = kind_rank_inj subject_rank_inj priority_rank_inj tier_rank_inj

instantiation read_request_kind :: linorder
begin
definition less_eq_read_request_kind :: "read_request_kind \<Rightarrow> read_request_kind \<Rightarrow> bool" where
  "less_eq_read_request_kind a b = (kind_rank a \<le> kind_rank b)"
definition less_read_request_kind :: "read_request_kind \<Rightarrow> read_request_kind \<Rightarrow> bool" where
  "less_read_request_kind a b = (kind_rank a < kind_rank b)"
instance
  by standard (auto simp: less_eq_read_request_kind_def less_read_request_kind_def intro: rank_inj)
end

instantiation request_key :: linorder
begin
definition less_eq_request_key :: "request_key \<Rightarrow> request_key \<Rightarrow> bool" where
  "less_eq_request_key a b = ((subject_rank (subject a), kind_rank (key_kind a))
     \<le> (subject_rank (subject b), kind_rank (key_kind b)))"
definition less_request_key :: "request_key \<Rightarrow> request_key \<Rightarrow> bool" where
  "less_request_key a b = ((subject_rank (subject a), kind_rank (key_kind a))
     < (subject_rank (subject b), kind_rank (key_kind b)))"
instance
proof
  fix a b c :: request_key
  show "a < b \<longleftrightarrow> a \<le> b \<and> \<not> b \<le> a"
    unfolding less_eq_request_key_def less_request_key_def by (rule less_le_not_le)
  show "a \<le> a" by (simp add: less_eq_request_key_def)
  show "a \<le> b \<Longrightarrow> b \<le> c \<Longrightarrow> a \<le> c" unfolding less_eq_request_key_def by (rule order_trans)
  show "a \<le> b \<or> b \<le> a" unfolding less_eq_request_key_def by (rule linear)
  assume "a \<le> b" "b \<le> a"
  then have "(subject_rank (subject a), kind_rank (key_kind a))
      = (subject_rank (subject b), kind_rank (key_kind b))"
    unfolding less_eq_request_key_def by (rule antisym)
  then show "a = b" by (auto intro: request_key.expand rank_inj)
qed
end

instantiation request_priority :: linorder
begin
definition less_eq_request_priority :: "request_priority \<Rightarrow> request_priority \<Rightarrow> bool" where
  "less_eq_request_priority a b = (priority_rank a \<le> priority_rank b)"
definition less_request_priority :: "request_priority \<Rightarrow> request_priority \<Rightarrow> bool" where
  "less_request_priority a b = (priority_rank a < priority_rank b)"
instance
  by standard (auto simp: less_eq_request_priority_def less_request_priority_def intro: rank_inj)
end

instantiation source_tier :: linorder
begin
definition less_eq_source_tier :: "source_tier \<Rightarrow> source_tier \<Rightarrow> bool" where
  "less_eq_source_tier a b = (tier_rank a \<le> tier_rank b)"
definition less_source_tier :: "source_tier \<Rightarrow> source_tier \<Rightarrow> bool" where
  "less_source_tier a b = (tier_rank a < tier_rank b)"
instance
  by standard (auto simp: less_eq_source_tier_def less_source_tier_def intro: rank_inj)
end

fun permits_reserved_budget :: "read_request_kind \<Rightarrow> bool" where
  "permits_reserved_budget FollowerState = True"
| "permits_reserved_budget FollowerOpenOrders = True"
| "permits_reserved_budget _ = False"

definition required_kinds :: "read_request_kind list" where
  "required_kinds = [SourceState, MarketMids, ExchangeMetadata, OrderBook, FollowerState, FollowerOpenOrders]"

record scheduled_read_request =
  sr_key :: request_key
  sr_kind :: read_request_kind
  sr_candidate_id :: "string option"
  sr_source_tier :: "source_tier option"
  sr_weight :: nat
  sr_priority :: request_priority
  sr_budget_class :: budget_class
  sr_created_at :: nat
  sr_not_before :: nat
  sr_expires_at :: nat
  sr_attempt :: nat

section \<open>Policy\<close>

record read_api_policy =
  total_weight_per_window :: nat
  reserved_weight_per_window :: nat
  source_polling_weight_per_window :: nat
  window_ms :: nat
  max_concurrency :: nat
  queue_capacity :: nat
  endpoint_weights :: "(read_request_kind, nat) bmap"
  dispatch_targets :: "(source_tier, nat) bmap"

datatype policy_error = PolicyError string

type_synonym 'a policy = "('a, policy_error) outcome"

text \<open>The derived \<open>Debug\<close> names the error messages use.\<close>

fun kind_name :: "read_request_kind \<Rightarrow> string" where
  "kind_name SourceState = ''SourceState''"
| "kind_name MarketMids = ''MarketMids''"
| "kind_name ExchangeMetadata = ''ExchangeMetadata''"
| "kind_name OrderBook = ''OrderBook''"
| "kind_name FollowerState = ''FollowerState''"
| "kind_name FollowerOpenOrders = ''FollowerOpenOrders''"

fun tier_name :: "source_tier \<Rightarrow> string" where
  "tier_name Active = ''Active''"
| "tier_name Inactive = ''Inactive''"

definition validate_kind_weight :: "read_api_policy \<Rightarrow> nat \<Rightarrow> read_request_kind \<Rightarrow> unit policy" where
  "validate_kind_weight p normal_capacity k =
    and_then (ok_or (PolicyError (''missing endpoint weight for '' @ kind_name k)) (bget (endpoint_weights p) k)) (\<lambda>w.
    and_then (fail_if (w = 0) (PolicyError (''endpoint weight must be positive for '' @ kind_name k))) (\<lambda>_.
    fail_if (normal_capacity < w)
      (PolicyError (''normal request '' @ kind_name k @ '' exceeds nonreserved capacity''))))"

definition validate_api_policy :: "read_api_policy \<Rightarrow> unit policy" where
  "validate_api_policy p =
    and_then (fail_if (total_weight_per_window p = 0) (PolicyError ''total weight must be positive'')) (\<lambda>_.
    and_then (fail_if (total_weight_per_window p \<le> reserved_weight_per_window p)
      (PolicyError ''reserved weight must be below total weight'')) (\<lambda>_.
    and_then (fail_if (window_ms p = 0 \<or> max_concurrency p = 0 \<or> queue_capacity p = 0)
      (PolicyError ''window, concurrency, and queue capacity must be positive'')) (\<lambda>_.
    and_then (ok_or (PolicyError ''normal budget underflow'')
      (checked_sub_nat (total_weight_per_window p) (reserved_weight_per_window p))) (\<lambda>normal_capacity.
    and_then (fail_if (source_polling_weight_per_window p = 0 \<or> normal_capacity \<le> source_polling_weight_per_window p)
      (PolicyError ''source polling budget must be positive and below normal capacity'')) (\<lambda>_.
    and_then (check_all (\<lambda>tier. fail_if (bget_or 0 (dispatch_targets p) tier = 0)
      (PolicyError (''missing positive dispatch target for '' @ tier_name tier))) [Active, Inactive]) (\<lambda>_.
    and_then (check_all (validate_kind_weight p normal_capacity) required_kinds) (\<lambda>_.
    and_then (ok_or (PolicyError ''budget duration overflow'')
      (checked_mul_nat 128 (total_weight_per_window p) (window_ms p))) (\<lambda>_. Ok ()))))))))"

fun candidate_of :: "request_subject \<Rightarrow> string option" where
  "candidate_of (Candidate c) = Some c"
| "candidate_of _ = None"

definition new_request ::
  "read_api_policy \<Rightarrow> request_key \<Rightarrow> request_priority \<Rightarrow> budget_class \<Rightarrow> source_tier option
     \<Rightarrow> nat \<Rightarrow> nat \<Rightarrow> nat \<Rightarrow> nat \<Rightarrow> scheduled_read_request policy" where
  "new_request p key priority class tier created not_before expires attempt =
    and_then (fail_if (class = CriticalBudget \<and> \<not> permits_reserved_budget (key_kind key))
      (PolicyError (''reserved budget is not permitted for '' @ kind_name (key_kind key)))) (\<lambda>_.
    and_then (fail_if ((key_kind key = SourceState) \<noteq> (class = SourcePolling))
      (PolicyError ''source_state requires the source polling budget class'')) (\<lambda>_.
    and_then (ok_or (PolicyError (''missing endpoint weight for '' @ kind_name (key_kind key)))
      (bget (endpoint_weights p) (key_kind key))) (\<lambda>weight.
    and_then (fail_if ((key_kind key = SourceState) \<noteq> (tier \<noteq> None))
      (PolicyError ''source_state requires exactly one source tier'')) (\<lambda>_.
    Ok \<lparr>sr_key = key, sr_kind = key_kind key, sr_candidate_id = candidate_of (subject key),
        sr_source_tier = tier, sr_weight = weight, sr_priority = priority, sr_budget_class = class,
        sr_created_at = created, sr_not_before = not_before, sr_expires_at = expires, sr_attempt = attempt\<rparr>))))"

text \<open>\<open>ManualClock::advance\<close>: the clock's new time, or an error that leaves it.\<close>

definition manual_advance :: "nat \<Rightarrow> nat \<Rightarrow> nat policy" where
  "manual_advance delta current =
    ok_or (PolicyError ''manual clock overflow'') (checked_add_nat 64 current delta)"

section \<open>The token bucket\<close>

datatype budget_decision = Charged | Insufficient | Overweight

record token_bucket =
  total_capacity_units :: nat
  normal_capacity_units :: nat
  source_capacity_units :: nat
  enrichment_capacity_units :: nat
  total_units :: nat
  normal_units :: nat
  source_units :: nat
  enrichment_units :: nat
  total_refill_per_ms :: nat
  normal_refill_per_ms :: nat
  source_refill_per_ms :: nat
  enrichment_refill_per_ms :: nat
  bucket_window_ms :: nat
  last_refill_ms :: nat
  accounting_window_started_ms :: nat
  total_consumed_in_window :: nat
  normal_consumed_in_window :: nat
  source_consumed_in_window :: nat
  enrichment_consumed_in_window :: nat

definition new_bucket :: "read_api_policy \<Rightarrow> nat \<Rightarrow> token_bucket policy" where
  "new_bucket p now =
    and_then (validate_api_policy p) (\<lambda>_.
    and_then (ok_or (PolicyError ''normal budget underflow'')
      (checked_sub_nat (total_weight_per_window p) (reserved_weight_per_window p))) (\<lambda>normal_weight.
    and_then (ok_or (PolicyError ''total budget overflow'')
      (checked_mul_nat 128 (total_weight_per_window p) (window_ms p))) (\<lambda>total_capacity.
    and_then (ok_or (PolicyError ''normal budget overflow'')
      (checked_mul_nat 128 normal_weight (window_ms p))) (\<lambda>normal_capacity.
    let source_weight = source_polling_weight_per_window p in
    and_then (ok_or (PolicyError ''enrichment budget underflow'')
      (checked_sub_nat normal_weight source_weight)) (\<lambda>enrichment_weight.
    and_then (ok_or (PolicyError ''source budget overflow'')
      (checked_mul_nat 128 source_weight (window_ms p))) (\<lambda>source_capacity.
    and_then (ok_or (PolicyError ''enrichment budget overflow'')
      (checked_mul_nat 128 enrichment_weight (window_ms p))) (\<lambda>enrichment_capacity.
    Ok \<lparr>total_capacity_units = total_capacity, normal_capacity_units = normal_capacity,
        source_capacity_units = source_capacity, enrichment_capacity_units = enrichment_capacity,
        total_units = total_capacity, normal_units = normal_capacity,
        source_units = source_capacity, enrichment_units = enrichment_capacity,
        total_refill_per_ms = total_weight_per_window p, normal_refill_per_ms = normal_weight,
        source_refill_per_ms = source_weight, enrichment_refill_per_ms = enrichment_weight,
        bucket_window_ms = window_ms p, last_refill_ms = now, accounting_window_started_ms = now,
        total_consumed_in_window = 0, normal_consumed_in_window = 0,
        source_consumed_in_window = 0, enrichment_consumed_in_window = 0\<rparr>)))))))"

definition refilled :: "nat \<Rightarrow> nat \<Rightarrow> nat \<Rightarrow> nat \<Rightarrow> nat" where
  "refilled units elapsed rate capacity = min (saturating_add 128 units (saturating_mul 128 elapsed rate)) capacity"

definition refill :: "nat \<Rightarrow> token_bucket \<Rightarrow> token_bucket" where
  "refill now b =
    (let elapsed = saturating_sub now (last_refill_ms b) in
     if elapsed = 0 then b else
     let b' = b\<lparr>total_units := refilled (total_units b) elapsed (total_refill_per_ms b) (total_capacity_units b),
                normal_units := refilled (normal_units b) elapsed (normal_refill_per_ms b) (normal_capacity_units b),
                source_units := refilled (source_units b) elapsed (source_refill_per_ms b) (source_capacity_units b),
                enrichment_units := refilled (enrichment_units b) elapsed (enrichment_refill_per_ms b)
                                      (enrichment_capacity_units b),
                last_refill_ms := now\<rparr> in
     if bucket_window_ms b \<le> saturating_sub now (accounting_window_started_ms b)
     then b'\<lparr>accounting_window_started_ms := now, total_consumed_in_window := 0,
             normal_consumed_in_window := 0, source_consumed_in_window := 0,
             enrichment_consumed_in_window := 0\<rparr>
     else b')"

text \<open>\<open>checked_add(w).is_none_or(|consumed| consumed > capacity)\<close> on \<open>u32\<close>.\<close>

definition exceeds :: "nat \<Rightarrow> nat \<Rightarrow> nat \<Rightarrow> bool" where
  "exceeds consumed weight capacity =
    (case checked_add_nat 32 consumed weight of None \<Rightarrow> True | Some c \<Rightarrow> capacity < c)"

definition capacity_weight :: "token_bucket \<Rightarrow> nat \<Rightarrow> nat" where
  "capacity_weight b units = as_width 32 (units div bucket_window_ms b)"

definition overweight :: "token_bucket \<Rightarrow> budget_class \<Rightarrow> nat \<Rightarrow> bool" where
  "overweight b class requested =
    (total_capacity_units b < requested
     \<or> class \<noteq> CriticalBudget \<and> normal_capacity_units b < requested
     \<or> class = SourcePolling \<and> source_capacity_units b < requested
     \<or> class = NormalBudget \<and> enrichment_capacity_units b < requested)"

definition window_exhausted :: "token_bucket \<Rightarrow> budget_class \<Rightarrow> nat \<Rightarrow> bool" where
  "window_exhausted b class weight =
    (exceeds (total_consumed_in_window b) weight (capacity_weight b (total_capacity_units b))
     \<or> class \<noteq> CriticalBudget \<and> exceeds (normal_consumed_in_window b) weight (capacity_weight b (normal_capacity_units b))
     \<or> class = SourcePolling \<and> exceeds (source_consumed_in_window b) weight (capacity_weight b (source_capacity_units b))
     \<or> class = NormalBudget \<and> exceeds (enrichment_consumed_in_window b) weight
          (capacity_weight b (enrichment_capacity_units b)))"

definition tokens_missing :: "token_bucket \<Rightarrow> budget_class \<Rightarrow> nat \<Rightarrow> bool" where
  "tokens_missing b class requested =
    (total_units b < requested
     \<or> class \<noteq> CriticalBudget \<and> normal_units b < requested
     \<or> class = SourcePolling \<and> source_units b < requested
     \<or> class = NormalBudget \<and> enrichment_units b < requested)"

definition charge :: "budget_class \<Rightarrow> nat \<Rightarrow> nat \<Rightarrow> token_bucket \<Rightarrow> token_bucket" where
  "charge class weight requested b =
    (let b1 = b\<lparr>total_units := total_units b - requested,
                total_consumed_in_window := total_consumed_in_window b + weight\<rparr>;
         b2 = (if class \<noteq> CriticalBudget
               then b1\<lparr>normal_units := normal_units b1 - requested,
                       normal_consumed_in_window := normal_consumed_in_window b1 + weight\<rparr>
               else b1) in
     case class of
       SourcePolling \<Rightarrow> b2\<lparr>source_units := source_units b2 - requested,
                          source_consumed_in_window := source_consumed_in_window b2 + weight\<rparr>
     | NormalBudget \<Rightarrow> b2\<lparr>enrichment_units := enrichment_units b2 - requested,
                         enrichment_consumed_in_window := enrichment_consumed_in_window b2 + weight\<rparr>
     | CriticalBudget \<Rightarrow> b2)"

definition try_charge :: "budget_class \<Rightarrow> nat \<Rightarrow> nat \<Rightarrow> token_bucket \<Rightarrow> budget_decision \<times> token_bucket" where
  "try_charge class weight now b0 =
    (let b = refill now b0 in
     case checked_mul_nat 128 weight (bucket_window_ms b) of
       None \<Rightarrow> (Overweight, b)
     | Some requested \<Rightarrow>
         if overweight b class requested then (Overweight, b)
         else if window_exhausted b class weight then (Insufficient, b)
         else if tokens_missing b class requested then (Insufficient, b)
         else (Charged, charge class weight requested b))"

definition available_total_weight :: "nat \<Rightarrow> token_bucket \<Rightarrow> nat \<times> token_bucket" where
  "available_total_weight now b0 =
    (let b = refill now b0 in
     (min (capacity_weight b (total_units b))
          (saturating_sub (capacity_weight b (total_capacity_units b)) (total_consumed_in_window b)), b))"

definition available_normal_weight :: "nat \<Rightarrow> token_bucket \<Rightarrow> nat \<times> token_bucket" where
  "available_normal_weight now b0 =
    (let b = refill now b0 in
     (min (capacity_weight b (normal_units b))
          (saturating_sub (capacity_weight b (normal_capacity_units b)) (normal_consumed_in_window b)), b))"

section \<open>Retry policy\<close>

record retry_policy =
  initial_backoff_ms :: nat
  maximum_backoff_ms :: nat
  retry_maximum_attempts :: nat
  maximum_lifetime_ms :: nat
  jitter_bps :: nat
  deterministic_seed :: nat

definition validate_retry_policy :: "retry_policy \<Rightarrow> unit policy" where
  "validate_retry_policy p = fail_if (initial_backoff_ms p = 0
     \<or> maximum_backoff_ms p < initial_backoff_ms p \<or> retry_maximum_attempts p = 0
     \<or> maximum_lifetime_ms p = 0 \<or> 10000 < jitter_bps p) (PolicyError ''invalid retry policy'')"

datatype read_failure =
  RateLimited "nat option" | Timeout | Transport | Server | InvalidResponse | Permanent

text \<open>
  The text \<open>{key:?}:{attempt}\<close>: the derived \<open>Debug\<close> of a key, whose strings are escaped as \<open>str\<close>'s
  \<open>Debug\<close> escapes ASCII text; other bytes belong to printable characters and stand for themselves.
\<close>

function radix_text :: "nat \<Rightarrow> nat \<Rightarrow> string" where
  "radix_text base n = (if base < 2 \<or> n < base then [''0123456789abcdef'' ! n]
     else radix_text base (n div base) @ [''0123456789abcdef'' ! (n mod base)])"
  by pat_completeness auto
termination by (relation "measure snd") (auto intro: div_less_dividend)

definition debug_char :: "char \<Rightarrow> string" where
  "debug_char c =
    (let n = of_char c :: nat in
     if n = 0 then [CHR 0x5C, CHR ''0''] else if n = 9 then [CHR 0x5C, CHR ''t'']
     else if n = 10 then [CHR 0x5C, CHR ''n''] else if n = 13 then [CHR 0x5C, CHR ''r'']
     else if n = 34 \<or> n = 92 then [CHR 0x5C, c]
     else if n < 32 \<or> n = 127 then [CHR 0x5C] @ ''u{'' @ radix_text 16 n @ ''}''
     else [c])"

definition debug_string :: "string \<Rightarrow> string" where
  "debug_string s = [CHR 0x22] @ concat (map debug_char s) @ [CHR 0x22]"

fun debug_subject :: "request_subject \<Rightarrow> string" where
  "debug_subject (Candidate c) = ''Candidate('' @ debug_string c @ '')''"
| "debug_subject (Follower f) = ''Follower('' @ debug_string f @ '')''"
| "debug_subject (AssetSubject a) = ''Asset('' @ debug_string a @ '')''"
| "debug_subject Market = ''Market''"

definition debug_text :: "request_key \<Rightarrow> nat \<Rightarrow> string" where
  "debug_text key attempt = ''RequestKey { subject: '' @ debug_subject (subject key) @ '', kind: ''
     @ kind_name (key_kind key) @ '' }:'' @ radix_text 10 attempt"

text \<open>The FNV hash of that text, on 64-bit words: exclusive or and wrapping multiplication.\<close>

definition stable_request_hash :: "request_key \<Rightarrow> nat \<Rightarrow> nat \<Rightarrow> nat" where
  "stable_request_hash key attempt seed = unat (fold
     (\<lambda>c hash. (hash XOR word_of_nat (of_char c)) * 0x100000001b3)
     (debug_text key attempt) ((0xcbf29ce484222325 :: 64 word) XOR word_of_nat seed))"

definition delay_ms ::
  "retry_policy \<Rightarrow> scheduled_read_request \<Rightarrow> read_failure \<Rightarrow> nat option" where
  "delay_ms p r failure =
    (case failure of
       InvalidResponse \<Rightarrow> None
     | Permanent \<Rightarrow> None
     | RateLimited (Some delay) \<Rightarrow> if 0 < delay then Some delay else None
     | _ \<Rightarrow>
       let shift = min (sr_attempt r) 63;
           exponential = min (case checked_mul_nat 64 (initial_backoff_ms p) (2 ^ shift) of
               Some v \<Rightarrow> v | None \<Rightarrow> 2 ^ 64 - 1) (maximum_backoff_ms p);
           jitter_span = exponential * jitter_bps p div 10000 in
       if jitter_span = 0 then Some (max exponential 1)
       else
         let hash = stable_request_hash (sr_key r) (sr_attempt r + 1) (deterministic_seed p);
             width = saturating_add 128 (saturating_mul 128 jitter_span 2) 1;
             offset = hash mod width;
             base = saturating_sub exponential jitter_span in
         Some (min (saturating_add 128 base offset) (2 ^ 64 - 1)))"

section \<open>The queue\<close>

record queue_state =
  pending :: "(request_key, scheduled_read_request) bmap"
  in_flight :: "request_key bset"
  successors :: "(request_key, scheduled_read_request) bmap"
  expired_in_queue :: "(source_tier, nat) bmap"
  superseded_pending :: "(source_tier, nat) bmap"
  superseded_in_flight :: "(source_tier, nat) bmap"
  dispatch_count :: "(source_tier, nat) bmap"
  dispatch_window_count :: "(source_tier, nat) bmap"
  dispatch_window_started_ms :: nat

definition empty_queue :: queue_state where
  "empty_queue = \<lparr>pending = bempty, in_flight = bempty, successors = bempty, expired_in_queue = bempty,
     superseded_pending = bempty, superseded_in_flight = bempty, dispatch_count = bempty,
     dispatch_window_count = bempty, dispatch_window_started_ms = 0\<rparr>"

text \<open>\<open>*map.entry(tier).or_default() += 1\<close>; the counters are taken not to overflow.\<close>

definition bump :: "source_tier option \<Rightarrow> (source_tier, nat) bmap \<Rightarrow> (source_tier, nat) bmap" where
  "bump tier m = (case tier of None \<Rightarrow> m | Some t \<Rightarrow> binsert t (bget_or 0 m t + 1) m)"

definition queued_len :: "queue_state \<Rightarrow> nat" where
  "queued_len q = bsize (pending q) + bsize (successors q)"

definition purge_expired :: "nat \<Rightarrow> queue_state \<Rightarrow> queue_state" where
  "purge_expired now q =
    (let expired = filter (\<lambda>r. sr_expires_at r \<le> now) (bvals (pending q) @ bvals (successors q)) in
     q\<lparr>expired_in_queue := fold (\<lambda>r. bump (sr_source_tier r)) expired (expired_in_queue q),
       pending := bfilter (\<lambda>_ r. now < sr_expires_at r) (pending q),
       successors := bfilter (\<lambda>_ r. now < sr_expires_at r) (successors q)\<rparr>)"

definition release_key :: "request_key \<Rightarrow> queue_state \<Rightarrow> bool \<times> queue_state" where
  "release_key key q =
    (let q' = q\<lparr>in_flight := bremove key (in_flight q)\<rparr> in
     case bget (successors q') key of
       None \<Rightarrow> (False, q')
     | Some r \<Rightarrow> (True, q'\<lparr>successors := bremove key (successors q'), pending := binsert key r (pending q')\<rparr>))"

definition is_newer :: "scheduled_read_request \<Rightarrow> scheduled_read_request \<Rightarrow> bool" where
  "is_newer incoming existing = (sr_created_at existing < sr_created_at incoming
     \<or> sr_created_at incoming = sr_created_at existing \<and> sr_attempt existing < sr_attempt incoming)"

definition compare_value :: "scheduled_read_request \<Rightarrow> scheduled_read_request \<Rightarrow> ordering" where
  "compare_value l r = then_with (cmp (sr_priority l) (sr_priority r))
     (then_with (cmp (sr_expires_at r) (sr_expires_at l)) (cmp (sr_created_at r) (sr_created_at l)))"

definition eviction_candidates :: "queue_state \<Rightarrow> (bool \<times> request_key \<times> scheduled_read_request) list" where
  "eviction_candidates q =
     map (\<lambda>e. (False, e)) (filter (\<lambda>e. sr_priority (snd e) \<noteq> Critical) (entries (pending q)))
   @ map (\<lambda>e. (True, e)) (filter (\<lambda>e. sr_priority (snd e) \<noteq> Critical) (entries (successors q)))"

definition make_queue_room :: "nat \<Rightarrow> scheduled_read_request \<Rightarrow> queue_state \<Rightarrow> bool \<times> queue_state" where
  "make_queue_room capacity incoming q =
    (if queued_len q < capacity then (True, q)
     else case min_by (\<lambda>l r. compare_value (snd (snd l)) (snd (snd r))) (eviction_candidates q) of
       None \<Rightarrow> (False, q)
     | Some (is_successor, key, lowest) \<Rightarrow>
         if compare_value incoming lowest \<noteq> Greater then (False, q)
         else if is_successor then (True, q\<lparr>successors := bremove key (successors q)\<rparr>)
         else (True, q\<lparr>pending := bremove key (pending q)\<rparr>))"

text \<open>The validated policy has a dispatch target for both tiers, so the lookups below succeed.\<close>

definition dispatch_order ::
  "(source_tier, nat) bmap \<Rightarrow> (source_tier, nat) bmap \<Rightarrow> scheduled_read_request \<Rightarrow> scheduled_read_request \<Rightarrow> ordering" where
  "dispatch_order counts targets l r =
    then_with (cmp (sr_priority r) (sr_priority l))
   (then_with (case (sr_source_tier l, sr_source_tier r) of
        (Some lt, Some rt) \<Rightarrow> cmp (saturating_mul 64 (bget_or 0 counts lt) (bget_or 0 targets rt))
                                (saturating_mul 64 (bget_or 0 counts rt) (bget_or 0 targets lt))
      | _ \<Rightarrow> Equal)
   (then_with (cmp (sr_expires_at l) (sr_expires_at r))
   (then_with (cmp (sr_created_at l) (sr_created_at r)) (cmp (sr_key l) (sr_key r)))))"

section \<open>The scheduler\<close>

datatype schedule_outcome =
  Enqueued | ReplacedOlder | SuccessorRecorded | RejectedOlder | RejectedQueueFull
  | RejectedInvalid | RejectedOverweight | Expired

datatype execution_outcome =
  CompletedFresh | CompletedButStale | Superseded | RetryScheduled | RetryExhausted
  | InvalidResponseOutcome | PermanentFailure

record read_response =
  received_at :: nat
  valid_until :: nat
  payload_valid :: bool

text \<open>
  \<open>permits\<close> is the semaphore; \<open>outstanding\<close> are the dispatches handed out and not yet released,
  each of which holds one permit.
\<close>

record request_scheduler =
  api :: read_api_policy
  retry :: retry_policy
  budget :: token_bucket
  permits :: nat
  queue :: queue_state
  outstanding :: "scheduled_read_request list"

definition new_scheduler :: "read_api_policy \<Rightarrow> retry_policy \<Rightarrow> nat \<Rightarrow> request_scheduler policy" where
  "new_scheduler p rp now =
    and_then (validate_api_policy p) (\<lambda>_.
    and_then (validate_retry_policy rp) (\<lambda>_.
    and_then (new_bucket p now) (\<lambda>b.
    Ok \<lparr>api = p, retry = rp, budget = b, permits = max_concurrency p, queue = empty_queue, outstanding = []\<rparr>)))"

definition validate_request :: "read_api_policy \<Rightarrow> scheduled_read_request \<Rightarrow> nat \<Rightarrow> schedule_outcome option" where
  "validate_request p r now =
    (case bget (endpoint_weights p) (sr_kind r) of
       None \<Rightarrow> Some RejectedInvalid
     | Some policy_weight \<Rightarrow>
       if sr_kind r \<noteq> key_kind (sr_key r) \<or> sr_weight r = 0 \<or> sr_weight r \<noteq> policy_weight
          \<or> sr_not_before r < sr_created_at r \<or> sr_expires_at r \<le> sr_created_at r
          \<or> sr_budget_class r = CriticalBudget \<and> \<not> permits_reserved_budget (sr_kind r)
          \<or> (sr_kind r = SourceState) \<noteq> (sr_budget_class r = SourcePolling)
          \<or> sr_candidate_id r \<noteq> candidate_of (subject (sr_key r))
          \<or> (sr_kind r = SourceState) \<noteq> (sr_source_tier r \<noteq> None)
       then Some RejectedInvalid
       else if sr_expires_at r \<le> now then Some Expired
       else if total_weight_per_window p < sr_weight r
          \<or> sr_budget_class r \<noteq> CriticalBudget
            \<and> total_weight_per_window p - reserved_weight_per_window p < sr_weight r
       then Some RejectedOverweight
       else None)"

definition open_window :: "nat \<Rightarrow> nat \<Rightarrow> queue_state \<Rightarrow> queue_state" where
  "open_window now window q =
    (if window \<le> saturating_sub now (dispatch_window_started_ms q)
     then q\<lparr>dispatch_window_started_ms := now, dispatch_window_count := bempty\<rparr> else q)"

definition enqueue :: "nat \<Rightarrow> scheduled_read_request \<Rightarrow> queue_state \<Rightarrow> schedule_outcome \<times> queue_state" where
  "enqueue capacity r q =
    (if bhas (in_flight q) (sr_key r) then
       (case bget (successors q) (sr_key r) of
          Some existing \<Rightarrow>
            if \<not> is_newer r existing then (RejectedOlder, q)
            else (SuccessorRecorded, q\<lparr>successors := binsert (sr_key r) r (successors q),
                    superseded_in_flight := bump (sr_source_tier existing) (superseded_in_flight q)\<rparr>)
        | None \<Rightarrow>
            let (room, q') = make_queue_room capacity r q in
            if \<not> room then (RejectedQueueFull, q')
            else (SuccessorRecorded,
                  q'\<lparr>superseded_in_flight := bump (sr_source_tier r) (superseded_in_flight q'),
                     successors := binsert (sr_key r) r (successors q')\<rparr>))
     else
       (case bget (pending q) (sr_key r) of
          Some existing \<Rightarrow>
            if \<not> is_newer r existing then (RejectedOlder, q)
            else (ReplacedOlder, q\<lparr>pending := binsert (sr_key r) r (pending q),
                    superseded_pending := bump (sr_source_tier existing) (superseded_pending q)\<rparr>)
        | None \<Rightarrow>
            let (room, q') = make_queue_room capacity r q in
            if \<not> room then (RejectedQueueFull, q')
            else (Enqueued, q'\<lparr>pending := binsert (sr_key r) r (pending q')\<rparr>)))"

definition schedule :: "nat \<Rightarrow> scheduled_read_request \<Rightarrow> request_scheduler \<Rightarrow> schedule_outcome \<times> request_scheduler" where
  "schedule now r s =
    (case validate_request (api s) r now of
       Some outcome \<Rightarrow> (outcome, s)
     | None \<Rightarrow>
         let q = open_window now (window_ms (api s)) (purge_expired now (queue s));
             (outcome, q') = enqueue (queue_capacity (api s)) r q in
         (outcome, s\<lparr>queue := q'\<rparr>))"

text \<open>
  The loop over the ordered requests: the first one the budget charges is dispatched. The order is
  that of \<open>sort_by\<close> on a comparator that is a total order; where it is not (see
  \<open>dispatch_order_cyclic\<close>) Rust leaves the result unspecified and may panic.
\<close>

fun first_charged :: "nat \<Rightarrow> scheduled_read_request list \<Rightarrow> token_bucket \<Rightarrow> scheduled_read_request option \<times> token_bucket" where
  "first_charged now [] b = (None, b)"
| "first_charged now (r # rs) b =
    (case try_charge (sr_budget_class r) (sr_weight r) now b of
       (Charged, b') \<Rightarrow> (Some r, b')
     | (_, b') \<Rightarrow> first_charged now rs b')"

definition due_requests :: "nat \<Rightarrow> read_api_policy \<Rightarrow> queue_state \<Rightarrow> scheduled_read_request list" where
  "due_requests now p q = sort_by (dispatch_order (dispatch_window_count q) (dispatch_targets p))
     (filter (\<lambda>r. sr_not_before r \<le> now) (bvals (pending q)))"

definition begin_next :: "nat \<Rightarrow> request_scheduler \<Rightarrow> scheduled_read_request option \<times> request_scheduler" where
  "begin_next now s =
    (if permits s = 0 then (None, s)
     else
       let q = purge_expired now (queue s) in
       (case first_charged now (due_requests now (api s) q) (budget s) of
          (None, b) \<Rightarrow> (None, s\<lparr>queue := q, budget := b\<rparr>)
        | (Some r, b) \<Rightarrow>
            (Some r, s\<lparr>budget := b, permits := permits s - 1, outstanding := r # outstanding s,
               queue := q\<lparr>pending := bremove (sr_key r) (pending q),
                          in_flight := binsert (sr_key r) () (in_flight q),
                          dispatch_count := bump (sr_source_tier r) (dispatch_count q),
                          dispatch_window_count := bump (sr_source_tier r) (dispatch_window_count q)\<rparr>\<rparr>)))"

text \<open>Releasing a dispatch, by \<open>finish\<close> or by dropping it: the key leaves the in-flight set, the permit returns.\<close>

definition release_dispatch :: "scheduled_read_request \<Rightarrow> request_scheduler \<Rightarrow> bool \<times> request_scheduler" where
  "release_dispatch r s =
    (let (successor, q) = release_key (sr_key r) (queue s) in
     (successor, s\<lparr>queue := q, permits := permits s + 1, outstanding := remove1 r (outstanding s)\<rparr>))"

definition schedule_retry ::
  "scheduled_read_request \<Rightarrow> read_failure \<Rightarrow> nat \<Rightarrow> nat \<Rightarrow> request_scheduler
     \<Rightarrow> execution_outcome \<times> request_scheduler" where
  "schedule_retry r failure now later s =
    (case checked_add_nat 32 (sr_attempt r) 1 of
       None \<Rightarrow> (RetryExhausted, s)
     | Some next_attempt \<Rightarrow>
       if retry_maximum_attempts (retry s) \<le> next_attempt then (RetryExhausted, s)
       else if maximum_lifetime_ms (retry s) \<le> saturating_sub now (sr_created_at r) then (RetryExhausted, s)
       else
         (case delay_ms (retry s) r failure of
            None \<Rightarrow> (if failure = InvalidResponse then InvalidResponseOutcome else PermanentFailure, s)
          | Some delay \<Rightarrow>
            (case checked_add_nat 64 now delay of
               None \<Rightarrow> (RetryExhausted, s)
             | Some not_before \<Rightarrow>
               if not_before \<le> now \<or> sr_expires_at r \<le> not_before
                  \<or> maximum_lifetime_ms (retry s) < saturating_sub not_before (sr_created_at r)
               then (RetryExhausted, s)
               else
                 let (outcome, s') = schedule later (r\<lparr>sr_attempt := next_attempt, sr_not_before := not_before\<rparr>) s in
                 (if outcome \<in> {Enqueued, ReplacedOlder, SuccessorRecorded} then RetryScheduled else RetryExhausted, s'))))"

definition finish ::
  "scheduled_read_request \<Rightarrow> (read_response, read_failure) outcome
     \<Rightarrow> nat \<Rightarrow> nat \<Rightarrow> request_scheduler \<Rightarrow> execution_outcome \<times> request_scheduler" where
  "finish r result now later s0 =
    (let (successor, s) = release_dispatch r s0 in
     if successor then (Superseded, s)
     else case result of
       Ok response \<Rightarrow>
         (if payload_valid response \<and> sr_created_at r \<le> received_at response
             \<and> received_at response \<le> valid_until response \<and> now \<le> valid_until response
             \<and> now < sr_expires_at r then CompletedFresh
          else if payload_valid response then CompletedButStale else InvalidResponseOutcome, s)
     | Err InvalidResponse \<Rightarrow> (InvalidResponseOutcome, s)
     | Err Permanent \<Rightarrow> (PermanentFailure, s)
     | Err failure \<Rightarrow> schedule_retry r failure now later s
     | Panic \<Rightarrow> (PermanentFailure, s))"

text \<open>\<open>execute_next\<close>: dispatch, let the data source answer, finish.\<close>

definition execute_next ::
  "nat \<Rightarrow> (scheduled_read_request \<Rightarrow> (read_response, read_failure) outcome) \<Rightarrow> nat \<Rightarrow> nat \<Rightarrow> request_scheduler
     \<Rightarrow> execution_outcome option \<times> request_scheduler" where
  "execute_next start execute now later s =
    (case begin_next start s of
       (None, s') \<Rightarrow> (None, s')
     | (Some r, s') \<Rightarrow> (let (outcome, s'') = finish r (execute r) now later s' in (Some outcome, s'')))"

record scheduler_health =
  health_pending :: nat
  health_successors :: nat
  health_in_flight :: nat
  health_queue_capacity :: nat
  health_total_weight :: nat
  health_normal_weight :: nat
  health_concurrency :: nat
  health_expired :: "(source_tier, nat) bmap"
  health_superseded_pending :: "(source_tier, nat) bmap"
  health_superseded_in_flight :: "(source_tier, nat) bmap"
  health_dispatch_count :: "(source_tier, nat) bmap"
  health_oldest_age :: "(source_tier, nat) bmap"

definition oldest_pending_age :: "queue_state \<Rightarrow> nat \<Rightarrow> (source_tier, nat) bmap" where
  "oldest_pending_age q now = fold (\<lambda>r ages. case sr_source_tier r of
       None \<Rightarrow> ages
     | Some tier \<Rightarrow>
         let age = saturating_sub now (sr_created_at r) in
         binsert tier (case bget ages tier of Some current \<Rightarrow> max current age | None \<Rightarrow> age) ages)
     (bvals (pending q) @ bvals (successors q)) bempty"

definition health :: "nat \<Rightarrow> request_scheduler \<Rightarrow> scheduler_health \<times> request_scheduler" where
  "health now s =
    (let q = queue s; (total_weight, b1) = available_total_weight now (budget s);
         (normal_weight, b2) = available_normal_weight now b1 in
     (\<lparr>health_pending = bsize (pending q), health_successors = bsize (successors q),
       health_in_flight = bsize (in_flight q), health_queue_capacity = queue_capacity (api s),
       health_total_weight = total_weight, health_normal_weight = normal_weight,
       health_concurrency = permits s, health_expired = expired_in_queue q,
       health_superseded_pending = superseded_pending q,
       health_superseded_in_flight = superseded_in_flight q,
       health_dispatch_count = dispatch_count q, health_oldest_age = oldest_pending_age q now\<rparr>,
      s\<lparr>budget := b2\<rparr>))"

section \<open>Accepted snapshots\<close>

record 'a source_snapshot =
  snapshot_candidate :: string
  snapshot_payload :: 'a
  requested_at :: nat
  snapshot_received_at :: nat
  source_observed_at :: "nat option"
  snapshot_valid_until :: nat
  snapshot_sequence :: nat

record freshness_policy =
  configured_max_age_ms :: nat
  maximum_future_skew_ms :: nat

definition validate_freshness :: "freshness_policy \<Rightarrow> freshness_policy policy" where
  "validate_freshness p = and_then (fail_if (configured_max_age_ms p = 0)
     (PolicyError ''snapshot maximum age must be positive'')) (\<lambda>_. Ok p)"

text \<open>\<open>ReadOnlySchedulerConfig\<close>.\<close>

record scheduler_config =
  config_api :: read_api_policy
  config_retry :: retry_policy
  config_freshness :: freshness_policy

definition validate_scheduler_config :: "scheduler_config \<Rightarrow> unit policy" where
  "validate_scheduler_config c =
    and_then (validate_api_policy (config_api c)) (\<lambda>_.
    and_then (validate_retry_policy (config_retry c)) (\<lambda>_.
    and_then (validate_freshness (config_freshness c)) (\<lambda>_. Ok ())))"

datatype snapshot_acceptance =
  Accepted | InvalidPayload | InvalidTimestamps | SnapshotExpired | FutureDated | OutOfOrder

record 'a snapshot_store =
  store_policy :: freshness_policy
  accepted :: "(string, 'a source_snapshot) bmap"

definition new_store :: "freshness_policy \<Rightarrow> 'a snapshot_store policy" where
  "new_store p = and_then (validate_freshness p) (\<lambda>p. Ok \<lparr>store_policy = p, accepted = bempty\<rparr>)"

definition accept ::
  "'a source_snapshot \<Rightarrow> nat \<Rightarrow> bool \<Rightarrow> 'a snapshot_store \<Rightarrow> snapshot_acceptance \<times> 'a snapshot_store" where
  "accept snap now payload_ok st =
    (let max_age = configured_max_age_ms (store_policy st) in
     if \<not> payload_ok then (InvalidPayload, st)
     else if snapshot_received_at snap < requested_at snap \<or> snapshot_valid_until snap < snapshot_received_at snap
     then (InvalidTimestamps, st)
     else if snapshot_valid_until snap < now \<or> max_age < saturating_sub now (snapshot_received_at snap)
     then (SnapshotExpired, st)
     else case checked_add_nat 64 now (maximum_future_skew_ms (store_policy st)) of
       None \<Rightarrow> (InvalidTimestamps, st)
     | Some maximum_future \<Rightarrow>
       if maximum_future < requested_at snap \<or> maximum_future < snapshot_received_at snap then (FutureDated, st)
       else if \<exists>t \<in> set_option (source_observed_at snap). maximum_future < t then (FutureDated, st)
       else if \<exists>t \<in> set_option (source_observed_at snap). max_age < saturating_sub now t then (SnapshotExpired, st)
       else if \<exists>current \<in> set_option (bget (accepted st) (snapshot_candidate snap)).
            snapshot_sequence snap \<le> snapshot_sequence current
            \<or> snapshot_received_at snap < snapshot_received_at current
            \<or> source_observed_at snap < source_observed_at current
       then (OutOfOrder, st)
       else (Accepted, st\<lparr>accepted := binsert (snapshot_candidate snap) snap (accepted st)\<rparr>))"

definition fresh :: "'a snapshot_store \<Rightarrow> string \<Rightarrow> nat \<Rightarrow> 'a source_snapshot option" where
  "fresh st candidate now =
    (case bget (accepted st) candidate of
       None \<Rightarrow> None
     | Some snap \<Rightarrow>
         if now \<le> snapshot_valid_until snap
            \<and> saturating_sub now (snapshot_received_at snap) \<le> configured_max_age_ms (store_policy st)
         then Some snap else None)"

definition latest :: "'a snapshot_store \<Rightarrow> string \<Rightarrow> 'a source_snapshot option" where
  "latest st candidate = bget (accepted st) candidate"

definition store_len :: "'a snapshot_store \<Rightarrow> nat" where
  "store_len st = bsize (accepted st)"

definition store_is_empty :: "'a snapshot_store \<Rightarrow> bool" where
  "store_is_empty st = (entries (accepted st) = [])"

section \<open>The bucket never overspends\<close>

text \<open>A policy \<open>validate\<close> accepts, with its fields in the range of their Rust types.\<close>

definition policy_ok :: "read_api_policy \<Rightarrow> bool" where
  "policy_ok p = (validate_api_policy p = Ok () \<and> total_weight_per_window p < 2 ^ 32 \<and> window_ms p < 2 ^ 64)"

definition normal_weight :: "read_api_policy \<Rightarrow> nat" where
  "normal_weight p = total_weight_per_window p - reserved_weight_per_window p"

lemma policy_ok_props:
  assumes "policy_ok p"
  shows "reserved_weight_per_window p < total_weight_per_window p" "0 < window_ms p"
    "0 < max_concurrency p" "0 < queue_capacity p" "source_polling_weight_per_window p < normal_weight p"
    "total_weight_per_window p < 2 ^ 32"
  using assms
  by (auto simp: policy_ok_def validate_api_policy_def normal_weight_def outcome_simps checked_sub_nat_Some)

text \<open>The bucket's constants are those of the policy; its levels and counters stay within them.\<close>

definition bucket_consts :: "read_api_policy \<Rightarrow> token_bucket \<Rightarrow> bool" where
  "bucket_consts p b =
    (total_capacity_units b = total_weight_per_window p * window_ms p
     \<and> normal_capacity_units b = normal_weight p * window_ms p
     \<and> source_capacity_units b = source_polling_weight_per_window p * window_ms p
     \<and> enrichment_capacity_units b = (normal_weight p - source_polling_weight_per_window p) * window_ms p
     \<and> total_refill_per_ms b = total_weight_per_window p \<and> normal_refill_per_ms b = normal_weight p
     \<and> source_refill_per_ms b = source_polling_weight_per_window p
     \<and> enrichment_refill_per_ms b = normal_weight p - source_polling_weight_per_window p
     \<and> bucket_window_ms b = window_ms p)"

definition bucket_levels :: "read_api_policy \<Rightarrow> token_bucket \<Rightarrow> bool" where
  "bucket_levels p b =
    (total_units b \<le> total_capacity_units b \<and> normal_units b \<le> normal_capacity_units b
     \<and> source_units b \<le> source_capacity_units b \<and> enrichment_units b \<le> enrichment_capacity_units b
     \<and> total_consumed_in_window b \<le> total_weight_per_window p
     \<and> normal_consumed_in_window b \<le> normal_weight p
     \<and> normal_consumed_in_window b \<le> total_consumed_in_window b
     \<and> source_consumed_in_window b \<le> source_polling_weight_per_window p
     \<and> normal_consumed_in_window b = source_consumed_in_window b + enrichment_consumed_in_window b)"

definition bucket_ok :: "read_api_policy \<Rightarrow> token_bucket \<Rightarrow> bool" where
  "bucket_ok p b = (bucket_consts p b \<and> bucket_levels p b)"

lemma new_bucket_ok:
  assumes "new_bucket p now = Ok b" and "policy_ok p"
  shows "bucket_ok p b \<and> last_refill_ms b = now \<and> accounting_window_started_ms b = now
       \<and> total_consumed_in_window b = 0 \<and> normal_consumed_in_window b = 0"
  using assms
  by (auto simp: new_bucket_def bucket_ok_def bucket_consts_def bucket_levels_def normal_weight_def Let_def
      outcome_simps checked_sub_nat_Some checked_mul_nat_Some)

lemma refilled_le: "refilled u e r c \<le> c" "refilled u e r c \<le> u + e * r"
  unfolding refilled_def saturating_add_def saturating_mul_def by linarith+

lemma refill_consts [simp]:
  "total_capacity_units (refill now b) = total_capacity_units b"
  "normal_capacity_units (refill now b) = normal_capacity_units b"
  "source_capacity_units (refill now b) = source_capacity_units b"
  "enrichment_capacity_units (refill now b) = enrichment_capacity_units b"
  "total_refill_per_ms (refill now b) = total_refill_per_ms b"
  "normal_refill_per_ms (refill now b) = normal_refill_per_ms b"
  "source_refill_per_ms (refill now b) = source_refill_per_ms b"
  "enrichment_refill_per_ms (refill now b) = enrichment_refill_per_ms b"
  "bucket_window_ms (refill now b) = bucket_window_ms b"
  by (simp_all add: refill_def Let_def)

lemma refill_ok:
  assumes "bucket_ok p b"
  shows "bucket_ok p (refill now b)"
proof -
  have "bucket_consts p (refill now b)" using assms by (simp add: bucket_ok_def bucket_consts_def)
  moreover have "bucket_levels p (refill now b)"
    using assms by (simp add: bucket_ok_def bucket_levels_def refill_def Let_def refilled_le)
  ultimately show ?thesis by (simp add: bucket_ok_def)
qed

lemma refill_gain:
  "last_refill_ms (refill now b) = max now (last_refill_ms b)"
  "total_units (refill now b) \<le> total_units b + (last_refill_ms (refill now b) - last_refill_ms b) * total_refill_per_ms b"
  "normal_units (refill now b) \<le> normal_units b + (last_refill_ms (refill now b) - last_refill_ms b) * normal_refill_per_ms b"
  by (auto simp: refill_def Let_def saturating_sub_def refilled_le)

lemma charge_fields [simp]:
  "total_units (charge c w r b) = total_units b - r"
  "total_consumed_in_window (charge c w r b) = total_consumed_in_window b + w"
  "normal_units (charge c w r b) = (if c = CriticalBudget then normal_units b else normal_units b - r)"
  "normal_consumed_in_window (charge c w r b)
     = (if c = CriticalBudget then normal_consumed_in_window b else normal_consumed_in_window b + w)"
  "source_units (charge c w r b) = (if c = SourcePolling then source_units b - r else source_units b)"
  "source_consumed_in_window (charge c w r b)
     = (if c = SourcePolling then source_consumed_in_window b + w else source_consumed_in_window b)"
  "enrichment_units (charge c w r b) = (if c = NormalBudget then enrichment_units b - r else enrichment_units b)"
  "enrichment_consumed_in_window (charge c w r b)
     = (if c = NormalBudget then enrichment_consumed_in_window b + w else enrichment_consumed_in_window b)"
  "last_refill_ms (charge c w r b) = last_refill_ms b"
  "accounting_window_started_ms (charge c w r b) = accounting_window_started_ms b"
  "bucket_window_ms (charge c w r b) = bucket_window_ms b"
  "total_capacity_units (charge c w r b) = total_capacity_units b"
  "normal_capacity_units (charge c w r b) = normal_capacity_units b"
  "source_capacity_units (charge c w r b) = source_capacity_units b"
  "enrichment_capacity_units (charge c w r b) = enrichment_capacity_units b"
  "total_refill_per_ms (charge c w r b) = total_refill_per_ms b"
  "normal_refill_per_ms (charge c w r b) = normal_refill_per_ms b"
  "source_refill_per_ms (charge c w r b) = source_refill_per_ms b"
  "enrichment_refill_per_ms (charge c w r b) = enrichment_refill_per_ms b"
  by (cases c; simp add: charge_def Let_def)+

lemma capacity_weight_eq:
  assumes "policy_ok p" and "bucket_consts p b"
  shows "capacity_weight b (total_capacity_units b) = total_weight_per_window p"
    "capacity_weight b (normal_capacity_units b) = normal_weight p"
    "capacity_weight b (source_capacity_units b) = source_polling_weight_per_window p"
proof -
  note p = policy_ok_props [OF assms(1)]
  have "normal_weight p < 2 ^ 32" using p(6) unfolding normal_weight_def by (rule less_imp_diff_less)
  moreover from this p(5) have "source_polling_weight_per_window p < 2 ^ 32" by linarith
  ultimately show "capacity_weight b (total_capacity_units b) = total_weight_per_window p"
    "capacity_weight b (normal_capacity_units b) = normal_weight p"
    "capacity_weight b (source_capacity_units b) = source_polling_weight_per_window p"
    using assms(2) p(2,6)
    by (simp_all add: capacity_weight_def bucket_consts_def as_width_small)
qed

text \<open>What a decision of the bucket means.\<close>

lemma try_charge_Charged:
  assumes "try_charge c w now b = (Charged, b')" and "policy_ok p" and "bucket_ok p b"
  shows "b' = charge c w (w * window_ms p) (refill now b)"
    and "w * window_ms p \<le> total_units (refill now b)"
    and "c \<noteq> CriticalBudget \<Longrightarrow> w * window_ms p \<le> normal_units (refill now b)"
    and "total_consumed_in_window (refill now b) + w \<le> total_weight_per_window p"
    and "c \<noteq> CriticalBudget \<Longrightarrow> normal_consumed_in_window (refill now b) + w \<le> normal_weight p"
    and "c = SourcePolling \<Longrightarrow> source_consumed_in_window (refill now b) + w \<le> source_polling_weight_per_window p"
proof -
  let ?b = "refill now b"
  have ok: "bucket_consts p ?b" using refill_ok [OF assms(3)] by (simp add: bucket_ok_def)
  have win: "bucket_window_ms b = window_ms p" using assms(3) by (simp add: bucket_ok_def bucket_consts_def)
  note w = capacity_weight_eq [OF assms(2) ok]
  from assms(1) have r: "checked_mul_nat 128 w (window_ms p) = Some (w * window_ms p)"
    by (auto simp: try_charge_def Let_def win checked_mul_nat_Some split: option.splits)
  from assms(1) have "\<not> overweight ?b c (w * window_ms p)" and g: "\<not> window_exhausted ?b c w"
    and t: "\<not> tokens_missing ?b c (w * window_ms p)" and "b' = charge c w (w * window_ms p) ?b"
    unfolding try_charge_def Let_def refill_consts win r by (auto split: if_splits)
  then show "b' = charge c w (w * window_ms p) ?b" by simp
  show "w * window_ms p \<le> total_units ?b" "c \<noteq> CriticalBudget \<Longrightarrow> w * window_ms p \<le> normal_units ?b"
    using t by (auto simp: tokens_missing_def)
  have ex: "\<not> exceeds x w y \<Longrightarrow> x + w \<le> y" for x y
    by (auto simp: exceeds_def checked_add_nat_def split: if_splits)
  show "total_consumed_in_window ?b + w \<le> total_weight_per_window p"
    "c \<noteq> CriticalBudget \<Longrightarrow> normal_consumed_in_window ?b + w \<le> normal_weight p"
    "c = SourcePolling \<Longrightarrow> source_consumed_in_window ?b + w \<le> source_polling_weight_per_window p"
    using g unfolding window_exhausted_def w by (auto intro: ex)
qed

lemma try_charge_state: "snd (try_charge c w now b) = refill now b \<or> fst (try_charge c w now b) = Charged"
  by (auto simp: try_charge_def Let_def split: option.splits)

lemma try_charge_not_Charged:
  "try_charge c w now b = (d, b') \<Longrightarrow> d \<noteq> Charged \<Longrightarrow> b' = refill now b"
  using try_charge_state [of c w now b] by simp

lemma charge_ok:
  assumes "try_charge c w now b = (d, b')" and "policy_ok p" and "bucket_ok p b"
  shows "bucket_ok p b'"
proof (cases "d = Charged")
  case True
  note c = try_charge_Charged [OF assms(1) [unfolded True] assms(2,3)]
  have ok: "bucket_consts p (refill now b)" "bucket_levels p (refill now b)"
    using refill_ok [OF assms(3)] by (simp_all add: bucket_ok_def)
  have "bucket_consts p b'" using ok(1) by (simp add: bucket_consts_def c(1))
  moreover have "bucket_levels p b'"
    using ok(2) c(4,5,6) unfolding bucket_levels_def c(1) by (cases c) auto
  ultimately show ?thesis by (simp add: bucket_ok_def)
next
  case False
  show ?thesis using try_charge_not_Charged [OF assms(1) False] refill_ok [OF assms(3)] by simp
qed

text \<open>A run of charges, with the weights charged in total and outside the critical class.\<close>

definition charge_step ::
  "budget_class \<times> nat \<times> nat \<Rightarrow> nat \<times> nat \<times> token_bucket \<Rightarrow> nat \<times> nat \<times> token_bucket" where
  "charge_step request = (\<lambda>(all, normal, b).
     let (class, weight, now) = request; (decision, b') = try_charge class weight now b in
     if decision = Charged then (all + weight, (if class = CriticalBudget then normal else normal + weight), b')
     else (all, normal, b'))"

definition charge_run :: "(budget_class \<times> nat \<times> nat) list \<Rightarrow> token_bucket \<Rightarrow> nat \<times> nat \<times> token_bucket" where
  "charge_run requests b = fold charge_step requests (0, 0, b)"

lemma charge_step_eq:
  "charge_step (c, w, now) (x, y, b) = (case try_charge c w now b of (d, b') \<Rightarrow>
     if d = Charged then (x + w, (if c = CriticalBudget then y else y + w), b') else (x, y, b'))"
  by (simp add: charge_step_def Let_def)

text \<open>The tokens left and the units charged never exceed the tokens at the start and those refilled since.\<close>

definition spent_within ::
  "read_api_policy \<Rightarrow> token_bucket \<Rightarrow> nat \<times> nat \<times> token_bucket \<Rightarrow> bool" where
  "spent_within p b0 = (\<lambda>(x, y, b). bucket_ok p b \<and> last_refill_ms b0 \<le> last_refill_ms b
     \<and> x * window_ms p + total_units b
         \<le> total_units b0 + (last_refill_ms b - last_refill_ms b0) * total_weight_per_window p
     \<and> y * window_ms p + normal_units b
         \<le> normal_units b0 + (last_refill_ms b - last_refill_ms b0) * normal_weight p)"

lemma span_split: "a \<le> b \<Longrightarrow> b \<le> c \<Longrightarrow> (c - a) * r = (b - a) * r + (c - b) * (r :: nat)"
  by (metis add.commute add_diff_cancel_right' diff_add_inverse2 le_add_diff_inverse2 distrib_right
      ordered_cancel_comm_monoid_diff_class.add_diff_assoc2)

lemma spent_refill:
  assumes "spent_within p b0 (x, y, b)"
  shows "spent_within p b0 (x, y, refill now b)"
proof -
  have ok: "bucket_ok p b" and le: "last_refill_ms b0 \<le> last_refill_ms b"
    using assms by (simp_all add: spent_within_def)
  have up: "last_refill_ms b \<le> last_refill_ms (refill now b)" by (simp add: refill_gain)
  have rates: "total_refill_per_ms b = total_weight_per_window p" "normal_refill_per_ms b = normal_weight p"
    using ok by (simp_all add: bucket_ok_def bucket_consts_def)
  show ?thesis
    using assms refill_gain(2,3) [of now b] refill_ok [OF ok, of now] le up
    by (simp add: spent_within_def rates span_split [OF le up])
qed

lemma spent_step:
  assumes "policy_ok p" and "spent_within p b0 (x, y, b)"
  shows "spent_within p b0 (charge_step (c, w, now) (x, y, b))"
proof -
  obtain d b' where t: "try_charge c w now b = (d, b')" by fastforce
  have ok: "bucket_ok p b" using assms(2) by (simp add: spent_within_def)
  have r: "spent_within p b0 (x, y, refill now b)" by (rule spent_refill [OF assms(2)])
  show ?thesis
  proof (cases "d = Charged")
    case True
    note ch = try_charge_Charged [OF t [unfolded True] assms(1) ok]
    have "bucket_ok p b'" by (rule charge_ok [OF t assms(1) ok])
    have "charge_step (c, w, now) (x, y, b)
        = (x + w, (if c = CriticalBudget then y else y + w), charge c w (w * window_ms p) (refill now b))"
      by (simp add: charge_step_eq t True ch(1))
    with r ch(2,3) \<open>bucket_ok p b'\<close> show ?thesis
      by (auto simp: spent_within_def ch(1) add_mult_distrib)
  next
    case False
    with r try_charge_not_Charged [OF t False] show ?thesis by (simp add: charge_step_eq t)
  qed
qed

interpretation charging: machine charge_step "\<lambda>st. policy_ok p \<and> spent_within p b0 st"
  for p b0
proof
  fix s request assume "policy_ok p \<and> spent_within p b0 s"
  then show "policy_ok p \<and> spent_within p b0 (charge_step request s)"
    by (cases request, cases s) (simp add: spent_step)
qed

lemma spent_start: "bucket_ok p b \<Longrightarrow> spent_within p b (0, 0, b)"
  by (simp add: spent_within_def)

lemma charge_run_spent:
  "policy_ok p \<Longrightarrow> bucket_ok p b \<Longrightarrow> spent_within p b (charge_run requests b)"
  using charging.invar_run [of p b "(0, 0, b)" requests] by (simp add: charge_run_def spent_start)

text \<open>Inside one accounting window the counters are exactly what was charged.\<close>

lemma window_refill:
  assumes "now - accounting_window_started_ms b < bucket_window_ms b"
  shows "total_consumed_in_window (refill now b) = total_consumed_in_window b"
    "normal_consumed_in_window (refill now b) = normal_consumed_in_window b"
    "accounting_window_started_ms (refill now b) = accounting_window_started_ms b"
  using assms by (auto simp: refill_def Let_def saturating_sub_def)

lemma window_step:
  assumes "policy_ok p" and "bucket_ok p b" and "now - accounting_window_started_ms b < window_ms p"
    and "charge_step (c, w, now) (x, y, b) = (x', y', b')"
  shows "bucket_ok p b' \<and> accounting_window_started_ms b' = accounting_window_started_ms b
       \<and> total_consumed_in_window b' + x = total_consumed_in_window b + x'
       \<and> normal_consumed_in_window b' + y = normal_consumed_in_window b + y'"
proof -
  obtain d b1 where t: "try_charge c w now b = (d, b1)" by fastforce
  have "bucket_window_ms b = window_ms p" using assms(2) by (simp add: bucket_ok_def bucket_consts_def)
  with assms(3) have "now - accounting_window_started_ms b < bucket_window_ms b" by simp
  note r = window_refill [OF this]
  have b1: "b1 = b'" using assms(4) by (auto simp: charge_step_eq t split: if_splits)
  have ok: "bucket_ok p b'" using charge_ok [OF t assms(1,2)] by (simp add: b1)
  show ?thesis
  proof (cases "d = Charged")
    case True
    note ch = try_charge_Charged(1) [OF t [unfolded True] assms(1,2)]
    have "(x', y', b') = (x + w, (if c = CriticalBudget then y else y + w), b1)"
      using assms(4) by (simp add: charge_step_eq t True)
    then show ?thesis using ok by (auto simp: b1 [symmetric] ch r)
  next
    case False
    show ?thesis
      using assms(4) ok try_charge_not_Charged [OF t False] by (auto simp: charge_step_eq t False r)
  qed
qed

lemma window_fold:
  assumes "policy_ok p" and "bucket_ok p b"
    and "\<forall>(c, w, now) \<in> set requests. now - accounting_window_started_ms b < window_ms p"
    and "fold charge_step requests (x, y, b) = (x', y', b')"
  shows "bucket_ok p b' \<and> total_consumed_in_window b' + x = total_consumed_in_window b + x'
       \<and> normal_consumed_in_window b' + y = normal_consumed_in_window b + y'"
  using assms(2-)
proof (induction requests arbitrary: x y b)
  case (Cons request requests)
  obtain c w now where request: "request = (c, w, now)" by (cases request)
  obtain x1 y1 b1 where st: "charge_step (c, w, now) (x, y, b) = (x1, y1, b1)"
    by (cases "charge_step (c, w, now) (x, y, b)")
  have "now - accounting_window_started_ms b < window_ms p" using Cons.prems(2) by (simp add: request)
  note one = window_step [OF assms(1) Cons.prems(1) this st]
  have "bucket_ok p b' \<and> total_consumed_in_window b' + x1 = total_consumed_in_window b1 + x'
       \<and> normal_consumed_in_window b' + y1 = normal_consumed_in_window b1 + y'"
    by (rule Cons.IH) (use one Cons.prems(2,3) in \<open>auto simp: request st\<close>)
  with one show ?case by simp
qed simp

text \<open>
  A bucket never spends more than the policy allows. After any earlier charges, in any further
  run of charges (at whatever times the clock shows) the weight charged is at most the full
  window's weight plus the rate times the time passed, and the non-critical weight is bounded in
  the same way by the weight that is not reserved; and while the times stay in the bucket's
  accounting window, the weight charged since the start of that window never exceeds the window's
  weight, nor the non-critical part the nonreserved weight.
\<close>

theorem charges_bounded:
  assumes "policy_ok p" and "new_bucket p start = Ok b0" and "charge_run earlier b0 = (x0, y0, b)"
    and "charge_run requests b = (charged, noncritical, b')"
  shows "charged * window_ms p
       \<le> (window_ms p + (last_refill_ms b' - last_refill_ms b)) * total_weight_per_window p
     \<and> noncritical * window_ms p
       \<le> (window_ms p + (last_refill_ms b' - last_refill_ms b))
           * (total_weight_per_window p - reserved_weight_per_window p)
     \<and> ((\<forall>(c, w, now) \<in> set requests. now - accounting_window_started_ms b < window_ms p) \<longrightarrow>
         total_consumed_in_window b + charged \<le> total_weight_per_window p
         \<and> normal_consumed_in_window b + noncritical \<le> total_weight_per_window p - reserved_weight_per_window p)"
proof -
  have "spent_within p b0 (charge_run earlier b0)"
    using new_bucket_ok [OF assms(2,1)] assms(1) by (intro charge_run_spent) simp_all
  then have ok: "bucket_ok p b" by (simp add: assms(3) spent_within_def)
  then have units: "total_units b \<le> total_weight_per_window p * window_ms p"
    "normal_units b \<le> normal_weight p * window_ms p"
    by (simp_all add: bucket_ok_def bucket_consts_def bucket_levels_def)
  have "spent_within p b (charge_run requests b)" by (rule charge_run_spent [OF assms(1) ok])
  then have "charged * window_ms p + total_units b'
      \<le> total_units b + (last_refill_ms b' - last_refill_ms b) * total_weight_per_window p"
    and "noncritical * window_ms p + normal_units b'
      \<le> normal_units b + (last_refill_ms b' - last_refill_ms b) * normal_weight p"
    by (simp_all add: assms(4) spent_within_def)
  with units have "charged * window_ms p
      \<le> (window_ms p + (last_refill_ms b' - last_refill_ms b)) * total_weight_per_window p"
    "noncritical * window_ms p
      \<le> (window_ms p + (last_refill_ms b' - last_refill_ms b))
          * (total_weight_per_window p - reserved_weight_per_window p)"
    unfolding add_mult_distrib mult.commute [of "window_ms p"] normal_weight_def by linarith+
  moreover have "total_consumed_in_window b + charged \<le> total_weight_per_window p
      \<and> normal_consumed_in_window b + noncritical \<le> total_weight_per_window p - reserved_weight_per_window p"
    if "\<forall>(c, w, now) \<in> set requests. now - accounting_window_started_ms b < window_ms p"
    using window_fold [OF assms(1) ok that assms(4) [unfolded charge_run_def]]
    by (auto simp: bucket_ok_def bucket_levels_def normal_weight_def)
  ultimately show ?thesis by blast
qed

section \<open>The queue invariant\<close>

text \<open>The requests a scheduler admits, whatever the time.\<close>

definition request_ok :: "read_api_policy \<Rightarrow> scheduled_read_request \<Rightarrow> bool" where
  "request_ok p r = (sr_kind r = key_kind (sr_key r) \<and> bget (endpoint_weights p) (sr_kind r) = Some (sr_weight r)
     \<and> 0 < sr_weight r \<and> sr_created_at r \<le> sr_not_before r \<and> sr_created_at r < sr_expires_at r
     \<and> (sr_budget_class r = CriticalBudget \<longrightarrow> permits_reserved_budget (sr_kind r))
     \<and> (sr_kind r = SourceState \<longleftrightarrow> sr_budget_class r = SourcePolling)
     \<and> (sr_kind r = SourceState \<longleftrightarrow> sr_source_tier r \<noteq> None))"

lemma validate_request_None:
  "validate_request p r now = None \<Longrightarrow> request_ok p r \<and> now < sr_expires_at r"
  by (auto simp: validate_request_def request_ok_def split: option.splits if_splits)

definition queued :: "queue_state \<Rightarrow> scheduled_read_request set" where
  "queued q = set (bvals (pending q)) \<union> set (bvals (successors q))"

text \<open>
  Requests are stored under their own keys, waiting requests are not in flight, successors are, and
  the in-flight keys are those of the dispatches handed out.
\<close>

definition queue_ok :: "read_api_policy \<Rightarrow> scheduled_read_request list \<Rightarrow> queue_state \<Rightarrow> bool" where
  "queue_ok p out q =
    ((\<forall>k r. bget (pending q) k = Some r \<longrightarrow> sr_key r = k \<and> request_ok p r \<and> \<not> bhas (in_flight q) k)
     \<and> (\<forall>k r. bget (successors q) k = Some r \<longrightarrow> sr_key r = k \<and> request_ok p r \<and> bhas (in_flight q) k)
     \<and> (\<forall>k. bhas (in_flight q) k \<longleftrightarrow> k \<in> sr_key ` set out) \<and> distinct (map sr_key out)
     \<and> queued_len q \<le> queue_capacity p)"

definition scheduler_ok :: "request_scheduler \<Rightarrow> bool" where
  "scheduler_ok s = (policy_ok (api s) \<and> bucket_ok (api s) (budget s)
     \<and> queue_ok (api s) (outstanding s) (queue s)
     \<and> permits s + length (outstanding s) = max_concurrency (api s))"

lemma queue_okD:
  assumes "queue_ok p out q"
  shows "bget (pending q) k = Some r \<Longrightarrow> sr_key r = k \<and> request_ok p r \<and> \<not> bhas (in_flight q) k"
    "bget (successors q) k = Some r \<Longrightarrow> sr_key r = k \<and> request_ok p r \<and> bhas (in_flight q) k"
    "bhas (in_flight q) k \<longleftrightarrow> k \<in> sr_key ` set out" "distinct (map sr_key out)"
    "queued_len q \<le> queue_capacity p"
  using assms unfolding queue_ok_def by blast+

lemma queue_okI:
  assumes "\<And>k r. bget (pending q) k = Some r \<Longrightarrow> sr_key r = k \<and> request_ok p r \<and> \<not> bhas (in_flight q) k"
    and "\<And>k r. bget (successors q) k = Some r \<Longrightarrow> sr_key r = k \<and> request_ok p r \<and> bhas (in_flight q) k"
    and "\<And>k. bhas (in_flight q) k \<longleftrightarrow> k \<in> sr_key ` set out" and "distinct (map sr_key out)"
    and "queued_len q \<le> queue_capacity p"
  shows "queue_ok p out q"
  using assms unfolding queue_ok_def by blast

text \<open>The invariant reads the three containers only; dropping queued requests keeps it.\<close>

lemma queue_ok_subset:
  assumes "queue_ok p out q" and "in_flight q' = in_flight q"
    and "\<And>k r. bget (pending q') k = Some r \<Longrightarrow> bget (pending q) k = Some r"
    and "\<And>k r. bget (successors q') k = Some r \<Longrightarrow> bget (successors q) k = Some r"
    and "queued_len q' \<le> queued_len q"
  shows "queue_ok p out q'"
  unfolding queue_ok_def assms(2)
  using queue_okD [OF assms(1)] assms(3,4,5) by (meson order_trans)

lemma purge_fields [simp]:
  "pending (purge_expired now q) = bfilter (\<lambda>_ r. now < sr_expires_at r) (pending q)"
  "successors (purge_expired now q) = bfilter (\<lambda>_ r. now < sr_expires_at r) (successors q)"
  "in_flight (purge_expired now q) = in_flight q"
  by (simp_all add: purge_expired_def Let_def)

lemma open_window_fields [simp]:
  "pending (open_window now w q) = pending q" "successors (open_window now w q) = successors q"
  "in_flight (open_window now w q) = in_flight q"
  by (simp_all add: open_window_def)

lemma purge_queue_ok: "queue_ok p out q \<Longrightarrow> queue_ok p out (purge_expired now q)"
  by (erule queue_ok_subset)
    (auto simp: queued_len_def bsize_filter add_mono split: option.splits if_splits)

lemma open_window_queue_ok: "queue_ok p out q \<Longrightarrow> queue_ok p out (open_window now w q)"
  by (erule queue_ok_subset) (auto simp: queued_len_def)

text \<open>What making room can do: nothing, refuse, or evict one non-critical request of lower value.\<close>

lemma eviction_candidates_iff:
  "(succ, k, r) \<in> set (eviction_candidates q) \<longleftrightarrow> sr_priority r \<noteq> Critical
     \<and> bget (if succ then successors q else pending q) k = Some r"
  by (auto simp: eviction_candidates_def entries_get)

lemma make_queue_room_cases:
  assumes "make_queue_room capacity incoming q = (room, q')"
  obtains (free) "room" "q' = q" "queued_len q < capacity"
  | (refused) "\<not> room" "q' = q" "capacity \<le> queued_len q"
  | (successor) k r where "room" "q' = q\<lparr>successors := bremove k (successors q)\<rparr>"
      "bget (successors q) k = Some r" "sr_priority r \<noteq> Critical"
      "compare_value incoming r = Greater" "capacity \<le> queued_len q"
  | (pending) k r where "room" "q' = q\<lparr>pending := bremove k (pending q)\<rparr>"
      "bget (pending q) k = Some r" "sr_priority r \<noteq> Critical"
      "compare_value incoming r = Greater" "capacity \<le> queued_len q"
proof (cases "queued_len q < capacity")
  case True
  then show thesis using assms by (intro free) (simp_all add: make_queue_room_def)
next
  case full: False
  show thesis
  proof (cases "min_by (\<lambda>l r. compare_value (snd (snd l)) (snd (snd r))) (eviction_candidates q)")
    case None
    then show thesis using assms full by (intro refused) (simp_all add: make_queue_room_def)
  next
    case (Some e)
    obtain succ k r where e: "e = (succ, k, r)" by (cases e)
    have "e \<in> set (eviction_candidates q)" using Some by (rule min_by_in)
    then have c: "sr_priority r \<noteq> Critical" "bget (if succ then successors q else pending q) k = Some r"
      using eviction_candidates_iff [of succ k r q] by (simp_all add: e)
    have eq: "make_queue_room capacity incoming q =
        (if compare_value incoming r \<noteq> Greater then (False, q)
         else if succ then (True, q\<lparr>successors := bremove k (successors q)\<rparr>)
         else (True, q\<lparr>pending := bremove k (pending q)\<rparr>))"
      using full by (simp add: make_queue_room_def Some [unfolded e])
    show thesis
    proof (cases "compare_value incoming r = Greater")
      case False
      then show thesis using assms full by (intro refused) (simp_all add: eq)
    next
      case True
      then show thesis using assms full c by (cases succ) (auto simp: eq intro: successor pending)
    qed
  qed
qed

lemma make_room_ok:
  assumes "make_queue_room (queue_capacity p) incoming q = (True, q')" and "queue_ok p out q"
  shows "in_flight q' = in_flight q" "queued_len q' < queue_capacity p" "queue_ok p out q'"
    "bget (pending q') k = Some r \<Longrightarrow> bget (pending q) k = Some r"
    "bget (successors q') k = Some r \<Longrightarrow> bget (successors q) k = Some r"
proof -
  have le: "queued_len q \<le> queue_capacity p" using assms(2) by (rule queue_okD)
  consider (same) "q' = q" "queued_len q < queue_capacity p"
    | (succ) k' r' where "q' = q\<lparr>successors := bremove k' (successors q)\<rparr>" "bget (successors q) k' = Some r'"
    | (pend) k' r' where "q' = q\<lparr>pending := bremove k' (pending q)\<rparr>" "bget (pending q) k' = Some r'"
    using assms(1) by (rule make_queue_room_cases) auto
  then have *: "in_flight q' = in_flight q \<and> queued_len q' < queue_capacity p \<and> queued_len q' \<le> queued_len q
      \<and> (\<forall>k r. bget (pending q') k = Some r \<longrightarrow> bget (pending q) k = Some r)
      \<and> (\<forall>k r. bget (successors q') k = Some r \<longrightarrow> bget (successors q) k = Some r)"
  proof cases
    case succ
    then show ?thesis using bsize_remove_has [OF succ(2)] le by (auto simp: queued_len_def)
  next
    case pend
    then show ?thesis using bsize_remove_has [OF pend(2)] le by (auto simp: queued_len_def)
  qed simp
  then show "in_flight q' = in_flight q" "queued_len q' < queue_capacity p"
    "bget (pending q') k = Some r \<Longrightarrow> bget (pending q) k = Some r"
    "bget (successors q') k = Some r \<Longrightarrow> bget (successors q) k = Some r" by blast+
  show "queue_ok p out q'" using assms(2) by (rule queue_ok_subset) (use * in blast)+
qed

text \<open>Storing an admitted request in a queue with room, or over a request of the same key.\<close>

lemma queue_ok_pending:
  assumes "queue_ok p out q" and "bhas (pending q) (sr_key r) \<or> queued_len q < queue_capacity p"
    and "request_ok p r" and "\<not> bhas (in_flight q) (sr_key r)"
  shows "queue_ok p out (q\<lparr>pending := binsert (sr_key r) r (pending q)\<rparr>)"
proof -
  have "queued_len (q\<lparr>pending := binsert (sr_key r) r (pending q)\<rparr>) \<le> queue_capacity p"
    using assms(2) queue_okD(5) [OF assms(1)]
    by (cases "bhas (pending q) (sr_key r)") (simp_all add: queued_len_def bsize_insert_new bsize_insert_old)
  then show ?thesis
    using assms(3,4) queue_okD [OF assms(1)] by (intro queue_okI) (simp_all split: if_splits)
qed

lemma queue_ok_successor:
  assumes "queue_ok p out q" and "bhas (successors q) (sr_key r) \<or> queued_len q < queue_capacity p"
    and "request_ok p r" and "bhas (in_flight q) (sr_key r)"
  shows "queue_ok p out (q\<lparr>successors := binsert (sr_key r) r (successors q)\<rparr>)"
proof -
  have "queued_len (q\<lparr>successors := binsert (sr_key r) r (successors q)\<rparr>) \<le> queue_capacity p"
    using assms(2) queue_okD(5) [OF assms(1)]
    by (cases "bhas (successors q) (sr_key r)") (simp_all add: queued_len_def bsize_insert_new bsize_insert_old)
  then show ?thesis
    using assms(3,4) queue_okD [OF assms(1)] by (intro queue_okI) (simp_all split: if_splits)
qed

text \<open>The counters are not part of the invariant.\<close>

lemma queue_ok_counters [simp]:
  "queue_ok p out (q\<lparr>superseded_in_flight := m\<rparr>) = queue_ok p out q"
  "queue_ok p out (q\<lparr>superseded_pending := m\<rparr>) = queue_ok p out q"
  "queue_ok p out (q\<lparr>superseded_in_flight := m, successors := x\<rparr>) = queue_ok p out (q\<lparr>successors := x\<rparr>)"
  "queue_ok p out (q\<lparr>successors := x, superseded_in_flight := m\<rparr>) = queue_ok p out (q\<lparr>successors := x\<rparr>)"
  "queue_ok p out (q\<lparr>pending := x, superseded_pending := m\<rparr>) = queue_ok p out (q\<lparr>pending := x\<rparr>)"
  by (simp_all add: queue_ok_def queued_len_def)

lemma enqueue_ok:
  assumes "queue_ok p out q" and "request_ok p r"
    and "enqueue (queue_capacity p) r q = (outcome, q')"
  shows "queue_ok p out q'"
proof (cases "bhas (in_flight q) (sr_key r)")
  case busy: True
  show ?thesis
  proof (cases "bget (successors q) (sr_key r)")
    case (Some existing)
    with assms(3) busy queue_ok_successor [OF assms(1) _ assms(2) busy] assms(1) show ?thesis
      by (auto simp: enqueue_def bget_has split: if_splits)
  next
    case None
    obtain room q1 where room: "make_queue_room (queue_capacity p) r q = (room, q1)" by fastforce
    show ?thesis
    proof (cases "room = True")
      case True
      note mk = make_room_ok [OF room [unfolded True] assms(1)]
      have "queue_ok p out (q1\<lparr>successors := binsert (sr_key r) r (successors q1)\<rparr>)"
        using mk(1-3) busy assms(2) by (intro queue_ok_successor) simp_all
      with assms(3) busy None room True show ?thesis by (auto simp: enqueue_def)
    next
      case False
      with room have "q1 = q" by (auto elim!: make_queue_room_cases)
      with assms(1,3) busy None room False show ?thesis by (simp add: enqueue_def)
    qed
  qed
next
  case idle: False
  show ?thesis
  proof (cases "bget (pending q) (sr_key r)")
    case (Some existing)
    with assms(3) idle queue_ok_pending [OF assms(1) _ assms(2) idle] assms(1) show ?thesis
      by (auto simp: enqueue_def bget_has split: if_splits)
  next
    case None
    obtain room q1 where room: "make_queue_room (queue_capacity p) r q = (room, q1)" by fastforce
    show ?thesis
    proof (cases "room = True")
      case True
      note mk = make_room_ok [OF room [unfolded True] assms(1)]
      have "queue_ok p out (q1\<lparr>pending := binsert (sr_key r) r (pending q1)\<rparr>)"
        using mk(1-3) idle assms(2) by (intro queue_ok_pending) simp_all
      with assms(3) idle None room True show ?thesis by (auto simp: enqueue_def)
    next
      case False
      with room have "q1 = q" by (auto elim!: make_queue_room_cases)
      with assms(1,3) idle None room False show ?thesis by (simp add: enqueue_def)
    qed
  qed
qed

lemma schedule_ok:
  assumes "scheduler_ok s" and "schedule now r s = (outcome, s')"
  shows "scheduler_ok s'"
proof (cases "validate_request (api s) r now")
  case None
  let ?q = "open_window now (window_ms (api s)) (purge_expired now (queue s))"
  obtain q' where e: "enqueue (queue_capacity (api s)) r ?q = (outcome, q')" "s' = s\<lparr>queue := q'\<rparr>"
    using assms(2) None by (auto simp: schedule_def Let_def split: prod.splits)
  have "queue_ok (api s) (outstanding s) ?q"
    using assms(1) by (simp add: scheduler_ok_def purge_queue_ok open_window_queue_ok)
  moreover have "request_ok (api s) r" using validate_request_None [OF None] by simp
  ultimately have "queue_ok (api s) (outstanding s) q'" using e(1) by (rule enqueue_ok)
  with assms(1) show ?thesis by (simp add: e(2) scheduler_ok_def)
next
  case Some
  with assms show ?thesis by (simp add: schedule_def)
qed

lemma schedule_frame:
  assumes "schedule now r s = (outcome, s')"
  shows "api s' = api s" "retry s' = retry s" "budget s' = budget s" "permits s' = permits s"
    "outstanding s' = outstanding s"
  using assms by (auto simp: schedule_def Let_def split: option.splits prod.splits)

section \<open>Dispatch and release\<close>

lemma refill_refill [simp]: "refill now (refill now b) = refill now b"
  by (simp add: refill_def Let_def saturating_sub_def)

lemma try_charge_refill [simp]: "try_charge c w now (refill now b) = try_charge c w now b"
  by (simp add: try_charge_def)

definition charged_at :: "nat \<Rightarrow> token_bucket \<Rightarrow> scheduled_read_request \<Rightarrow> bool" where
  "charged_at now b r = (fst (try_charge (sr_budget_class r) (sr_weight r) now b) = Charged)"

lemma charged_at_refill [simp]: "charged_at now (refill now b) = charged_at now b"
  by (simp add: charged_at_def fun_eq_iff)

lemma first_charged_Cons:
  "first_charged now (r # rs) b =
     (if charged_at now b r then (Some r, snd (try_charge (sr_budget_class r) (sr_weight r) now b))
      else first_charged now rs (refill now b))"
  using try_charge_state [of "sr_budget_class r" "sr_weight r" now b]
  by (cases "try_charge (sr_budget_class r) (sr_weight r) now b")
    (auto simp: charged_at_def split: budget_decision.splits)

declare first_charged.simps(2) [simp del] first_charged_Cons [simp]

lemma first_charged_Some:
  "first_charged now rs b = (Some r, b') \<Longrightarrow>
     try_charge (sr_budget_class r) (sr_weight r) now b = (Charged, b')
     \<and> (\<exists>before after. rs = before @ r # after \<and> (\<forall>x \<in> set before. \<not> charged_at now b x))"
proof (induction rs arbitrary: b)
  case (Cons x xs)
  show ?case
  proof (cases "charged_at now b x")
    case True
    with Cons.prems have x: "r = x" and b: "b' = snd (try_charge (sr_budget_class r) (sr_weight r) now b)"
      by (auto simp: first_charged_Cons)
    have "x # xs = [] @ r # xs" by (simp add: x)
    moreover have "try_charge (sr_budget_class r) (sr_weight r) now b = (Charged, b')"
      using True by (simp add: charged_at_def x b prod_eq_iff)
    ultimately show ?thesis by fastforce
  next
    case False
    with Cons.prems have "first_charged now xs (refill now b) = (Some r, b')"
      by (simp only: first_charged_Cons if_False)
    from Cons.IH [OF this] obtain before after
      where t: "try_charge (sr_budget_class r) (sr_weight r) now b = (Charged, b')"
        and xs: "xs = before @ r # after" "\<forall>x \<in> set before. \<not> charged_at now b x" by auto
    have "x # xs = (x # before) @ r # after" by (simp add: xs(1))
    moreover have "\<forall>y \<in> set (x # before). \<not> charged_at now b y" using False xs(2) by simp
    ultimately show ?thesis using t by blast
  qed
qed simp

lemma first_charged_None: "first_charged now rs b = (None, b') \<Longrightarrow> b' = b \<or> b' = refill now b"
proof (induction rs arbitrary: b)
  case (Cons x xs)
  then show ?case
    using Cons.IH [of "refill now b"] by (cases "charged_at now b x") (auto simp: first_charged_Cons)
qed simp

lemma due_requests_iff:
  "r \<in> set (due_requests now p q) \<longleftrightarrow> sr_not_before r \<le> now \<and> (\<exists>k. bget (pending q) k = Some r)"
  by (auto simp: due_requests_def set_bvals)

lemma begin_next_Some:
  assumes "begin_next now s = (Some r, s')"
  obtains b q where "permits s \<noteq> 0" "q = purge_expired now (queue s)"
    "first_charged now (due_requests now (api s) q) (budget s) = (Some r, b)"
    "s' = s\<lparr>budget := b, permits := permits s - 1, outstanding := r # outstanding s,
       queue := q\<lparr>pending := bremove (sr_key r) (pending q),
                  in_flight := binsert (sr_key r) () (in_flight q),
                  dispatch_count := bump (sr_source_tier r) (dispatch_count q),
                  dispatch_window_count := bump (sr_source_tier r) (dispatch_window_count q)\<rparr>\<rparr>"
  using assms unfolding begin_next_def Let_def
  by (auto split: if_splits prod.splits option.splits)

lemma begin_next_None:
  assumes "begin_next now s = (None, s')"
  shows "s' = s \<or> (\<exists>b. s' = s\<lparr>queue := purge_expired now (queue s), budget := b\<rparr>
     \<and> (b = budget s \<or> b = refill now (budget s)))"
  using assms unfolding begin_next_def Let_def
  by (auto dest: first_charged_None split: if_splits prod.splits option.splits)

lemma begin_next_ok:
  assumes "scheduler_ok s" and "begin_next now s = (res, s')"
  shows "scheduler_ok s'"
proof (cases res)
  case None
  from begin_next_None [OF assms(2) [unfolded None]] show ?thesis
    using assms(1) by (auto simp: scheduler_ok_def purge_queue_ok refill_ok)
next
  case (Some r)
  from begin_next_Some [OF assms(2) [unfolded Some]] obtain b q
    where f: "permits s \<noteq> 0" "q = purge_expired now (queue s)"
      "first_charged now (due_requests now (api s) q) (budget s) = (Some r, b)"
      and s': "s' = s\<lparr>budget := b, permits := permits s - 1, outstanding := r # outstanding s,
       queue := q\<lparr>pending := bremove (sr_key r) (pending q),
                  in_flight := binsert (sr_key r) () (in_flight q),
                  dispatch_count := bump (sr_source_tier r) (dispatch_count q),
                  dispatch_window_count := bump (sr_source_tier r) (dispatch_window_count q)\<rparr>\<rparr>" .
  note fc = first_charged_Some [OF f(3)]
  have ok: "policy_ok (api s)" "bucket_ok (api s) (budget s)"
    and q: "queue_ok (api s) (outstanding s) q"
    using assms(1) f(2) by (simp_all add: scheduler_ok_def purge_queue_ok)
  have b: "bucket_ok (api s) b" using fc ok by (blast intro: charge_ok)
  have "r \<in> set (due_requests now (api s) q)" using fc by auto
  then obtain k where "bget (pending q) k = Some r" by (auto simp: due_requests_iff)
  with queue_okD(1) [OF q this] have r: "bget (pending q) (sr_key r) = Some r" "\<not> bhas (in_flight q) (sr_key r)"
    by auto
  have "queued_len (q\<lparr>pending := bremove (sr_key r) (pending q)\<rparr>) \<le> queued_len q"
    using bsize_remove_has [OF r(1)] by (simp add: queued_len_def)
  then have "queue_ok (api s) (r # outstanding s)
     (q\<lparr>pending := bremove (sr_key r) (pending q), in_flight := binsert (sr_key r) () (in_flight q),
        dispatch_count := bump (sr_source_tier r) (dispatch_count q),
        dispatch_window_count := bump (sr_source_tier r) (dispatch_window_count q)\<rparr>)"
  proof (intro queue_okI)
    show "distinct (map sr_key (r # outstanding s))"
      using queue_okD(3,4) [OF q] r(2) by simp
  qed (use queue_okD(1,2,3,5) [OF q] in \<open>auto simp: queued_len_def split: if_splits\<close>)
  with assms(1) b f(1) show ?thesis by (simp add: s' scheduler_ok_def)
qed

lemma release_ok:
  assumes "scheduler_ok s" and "r \<in> set (outstanding s)" and "release_dispatch r s = (succ, s')"
  shows "scheduler_ok s'"
proof -
  let ?q = "queue s" and ?k = "sr_key r"
  have q: "queue_ok (api s) (outstanding s) ?q" using assms(1) by (simp add: scheduler_ok_def)
  note D = queue_okD [OF q]
  have dist: "distinct (map sr_key (remove1 r (outstanding s)))"
    using D(4) by (simp add: distinct_map distinct_remove1 inj_on_def)
  have keys: "sr_key ` set (remove1 r (outstanding s)) = sr_key ` set (outstanding s) - {?k}"
    using D(4) assms(2) by (auto simp: distinct_map inj_on_def)
  have fl: "bhas (in_flight ?q) ?k" using assms(2) D(3) by blast
  have "queue_ok (api s) (remove1 r (outstanding s)) (snd (release_key ?k ?q))"
  proof (cases "bget (successors ?q) ?k")
    case None
    show ?thesis
    proof (rule queue_okI)
      show "distinct (map sr_key (remove1 r (outstanding s)))" by (rule dist)
    qed (use D(1,2,3,5) None in \<open>auto simp: release_key_def Let_def queued_len_def keys\<close>)
  next
    case (Some r')
    have r': "sr_key r' = ?k" "request_ok (api s) r'" using D(2) [OF Some] by simp_all
    have "\<not> bhas (pending ?q) ?k"
    proof
      assume "bhas (pending ?q) ?k"
      then obtain r0 where "bget (pending ?q) ?k = Some r0" by (auto simp: bhas_def)
      from D(1) [OF this] fl show False by simp
    qed
    then have len: "bsize (binsert ?k r' (pending ?q)) + bsize (bremove ?k (successors ?q)) = queued_len ?q"
      using bsize_remove_has [OF Some] by (simp add: queued_len_def bsize_insert_new)
    show ?thesis
    proof (rule queue_okI)
      show "distinct (map sr_key (remove1 r (outstanding s)))" by (rule dist)
    qed (use D(1,2,3,5) Some r' len in
        \<open>auto simp: release_key_def Let_def queued_len_def keys split: if_splits\<close>)
  qed
  moreover have "s' = s\<lparr>queue := snd (release_key ?k ?q), permits := permits s + 1,
      outstanding := remove1 r (outstanding s)\<rparr>"
    using assms(3) by (auto simp: release_dispatch_def Let_def split: prod.splits)
  moreover have "Suc (length (remove1 r (outstanding s))) = length (outstanding s)"
    using length_pos_if_in_set [OF assms(2)] assms(2) by (simp add: length_remove1)
  ultimately show ?thesis using assms(1) by (simp add: scheduler_ok_def)
qed

lemma schedule_retry_inv:
  assumes "schedule_retry r failure now later s = (outcome, s')"
  obtains (stopped) "s' = s" "outcome \<noteq> RetryScheduled" "outcome \<noteq> CompletedFresh" "outcome \<noteq> Superseded"
  | (scheduled) n delay so where "checked_add_nat 32 (sr_attempt r) 1 = Some n"
      "n < retry_maximum_attempts (retry s)" "delay_ms (retry s) r failure = Some delay"
      "now < now + delay" "now + delay < 2 ^ 64" "now + delay < sr_expires_at r"
      "now + delay - sr_created_at r \<le> maximum_lifetime_ms (retry s)"
      "schedule later (r\<lparr>sr_attempt := n, sr_not_before := now + delay\<rparr>) s = (so, s')"
      "outcome = (if so \<in> {Enqueued, ReplacedOlder, SuccessorRecorded} then RetryScheduled else RetryExhausted)"
proof (cases "checked_add_nat 32 (sr_attempt r) 1")
  case None
  then show thesis using assms by (intro stopped) (simp_all add: schedule_retry_def)
next
  case n: (Some n)
  show thesis
  proof (cases "retry_maximum_attempts (retry s) \<le> n \<or> maximum_lifetime_ms (retry s) \<le> saturating_sub now (sr_created_at r)")
    case True
    then show thesis using assms n by (intro stopped) (auto simp: schedule_retry_def split: if_splits)
  next
    case attempts: False
    show thesis
    proof (cases "delay_ms (retry s) r failure")
      case None
      then show thesis using assms n attempts by (intro stopped) (auto simp: schedule_retry_def split: if_splits)
    next
      case d: (Some delay)
      show thesis
      proof (cases "checked_add_nat 64 now delay")
        case None
        then show thesis using assms n attempts d by (intro stopped) (auto simp: schedule_retry_def split: if_splits)
      next
        case nb: (Some nb)
        show thesis
        proof (cases "nb \<le> now \<or> sr_expires_at r \<le> nb
            \<or> maximum_lifetime_ms (retry s) < saturating_sub nb (sr_created_at r)")
          case True
          then show thesis using assms n attempts d nb
            by (intro stopped) (auto simp: schedule_retry_def split: if_splits)
        next
          case False
          obtain so s1 where sch: "schedule later (r\<lparr>sr_attempt := n, sr_not_before := nb\<rparr>) s = (so, s1)" by fastforce
          have "s1 = s'" "outcome = (if so \<in> {Enqueued, ReplacedOlder, SuccessorRecorded} then RetryScheduled else RetryExhausted)"
            using assms n attempts d nb False sch by (simp_all add: schedule_retry_def not_le)
          then show thesis using False attempts n d nb sch
            by (intro scheduled [of n delay so]) (auto simp: checked_add_nat_Some saturating_sub_def)
        qed
      qed
    qed
  qed
qed

lemma schedule_retry_ok:
  assumes "scheduler_ok s" and "schedule_retry r failure now later s = (outcome, s')"
  shows "scheduler_ok s'"
  using schedule_retry_inv [OF assms(2)] assms(1) by cases (auto intro: schedule_ok)

lemma finish_inv:
  assumes "finish r result now later s = (outcome, s')" and "release_dispatch r s = (succ, s1)"
  obtains (released) "s' = s1" "outcome \<noteq> RetryScheduled"
  | (retried) failure where "\<not> succ" "result = Err failure"
      "schedule_retry r failure now later s1 = (outcome, s')"
  using assms by (auto simp: finish_def Let_def split: if_splits outcome.splits read_failure.splits)

lemma finish_ok:
  assumes "scheduler_ok s" and "r \<in> set (outstanding s)" and "finish r result now later s = (outcome, s')"
  shows "scheduler_ok s'"
proof -
  obtain succ s1 where rel: "release_dispatch r s = (succ, s1)" by fastforce
  have "scheduler_ok s1" by (rule release_ok [OF assms(1,2) rel])
  with finish_inv [OF assms(3) rel] show ?thesis by cases (auto intro: schedule_retry_ok)
qed

section \<open>Runs of the scheduler\<close>

text \<open>
  The calls on a scheduler, in the order their locks serialise them. A dispatch can be finished or
  dropped only while it is outstanding: \<open>finish\<close> consumes it and \<open>release\<close> is inactive afterwards.
  \<open>finish\<close> gives up the queue's lock between the release and the rescheduling, so the rescheduling
  is a call of its own as well.
\<close>

datatype scheduler_call =
  ScheduleCall nat scheduled_read_request
| BeginCall nat
| FinishCall scheduled_read_request "(read_response, read_failure) outcome" nat nat
| RetryCall scheduled_read_request read_failure nat nat
| DropCall scheduled_read_request
| HealthCall nat

fun scheduler_exec :: "scheduler_call \<Rightarrow> request_scheduler \<Rightarrow> request_scheduler" where
  "scheduler_exec (ScheduleCall now r) s = snd (schedule now r s)"
| "scheduler_exec (BeginCall now) s = snd (begin_next now s)"
| "scheduler_exec (FinishCall r result now later) s =
     (if r \<in> set (outstanding s) then snd (finish r result now later s) else s)"
| "scheduler_exec (RetryCall r failure now later) s = snd (schedule_retry r failure now later s)"
| "scheduler_exec (DropCall r) s = (if r \<in> set (outstanding s) then snd (release_dispatch r s) else s)"
| "scheduler_exec (HealthCall now) s = snd (health now s)"

interpretation scheduling: machine scheduler_exec scheduler_ok
proof
  fix s and call :: scheduler_call assume ok: "scheduler_ok s"
  show "scheduler_ok (scheduler_exec call s)"
  proof (cases call)
    case (HealthCall now)
    then show ?thesis
      using ok by (simp add: health_def available_total_weight_def available_normal_weight_def Let_def
          scheduler_ok_def refill_ok)
  qed (use ok in \<open>auto intro: schedule_ok schedule_retry_ok begin_next_ok finish_ok release_ok prod.collapse [symmetric]\<close>)
qed

lemma new_scheduler_ok: "new_scheduler p rp now = Ok s \<Longrightarrow> policy_ok p \<Longrightarrow> scheduler_ok s"
  by (auto simp: new_scheduler_def outcome_simps scheduler_ok_def new_bucket_ok empty_queue_def queue_ok_def queued_len_def)

lemma scheduler_exec_policy:
  "api (scheduler_exec call s) = api s \<and> retry (scheduler_exec call s) = retry s"
proof -
  have release: "api (snd (release_dispatch r s)) = api s \<and> retry (snd (release_dispatch r s)) = retry s" for r
    by (simp add: release_dispatch_def Let_def split: prod.split)
  show ?thesis
  proof (cases call)
    case (BeginCall now)
    obtain res s' where b: "begin_next now s = (res, s')" by fastforce
    show ?thesis
    proof (cases res)
      case None
      from begin_next_None [OF b [unfolded None]] show ?thesis by (auto simp: BeginCall b)
    next
      case (Some r)
      show ?thesis by (rule begin_next_Some [OF b [unfolded Some]]) (simp add: BeginCall b)
    qed
  next
    case (FinishCall r result now later)
    obtain outcome s' where f: "finish r result now later s = (outcome, s')" by fastforce
    obtain succ s1 where rel: "release_dispatch r s = (succ, s1)" by fastforce
    have "api s1 = api s \<and> retry s1 = retry s" using release [of r] by (simp add: rel)
    moreover have "api s' = api s1 \<and> retry s' = retry s1"
      by (rule finish_inv [OF f rel]) (auto elim!: schedule_retry_inv dest: schedule_frame(1,2))
    ultimately show ?thesis by (simp add: FinishCall f)
  next
    case (RetryCall r failure now later)
    obtain outcome s' where f: "schedule_retry r failure now later s = (outcome, s')" by fastforce
    have "api s' = api s \<and> retry s' = retry s"
      by (rule schedule_retry_inv [OF f]) (auto dest: schedule_frame(1,2))
    then show ?thesis by (simp add: RetryCall f)
  next
    case (ScheduleCall now r)
    obtain outcome s' where f: "schedule now r s = (outcome, s')" by fastforce
    then show ?thesis using schedule_frame(1,2) [OF f] by (simp add: ScheduleCall)
  qed (use release in \<open>auto simp: health_def Let_def split: prod.splits\<close>)
qed

lemma scheduler_run_policy: "api (fold scheduler_exec calls s) = api s"
  by (induction calls arbitrary: s) (simp_all add: scheduler_exec_policy)

text \<open>
  C38. Whatever calls a scheduler serves, from its creation on: every waiting request is admissible
  and stored under its own key, which is not in flight, every successor waits behind a request in
  flight, waiting requests and successors together never exceed the queue's capacity, the keys in
  flight are exactly those of the dispatches handed out and not yet released, no two of which share
  a key, and the dispatches with the free permits always make up the configured concurrency.
\<close>

theorem scheduler_invariant:
  assumes "policy_ok p" and "new_scheduler p rp start = Ok s0"
  defines "s \<equiv> \<lambda>calls. fold scheduler_exec calls s0"
  shows "(\<forall>k r. bget (pending (queue (s calls))) k = Some r \<longrightarrow>
        sr_key r = k \<and> request_ok p r \<and> \<not> bhas (in_flight (queue (s calls))) k)
     \<and> (\<forall>k r. bget (successors (queue (s calls))) k = Some r \<longrightarrow>
        sr_key r = k \<and> request_ok p r \<and> bhas (in_flight (queue (s calls))) k)
     \<and> bsize (pending (queue (s calls))) + bsize (successors (queue (s calls))) \<le> queue_capacity p
     \<and> (\<forall>k. bhas (in_flight (queue (s calls))) k \<longleftrightarrow> k \<in> sr_key ` set (outstanding (s calls)))
     \<and> distinct (map sr_key (outstanding (s calls)))
     \<and> length (outstanding (s calls)) + permits (s calls) = max_concurrency p"
proof -
  have "api s0 = p" using assms(2) by (auto simp: new_scheduler_def outcome_simps)
  moreover have "scheduler_ok (s calls)"
    unfolding s_def by (rule scheduling.invar_run) (rule new_scheduler_ok [OF assms(2,1)])
  ultimately have q: "queue_ok p (outstanding (s calls)) (queue (s calls))"
    and perm: "permits (s calls) + length (outstanding (s calls)) = max_concurrency p"
    by (simp_all add: scheduler_ok_def s_def scheduler_run_policy)
  have "length (outstanding (s calls)) + permits (s calls) = max_concurrency p" using perm by simp
  then show ?thesis using q unfolding queue_ok_def queued_len_def by blast
qed

text \<open>
  A dispatch is handed out only under a free permit, for a waiting request that is due, has not
  expired, and whose key is not in flight; the budget has been charged its weight, and every due
  request that comes before it in the dispatch order could not be paid for.
\<close>

theorem dispatched_request_eligible:
  assumes "policy_ok p" and "new_scheduler p rp start = Ok s0"
    and "begin_next now (fold scheduler_exec calls s0) = (Some r, s')"
  defines "s \<equiv> fold scheduler_exec calls s0"
  shows "0 < permits s \<and> sr_not_before r \<le> now \<and> now < sr_expires_at r
       \<and> bget (pending (queue s)) (sr_key r) = Some r \<and> \<not> bhas (in_flight (queue s)) (sr_key r)
       \<and> bhas (in_flight (queue s')) (sr_key r) \<and> \<not> bhas (pending (queue s')) (sr_key r)
       \<and> try_charge (sr_budget_class r) (sr_weight r) now (budget s) = (Charged, budget s')
       \<and> (\<exists>before after. due_requests now p (purge_expired now (queue s)) = before @ r # after
            \<and> (\<forall>x \<in> set before. fst (try_charge (sr_budget_class x) (sr_weight x) now (budget s)) \<noteq> Charged))"
proof -
  have api: "api s = p"
    using assms(2) by (auto simp: s_def scheduler_run_policy new_scheduler_def outcome_simps)
  have ok: "scheduler_ok s"
    unfolding s_def by (rule scheduling.invar_run) (rule new_scheduler_ok [OF assms(2,1)])
  let ?q = "purge_expired now (queue s)"
  have "permits s \<noteq> 0 \<and> first_charged now (due_requests now p ?q) (budget s) = (Some r, budget s')
      \<and> bhas (in_flight (queue s')) (sr_key r) \<and> \<not> bhas (pending (queue s')) (sr_key r)"
    by (rule begin_next_Some [OF assms(3) [folded s_def]]) (simp add: api)
  then have f: "permits s \<noteq> 0" "first_charged now (due_requests now p ?q) (budget s) = (Some r, budget s')"
    and s': "bhas (in_flight (queue s')) (sr_key r)" "\<not> bhas (pending (queue s')) (sr_key r)"
    by simp_all
  note fc = first_charged_Some [OF f(2)]
  then have "r \<in> set (due_requests now p ?q)" by auto
  then obtain k where due: "sr_not_before r \<le> now" and k: "bget (pending (queue s)) k = Some r"
    and "now < sr_expires_at r"
    by (auto simp: due_requests_iff split: option.splits if_splits)
  moreover have "sr_key r = k \<and> \<not> bhas (in_flight (queue s)) k"
    using queue_okD(1) k ok by (auto simp: scheduler_ok_def)
  ultimately show ?thesis using fc f(1) s' by (auto simp: charged_at_def)
qed

section \<open>What scheduling can lose\<close>

definition stored :: "bool \<Rightarrow> queue_state \<Rightarrow> (request_key, scheduled_read_request) bmap" where
  "stored successor q = (if successor then successors q else pending q)"

lemma make_room_keeps:
  assumes "make_queue_room capacity incoming q = (room, q')" and "bget (stored sc q) k = Some x"
  shows "bget (stored sc q') k = Some x
       \<or> room \<and> sr_priority x \<noteq> Critical \<and> compare_value incoming x = Greater \<and> capacity \<le> queued_len q"
  using assms(1)
proof (cases rule: make_queue_room_cases)
  case (successor k' r)
  then show ?thesis using assms(2) by (cases sc; cases "k' = k") (auto simp: stored_def)
next
  case (pending k' r)
  then show ?thesis using assms(2) by (cases sc; cases "k' = k") (auto simp: stored_def)
qed (use assms(2) in auto)

lemma enqueue_inv:
  assumes "enqueue capacity r q = (outcome, q')"
  defines "sc \<equiv> bhas (in_flight q) (sr_key r)"
  obtains (older) existing where "outcome = RejectedOlder" "q' = q"
      "bget (stored sc q) (sr_key r) = Some existing" "\<not> is_newer r existing"
  | (full) "outcome = RejectedQueueFull" "make_queue_room capacity r q = (False, q')"
      "bget (stored sc q) (sr_key r) = None"
  | (newer) existing where "outcome = (if sc then SuccessorRecorded else ReplacedOlder)"
      "bget (stored sc q) (sr_key r) = Some existing" "is_newer r existing"
      "\<And>b. stored b q' = (if b = sc then binsert (sr_key r) r (stored b q) else stored b q)"
  | (added) q1 where "outcome = (if sc then SuccessorRecorded else Enqueued)"
      "bget (stored sc q) (sr_key r) = None" "make_queue_room capacity r q = (True, q1)"
      "\<And>b. stored b q' = (if b = sc then binsert (sr_key r) r (stored b q1) else stored b q1)"
proof (cases "bget (stored sc q) (sr_key r)")
  case (Some existing)
  show thesis
  proof (cases "is_newer r existing")
    case True
    with Some assms(1) show thesis
      by (intro newer [of existing]) (auto simp: sc_def enqueue_def stored_def split: if_splits)
  next
    case False
    with Some assms(1) show thesis
      by (intro older [of existing]) (auto simp: sc_def enqueue_def stored_def split: if_splits)
  qed
next
  case None
  obtain room q1 where room: "make_queue_room capacity r q = (room, q1)" by fastforce
  show thesis
  proof (cases "room = True")
    case True
    with None room assms(1) show thesis
      by (intro added [of q1]) (auto simp: sc_def enqueue_def stored_def split: if_splits)
  next
    case False
    with None room assms(1) show thesis
      by (intro full) (auto simp: sc_def enqueue_def stored_def split: if_splits)
  qed
qed

lemma enqueue_keeps:
  assumes "enqueue capacity r q = (outcome, q')" and "bget (stored sc q) k = Some x"
  shows "bget (stored sc q') k = Some x
       \<or> k = sr_key r \<and> is_newer r x \<and> bget (stored sc q') k = Some r
       \<or> sr_priority x \<noteq> Critical \<and> compare_value r x = Greater \<and> capacity \<le> queued_len q
         \<and> outcome \<in> {Enqueued, SuccessorRecorded}"
  using assms(1)
proof (cases rule: enqueue_inv)
  case full
  from make_room_keeps [OF full(2) assms(2)] show ?thesis by simp
next
  case (newer existing)
  with assms(2) show ?thesis by auto
next
  case (added q1)
  show ?thesis
  proof (cases "sc = bhas (in_flight q) (sr_key r) \<and> k = sr_key r")
    case True
    with added(2) assms(2) show ?thesis by simp
  next
    case False
    with make_room_keeps [OF added(3) assms(2)] added(1,4) show ?thesis by auto
  qed
qed (use assms(2) in simp)

lemma enqueue_stores:
  assumes "enqueue capacity r q = (outcome, q')" and "outcome \<in> {Enqueued, ReplacedOlder, SuccessorRecorded}"
  shows "bget (stored (outcome = SuccessorRecorded) q') (sr_key r) = Some r"
  using assms(1) by (cases rule: enqueue_inv) (use assms(2) in \<open>auto split: if_splits\<close>)

lemma schedule_stores:
  assumes "schedule now r s = (outcome, s')" and "outcome \<in> {Enqueued, ReplacedOlder, SuccessorRecorded}"
  shows "bget (stored (outcome = SuccessorRecorded) (queue s')) (sr_key r) = Some r"
proof -
  let ?q = "open_window now (window_ms (api s)) (purge_expired now (queue s))"
  have "enqueue (queue_capacity (api s)) r ?q = (outcome, queue s')"
    using assms by (auto simp: schedule_def Let_def validate_request_def split: option.splits prod.splits if_splits)
  then show ?thesis using assms(2) by (rule enqueue_stores)
qed

lemma stored_purged:
  "bget (stored sc (open_window now w (purge_expired now q))) k = Some x
     \<longleftrightarrow> bget (stored sc q) k = Some x \<and> now < sr_expires_at x"
  by (auto simp: stored_def split: option.splits if_splits)

text \<open>
  Scheduling a request loses nothing that is still wanted: a stored request that has not
  expired stays where it is, unless the incoming request has its key, is newer and takes its place,
  or the queue was full, the stored request is not critical, and the incoming one has a higher
  value (a higher priority, or the same and an earlier expiry or creation) and is admitted in its
  stead. An admitted request is stored under its key; a refused one displaces nothing.
\<close>

theorem schedule_loses_only:
  assumes "schedule now r s = (outcome, s')"
  shows "(bget (stored sc (queue s)) k = Some x \<longrightarrow> now < sr_expires_at x \<longrightarrow>
       bget (stored sc (queue s')) k = Some x
       \<or> k = sr_key r \<and> is_newer r x \<and> bget (stored sc (queue s')) k = Some r
       \<or> sr_priority x \<noteq> Critical \<and> compare_value r x = Greater
         \<and> queue_capacity (api s) \<le> queued_len (queue s) \<and> outcome \<in> {Enqueued, SuccessorRecorded})
    \<and> (outcome \<in> {Enqueued, ReplacedOlder, SuccessorRecorded} \<longrightarrow>
       bget (stored (outcome = SuccessorRecorded) (queue s')) (sr_key r) = Some r)"
proof -
  let ?q = "open_window now (window_ms (api s)) (purge_expired now (queue s))"
  have len: "queued_len ?q \<le> queued_len (queue s)"
    by (simp add: queued_len_def bsize_filter add_mono)
  have "s' = s \<and> outcome \<in> {RejectedInvalid, Expired, RejectedOverweight}
      \<or> enqueue (queue_capacity (api s)) r ?q = (outcome, queue s')"
    using assms by (auto simp: schedule_def Let_def validate_request_def split: option.splits prod.splits if_splits)
  then consider (rejected) "s' = s" "outcome \<in> {RejectedInvalid, Expired, RejectedOverweight}"
    | (enqueued) "enqueue (queue_capacity (api s)) r ?q = (outcome, queue s')" by blast
  then show ?thesis
  proof cases
    case enqueued
    from enqueue_keeps [OF enqueued] enqueue_stores [OF enqueued] stored_purged len
    show ?thesis by (meson order_trans)
  qed auto
qed

section \<open>Retries\<close>

lemma delay_bounds:
  assumes "delay_ms p r failure = Some d" and "jitter_bps p \<le> 10000" and "\<nexists>x. failure = RateLimited (Some x)"
    and "0 < maximum_backoff_ms p"
  shows "d \<le> maximum_backoff_ms p + maximum_backoff_ms p * jitter_bps p div 10000"
proof -
  define e where "e = min (case checked_mul_nat 64 (initial_backoff_ms p) (2 ^ (min (sr_attempt r) 63)) of
      Some v \<Rightarrow> v | None \<Rightarrow> 2 ^ 64 - 1) (maximum_backoff_ms p)"
  define j where "j = e * jitter_bps p div 10000"
  have e: "e \<le> maximum_backoff_ms p" by (simp add: e_def)
  then have j: "j \<le> maximum_backoff_ms p * jitter_bps p div 10000"
    unfolding j_def by (intro div_le_mono mult_le_mono1)
  have "j \<le> e * 10000 div 10000" unfolding j_def using assms(2) by (intro div_le_mono mult_le_mono2)
  then have je: "j \<le> e" by simp
  have "delay_ms p r failure = (if j = 0 then Some (max e 1) else
      Some (min (saturating_add 128 (saturating_sub e j)
        (stable_request_hash (sr_key r) (sr_attempt r + 1) (deterministic_seed p)
          mod saturating_add 128 (saturating_mul 128 j 2) 1)) (2 ^ 64 - 1)))"
    using assms(1,3) unfolding delay_ms_def Let_def e_def [symmetric] j_def [symmetric]
    by (auto split: read_failure.splits option.splits)
  then consider "j = 0" "d = max e 1" | h where
    "d = min (saturating_add 128 (saturating_sub e j) (h mod saturating_add 128 (saturating_mul 128 j 2) 1)) (2 ^ 64 - 1)"
    using assms(1) by (auto split: if_splits)
  then show ?thesis
  proof cases
    case 1
    then show ?thesis using e assms(4) by (simp add: max_def)
  next
    case (2 h)
    define w where "w = saturating_add 128 (saturating_mul 128 j 2) 1"
    have le: "saturating_add 128 x y \<le> x + y" "saturating_mul 128 x y \<le> x * y" for x y
      unfolding saturating_add_def saturating_mul_def by (rule min.cobounded1)+
    have "w \<le> j * 2 + 1"
      unfolding w_def by (rule order_trans [OF le(1)]) (simp add: le(2))
    moreover have "0 < w" unfolding w_def saturating_add_def by (simp only: min_less_iff_conj) simp
    then have "h mod w < w" by (rule mod_less_divisor)
    ultimately have "h mod w \<le> j * 2" by linarith
    moreover have "d \<le> saturating_add 128 (saturating_sub e j) (h mod w)"
      unfolding 2 w_def [symmetric] by (rule min.cobounded1)
    then have "d \<le> (e - j) + h mod w"
      using le(1) [of "saturating_sub e j" "h mod w"] unfolding saturating_sub_def by (rule order_trans)
    ultimately show ?thesis using j je e by linarith
  qed
qed

text \<open>
  A failed read is retried only within its policy: the outcome \<open>RetryScheduled\<close> is given only for
  a rate limit, timeout, transport or server failure, when the next attempt is below the configured
  maximum; the request is then stored again under its key, due strictly later than now, before it
  expires and within its lifetime, its creation time unchanged; and unless the server named the
  delay, the delay is at most the maximal backoff and its jitter.
\<close>

theorem retry_within_policy:
  assumes "finish r result now later s = (RetryScheduled, s')" and "validate_retry_policy (retry s) = Ok ()"
  shows "\<exists>failure delay sc. result = Err failure \<and> failure \<notin> {InvalidResponse, Permanent}
      \<and> sr_attempt r + 1 < retry_maximum_attempts (retry s) \<and> 0 < delay
      \<and> now + delay < sr_expires_at r \<and> now + delay - sr_created_at r \<le> maximum_lifetime_ms (retry s)
      \<and> bget (stored sc (queue s')) (sr_key r) = Some (r\<lparr>sr_attempt := sr_attempt r + 1, sr_not_before := now + delay\<rparr>)
      \<and> ((\<nexists>x. failure = RateLimited (Some x)) \<longrightarrow>
           delay \<le> maximum_backoff_ms (retry s) + maximum_backoff_ms (retry s) * jitter_bps (retry s) div 10000)"
proof -
  obtain succ s1 where rel: "release_dispatch r s = (succ, s1)" by fastforce
  then have rp: "retry s1 = retry s" by (auto simp: release_dispatch_def Let_def split: prod.splits)
  from finish_inv [OF assms(1) rel] obtain failure
    where f: "result = Err failure" "schedule_retry r failure now later s1 = (RetryScheduled, s')"
    by cases auto
  from schedule_retry_inv [OF f(2)] obtain n delay so
    where n: "checked_add_nat 32 (sr_attempt r) 1 = Some n" "n < retry_maximum_attempts (retry s)"
      and d: "delay_ms (retry s) r failure = Some delay" "now < now + delay" "now + delay < sr_expires_at r"
        "now + delay - sr_created_at r \<le> maximum_lifetime_ms (retry s)"
      and so: "schedule later (r\<lparr>sr_attempt := n, sr_not_before := now + delay\<rparr>) s1 = (so, s')"
        "so \<in> {Enqueued, ReplacedOlder, SuccessorRecorded}"
    by cases (auto simp: rp split: if_splits)
  have "failure \<notin> {InvalidResponse, Permanent}" using d(1) by (auto simp: delay_ms_def)
  moreover have "bget (stored (so = SuccessorRecorded) (queue s')) (sr_key r)
      = Some (r\<lparr>sr_attempt := n, sr_not_before := now + delay\<rparr>)"
    using so schedule_stores [OF so(1)] by simp
  moreover have "n = sr_attempt r + 1" using n(1) by (simp add: checked_add_nat_Some)
  moreover have "jitter_bps (retry s) \<le> 10000" "0 < maximum_backoff_ms (retry s)"
    using assms(2) by (auto simp: validate_retry_policy_def fail_if_Ok)
  ultimately show ?thesis using f(1) n d delay_bounds [OF d(1)]
    by (intro exI [of _ failure] exI [of _ delay] exI [of _ "so = SuccessorRecorded"]) auto
qed

section \<open>The dispatch order\<close>

definition sample_policy :: read_api_policy where
  "sample_policy = \<lparr>total_weight_per_window = 100, reserved_weight_per_window = 20,
     source_polling_weight_per_window = 40, window_ms = 1000, max_concurrency = 2, queue_capacity = 8,
     endpoint_weights = bcollect (map (\<lambda>k. (k, 10)) required_kinds),
     dispatch_targets = binsert Active 3 (binsert Inactive 1 bempty)\<rparr>"

definition sample_request :: "read_request_kind \<Rightarrow> source_tier option \<Rightarrow> nat \<Rightarrow> nat \<Rightarrow> scheduled_read_request" where
  "sample_request k tier created expires = \<lparr>sr_key = RequestKey Market k, sr_kind = k, sr_candidate_id = None,
     sr_source_tier = tier, sr_weight = 10, sr_priority = Normal,
     sr_budget_class = (if k = SourceState then SourcePolling else NormalBudget),
     sr_created_at = created, sr_not_before = created, sr_expires_at = expires, sr_attempt = 0\<rparr>"

lemma sample_weights: "bget (endpoint_weights sample_policy) k = Some 10"
  by (cases k) (simp_all add: sample_policy_def bget_collect required_kinds_def)

lemma sample_policy_ok: "policy_ok sample_policy"
proof -
  have "check_all (validate_kind_weight sample_policy 80) required_kinds = Ok ()"
    by (simp add: check_all_Ok validate_kind_weight_def sample_weights)
  moreover have "checked_mul_nat 128 100 1000 = Some 100000" by (simp add: checked_mul_nat_def)
  ultimately show ?thesis
    by (simp add: policy_ok_def validate_api_policy_def checked_sub_nat_def) (simp add: sample_policy_def checked_sub_nat_def)
qed

text \<open>
  The dispatch order is not an order: among requests of one priority, tiers are compared by
  fairness only when both requests have one, so there are admissible requests, of which one has no
  tier, each dispatched before the next in a cycle.
\<close>

theorem dispatch_order_cyclic:
  "\<exists>p counts a b c. policy_ok p \<and> request_ok p a \<and> request_ok p b \<and> request_ok p c
     \<and> dispatch_order counts (dispatch_targets p) a b = Less
     \<and> dispatch_order counts (dispatch_targets p) b c = Less
     \<and> dispatch_order counts (dispatch_targets p) c a = Less"
proof (intro exI conjI)
  let ?p = sample_policy and ?counts = "binsert Active 1 bempty :: (source_tier, nat) bmap"
  let ?a = "sample_request SourceState (Some Active) 0 100"
    and ?b = "sample_request MarketMids None 0 200"
    and ?c = "sample_request SourceState (Some Inactive) 0 300"
  show "policy_ok ?p" by (rule sample_policy_ok)
  show "request_ok ?p ?a" "request_ok ?p ?b" "request_ok ?p ?c"
    by (simp_all add: request_ok_def sample_request_def sample_weights)
  show "dispatch_order ?counts (dispatch_targets ?p) ?a ?b = Less"
    "dispatch_order ?counts (dispatch_targets ?p) ?b ?c = Less"
    "dispatch_order ?counts (dispatch_targets ?p) ?c ?a = Less"
    by (simp_all add: dispatch_order_def sample_request_def sample_policy_def then_with_eq saturating_mul_def)
qed

section \<open>The snapshot store\<close>

fun accept_exec :: "'a source_snapshot \<times> nat \<times> bool \<Rightarrow> 'a snapshot_store \<Rightarrow> 'a snapshot_store" where
  "accept_exec (snap, now, payload_ok) st = snd (accept snap now payload_ok st)"

definition snapshot_follows :: "'a source_snapshot \<Rightarrow> 'a source_snapshot \<Rightarrow> bool" where
  "snapshot_follows a b = (a = b \<or> snapshot_sequence a < snapshot_sequence b
     \<and> snapshot_received_at a \<le> snapshot_received_at b \<and> source_observed_at a \<le> source_observed_at b)"

definition snapshots_ok :: "'a snapshot_store \<Rightarrow> bool" where
  "snapshots_ok st = (\<forall>c snap. latest st c = Some snap \<longrightarrow> snapshot_candidate snap = c
     \<and> requested_at snap \<le> snapshot_received_at snap \<and> snapshot_received_at snap \<le> snapshot_valid_until snap)"

lemma snapshot_follows_trans: "snapshot_follows a b \<Longrightarrow> snapshot_follows b c \<Longrightarrow> snapshot_follows a c"
  by (auto simp: snapshot_follows_def)

lemma accept_cases:
  "accept snap now payload_ok st = (outcome, st') \<Longrightarrow>
    st' = st \<and> outcome \<noteq> Accepted
    \<or> outcome = Accepted \<and> st' = st\<lparr>accepted := binsert (snapshot_candidate snap) snap (accepted st)\<rparr>
      \<and> requested_at snap \<le> snapshot_received_at snap \<and> snapshot_received_at snap \<le> snapshot_valid_until snap
      \<and> (\<forall>old. latest st (snapshot_candidate snap) = Some old \<longrightarrow>
           snapshot_sequence old < snapshot_sequence snap \<and> snapshot_received_at old \<le> snapshot_received_at snap
           \<and> source_observed_at old \<le> source_observed_at snap)"
  by (auto simp: accept_def Let_def latest_def not_le not_less split: if_splits option.splits)

lemma accept_exec_ok: "snapshots_ok st \<Longrightarrow> snapshots_ok (accept_exec call st)"
proof -
  assume ok: "snapshots_ok st"
  obtain snap now payload_ok where call: "call = (snap, now, payload_ok)" by (cases call)
  obtain outcome st' where a: "accept snap now payload_ok st = (outcome, st')" by fastforce
  from accept_cases [OF a] ok show "snapshots_ok (accept_exec call st)"
    by (auto simp: call a snapshots_ok_def latest_def split: if_splits)
qed

interpretation snapshots: machine accept_exec snapshots_ok
  by unfold_locales (rule accept_exec_ok)

lemma accept_follows:
  assumes "latest st c = Some a"
  shows "\<exists>b. latest (fold accept_exec calls st) c = Some b \<and> snapshot_follows a b"
  using assms
proof (induction calls arbitrary: st a)
  case (Cons call calls)
  obtain snap now payload_ok where call: "call = (snap, now, payload_ok)" by (cases call)
  obtain outcome st' where acc: "accept snap now payload_ok st = (outcome, st')" by fastforce
  from accept_cases [OF acc] Cons.prems obtain b where b: "latest st' c = Some b" "snapshot_follows a b"
    by (cases "snapshot_candidate snap = c") (auto simp: latest_def snapshot_follows_def)
  from Cons.IH [OF b(1)] b(2) show ?case by (auto simp: call acc intro: snapshot_follows_trans)
qed (simp add: snapshot_follows_def)

text \<open>
  A candidate's snapshots only move forward: once a store created empty holds a snapshot of a
  candidate, after any further offers, valid or not and in any order, it still holds one, and it is
  the same or has a strictly larger sequence and no earlier receipt or observation. What \<open>fresh\<close>
  hands out is the held snapshot, of the candidate asked for, with consistent timestamps, still
  valid at that time and not older than the configured age.
\<close>

theorem snapshots_move_forward:
  assumes "new_store p = Ok st0"
    and "latest (fold accept_exec calls st0) c = Some a"
  shows "\<exists>b. latest (fold accept_exec (calls @ further) st0) c = Some b \<and> snapshot_follows a b
      \<and> (\<forall>now snap. fresh (fold accept_exec (calls @ further) st0) c now = Some snap \<longrightarrow>
           snap = b \<and> snapshot_candidate snap = c \<and> requested_at snap \<le> snapshot_received_at snap
           \<and> snapshot_received_at snap \<le> snapshot_valid_until snap \<and> now \<le> snapshot_valid_until snap
           \<and> now \<le> snapshot_received_at snap + configured_max_age_ms p)"
proof -
  have st0: "store_policy st0 = p" "accepted st0 = bempty"
    using assms(1) by (auto simp: new_store_def validate_freshness_def outcome_simps)
  have policy: "store_policy (fold accept_exec xs st) = store_policy st"
    for xs :: "('a source_snapshot \<times> nat \<times> bool) list" and st
  proof (induction xs arbitrary: st)
    case (Cons x xs)
    then show ?case by (cases x) (auto simp: accept_def Let_def split: option.splits)
  qed simp
  let ?st = "fold accept_exec (calls @ further) st0"
  have ok: "snapshots_ok ?st"
    by (rule snapshots.invar_run) (simp add: snapshots_ok_def latest_def st0)
  obtain b where b: "latest ?st c = Some b" "snapshot_follows a b"
    using accept_follows [OF assms(2), of further] by auto
  have "snap = b \<and> now \<le> snapshot_valid_until snap \<and> now \<le> snapshot_received_at snap + configured_max_age_ms p"
    if "fresh ?st c now = Some snap" for now snap
    using that b(1) by (auto simp: fresh_def latest_def policy st0 saturating_sub_def split: if_splits)
  then show ?thesis using b ok unfolding snapshots_ok_def by blast
qed

section \<open>The statements apply\<close>

definition sample_retry :: retry_policy where
  "sample_retry = \<lparr>initial_backoff_ms = 100, maximum_backoff_ms = 1000, retry_maximum_attempts = 3,
     maximum_lifetime_ms = 10000, jitter_bps = 0, deterministic_seed = 7\<rparr>"

definition sample_bucket :: token_bucket where
  "sample_bucket = \<lparr>total_capacity_units = 100000, normal_capacity_units = 80000, source_capacity_units = 40000,
     enrichment_capacity_units = 40000, total_units = 100000, normal_units = 80000, source_units = 40000,
     enrichment_units = 40000, total_refill_per_ms = 100, normal_refill_per_ms = 80, source_refill_per_ms = 40,
     enrichment_refill_per_ms = 40, bucket_window_ms = 1000, last_refill_ms = 5, accounting_window_started_ms = 5,
     total_consumed_in_window = 0, normal_consumed_in_window = 0, source_consumed_in_window = 0,
     enrichment_consumed_in_window = 0\<rparr>"

definition sample_scheduler :: request_scheduler where
  "sample_scheduler = \<lparr>api = sample_policy, retry = sample_retry, budget = sample_bucket, permits = 2,
     queue = empty_queue, outstanding = []\<rparr>"

lemma sample_bucket_new: "new_bucket sample_policy 5 = Ok sample_bucket"
proof -
  have "validate_api_policy sample_policy = Ok ()" using sample_policy_ok by (simp add: policy_ok_def)
  then show ?thesis
    by (simp add: new_bucket_def checked_sub_nat_def checked_mul_nat_def sample_policy_def sample_bucket_def Let_def)
qed

lemma sample_scheduler_new: "new_scheduler sample_policy sample_retry 5 = Ok sample_scheduler"
proof -
  have "validate_api_policy sample_policy = Ok ()" using sample_policy_ok by (simp add: policy_ok_def)
  moreover have "validate_retry_policy sample_retry = Ok ()" by (simp add: validate_retry_policy_def sample_retry_def)
  ultimately show ?thesis
    by (simp add: new_scheduler_def sample_bucket_new sample_scheduler_def) (simp add: sample_policy_def)
qed

lemma charges_bounded_witness:
  "\<exists>x y b. charge_run [(NormalBudget, 10, 6)] sample_bucket = (x, y, b)
     \<and> x * 1000 \<le> (1000 + (last_refill_ms b - 5)) * 100"
proof -
  obtain x y b where run: "charge_run [(NormalBudget, 10, 6)] sample_bucket = (x, y, b)"
    by (cases "charge_run [(NormalBudget, 10, 6)] sample_bucket")
  have "charge_run [] sample_bucket = (0, 0, sample_bucket)" by (simp add: charge_run_def)
  from charges_bounded [OF sample_policy_ok sample_bucket_new this run] run show ?thesis
    by (simp add: sample_policy_def sample_bucket_def)
qed

lemma scheduler_invariant_witness:
  "length (outstanding (fold scheduler_exec [BeginCall 6] sample_scheduler))
     + permits (fold scheduler_exec [BeginCall 6] sample_scheduler) = 2"
  using scheduler_invariant [OF sample_policy_ok sample_scheduler_new, of "[BeginCall 6]"]
  by (simp only: sample_policy_def read_api_policy.simps)

definition sample_read :: scheduled_read_request where
  "sample_read = sample_request MarketMids None 0 200"

lemma bfilter_empty [simp]: "bfilter P bempty = bempty"
  by (rule bmap_eqI) simp

lemma sample_fields [simp]:
  "api sample_scheduler = sample_policy" "retry sample_scheduler = sample_retry"
  "budget sample_scheduler = sample_bucket" "permits sample_scheduler = 2"
  "queue sample_scheduler = empty_queue" "outstanding sample_scheduler = []"
  "total_weight_per_window sample_policy = 100" "reserved_weight_per_window sample_policy = 20"
  "window_ms sample_policy = 1000" "queue_capacity sample_policy = 8"
  by (simp_all add: sample_scheduler_def sample_policy_def)

lemma empty_queue_fields [simp]:
  "pending empty_queue = bempty" "in_flight empty_queue = bempty" "successors empty_queue = bempty"
  "dispatch_window_started_ms empty_queue = 0"
  by (simp_all add: empty_queue_def)

lemma empty_queue_ops [simp]:
  "purge_expired now empty_queue = empty_queue"
  "now < window \<Longrightarrow> open_window now window empty_queue = empty_queue"
  "0 < capacity \<Longrightarrow> make_queue_room capacity r empty_queue = (True, empty_queue)"
  by (simp_all add: purge_expired_def open_window_def make_queue_room_def saturating_sub_def queued_len_def
      bvals_def Let_def)

lemma enqueue_empty [simp]:
  "0 < capacity \<Longrightarrow> enqueue capacity r empty_queue
     = (Enqueued, empty_queue\<lparr>pending := binsert (sr_key r) r bempty\<rparr>)"
  by (simp add: enqueue_def)

lemma sample_valid:
  "now < 200 \<Longrightarrow> validate_request sample_policy (sample_read\<lparr>sr_attempt := n, sr_not_before := nb\<rparr>) now = None"
  by (simp add: validate_request_def sample_read_def sample_request_def sample_weights)

lemma sample_schedule:
  "schedule 6 sample_read sample_scheduler
     = (Enqueued, sample_scheduler\<lparr>queue := empty_queue\<lparr>pending := binsert (sr_key sample_read) sample_read bempty\<rparr>\<rparr>)"
proof -
  have "sample_read = sample_read\<lparr>sr_attempt := 0, sr_not_before := 0\<rparr>"
    by (simp add: sample_read_def sample_request_def)
  then have "validate_request sample_policy sample_read 6 = None" using sample_valid [of 6 0 0] by simp
  then show ?thesis by (simp add: schedule_def Let_def)
qed

lemma schedule_loses_only_witness:
  "bget (stored False (queue (snd (schedule 6 sample_read sample_scheduler)))) (sr_key sample_read) = Some sample_read"
  using schedule_loses_only [OF sample_schedule] by (simp add: sample_schedule)

lemma sample_begin:
  "\<exists>b. begin_next 7 (fold scheduler_exec [ScheduleCall 6 sample_read] sample_scheduler)
     = (Some sample_read, b)"
proof -
  let ?s = "sample_scheduler\<lparr>queue := empty_queue\<lparr>pending := binsert (sr_key sample_read) sample_read bempty\<rparr>\<rparr>"
  have purge: "purge_expired 7 (queue ?s) = queue ?s"
    by (rule queue_state.equality) (simp_all add: purge_expired_def empty_queue_def bvals_def
        binsert.rep_eq bempty.rep_eq sample_read_def sample_request_def Let_def bmap_eqI)
  have "due_requests 7 (api ?s) (queue ?s) = [sample_read]"
    by (simp add: due_requests_def bvals_def binsert.rep_eq bempty.rep_eq sample_read_def sample_request_def)
  moreover have "fst (try_charge NormalBudget 10 7 sample_bucket) = Charged"
    by (simp add: try_charge_def refill_def refilled_def saturating_sub_def saturating_add_def saturating_mul_def
        sample_bucket_def checked_mul_nat_def overweight_def window_exhausted_def exceeds_def checked_add_nat_def
        capacity_weight_def as_width_def tokens_missing_def)
  then have "charged_at 7 (budget ?s) sample_read"
    by (simp add: charged_at_def sample_read_def sample_request_def)
  ultimately have "begin_next 7 ?s = (Some sample_read, snd (begin_next 7 ?s))"
    unfolding begin_next_def Let_def purge by (simp add: sample_scheduler_def split: prod.split)
  then show ?thesis by (auto simp: sample_schedule)
qed

lemma dispatched_request_eligible_witness:
  "\<exists>s'. begin_next 7 (fold scheduler_exec [ScheduleCall 6 sample_read] sample_scheduler) = (Some sample_read, s')
     \<and> bhas (in_flight (queue s')) (sr_key sample_read)"
proof -
  obtain s' where b: "begin_next 7 (fold scheduler_exec [ScheduleCall 6 sample_read] sample_scheduler) = (Some sample_read, s')"
    using sample_begin by auto
  from dispatched_request_eligible [OF sample_policy_ok sample_scheduler_new b] b show ?thesis by blast
qed

lemma sample_finish:
  "\<exists>s'. finish sample_read (Err (RateLimited (Some 50))) 7 8 (sample_scheduler\<lparr>queue := empty_queue\<lparr>in_flight := binsert (sr_key sample_read) () bempty\<rparr>, permits := 1, outstanding := [sample_read]\<rparr>)
     = (RetryScheduled, s')"
proof -
  let ?s = "sample_scheduler\<lparr>queue := empty_queue\<lparr>in_flight := binsert (sr_key sample_read) () bempty\<rparr>,
      permits := 1, outstanding := [sample_read]\<rparr>"
  let ?r = "sample_read\<lparr>sr_attempt := 1, sr_not_before := 57\<rparr>"
  have "release_dispatch sample_read ?s = (False, sample_scheduler)"
    by (simp add: release_dispatch_def release_key_def Let_def bm.remove_update bm.remove_absent)
  moreover have "schedule 8 ?r sample_scheduler
      = (Enqueued, sample_scheduler\<lparr>queue := empty_queue\<lparr>pending := binsert (sr_key ?r) ?r bempty\<rparr>\<rparr>)"
    using sample_valid [where now = 8 and n = 1 and nb = 57] by (simp add: schedule_def Let_def)
  moreover have "sr_attempt sample_read = 0" "sr_created_at sample_read = 0" "sr_expires_at sample_read = 200"
    by (simp_all add: sample_read_def sample_request_def)
  ultimately show ?thesis
    by (simp add: finish_def schedule_retry_def checked_add_nat_def delay_ms_def saturating_sub_def Let_def)
       (simp add: sample_retry_def)
qed

lemma retry_within_policy_witness:
  "\<exists>s' delay sc. finish sample_read (Err (RateLimited (Some 50))) 7 8
        (sample_scheduler\<lparr>queue := empty_queue\<lparr>in_flight := binsert (sr_key sample_read) () bempty\<rparr>,
           permits := 1, outstanding := [sample_read]\<rparr>) = (RetryScheduled, s')
     \<and> bget (stored sc (queue s')) (sr_key sample_read)
         = Some (sample_read\<lparr>sr_attempt := sr_attempt sample_read + 1, sr_not_before := 7 + delay\<rparr>)"
proof -
  let ?s = "sample_scheduler\<lparr>queue := empty_queue\<lparr>in_flight := binsert (sr_key sample_read) () bempty\<rparr>,
      permits := 1, outstanding := [sample_read]\<rparr>"
  obtain s' where f: "finish sample_read (Err (RateLimited (Some 50))) 7 8 ?s = (RetryScheduled, s')"
    using sample_finish by auto
  have "validate_retry_policy (retry ?s) = Ok ()" by (simp add: validate_retry_policy_def sample_retry_def)
  from retry_within_policy [OF f this] f show ?thesis by blast
qed

definition sample_snapshot :: "nat \<Rightarrow> nat \<Rightarrow> unit source_snapshot" where
  "sample_snapshot n time = \<lparr>snapshot_candidate = ''c'', snapshot_payload = (), requested_at = time,
     snapshot_received_at = time, source_observed_at = None, snapshot_valid_until = time + 50, snapshot_sequence = n\<rparr>"

lemma snapshots_move_forward_witness:
  "\<exists>b. latest (fold accept_exec ([(sample_snapshot 1 10, 10, True)] @ [(sample_snapshot 0 11, 11, True)])
        \<lparr>store_policy = \<lparr>configured_max_age_ms = 20, maximum_future_skew_ms = 5\<rparr>, accepted = bempty\<rparr>) ''c'' = Some b
     \<and> snapshot_follows (sample_snapshot 1 10) b"
proof -
  let ?p = "\<lparr>configured_max_age_ms = 20, maximum_future_skew_ms = 5\<rparr>"
  let ?st = "\<lparr>store_policy = ?p, accepted = bempty\<rparr> :: unit snapshot_store"
  have "new_store ?p = Ok ?st" by (simp add: new_store_def validate_freshness_def)
  moreover have "latest (fold accept_exec [(sample_snapshot 1 10, 10, True)] ?st) ''c'' = Some (sample_snapshot 1 10)"
    by (simp add: accept_def latest_def sample_snapshot_def saturating_sub_def checked_add_nat_def)
  ultimately show ?thesis using snapshots_move_forward by blast
qed

end
