(* ===== verification/Shadow.thy ===== *)
theory Shadow
  imports Identity
begin

text \<open>
  Simulated execution of immediate-or-cancel orders (\<open>copytrade-core/src/shadow.rs\<close>): validation of
  order books, the limit price of a marketable order, the walk over the depth that fills it, and
  the costs and position of the result.
\<close>

section \<open>Data\<close>

datatype latency_scenario = Optimistic | Expected | Conservative

fun latency_code :: "latency_scenario \<Rightarrow> nat" where
  "latency_code Optimistic = 0"
| "latency_code Expected = 1"
| "latency_code Conservative = 2"

lemma latency_code_inj: "latency_code a = latency_code b \<Longrightarrow> a = b"
  by (cases a; cases b; simp)

instantiation latency_scenario :: linorder
begin
definition less_eq_latency_scenario :: "latency_scenario \<Rightarrow> latency_scenario \<Rightarrow> bool" where
  "less_eq_latency_scenario a b = (latency_code a \<le> latency_code b)"
definition less_latency_scenario :: "latency_scenario \<Rightarrow> latency_scenario \<Rightarrow> bool" where
  "less_latency_scenario a b = (latency_code a < latency_code b)"
instance
  by standard
    (auto simp: less_eq_latency_scenario_def less_latency_scenario_def intro: latency_code_inj)
end

record depth_level =
  level_price :: rat
  level_quantity :: rat

record shadow_market_snapshot =
  book_id :: market_snapshot_id
  observed_at_mono :: nat
  midpoint :: rat
  bids :: "depth_level list"
  asks :: "depth_level list"

datatype ioc_pricing_mode = CompleteVisibleDepth | BoundedReferenceFallback

record marketable_ioc_plan =
  limit_price :: rat
  requested_quantity :: rat
  visible_executable_quantity :: rat
  worst_required_depth_price :: "rat option"
  pricing_mode :: ioc_pricing_mode

record shadow_execution_input =
  si_action :: planned_action
  si_decision_timestamp :: nat
  si_decision_book :: shadow_market_snapshot
  si_evaluation_book :: shadow_market_snapshot
  si_latency_scenario :: latency_scenario
  si_latency_ms :: nat
  si_limit_price :: rat
  si_quantity :: rat
  si_fee_rate :: rat
  si_funding :: rat
  si_position_before :: rat

record shadow_execution =
  se_id :: bytes
  se_action :: planned_action
  se_decision_timestamp :: nat
  se_decision_book_id :: market_snapshot_id
  se_evaluation_book_id :: market_snapshot_id
  se_latency_scenario :: latency_scenario
  se_latency_ms :: nat
  se_limit_price :: rat
  se_quantity :: rat
  se_filled :: rat
  se_average_price :: "rat option"
  se_remainder :: rat
  se_filled_notional :: rat
  se_fees :: rat
  se_funding :: rat
  se_slippage :: rat
  se_position_before :: rat
  se_position_after :: rat

datatype shadow_error =
    ShadowInvalidInput string
  | InvalidBook string
  | SnapshotTooEarly
  | ShadowOverflow string

type_synonym 'a shadow = "('a, shadow_error) outcome"

section \<open>Books\<close>

text \<open>\<open>windows(2).any(\<dots>)\<close> on neighbours.\<close>

fun any_neighbours :: "('a \<Rightarrow> 'a \<Rightarrow> bool) \<Rightarrow> 'a list \<Rightarrow> bool" where
  "any_neighbours P (x # y # ys) = (P x y \<or> any_neighbours P (y # ys))"
| "any_neighbours P _ = False"

definition bad_level :: "depth_level \<Rightarrow> bool" where
  "bad_level l = (level_price l \<le> 0 \<or> level_quantity l \<le> 0)"

definition validate_book :: "shadow_market_snapshot \<Rightarrow> unit shadow" where
  "validate_book b =
    and_then (check_all (\<lambda>levels. fail_if (list_ex bad_level levels) (InvalidBook ''non-positive depth''))
       [bids b, asks b]) (\<lambda>_.
    and_then (fail_if (any_neighbours (\<lambda>x y. level_price x \<le> level_price y) (bids b))
       (InvalidBook ''bids must be strictly descending'')) (\<lambda>_.
    fail_if (any_neighbours (\<lambda>x y. level_price y \<le> level_price x) (asks b))
       (InvalidBook ''asks must be strictly ascending'')))"

text \<open>The side of the book an order executes against, and whether a level is within its limit.\<close>

definition executable_levels :: "side \<Rightarrow> shadow_market_snapshot \<Rightarrow> depth_level list" where
  "executable_levels s b = (case s of Buy \<Rightarrow> asks b | Sell \<Rightarrow> bids b)"

definition within_limit :: "side \<Rightarrow> rat \<Rightarrow> depth_level \<Rightarrow> bool" where
  "within_limit s limit l = (case s of Buy \<Rightarrow> level_price l \<le> limit | Sell \<Rightarrow> limit \<le> level_price l)"

section \<open>The limit price of a marketable order\<close>

definition round_price_outward :: "decimal_ops \<Rightarrow> rat \<Rightarrow> rat \<Rightarrow> side \<Rightarrow> rat shadow" where
  "round_price_outward A v tick s =
    and_then (fail_if (v \<le> 0 \<or> tick \<le> 0) (ShadowInvalidInput ''price and tick'')) (\<lambda>_.
    and_then (ok_or (ShadowOverflow ''price units'') (d_div A v tick)) (\<lambda>units.
    let units = (case s of Buy \<Rightarrow> of_int \<lceil>units\<rceil> | Sell \<Rightarrow> of_int \<lfloor>units\<rfloor>) in
    ok_or (ShadowOverflow ''rounded IOC price'') (d_mul A units tick)))"

text \<open>The loop that finds the worst level a complete fill needs.\<close>

fun worst_required :: "decimal_ops \<Rightarrow> rat \<Rightarrow> rat \<Rightarrow> depth_level list \<Rightarrow> rat option shadow" where
  "worst_required A quantity visible [] = Ok None"
| "worst_required A quantity visible (l # ls) =
    and_then (ok_or (ShadowOverflow ''visible depth'') (d_add A visible (level_quantity l))) (\<lambda>visible.
    if quantity \<le> visible then Ok (Some (level_price l)) else worst_required A quantity visible ls)"

text \<open>
  A price moved outward by a fraction: \<open>price * (1 + f)\<close> for a buy, \<open>price * (1 - f)\<close> for a sell; the
  operators on the factor panic, the product is checked.
\<close>

definition outward_price :: "decimal_ops \<Rightarrow> side \<Rightarrow> rat \<Rightarrow> rat \<Rightarrow> string \<Rightarrow> rat shadow" where
  "outward_price A s price f what =
    and_then (case s of Buy \<Rightarrow> dec_add A 1 f | Sell \<Rightarrow> dec_sub A 1 f) (\<lambda>factor.
    ok_or (ShadowOverflow what) (d_mul A price factor))"

definition sum_quantities :: "decimal_ops \<Rightarrow> string \<Rightarrow> depth_level list \<Rightarrow> rat shadow" where
  "sum_quantities A what levels =
    try_fold (\<lambda>total l. ok_or (ShadowOverflow what) (d_add A total (level_quantity l))) 0 levels"

definition plan_marketable_ioc ::
  "decimal_ops \<Rightarrow> side \<Rightarrow> rat \<Rightarrow> shadow_market_snapshot \<Rightarrow> rat \<Rightarrow> rat \<Rightarrow> rat \<Rightarrow> rat \<Rightarrow> marketable_ioc_plan shadow" where
  "plan_marketable_ioc A s quantity book reference cushion max_slippage tick =
    and_then (fail_if (quantity \<le> 0 \<or> reference \<le> 0 \<or> cushion < 0 \<or> max_slippage < 0 \<or> tick \<le> 0)
      (ShadowInvalidInput ''marketable IOC pricing inputs'')) (\<lambda>_.
    and_then (validate_book book) (\<lambda>_.
    let levels = executable_levels s book in
    and_then (worst_required A quantity 0 levels) (\<lambda>worst.
    and_then (outward_price A s reference max_slippage ''maximum IOC price'') (\<lambda>maximum_raw.
    and_then (round_price_outward A maximum_raw tick s) (\<lambda>maximum_limit.
    and_then (case worst of
        Some worst_price \<Rightarrow>
          and_then (outward_price A s worst_price cushion ''depth IOC price'') (\<lambda>depth_raw.
          and_then (round_price_outward A depth_raw tick s) (\<lambda>p. Ok (p, CompleteVisibleDepth)))
      | None \<Rightarrow> Ok (maximum_limit, BoundedReferenceFallback)) (\<lambda>(limit, mode).
    and_then (sum_quantities A ''executable visible depth'' (takeWhile (within_limit s limit) levels)) (\<lambda>total.
    Ok \<lparr>limit_price = limit, requested_quantity = quantity, visible_executable_quantity = min total quantity,
        worst_required_depth_price = worst, pricing_mode = mode\<rparr>)))))))"

section \<open>Execution\<close>

definition validate_execution_input :: "shadow_execution_input \<Rightarrow> unit shadow" where
  "validate_execution_input inp =
    and_then (fail_if (si_quantity inp \<le> 0 \<or> si_limit_price inp \<le> 0 \<or> si_fee_rate inp < 0
        \<or> midpoint (si_decision_book inp) \<le> 0)
      (ShadowInvalidInput ''quantity, prices, midpoint, and fee rate'')) (\<lambda>_.
    and_then (validate_book (si_decision_book inp)) (\<lambda>_. validate_book (si_evaluation_book inp)))"

definition SHADOW_DOMAIN :: bytes where "SHADOW_DOMAIN = str_bytes ''HL1F/SHADOW_EXECUTION/V1''"

definition derive_shadow_execution_id :: "(bytes \<Rightarrow> bytes) \<Rightarrow> shadow_execution_input \<Rightarrow> bytes" where
  "derive_shadow_execution_id H inp = H (SHADOW_DOMAIN @ pa_planned_cloid (si_action inp)
     @ book_id (si_decision_book inp) @ book_id (si_evaluation_book inp)
     @ enc_u8 (latency_code (si_latency_scenario inp)) @ enc_u64 (si_latency_ms inp)
     @ enc_decimal (si_limit_price inp) @ enc_decimal (si_quantity inp))"

text \<open>The walk over the depth: what remains, what is filled, and its value.\<close>

fun walk_depth ::
  "decimal_ops \<Rightarrow> side \<Rightarrow> rat \<Rightarrow> depth_level list \<Rightarrow> rat \<times> rat \<times> rat \<Rightarrow> (rat \<times> rat \<times> rat) shadow" where
  "walk_depth A s limit [] st = Ok st"
| "walk_depth A s limit (l # ls) (remaining, filled, fill_value) =
    (if \<not> within_limit s limit l \<or> remaining = 0 then Ok (remaining, filled, fill_value)
     else
       let quantity = min remaining (level_quantity l) in
       and_then (ok_or (ShadowOverflow ''filled quantity'') (d_add A filled quantity)) (\<lambda>filled.
       and_then (ok_or (ShadowOverflow ''fill value'') (d_mul A quantity (level_price l))) (\<lambda>v.
       and_then (ok_or (ShadowOverflow ''fill value sum'') (d_add A fill_value v)) (\<lambda>fill_value.
       and_then (ok_or (ShadowOverflow ''IOC remainder'') (d_sub A remaining quantity)) (\<lambda>remaining.
       walk_depth A s limit ls (remaining, filled, fill_value))))))"

definition average_price :: "decimal_ops \<Rightarrow> rat \<Rightarrow> rat \<Rightarrow> rat option shadow" where
  "average_price A fill_value filled = (if filled = 0 then Ok None
     else and_then (ok_or (ShadowOverflow ''average fill price'') (d_div A fill_value filled)) (\<lambda>p. Ok (Some p)))"

definition execution_slippage :: "decimal_ops \<Rightarrow> side \<Rightarrow> rat \<Rightarrow> rat option \<Rightarrow> rat \<Rightarrow> rat shadow" where
  "execution_slippage A s mid average filled =
    (case average of
       None \<Rightarrow> Ok 0
     | Some p \<Rightarrow>
       and_then (ok_or (ShadowOverflow ''slippage price'') (case s of Buy \<Rightarrow> d_sub A p mid | Sell \<Rightarrow> d_sub A mid p))
         (\<lambda>cost. ok_or (ShadowOverflow ''slippage'') (d_mul A cost filled)))"

definition signed_quantity_of :: "side \<Rightarrow> rat \<Rightarrow> rat" where
  "signed_quantity_of s q = (case s of Buy \<Rightarrow> q | Sell \<Rightarrow> - q)"

definition execute_shadow_ioc ::
  "decimal_ops \<Rightarrow> (bytes \<Rightarrow> bytes) \<Rightarrow> shadow_execution_input \<Rightarrow> shadow_execution shadow" where
  "execute_shadow_ioc A H inp =
    (let s = pa_side (si_action inp) in
    and_then (validate_execution_input inp) (\<lambda>_.
    and_then (ok_or (ShadowOverflow ''latency timestamp'')
      (checked_add_nat 64 (si_decision_timestamp inp) (si_latency_ms inp))) (\<lambda>expected.
    and_then (fail_if (observed_at_mono (si_evaluation_book inp) < expected) SnapshotTooEarly) (\<lambda>_.
    and_then (walk_depth A s (si_limit_price inp) (executable_levels s (si_evaluation_book inp))
      (si_quantity inp, 0, 0)) (\<lambda>(remaining, filled, fill_value).
    and_then (average_price A fill_value filled) (\<lambda>average.
    and_then (ok_or (ShadowOverflow ''fees'') (d_mul A fill_value (si_fee_rate inp))) (\<lambda>fees.
    and_then (execution_slippage A s (midpoint (si_decision_book inp)) average filled) (\<lambda>slippage.
    and_then (ok_or (ShadowOverflow ''position after'')
      (d_add A (si_position_before inp) (signed_quantity_of s filled))) (\<lambda>position_after.
    Ok \<lparr>se_id = derive_shadow_execution_id H inp, se_action = si_action inp,
        se_decision_timestamp = si_decision_timestamp inp,
        se_decision_book_id = book_id (si_decision_book inp),
        se_evaluation_book_id = book_id (si_evaluation_book inp),
        se_latency_scenario = si_latency_scenario inp, se_latency_ms = si_latency_ms inp,
        se_limit_price = si_limit_price inp, se_quantity = si_quantity inp, se_filled = filled,
        se_average_price = average, se_remainder = remaining, se_filled_notional = fill_value,
        se_fees = fees, se_funding = si_funding inp, se_slippage = slippage,
        se_position_before = si_position_before inp, se_position_after = position_after\<rparr>)))))))))"

definition execute_latency_scenarios ::
  "decimal_ops \<Rightarrow> (bytes \<Rightarrow> bytes) \<Rightarrow> (latency_scenario, shadow_execution_input) bmap
     \<Rightarrow> (latency_scenario, shadow_execution) bmap shadow" where
  "execute_latency_scenarios A H scenarios =
    btry_vmap (\<lambda>scenario inp. execute_shadow_ioc A H (inp\<lparr>si_latency_scenario := scenario\<rparr>)) scenarios"

section \<open>Facts on books\<close>

lemma validate_book_levels:
  assumes "validate_book b = Ok ()" and "l \<in> set (bids b) \<union> set (asks b)"
  shows "0 < level_price l" "0 < level_quantity l"
  using assms by (auto simp: validate_book_def outcome_simps bad_level_def list_ex_iff not_le)

lemma executable_positive:
  assumes "validate_book b = Ok ()" and "l \<in> set (executable_levels s b)"
  shows "0 < level_price l" "0 < level_quantity l"
  using assms(2) validate_book_levels [OF assms(1), of l]
  by (auto simp: executable_levels_def split: order_side.splits)

lemma any_neighbours_sorted:
  assumes "\<not> any_neighbours P xs" and "\<And>x y z. \<not> P x y \<Longrightarrow> \<not> P y z \<Longrightarrow> \<not> P x z"
  shows "sorted_wrt (\<lambda>x y. \<not> P x y) xs"
  using assms(1)
proof (induction xs rule: induct_list012)
  case (3 x y ys)
  then have "\<not> P x y" "\<forall>z \<in> set ys. \<not> P y z" by auto
  then have "\<forall>z \<in> set ys. \<not> P x z" using assms(2) [of x y] by blast
  with 3 show ?case by auto
qed simp_all

text \<open>A valid book is sorted from the best price: a level within the limit has every earlier one within it.\<close>

definition best_first :: "side \<Rightarrow> depth_level list \<Rightarrow> bool" where
  "best_first s = sorted_wrt (\<lambda>x y. case s of Buy \<Rightarrow> level_price x < level_price y
     | Sell \<Rightarrow> level_price y < level_price x)"

lemma validate_book_sorted: "validate_book b = Ok () \<Longrightarrow> best_first s (executable_levels s b)"
proof -
  assume "validate_book b = Ok ()"
  then have "\<not> any_neighbours (\<lambda>x y. level_price x \<le> level_price y) (bids b)"
    "\<not> any_neighbours (\<lambda>x y. level_price y \<le> level_price x) (asks b)"
    by (auto simp: validate_book_def outcome_simps)
  from any_neighbours_sorted [OF this(1)] any_neighbours_sorted [OF this(2)]
  show ?thesis
    by (cases s) (auto simp: best_first_def executable_levels_def not_le)
qed

text \<open>What a book offers within a limit.\<close>

definition depth_within :: "side \<Rightarrow> rat \<Rightarrow> depth_level list \<Rightarrow> rat" where
  "depth_within s limit levels = sum_list (map level_quantity (takeWhile (within_limit s limit) levels))"

lemma depth_within_simps [simp]:
  "depth_within s limit [] = 0"
  "depth_within s limit (l # ls) = (if within_limit s limit l then level_quantity l + depth_within s limit ls else 0)"
  by (simp_all add: depth_within_def)

lemma depth_within_nonneg: "(\<And>l. l \<in> set ls \<Longrightarrow> 0 < level_quantity l) \<Longrightarrow> 0 \<le> depth_within s limit ls"
  by (induction ls) (auto simp: less_imp_le add_nonneg_nonneg)

text \<open>The value of a fill is bounded by its limit, from above for a buy and from below for a sell.\<close>

definition value_within :: "side \<Rightarrow> rat \<Rightarrow> rat \<Rightarrow> rat \<Rightarrow> bool" where
  "value_within s limit q v = (case s of Buy \<Rightarrow> v \<le> limit * q | Sell \<Rightarrow> limit * q \<le> v)"

lemma value_within_step:
  assumes "value_within s limit q v" and "within_limit s limit l" and "0 \<le> k"
  shows "value_within s limit (q + k) (v + k * level_price l)"
proof (cases s)
  case Buy
  have "k * level_price l \<le> k * limit" using assms(2,3) Buy by (simp add: within_limit_def mult_left_mono)
  with assms(1) Buy show ?thesis by (simp add: value_within_def algebra_simps)
next
  case Sell
  have "k * limit \<le> k * level_price l" using assms(2,3) Sell by (simp add: within_limit_def mult_left_mono)
  with assms(1) Sell show ?thesis by (simp add: value_within_def algebra_simps)
qed

lemma walk_depth_exact:
  assumes "exact_arith A" and "walk_depth A s limit ls (r, f, v) = Ok (r', f', v')"
    and "\<And>l. l \<in> set ls \<Longrightarrow> 0 < level_quantity l" and "0 \<le> r" and "value_within s limit f v"
  shows "f' = f + min r (depth_within s limit ls) \<and> r' = r - min r (depth_within s limit ls)
       \<and> value_within s limit f' v'"
  using assms(2-)
proof (induction ls arbitrary: r f v)
  case (Cons l ls)
  have nn: "0 \<le> depth_within s limit ls" using Cons.prems(2) by (intro depth_within_nonneg) simp
  have lq: "0 < level_quantity l" using Cons.prems(2) by simp
  show ?case
  proof (cases "within_limit s limit l \<and> r \<noteq> 0")
    case False
    with Cons.prems nn lq add_nonneg_nonneg [OF less_imp_le [OF lq] nn] show ?thesis by (auto simp: min_def)
  next
    case True
    let ?q = "min r (level_quantity l)"
    from Cons.prems(1) True
    have w: "walk_depth A s limit ls (r - ?q, f + ?q, v + ?q * level_price l) = Ok (r', f', v')"
      by (auto simp: Let_def outcome_simps dest!: exact_arithD [OF assms(1)])
    have "value_within s limit (f + ?q) (v + ?q * level_price l)"
      using Cons.prems(3,4) lq True by (intro value_within_step) (auto simp: less_imp_le)
    from Cons.IH [OF w _ _ this] Cons.prems(2,3) lq
    have "f' = f + ?q + min (r - ?q) (depth_within s limit ls)
        \<and> r' = r - ?q - min (r - ?q) (depth_within s limit ls) \<and> value_within s limit f' v'" by auto
    moreover have "?q + min (r - ?q) (depth_within s limit ls) = min r (depth_within s limit (l # ls))"
      using True nn lq by (auto simp: min_def)
    ultimately show ?thesis by auto
  qed
qed simp

lemma walk_depth_of_input:
  assumes "exact_arith A" and "validate_execution_input inp = Ok ()"
    and "walk_depth A s limit (executable_levels s (si_evaluation_book inp)) (si_quantity inp, 0, 0) = Ok (r, f, v)"
  shows "f = min (si_quantity inp) (depth_within s limit (executable_levels s (si_evaluation_book inp)))"
    "r = si_quantity inp - f" "value_within s limit f v" "0 \<le> f" "0 < si_quantity inp"
proof -
  let ?ls = "executable_levels s (si_evaluation_book inp)"
  have b: "validate_book (si_evaluation_book inp) = Ok ()" "0 < si_quantity inp"
    using assms(2) by (auto simp: validate_execution_input_def outcome_simps)
  have "value_within s limit 0 0" by (cases s) (simp_all add: value_within_def)
  from walk_depth_exact [OF assms(1,3) executable_positive(2) [OF b(1), where s = s] _ this] b(2)
  show "f = min (si_quantity inp) (depth_within s limit ?ls)" "r = si_quantity inp - f" "value_within s limit f v"
    by auto
  then show "0 \<le> f" using b depth_within_nonneg [OF executable_positive(2) [OF b(1), where s = s]] by simp
  show "0 < si_quantity inp" by (rule b)
qed

text \<open>
  A simulated order takes exactly what the book offers within its limit: it fills the smaller of
  its quantity and the depth within the limit, and the remainder is cancelled. The average price
  accounts for the filled value and is never worse than the limit; fees are the rate on that value;
  slippage is the value's distance from the decision's midpoint value, against the order; and the
  position moves by the signed fill.
\<close>

theorem ioc_fills_depth_within_limit:
  assumes "exact_arith A" and "execute_shadow_ioc A H inp = Ok e"
  defines "s \<equiv> pa_side (si_action inp)"
  shows "se_filled e = min (si_quantity inp)
      (depth_within s (si_limit_price inp) (executable_levels s (si_evaluation_book inp)))
    \<and> se_filled e + se_remainder e = si_quantity inp
    \<and> (\<forall>p. se_average_price e = Some p \<longrightarrow> p * se_filled e = se_filled_notional e
        \<and> within_limit s (si_limit_price inp) \<lparr>level_price = p, level_quantity = 0\<rparr>
        \<and> se_slippage e = signed_quantity_of s (se_filled_notional e - midpoint (si_decision_book inp) * se_filled e))
    \<and> (se_average_price e = None \<longleftrightarrow> se_filled e = 0)
    \<and> se_fees e = se_filled_notional e * si_fee_rate inp
    \<and> se_position_after e = si_position_before inp + signed_quantity_of s (se_filled e)"
proof -
  note X = exact_arithD [OF assms(1)]
  from assms(2) obtain r f v avg where val: "validate_execution_input inp = Ok ()"
    and w: "walk_depth A s (si_limit_price inp) (executable_levels s (si_evaluation_book inp)) (si_quantity inp, 0, 0)
      = Ok (r, f, v)"
    and a: "average_price A v f = Ok avg"
    and sl: "execution_slippage A s (midpoint (si_decision_book inp)) avg f = Ok (se_slippage e)"
    and e: "se_filled e = f" "se_remainder e = r" "se_filled_notional e = v" "se_average_price e = avg"
      "d_mul A v (si_fee_rate inp) = Some (se_fees e)"
      "d_add A (si_position_before inp) (signed_quantity_of s f) = Some (se_position_after e)"
    by (auto simp: execute_shadow_ioc_def Let_def s_def outcome_simps)
  note W = walk_depth_of_input [OF assms(1) val w]
  have avg: "avg = (if f = 0 then None else Some (v / f))"
    using a by (auto simp: average_price_def outcome_simps split: if_splits dest: X)
  have "within_limit s (si_limit_price inp) \<lparr>level_price = v / f, level_quantity = 0\<rparr>
      \<and> se_slippage e = signed_quantity_of s (v - midpoint (si_decision_book inp) * f)" if f: "f \<noteq> 0"
  proof
    have pos: "0 < f" using W(4) f by simp
    show "within_limit s (si_limit_price inp) \<lparr>level_price = v / f, level_quantity = 0\<rparr>"
      using W(3) pos by (cases s) (simp_all add: within_limit_def value_within_def field_simps)
    show "se_slippage e = signed_quantity_of s (v - midpoint (si_decision_book inp) * f)"
      using sl f unfolding avg
      by (cases s) (auto simp: execution_slippage_def outcome_simps signed_quantity_of_def left_diff_distrib dest!: X)
  qed
  then show ?thesis using W(1,2) e X(1) [OF e(6)] X(3) [OF e(5)] by (auto simp: avg)
qed

section \<open>Planned orders\<close>

lemma round_price_outward_exact:
  assumes "exact_arith A" and "round_price_outward A v tick s = Ok p"
  shows "0 < v \<and> 0 < tick \<and> (case s of Buy \<Rightarrow> v \<le> p | Sell \<Rightarrow> p \<le> v)"
proof -
  note X = exact_arithD [OF assms(1)]
  from assms(2) obtain u where pos: "0 < v" "0 < tick" and u: "d_div A v tick = Some u"
    and p: "d_mul A (case s of Buy \<Rightarrow> of_int \<lceil>u\<rceil> | Sell \<Rightarrow> of_int \<lfloor>u\<rfloor>) tick = Some p"
    by (auto simp: round_price_outward_def Let_def outcome_simps)
  have v: "v = u * tick" using X(4) [OF u] pos by simp
  have "u * tick \<le> of_int \<lceil>u\<rceil> * tick" "of_int \<lfloor>u\<rfloor> * tick \<le> u * tick"
    using pos(2) by (simp_all add: mult_right_mono)
  then show ?thesis using pos X(3) [OF p] v by (cases s) simp_all
qed

lemma outward_price_exact:
  assumes "exact_arith A" and "outward_price A s p f what = Ok q"
  shows "q = (case s of Buy \<Rightarrow> p * (1 + f) | Sell \<Rightarrow> p * (1 - f))"
  using assms(2) by (cases s) (auto simp: outward_price_def dec_ops_def outcome_simps dest!: exact_arithD [OF assms(1)])

lemma worst_required_exact:
  assumes "exact_arith A" and "worst_required A q v ls = Ok (Some w)" and "best_first s ls"
    and "\<And>l. l \<in> set ls \<Longrightarrow> 0 < level_quantity l" and "case s of Buy \<Rightarrow> w \<le> limit | Sell \<Rightarrow> limit \<le> w"
  shows "(\<exists>l \<in> set ls. level_price l = w) \<and> q \<le> v + depth_within s limit ls"
  using assms(2,3,4)
proof (induction ls arbitrary: v)
  case (Cons l ls)
  have add: "d_add A v (level_quantity l) = Some z \<Longrightarrow> z = v + level_quantity l" for z
    by (rule exact_arithD [OF assms(1)])
  show ?case
  proof (cases "q \<le> v + level_quantity l")
    case True
    with Cons.prems(1) have "w = level_price l" by (auto simp: outcome_simps split: if_splits dest!: add)
    moreover have "0 \<le> depth_within s limit ls" using Cons.prems(3) by (intro depth_within_nonneg) simp
    ultimately show ?thesis using True assms(5) by (cases s) (auto simp: within_limit_def)
  next
    case False
    with Cons.prems(1) have "worst_required A q (v + level_quantity l) ls = Ok (Some w)"
      by (auto simp: outcome_simps split: if_splits dest!: add)
    from Cons.IH [OF this] Cons.prems(2,3)
    have ih: "\<exists>l \<in> set ls. level_price l = w" "q \<le> v + level_quantity l + depth_within s limit ls"
      by (auto simp: best_first_def)
    then have "within_limit s limit l" using Cons.prems(2) assms(5)
      by (cases s) (auto simp: within_limit_def best_first_def)
    with ih show ?thesis by auto
  qed
qed simp

lemma plan_complete_depth:
  assumes "exact_arith A" and "plan_marketable_ioc A s q book reference cushion max_slippage tick = Ok p"
    and "pricing_mode p = CompleteVisibleDepth"
  shows "q \<le> depth_within s (limit_price p) (executable_levels s book)" "requested_quantity p = q"
proof -
  let ?ls = "executable_levels s book"
  from assms(2,3) obtain w raw where c: "0 \<le> cushion" and book: "validate_book book = Ok ()"
    and w: "worst_required A q 0 ?ls = Ok (Some w)" and raw: "outward_price A s w cushion ''depth IOC price'' = Ok raw"
    and lim: "round_price_outward A raw tick s = Ok (limit_price p)" and req: "requested_quantity p = q"
    by (auto simp: plan_marketable_ioc_def Let_def outcome_simps split: option.splits)
  show "requested_quantity p = q" by (rule req)
  have sorted: "best_first s ?ls" by (rule validate_book_sorted [OF book])
  have pos: "\<And>l. l \<in> set ?ls \<Longrightarrow> 0 < level_quantity l" by (rule executable_positive(2) [OF book])
  have "case s of Buy \<Rightarrow> w \<le> w | Sell \<Rightarrow> w \<le> w" by (cases s) simp_all
  from worst_required_exact [OF assms(1) w sorted pos this] obtain l where "l \<in> set ?ls" "level_price l = w" by blast
  then have "0 < w" using executable_positive(1) [OF book] by blast
  then have "w \<le> w * (1 + cushion)" "w * (1 - cushion) \<le> w" using c by (simp_all add: algebra_simps)
  then have "case s of Buy \<Rightarrow> w \<le> limit_price p | Sell \<Rightarrow> limit_price p \<le> w"
    using outward_price_exact [OF assms(1) raw] round_price_outward_exact [OF assms(1) lim] by (cases s) auto
  from worst_required_exact [OF assms(1) w sorted pos this]
  show "q \<le> depth_within s (limit_price p) ?ls" by simp
qed

text \<open>
  A marketable order planned from complete visible depth fills completely: executed against the
  book it was planned on, at the planned limit and quantity, it leaves no remainder.
\<close>

theorem planned_ioc_fills_completely:
  assumes "exact_arith A"
    and "plan_marketable_ioc A (pa_side (si_action inp)) q (si_evaluation_book inp) reference cushion max_slippage tick = Ok p"
    and "pricing_mode p = CompleteVisibleDepth"
    and "execute_shadow_ioc A H (inp\<lparr>si_limit_price := limit_price p, si_quantity := requested_quantity p\<rparr>) = Ok e"
  shows "se_filled e = q \<and> se_remainder e = 0"
proof -
  let ?inp = "inp\<lparr>si_limit_price := limit_price p, si_quantity := requested_quantity p\<rparr>"
  let ?s = "pa_side (si_action inp)" and ?ls = "executable_levels (pa_side (si_action inp)) (si_evaluation_book inp)"
  note plan = plan_complete_depth [OF assms(1-3)]
  from assms(4) obtain r f v where val: "validate_execution_input ?inp = Ok ()"
    and w: "walk_depth A ?s (limit_price p) ?ls (q, 0, 0) = Ok (r, f, v)"
    and e: "se_filled e = f" "se_remainder e = r"
    by (auto simp: execute_shadow_ioc_def Let_def outcome_simps plan(2))
  have "walk_depth A ?s (limit_price p) (executable_levels ?s (si_evaluation_book ?inp)) (si_quantity ?inp, 0, 0)
      = Ok (r, f, v)" using w plan(2) by simp
  from walk_depth_of_input(1,2) [OF assms(1) val this] plan e show ?thesis by (simp add: min_def)
qed

definition sample_action :: "side \<Rightarrow> planned_action" where
  "sample_action s = \<lparr>pa_decision_id = [1], pa_target_version = 0, pa_asset = ''BTC'', pa_side = s,
     pa_rounded_notional = 202, pa_reduce_only = False, pa_action_ordinal = 0, pa_retry_generation = 0,
     pa_planned_cloid = [2]\<rparr>"

definition sample_book :: shadow_market_snapshot where
  "sample_book = \<lparr>book_id = [4], observed_at_mono = 1050, midpoint = 100,
     bids = [\<lparr>level_price = 99, level_quantity = 1\<rparr>, \<lparr>level_price = 98, level_quantity = 2\<rparr>],
     asks = [\<lparr>level_price = 101, level_quantity = 1\<rparr>, \<lparr>level_price = 102, level_quantity = 2\<rparr>]\<rparr>"

definition sample_execution_input :: shadow_execution_input where
  "sample_execution_input = \<lparr>si_action = sample_action Buy, si_decision_timestamp = 1000,
     si_decision_book = sample_book, si_evaluation_book = sample_book, si_latency_scenario = Expected,
     si_latency_ms = 50, si_limit_price = 102, si_quantity = 2, si_fee_rate = 1 / 100, si_funding = 0,
     si_position_before = 0\<rparr>"

lemma sample_latency: "checked_add_nat 64 1000 50 = Some 1050"
  by (simp add: checked_add_nat_def)

lemma sample_execution:
  "\<exists>e. execute_shadow_ioc exact_ops H sample_execution_input = Ok e"
proof -
  have "validate_execution_input sample_execution_input = Ok ()" by code_simp
  moreover have "walk_depth exact_ops Buy 102 (asks sample_book) (2, 0, 0) = Ok (0, 2, 203)" by code_simp
  moreover have "average_price exact_ops 203 2 = Ok (Some (203 / 2))" by code_simp
  moreover have "d_mul exact_ops 203 (1 / 100) = Some (203 / 100)" by code_simp
  moreover have "execution_slippage exact_ops Buy 100 (Some (203 / 2)) 2 = Ok 3" by code_simp
  moreover have "d_add exact_ops 0 2 = Some 2" by code_simp
  ultimately show ?thesis
    by (simp add: execute_shadow_ioc_def sample_execution_input_def sample_action_def executable_levels_def
        sample_latency signed_quantity_of_def) (simp add: sample_book_def)
qed

lemma ioc_fills_depth_within_limit_witness:
  "\<exists>e. execute_shadow_ioc exact_ops (\<lambda>b. b) sample_execution_input = Ok e \<and> se_filled e + se_remainder e = 2"
proof -
  obtain e where e: "execute_shadow_ioc exact_ops (\<lambda>b. b) sample_execution_input = Ok e"
    using sample_execution by blast
  from ioc_fills_depth_within_limit [OF exact_ops_exact e] e show ?thesis
    by (auto simp: sample_execution_input_def)
qed

lemma sample_plan:
  "plan_marketable_ioc exact_ops Buy 2 sample_book 100 0 (3 / 100) 1
     = Ok \<lparr>limit_price = 102, requested_quantity = 2, visible_executable_quantity = 2,
         worst_required_depth_price = Some 102, pricing_mode = CompleteVisibleDepth\<rparr>"
  by code_simp

lemma planned_ioc_fills_completely_witness:
  "\<exists>e. execute_shadow_ioc exact_ops (\<lambda>b. b) sample_execution_input = Ok e \<and> se_filled e = 2 \<and> se_remainder e = 0"
proof -
  obtain e where e: "execute_shadow_ioc exact_ops (\<lambda>b. b) sample_execution_input = Ok e"
    using sample_execution by blast
  have "sample_execution_input\<lparr>si_limit_price := 102, si_quantity := 2\<rparr> = sample_execution_input"
    by (simp add: sample_execution_input_def)
  with planned_ioc_fills_completely [of exact_ops sample_execution_input 2 100 0 "3 / 100" 1, OF exact_ops_exact _ _ _]
    sample_plan e show ?thesis
    by (fastforce simp: sample_execution_input_def sample_action_def)
qed

text \<open>
  With complete depth the configured slippage bound does not cap the limit: there are a valid
  book and prices for which the planned limit of a buy is above the bound's own limit price.
\<close>

theorem complete_depth_ignores_slippage_bound:
  "\<exists>A q book p reference max_slippage tick maximum. exact_arith A
     \<and> plan_marketable_ioc A Buy q book reference 0 max_slippage tick = Ok p
     \<and> round_price_outward A (reference * (1 + max_slippage)) tick Buy = Ok maximum \<and> maximum < limit_price p"
proof (intro exI conjI)
  let ?p = "\<lparr>limit_price = 102, requested_quantity = 2, visible_executable_quantity = 2,
      worst_required_depth_price = Some 102, pricing_mode = CompleteVisibleDepth\<rparr>"
  show "exact_arith exact_ops" by (rule exact_ops_exact)
  show "plan_marketable_ioc exact_ops Buy 2 sample_book 100 0 (1 / 100) 1 = Ok ?p" by code_simp
  show "round_price_outward exact_ops (100 * (1 + 1 / 100)) 1 Buy = Ok 101" by code_simp
  show "101 < limit_price ?p" by simp
qed

end
