(* ===== verification/Stateful.thy ===== *)
theory Stateful
  imports Rust_Base
begin

text \<open>
  Methods on \<open>&mut self\<close> that can fail: a computation takes the state and returns an outcome with the
  state it leaves, also when it fails half-way, since what \<open>?\<close> has already written stays written.
\<close>

type_synonym ('s, 'a, 'e) action = "'s \<Rightarrow> ('a, 'e) outcome \<times> 's"

definition act_bind :: "('s, 'a, 'e) action \<Rightarrow> ('a \<Rightarrow> ('s, 'b, 'e) action) \<Rightarrow> ('s, 'b, 'e) action" where
  "act_bind m f = (\<lambda>s. case m s of (Ok x, s') \<Rightarrow> f x s' | (Err e, s') \<Rightarrow> (Err e, s') | (Panic, s') \<Rightarrow> (Panic, s'))"

definition act_return :: "'a \<Rightarrow> ('s, 'a, 'e) action" where
  "act_return x = (\<lambda>s. (Ok x, s))"

text \<open>A fallible computation that does not touch the state, one that reads it, and an assignment.\<close>

definition act_try :: "('a, 'e) outcome \<Rightarrow> ('s, 'a, 'e) action" where
  "act_try r = (\<lambda>s. (r, s))"

definition act_get :: "('s \<Rightarrow> ('a, 'e) outcome) \<Rightarrow> ('s, 'a, 'e) action" where
  "act_get g = (\<lambda>s. (g s, s))"

definition act_modify :: "('s \<Rightarrow> 's) \<Rightarrow> ('s, unit, 'e) action" where
  "act_modify f = (\<lambda>s. (Ok (), f s))"

text \<open>The assignment \<open>field = f(self)?\<close>: nothing is written when the right-hand side fails.\<close>

definition act_assign :: "('s \<Rightarrow> ('a, 'e) outcome) \<Rightarrow> ('a \<Rightarrow> 's \<Rightarrow> 's) \<Rightarrow> ('s, unit, 'e) action" where
  "act_assign rhs put = act_bind (act_get rhs) (\<lambda>x. act_modify (put x))"

lemma act_bind_Ok [outcome_simps]:
  "act_bind m f s = (Ok y, s') \<longleftrightarrow> (\<exists>x s1. m s = (Ok x, s1) \<and> f x s1 = (Ok y, s'))"
  by (cases "m s"; cases "fst (m s)") (auto simp: act_bind_def)

lemma act_simps [simp]:
  "act_return x s = (Ok x, s)" "act_try r s = (r, s)" "act_get g s = (g s, s)"
  "act_modify f s = (Ok (), f s)"
  by (simp_all add: act_return_def act_try_def act_get_def act_modify_def)

lemma act_assign_Ok [outcome_simps]:
  "act_assign rhs put s = (Ok u, s') \<longleftrightarrow> (\<exists>x. rhs s = Ok x \<and> s' = put x s)"
  by (auto simp: act_assign_def outcome_simps)

text \<open>Two steps, of which the second starts in the state the first left.\<close>

lemma act_bind_cases:
  obtains (Ok) x s1 where "m s = (Ok x, s1)" "act_bind m f s = f x s1"
  | (Err) e s1 where "m s = (Err e, s1)" "act_bind m f s = (Err e, s1)"
  | (Panic) s1 where "m s = (Panic, s1)" "act_bind m f s = (Panic, s1)"
  by (cases "m s"; cases "fst (m s)") (auto simp: act_bind_def)

text \<open>Running an action inside a part of the state.\<close>

definition act_zoom :: "('s \<Rightarrow> 't) \<Rightarrow> ('t \<Rightarrow> 's \<Rightarrow> 's) \<Rightarrow> ('t, 'a, 'e) action \<Rightarrow> ('s, 'a, 'e) action" where
  "act_zoom get put m = (\<lambda>s. case m (get s) of (r, t) \<Rightarrow> (r, put t s))"

lemma act_zoom_Ok [outcome_simps]:
  "act_zoom get put m s = (Ok x, s') \<longleftrightarrow> (\<exists>t. m (get s) = (Ok x, t) \<and> s' = put t s)"
  by (auto simp: act_zoom_def split: prod.splits)

text \<open>An optional value must be there: \<open>get_mut(k).ok_or(e)?\<close>, with the entry written back.\<close>

definition act_entry :: "('s \<Rightarrow> 't option) \<Rightarrow> ('t \<Rightarrow> 's \<Rightarrow> 's) \<Rightarrow> 'e \<Rightarrow> ('t, 'a, 'e) action \<Rightarrow> ('s, 'a, 'e) action" where
  "act_entry get put missing m = (\<lambda>s. case get s of
     None \<Rightarrow> (Err missing, s)
   | Some t \<Rightarrow> (case m t of (r, t') \<Rightarrow> (r, put t' s)))"

lemma act_entry_Ok [outcome_simps]:
  "act_entry get put missing m s = (Ok x, s') \<longleftrightarrow>
     (\<exists>t t'. get s = Some t \<and> m t = (Ok x, t') \<and> s' = put t' s)"
  by (auto simp: act_entry_def split: option.splits prod.splits)

text \<open>An action run on a local value, which is then used.\<close>

definition act_local :: "('t, unit, 'e) action \<Rightarrow> 't \<Rightarrow> ('t \<Rightarrow> ('s, 'a, 'e) action) \<Rightarrow> ('s, 'a, 'e) action" where
  "act_local m t f = (\<lambda>s. case m t of (Ok _, t') \<Rightarrow> f t' s | (Err e, _) \<Rightarrow> (Err e, s) | (Panic, _) \<Rightarrow> (Panic, s))"

lemma act_local_Ok [outcome_simps]:
  "act_local m t f s = (Ok x, s') \<longleftrightarrow> (\<exists>t'. m t = (Ok (), t') \<and> f t' s = (Ok x, s'))"
  by (cases "m t"; cases "fst (m t)") (auto simp: act_local_def)


text \<open>\<open>for x in xs { f(x)?; }\<close>.\<close>

fun act_each :: "('a \<Rightarrow> ('s, unit, 'e) action) \<Rightarrow> 'a list \<Rightarrow> ('s, unit, 'e) action" where
  "act_each f [] = act_return ()"
| "act_each f (x # xs) = act_bind (f x) (\<lambda>_. act_each f xs)"

section \<open>Invariants of actions\<close>

text \<open>An action keeps a property of the state whatever it returns.\<close>

definition act_keeps :: "('s \<Rightarrow> bool) \<Rightarrow> ('s, 'a, 'e) action \<Rightarrow> bool" where
  "act_keeps J m = (\<forall>s. J s \<longrightarrow> J (snd (m s)))"

named_theorems keeps_intro \<open>introduction rules for the invariants of actions\<close>

lemma act_keepsD: "act_keeps J m \<Longrightarrow> J s \<Longrightarrow> J (snd (m s))"
  by (simp add: act_keeps_def)

lemma act_keeps_bind [keeps_intro]:
  assumes "act_keeps J m" and "\<And>x. act_keeps J (f x)"
  shows "act_keeps J (act_bind m f)"
  unfolding act_keeps_def
proof (intro allI impI)
  fix s assume "J s"
  then show "J (snd (act_bind m f s))"
    using assms by (cases rule: act_bind_cases [of m s f]) (auto simp: act_keeps_def dest: spec [of _ s])
qed

lemma act_keeps_pure [keeps_intro]:
  "act_keeps J (act_return x)" "act_keeps J (act_try r)" "act_keeps J (act_get g)"
  by (simp_all add: act_keeps_def)

lemma act_keeps_modify: "(\<And>s. J s \<Longrightarrow> J (f s)) \<Longrightarrow> act_keeps J (act_modify f)"
  by (simp add: act_keeps_def)

lemma act_keeps_assign: "(\<And>s x. J s \<Longrightarrow> rhs s = Ok x \<Longrightarrow> J (put x s)) \<Longrightarrow> act_keeps J (act_assign rhs put)"
  by (auto simp: act_keeps_def act_assign_def act_bind_def split: outcome.splits)

lemma act_keeps_if [keeps_intro]: "act_keeps J m \<Longrightarrow> act_keeps J n \<Longrightarrow> act_keeps J (if b then m else n)"
  by simp

lemma act_keeps_each [keeps_intro]: "(\<And>x. act_keeps J (f x)) \<Longrightarrow> act_keeps J (act_each f xs)"
  by (induction xs) (auto intro: keeps_intro)

end
