(* ===== verification/Ledger.thy ===== *)
theory Ledger
  imports Stateful Shadow
begin

text \<open>
  The dual ledger of shadow accounting (\<open>copytrade-core/src/ledger.rs\<close>): one book of episodes for the
  portfolio and one for every source; executions open, extend, reduce, close or flip an episode,
  and equity is read off the closed and open episodes. Methods are actions on the book: a failure
  leaves what was written before it.
\<close>

section \<open>Data\<close>

type_synonym episode_id = bytes

record portfolio_episode =
  pe_id :: episode_id
  pe_asset :: asset
  pe_opened_at :: nat
  pe_closed_at :: nat
  pe_opening_decision :: decision_id
  pe_entry_notional :: rat
  pe_exit_notional :: rat
  pe_realized_pnl :: rat
  pe_fees :: rat
  pe_funding :: rat
  pe_slippage :: rat
  pe_residual :: rat
  pe_net_pnl :: rat

record source_episode =
  sp_candidate :: string
  sp_id :: episode_id
  sp_asset :: asset
  sp_entry :: rat
  sp_exit :: rat
  sp_fees :: rat
  sp_funding :: rat
  sp_slippage :: rat
  sp_gross_pnl :: rat
  sp_residual :: rat
  sp_net_pnl :: rat
  sp_net_return :: rat

record open_episode =
  oe_id :: episode_id
  oe_asset :: asset
  oe_opened_at :: nat
  oe_opening_decision :: decision_id
  oe_quantity :: rat
  oe_average :: rat
  oe_entry_notional :: rat
  oe_exit_notional :: rat
  oe_realized_pnl :: rat
  oe_fees :: rat
  oe_funding :: rat
  oe_slippage :: rat

record episode_book =
  positions :: "(asset, rat) bmap"
  open_episodes :: "(asset, open_episode) bmap"
  closed_episodes :: "portfolio_episode list"
  next_episode_sequence :: nat

record dual_ledger =
  schema_version :: nat
  portfolio_book :: episode_book
  source_books :: "(string, episode_book) bmap"

datatype ledger_error =
    PositionDivergence
  | MissingFillPrice
  | MissingMarkPrice
  | LedgerOverflow string
  | InvalidExecution
  | Persistence string
  | SchemaMismatch
  | InvalidLiveEvent string

definition empty_book :: episode_book where
  "empty_book = \<lparr>positions = bempty, open_episodes = bempty, closed_episodes = [], next_episode_sequence = 0\<rparr>"

definition default_ledger :: dual_ledger where
  "default_ledger = \<lparr>schema_version = 2, portfolio_book = empty_book, source_books = bempty\<rparr>"

type_synonym 'a ledger_result = "('a, ledger_error) outcome"

definition ledger_overflow :: "string \<Rightarrow> rat option \<Rightarrow> rat ledger_result" where
  "ledger_overflow what = ok_or (LedgerOverflow what)"

section \<open>Costs\<close>

definition add_fraction :: "decimal_ops \<Rightarrow> rat \<Rightarrow> rat \<Rightarrow> rat \<Rightarrow> string \<Rightarrow> rat ledger_result" where
  "add_fraction A current v fraction what =
    and_then (ledger_overflow what (d_mul A v fraction)) (\<lambda>part. ledger_overflow what (d_add A current part))"

definition add_costs :: "decimal_ops \<Rightarrow> shadow_execution \<Rightarrow> rat \<Rightarrow> (open_episode, unit, ledger_error) action" where
  "add_costs A e fraction =
    act_bind (act_assign (\<lambda>ep. add_fraction A (oe_fees ep) (se_fees e) fraction ''fees'') (\<lambda>x. oe_fees_update (\<lambda>_. x))) (\<lambda>_.
    act_bind (act_assign (\<lambda>ep. add_fraction A (oe_funding ep) (se_funding e) fraction ''funding'') (\<lambda>x. oe_funding_update (\<lambda>_. x))) (\<lambda>_.
    act_assign (\<lambda>ep. add_fraction A (oe_slippage ep) (se_slippage e) fraction ''slippage'') (\<lambda>x. oe_slippage_update (\<lambda>_. x))))"

definition EPISODE_DOMAIN :: bytes where "EPISODE_DOMAIN = str_bytes ''HL1G/EPISODE/V1''"

definition derive_episode_id :: "(bytes \<Rightarrow> bytes) \<Rightarrow> asset \<Rightarrow> decision_id \<Rightarrow> planned_cloid \<Rightarrow> nat \<Rightarrow> episode_id" where
  "derive_episode_id H a did cloid sequence =
     H (EPISODE_DOMAIN @ enc_u32 (length a) @ str_bytes a @ did @ cloid @ enc_u64 sequence)"

section \<open>The episodes of a book\<close>

text \<open>\<open>is_sign_positive\<close>; the model's only zero is positive.\<close>

definition sign_positive :: "rat \<Rightarrow> bool" where
  "sign_positive x = (0 \<le> x)"

definition execution_asset :: "shadow_execution \<Rightarrow> asset" where
  "execution_asset e = pa_asset (se_action e)"

definition put_open :: "asset \<Rightarrow> open_episode \<Rightarrow> episode_book \<Rightarrow> episode_book" where
  "put_open a ep b = b\<lparr>open_episodes := binsert a ep (open_episodes b)\<rparr>"

definition open_new ::
  "decimal_ops \<Rightarrow> (bytes \<Rightarrow> bytes) \<Rightarrow> shadow_execution \<Rightarrow> rat \<Rightarrow> rat \<Rightarrow> rat \<Rightarrow> (episode_book, unit, ledger_error) action" where
  "open_new A H e price quantity fraction =
    act_bind (act_get (\<lambda>b. Ok (next_episode_sequence b))) (\<lambda>sequence.
    act_bind (act_try (ok_or (LedgerOverflow ''episode sequence'') (checked_add_nat 64 sequence 1))) (\<lambda>next_sequence.
    act_bind (act_modify (\<lambda>b. b\<lparr>next_episode_sequence := next_sequence\<rparr>)) (\<lambda>_.
    act_bind (act_try (ledger_overflow ''entry notional'' (d_mul A \<bar>quantity\<bar> price))) (\<lambda>entry.
    let ep = \<lparr>oe_id = derive_episode_id H (execution_asset e) (pa_decision_id (se_action e))
                  (pa_planned_cloid (se_action e)) sequence,
              oe_asset = execution_asset e, oe_opened_at = se_decision_timestamp e,
              oe_opening_decision = pa_decision_id (se_action e), oe_quantity = quantity, oe_average = price,
              oe_entry_notional = entry, oe_exit_notional = 0, oe_realized_pnl = 0,
              oe_fees = 0, oe_funding = 0, oe_slippage = 0\<rparr> in
    act_local (add_costs A e fraction) ep (\<lambda>ep. act_modify (put_open (execution_asset e) ep))))))"

definition net_of_costs :: "decimal_ops \<Rightarrow> string \<Rightarrow> rat \<Rightarrow> rat \<Rightarrow> rat \<Rightarrow> rat \<Rightarrow> rat ledger_result" where
  "net_of_costs A what pnl fees funding slippage =
    and_then (ledger_overflow what (d_sub A pnl fees)) (\<lambda>x.
    and_then (ledger_overflow what (d_sub A x funding)) (\<lambda>x.
    ledger_overflow what (d_sub A x slippage)))"

definition finish_episode :: "decimal_ops \<Rightarrow> asset \<Rightarrow> nat \<Rightarrow> (episode_book, unit, ledger_error) action" where
  "finish_episode A a closed_at =
    act_bind (act_get (\<lambda>b. ok_or PositionDivergence (bget (open_episodes b) a))) (\<lambda>ep.
    act_bind (act_modify (\<lambda>b. b\<lparr>open_episodes := bremove a (open_episodes b)\<rparr>)) (\<lambda>_.
    act_bind (act_try (net_of_costs A ''net pnl'' (oe_realized_pnl ep) (oe_fees ep) (oe_funding ep) (oe_slippage ep))) (\<lambda>net.
    act_modify (\<lambda>b. b\<lparr>closed_episodes := closed_episodes b @ [
      \<lparr>pe_id = oe_id ep, pe_asset = oe_asset ep, pe_opened_at = oe_opened_at ep, pe_closed_at = closed_at,
       pe_opening_decision = oe_opening_decision ep, pe_entry_notional = oe_entry_notional ep,
       pe_exit_notional = oe_exit_notional ep, pe_realized_pnl = oe_realized_pnl ep, pe_fees = oe_fees ep,
       pe_funding = oe_funding ep, pe_slippage = oe_slippage ep, pe_residual = 0, pe_net_pnl = net\<rparr>]\<rparr>))))"

text \<open>The extension of an open episode, field by field.\<close>

definition extend_episode ::
  "decimal_ops \<Rightarrow> shadow_execution \<Rightarrow> rat \<Rightarrow> rat \<Rightarrow> (open_episode, unit, ledger_error) action" where
  "extend_episode A e price delta =
    act_bind (act_get (\<lambda>ep. Ok \<bar>oe_quantity ep\<bar>)) (\<lambda>old_quantity.
    act_bind (act_try (ledger_overflow ''episode quantity'' (d_add A old_quantity \<bar>delta\<bar>))) (\<lambda>total.
    act_bind (act_get (\<lambda>ep. ledger_overflow ''entry value'' (d_mul A old_quantity (oe_average ep)))) (\<lambda>old_value.
    act_bind (act_try (ledger_overflow ''entry value'' (d_mul A \<bar>delta\<bar> price))) (\<lambda>added_value.
    act_bind (act_assign (\<lambda>_. and_then (ledger_overflow ''average entry'' (d_add A old_value added_value)) (\<lambda>v.
        ledger_overflow ''average entry'' (d_div A v total))) (\<lambda>x. oe_average_update (\<lambda>_. x))) (\<lambda>_.
    act_bind (act_assign (\<lambda>ep. ledger_overflow ''episode quantity'' (d_add A (oe_quantity ep) delta))
        (\<lambda>x. oe_quantity_update (\<lambda>_. x))) (\<lambda>_.
    act_bind (act_assign (\<lambda>ep. ledger_overflow ''entry notional'' (d_add A (oe_entry_notional ep) added_value))
        (\<lambda>x. oe_entry_notional_update (\<lambda>_. x))) (\<lambda>_.
    add_costs A e 1)))))))"

definition add_same_direction ::
  "decimal_ops \<Rightarrow> (bytes \<Rightarrow> bytes) \<Rightarrow> shadow_execution \<Rightarrow> rat \<Rightarrow> rat \<Rightarrow> (episode_book, unit, ledger_error) action" where
  "add_same_direction A H e price delta = (\<lambda>b.
    case bget (open_episodes b) (execution_asset e) of
      Some ep \<Rightarrow> act_entry (\<lambda>b. bget (open_episodes b) (execution_asset e)) (put_open (execution_asset e))
        PositionDivergence (extend_episode A e price delta) b
    | None \<Rightarrow> open_new A H e price delta 1 b)"

text \<open>The part of a fill that closes, field by field.\<close>

definition reduce_episode ::
  "decimal_ops \<Rightarrow> shadow_execution \<Rightarrow> rat \<Rightarrow> rat \<Rightarrow> rat \<Rightarrow> (open_episode, unit, ledger_error) action" where
  "reduce_episode A e price closing fraction =
    act_bind (act_get (\<lambda>ep. ledger_overflow ''realized pnl'' (if sign_positive (oe_quantity ep)
        then d_sub A price (oe_average ep) else d_sub A (oe_average ep) price))) (\<lambda>per_unit.
    act_bind (act_assign (\<lambda>ep. and_then (ledger_overflow ''realized pnl'' (d_mul A per_unit closing)) (\<lambda>pnl.
        ledger_overflow ''realized pnl'' (d_add A (oe_realized_pnl ep) pnl))) (\<lambda>x. oe_realized_pnl_update (\<lambda>_. x))) (\<lambda>_.
    act_bind (act_assign (\<lambda>ep. and_then (ledger_overflow ''exit notional'' (d_mul A price closing)) (\<lambda>v.
        ledger_overflow ''exit notional'' (d_add A (oe_exit_notional ep) v))) (\<lambda>x. oe_exit_notional_update (\<lambda>_. x))) (\<lambda>_.
    act_bind (add_costs A e fraction) (\<lambda>_.
    act_assign (\<lambda>ep. ledger_overflow ''episode close'' (d_add A (oe_quantity ep)
        (if sign_positive (oe_quantity ep) then - closing else closing))) (\<lambda>x. oe_quantity_update (\<lambda>_. x))))))"

definition close_or_flip ::
  "decimal_ops \<Rightarrow> (bytes \<Rightarrow> bytes) \<Rightarrow> shadow_execution \<Rightarrow> rat \<Rightarrow> rat \<Rightarrow> nat \<Rightarrow> (episode_book, unit, ledger_error) action" where
  "close_or_flip A H e price delta closed_at =
    (let a = execution_asset e; fill = \<bar>delta\<bar> in
    act_bind (act_get (\<lambda>b. ok_or PositionDivergence (map_option (\<lambda>ep. \<bar>oe_quantity ep\<bar>) (bget (open_episodes b) a)))) (\<lambda>current.
    let closing = min fill current in
    act_bind (act_try (ledger_overflow ''closing fraction'' (d_div A closing fill))) (\<lambda>fraction.
    act_bind (act_entry (\<lambda>b. bget (open_episodes b) a) (put_open a) PositionDivergence
        (reduce_episode A e price closing fraction)) (\<lambda>_.
    act_bind (\<lambda>b. if (\<exists>ep \<in> set_option (bget (open_episodes b) a). oe_quantity ep = 0)
        then finish_episode A a closed_at b else (Ok (), b)) (\<lambda>_.
    act_bind (act_try (ledger_overflow ''flip residual'' (d_sub A fill closing))) (\<lambda>residual.
    if residual = 0 then act_return ()
    else act_bind (act_try (ledger_overflow ''residual fraction'' (d_sub A 1 fraction))) (\<lambda>residual_fraction.
      open_new A H e price (if sign_positive delta then residual else - residual) residual_fraction)))))))"

definition apply_execution ::
  "decimal_ops \<Rightarrow> (bytes \<Rightarrow> bytes) \<Rightarrow> shadow_execution \<Rightarrow> nat \<Rightarrow> (episode_book, unit, ledger_error) action" where
  "apply_execution A H e closed_at = (\<lambda>b.
    let a = execution_asset e; current = bget_or 0 (positions b) a in
    if current \<noteq> se_position_before e then (Err PositionDivergence, b)
    else if se_filled e = 0 then
      (if se_position_after e \<noteq> current then (Err PositionDivergence, b) else (Ok (), b))
    else act_bind (act_try (ok_or MissingFillPrice (se_average_price e))) (\<lambda>price.
      let delta = signed_quantity_of (pa_side (se_action e)) (se_filled e) in
      act_bind (act_try (ledger_overflow ''position'' (d_add A current delta))) (\<lambda>after.
      act_bind (act_try (fail_if (after \<noteq> se_position_after e) PositionDivergence)) (\<lambda>_.
      act_bind (if current = 0 \<or> sign_positive current = sign_positive delta
        then add_same_direction A H e price delta
        else close_or_flip A H e price delta closed_at) (\<lambda>_.
      act_modify (\<lambda>b. b\<lparr>positions := if after = 0 then bremove a (positions b)
         else binsert a after (positions b)\<rparr>))))) b)"

section \<open>The dual ledger\<close>

definition put_portfolio :: "episode_book \<Rightarrow> dual_ledger \<Rightarrow> dual_ledger" where
  "put_portfolio b l = l\<lparr>portfolio_book := b\<rparr>"

definition put_source :: "string \<Rightarrow> episode_book \<Rightarrow> dual_ledger \<Rightarrow> dual_ledger" where
  "put_source c b l = l\<lparr>source_books := binsert c b (source_books l)\<rparr>"

text \<open>\<open>closed.last_mut().filter(\<dots>).ok_or(PositionDivergence)?\<close> with the entry written back.\<close>

definition on_last_closed ::
  "(portfolio_episode \<Rightarrow> bool) \<Rightarrow> (portfolio_episode, 'a, ledger_error) action \<Rightarrow> (episode_book, 'a, ledger_error) action" where
  "on_last_closed P m = act_entry
     (\<lambda>b. if closed_episodes b \<noteq> [] \<and> P (last (closed_episodes b)) then Some (last (closed_episodes b)) else None)
     (\<lambda>ep b. b\<lparr>closed_episodes := butlast (closed_episodes b) @ [ep]\<rparr>) PositionDivergence m"

definition reconcile_last_portfolio_gross_pnl ::
  "decimal_ops \<Rightarrow> asset \<Rightarrow> rat \<Rightarrow> (dual_ledger, unit, ledger_error) action" where
  "reconcile_last_portfolio_gross_pnl A a pnl = act_zoom portfolio_book put_portfolio
    (on_last_closed (\<lambda>ep. pe_asset ep = a)
      (act_bind (act_modify (pe_realized_pnl_update (\<lambda>_. pnl))) (\<lambda>_.
       act_assign (\<lambda>ep. net_of_costs A ''exchange reconciled episode net pnl'' pnl (pe_fees ep) (pe_funding ep) (pe_slippage ep))
         (\<lambda>x. pe_net_pnl_update (\<lambda>_. x)))))"

definition apply_portfolio_funding ::
  "decimal_ops \<Rightarrow> asset \<Rightarrow> rat \<Rightarrow> (dual_ledger, unit, ledger_error) action" where
  "apply_portfolio_funding A a cost = act_zoom portfolio_book put_portfolio
    (act_entry (\<lambda>b. bget (open_episodes b) a) (put_open a) PositionDivergence
      (act_assign (\<lambda>ep. ledger_overflow ''funding'' (d_add A (oe_funding ep) cost)) (\<lambda>x. oe_funding_update (\<lambda>_. x))))"

text \<open>Applying an execution, with the episode it closed, if any.\<close>

definition apply_reporting ::
  "decimal_ops \<Rightarrow> (bytes \<Rightarrow> bytes) \<Rightarrow> shadow_execution \<Rightarrow> nat \<Rightarrow> (episode_book, portfolio_episode option, ledger_error) action" where
  "apply_reporting A H e t =
    act_bind (act_get (\<lambda>b. Ok (length (closed_episodes b)))) (\<lambda>before.
    act_bind (apply_execution A H e t) (\<lambda>_.
    act_get (\<lambda>b. Ok (if before < length (closed_episodes b) then Some (last (closed_episodes b)) else None))))"

definition apply_portfolio_execution ::
  "decimal_ops \<Rightarrow> (bytes \<Rightarrow> bytes) \<Rightarrow> shadow_execution \<Rightarrow> nat \<Rightarrow> (dual_ledger, portfolio_episode option, ledger_error) action" where
  "apply_portfolio_execution A H e t = act_zoom portfolio_book put_portfolio (apply_reporting A H e t)"

definition source_episode_of :: "decimal_ops \<Rightarrow> string \<Rightarrow> portfolio_episode \<Rightarrow> source_episode" where
  "source_episode_of A c ep = \<lparr>sp_candidate = c, sp_id = pe_id ep, sp_asset = pe_asset ep,
     sp_entry = pe_entry_notional ep, sp_exit = pe_exit_notional ep, sp_fees = pe_fees ep,
     sp_funding = pe_funding ep, sp_slippage = pe_slippage ep, sp_gross_pnl = pe_realized_pnl ep,
     sp_residual = pe_residual ep, sp_net_pnl = pe_net_pnl ep,
     sp_net_return = (if pe_entry_notional ep = 0 then 0
       else case d_div A (pe_net_pnl ep) (pe_entry_notional ep) of Some x \<Rightarrow> x | None \<Rightarrow> 0)\<rparr>"

definition source_book :: "dual_ledger \<Rightarrow> string \<Rightarrow> episode_book" where
  "source_book l c = bget_or empty_book (source_books l) c"

definition apply_source_execution ::
  "decimal_ops \<Rightarrow> (bytes \<Rightarrow> bytes) \<Rightarrow> string \<Rightarrow> shadow_execution \<Rightarrow> nat \<Rightarrow> (dual_ledger, source_episode option, ledger_error) action" where
  "apply_source_execution A H c e t =
    act_bind (act_zoom (\<lambda>l. source_book l c) (put_source c) (apply_reporting A H e t)) (\<lambda>ep.
    act_return (map_option (source_episode_of A c) ep))"

definition on_source :: "string \<Rightarrow> (episode_book, 'a, ledger_error) action \<Rightarrow> (dual_ledger, 'a, ledger_error) action" where
  "on_source c m = act_entry (\<lambda>l. bget (source_books l) c) (put_source c) PositionDivergence m"

definition assign_source_attribution_residual ::
  "decimal_ops \<Rightarrow> string \<Rightarrow> episode_id \<Rightarrow> rat \<Rightarrow> (dual_ledger, source_episode, ledger_error) action" where
  "assign_source_attribution_residual A c i residual = on_source c (on_last_closed (\<lambda>ep. pe_id ep = i)
    (act_bind (act_assign (\<lambda>ep. ledger_overflow ''attribution residual'' (d_add A (pe_residual ep) residual))
        (\<lambda>x. pe_residual_update (\<lambda>_. x))) (\<lambda>_.
     act_bind (act_assign (\<lambda>ep. ledger_overflow ''attribution residual net pnl'' (d_add A (pe_net_pnl ep) residual))
        (\<lambda>x. pe_net_pnl_update (\<lambda>_. x))) (\<lambda>_.
     act_get (\<lambda>ep. Ok (source_episode_of A c ep))))))"

definition assign_source_episode_economic_residuals ::
  "decimal_ops \<Rightarrow> string \<Rightarrow> episode_id \<Rightarrow> rat \<Rightarrow> rat \<Rightarrow> rat \<Rightarrow> rat \<Rightarrow> (dual_ledger, source_episode, ledger_error) action" where
  "assign_source_episode_economic_residuals A c i gross fees funding slippage =
    on_source c (on_last_closed (\<lambda>ep. pe_id ep = i)
    (act_bind (act_assign (\<lambda>ep. ledger_overflow ''gross attribution residual'' (d_add A (pe_realized_pnl ep) gross))
        (\<lambda>x. pe_realized_pnl_update (\<lambda>_. x))) (\<lambda>_.
     act_bind (act_assign (\<lambda>ep. ledger_overflow ''fee attribution residual'' (d_add A (pe_fees ep) fees))
        (\<lambda>x. pe_fees_update (\<lambda>_. x))) (\<lambda>_.
     act_bind (act_assign (\<lambda>ep. ledger_overflow ''funding attribution residual'' (d_add A (pe_funding ep) funding))
        (\<lambda>x. pe_funding_update (\<lambda>_. x))) (\<lambda>_.
     act_bind (act_assign (\<lambda>ep. ledger_overflow ''slippage attribution residual'' (d_add A (pe_slippage ep) slippage))
        (\<lambda>x. pe_slippage_update (\<lambda>_. x))) (\<lambda>_.
     act_bind (act_assign (\<lambda>ep. and_then (net_of_costs A ''economic attribution residual net pnl''
          (pe_realized_pnl ep) (pe_fees ep) (pe_funding ep) (pe_slippage ep)) (\<lambda>x.
          ledger_overflow ''economic attribution residual net pnl'' (d_add A x (pe_residual ep))))
        (\<lambda>x. pe_net_pnl_update (\<lambda>_. x))) (\<lambda>_.
     act_get (\<lambda>ep. Ok (source_episode_of A c ep)))))))))"

text \<open>Queries.\<close>

definition portfolio_closed :: "dual_ledger \<Rightarrow> portfolio_episode list" where
  "portfolio_closed l = closed_episodes (portfolio_book l)"

definition portfolio_realized_net_pnl :: "decimal_ops \<Rightarrow> dual_ledger \<Rightarrow> rat ledger_result" where
  "portfolio_realized_net_pnl A l =
    try_fold (\<lambda>total ep. ledger_overflow ''realized net pnl'' (d_add A total (pe_net_pnl ep))) 0 (portfolio_closed l)"

definition source_closed_count :: "dual_ledger \<Rightarrow> string \<Rightarrow> nat" where
  "source_closed_count l c = (case bget (source_books l) c of None \<Rightarrow> 0 | Some b \<Rightarrow> length (closed_episodes b))"

definition source_position :: "dual_ledger \<Rightarrow> string \<Rightarrow> asset \<Rightarrow> rat" where
  "source_position l c a = (case bget (source_books l) c of None \<Rightarrow> 0 | Some b \<Rightarrow> bget_or 0 (positions b) a)"

definition source_assets :: "dual_ledger \<Rightarrow> string \<Rightarrow> asset list" where
  "source_assets l c = (case bget (source_books l) c of None \<Rightarrow> [] | Some b \<Rightarrow> bkeys (positions b))"

definition source_ids :: "dual_ledger \<Rightarrow> string list" where
  "source_ids l = bkeys (source_books l)"

definition total_source_closed :: "dual_ledger \<Rightarrow> nat" where
  "total_source_closed l = sum_list (map (\<lambda>b. length (closed_episodes b)) (bvals (source_books l)))"

definition portfolio_open_count :: "dual_ledger \<Rightarrow> nat" where
  "portfolio_open_count l = bsize (open_episodes (portfolio_book l))"

definition all_source_closed :: "decimal_ops \<Rightarrow> dual_ledger \<Rightarrow> source_episode list" where
  "all_source_closed A l = concat (map (\<lambda>(c, b). map (source_episode_of A c) (closed_episodes b)) (entries (source_books l)))"

definition source_positions_for_asset :: "dual_ledger \<Rightarrow> asset \<Rightarrow> (string, rat) bmap" where
  "source_positions_for_asset l a = bcollect (List.map_filter (\<lambda>(c, b).
     case bget (positions b) a of Some q \<Rightarrow> if q = 0 then None else Some (c, q) | None \<Rightarrow> None) (entries (source_books l)))"

definition portfolio_position :: "dual_ledger \<Rightarrow> asset \<Rightarrow> rat" where
  "portfolio_position l a = bget_or 0 (positions (portfolio_book l)) a"

definition portfolio_book_assets :: "dual_ledger \<Rightarrow> asset list" where
  "portfolio_book_assets l = bkeys (positions (portfolio_book l))"

text \<open>
  The equity of a book; the portfolio's and the sources' differ in the names of their errors only.
\<close>

definition add_open_equity ::
  "decimal_ops \<Rightarrow> string \<Rightarrow> string \<Rightarrow> (asset, rat) bmap \<Rightarrow> rat \<Rightarrow> asset \<times> open_episode \<Rightarrow> rat ledger_result" where
  "add_open_equity A unrealized_name open_name marks equity x =
    (case x of (a, ep) \<Rightarrow>
    and_then (ok_or MissingMarkPrice (bget marks a)) (\<lambda>mark.
    and_then (ledger_overflow unrealized_name (if sign_positive (oe_quantity ep)
      then d_sub A mark (oe_average ep) else d_sub A (oe_average ep) mark)) (\<lambda>move.
    and_then (ledger_overflow unrealized_name (d_mul A move \<bar>oe_quantity ep\<bar>)) (\<lambda>unrealized.
    and_then (ledger_overflow open_name (d_add A equity unrealized)) (\<lambda>v.
    net_of_costs A open_name v (oe_fees ep) (oe_funding ep) (oe_slippage ep))))))"

definition equity_of ::
  "decimal_ops \<Rightarrow> string \<Rightarrow> string \<Rightarrow> string \<Rightarrow> rat \<Rightarrow> (asset, rat) bmap \<Rightarrow> episode_book \<Rightarrow> rat ledger_result" where
  "equity_of A closed_name unrealized_name open_name starting marks b =
    and_then (try_fold (\<lambda>equity ep. ledger_overflow closed_name (d_add A equity (pe_net_pnl ep)))
      starting (closed_episodes b)) (\<lambda>equity.
    try_fold (add_open_equity A unrealized_name open_name marks) equity (entries (open_episodes b)))"

definition portfolio_equity :: "decimal_ops \<Rightarrow> rat \<Rightarrow> (asset, rat) bmap \<Rightarrow> rat \<Rightarrow> dual_ledger \<Rightarrow> rat ledger_result" where
  "portfolio_equity A starting marks unbooked_funding l =
    and_then (equity_of A ''closed equity'' ''unrealized pnl'' ''open equity'' starting marks (portfolio_book l)) (\<lambda>equity.
    ledger_overflow ''unbooked funding'' (d_sub A equity unbooked_funding))"

definition book_equity :: "decimal_ops \<Rightarrow> rat \<Rightarrow> (asset, rat) bmap \<Rightarrow> episode_book \<Rightarrow> rat ledger_result" where
  "book_equity A starting marks b =
    equity_of A ''book equity'' ''book unrealized pnl'' ''book open equity'' starting marks b"

definition source_equity :: "decimal_ops \<Rightarrow> string \<Rightarrow> rat \<Rightarrow> (asset, rat) bmap \<Rightarrow> dual_ledger \<Rightarrow> rat ledger_result" where
  "source_equity A c starting marks l =
    (case bget (source_books l) c of Some b \<Rightarrow> book_equity A starting marks b | None \<Rightarrow> Ok starting)"

definition validate_episode_book :: "episode_book \<Rightarrow> unit ledger_result" where
  "validate_episode_book b =
    and_then (check_all (\<lambda>(a, q). fail_if (q \<noteq> (case bget (open_episodes b) a of None \<Rightarrow> 0 | Some ep \<Rightarrow> oe_quantity ep))
      PositionDivergence) (entries (positions b))) (\<lambda>_.
    check_all (\<lambda>(a, ep). fail_if (bget (positions b) a \<noteq> Some (oe_quantity ep)) PositionDivergence)
      (entries (open_episodes b)))"

definition validate_ledger :: "dual_ledger \<Rightarrow> unit ledger_result" where
  "validate_ledger l = check_all validate_episode_book (portfolio_book l # bvals (source_books l))"

definition validate_integrity :: "dual_ledger \<Rightarrow> unit ledger_result" where
  "validate_integrity l = and_then (fail_if (schema_version l \<noteq> 2) SchemaMismatch) (\<lambda>_. validate_ledger l)"

section \<open>What the steps do to an episode\<close>

text \<open>The cash an episode accounts for, and the cost of an execution.\<close>

definition episode_cash :: "open_episode \<Rightarrow> rat" where
  "episode_cash ep = oe_realized_pnl ep - oe_fees ep - oe_funding ep - oe_slippage ep - oe_quantity ep * oe_average ep"

definition execution_costs :: "shadow_execution \<Rightarrow> rat" where
  "execution_costs e = se_fees e + se_funding e + se_slippage e"

lemma ledger_overflow_Ok:
  assumes "exact_arith A"
  shows "ledger_overflow w (d_add A x y) = Ok z \<Longrightarrow> z = x + y" "ledger_overflow w (d_sub A x y) = Ok z \<Longrightarrow> z = x - y"
    "ledger_overflow w (d_mul A x y) = Ok z \<Longrightarrow> z = x * y" "ledger_overflow w (d_div A x y) = Ok z \<Longrightarrow> z = x / y"
  by (auto simp: ledger_overflow_def outcome_simps dest: exact_arithD [OF assms])

lemma add_fraction_exact: "exact_arith A \<Longrightarrow> add_fraction A c v f w = Ok x \<Longrightarrow> x = c + v * f"
  using ledger_overflow_Ok(1,3) [of A w] by (fastforce simp: add_fraction_def outcome_simps)

lemma add_costs_exact:
  assumes "exact_arith A" and "add_costs A e f ep = (Ok u, ep')"
  shows "ep' = ep\<lparr>oe_fees := oe_fees ep + se_fees e * f, oe_funding := oe_funding ep + se_funding e * f,
     oe_slippage := oe_slippage ep + se_slippage e * f\<rparr>"
  using assms(2) by (auto simp: add_costs_def outcome_simps dest!: add_fraction_exact [OF assms(1)])

lemma extend_episode_exact:
  assumes "exact_arith A" and "extend_episode A e price delta ep = (Ok u, ep')"
    and "0 < oe_quantity ep \<and> 0 < delta \<or> oe_quantity ep < 0 \<and> delta < 0"
  shows "oe_quantity ep' = oe_quantity ep + delta"
    "episode_cash ep' = episode_cash ep - delta * price - execution_costs e"
    "oe_realized_pnl ep' = oe_realized_pnl ep"
proof -
  let ?q = "oe_quantity ep"
  obtain ep1 where ep1: "ep1 = ep\<lparr>oe_average := (\<bar>?q\<bar> * oe_average ep + \<bar>delta\<bar> * price) / (\<bar>?q\<bar> + \<bar>delta\<bar>),
      oe_quantity := ?q + delta, oe_entry_notional := oe_entry_notional ep + \<bar>delta\<bar> * price\<rparr>"
    and c: "add_costs A e 1 ep1 = (Ok u, ep')"
    using assms(2) by (auto simp: extend_episode_def outcome_simps dest!: ledger_overflow_Ok [OF assms(1)])
  note ep' = add_costs_exact [OF assms(1) c]
  show "oe_quantity ep' = ?q + delta" "oe_realized_pnl ep' = oe_realized_pnl ep" by (simp_all add: ep' ep1)
  have "(?q + delta) * oe_average ep1 = ?q * oe_average ep + delta * price"
  proof -
    obtain sgn :: rat where s: "sgn \<noteq> 0" "?q = sgn * \<bar>?q\<bar>" "delta = sgn * \<bar>delta\<bar>"
      using assms(3) by (rule_tac that [of "if 0 < delta then 1 else -1"]) auto
    have t: "\<bar>?q\<bar> + \<bar>delta\<bar> \<noteq> 0" using assms(3) by auto
    have "?q + delta = sgn * (\<bar>?q\<bar> + \<bar>delta\<bar>)" using s by (metis distrib_left)
    then have "(?q + delta) * oe_average ep1 = sgn * (\<bar>?q\<bar> * oe_average ep + \<bar>delta\<bar> * price)"
      using t by (simp add: ep1)
    also have "\<dots> = (sgn * \<bar>?q\<bar>) * oe_average ep + (sgn * \<bar>delta\<bar>) * price" by (simp add: algebra_simps)
    finally show ?thesis using s(2,3) by simp
  qed
  then show "episode_cash ep' = episode_cash ep - delta * price - execution_costs e"
    by (simp add: ep' ep1 episode_cash_def execution_costs_def)
qed

lemma reduce_episode_exact:
  assumes "exact_arith A" and "reduce_episode A e price closing f ep = (Ok u, ep')"
  defines "dir \<equiv> if sign_positive (oe_quantity ep) then 1 else - 1 :: rat"
  shows "oe_quantity ep' = oe_quantity ep - dir * closing"
    "episode_cash ep' = episode_cash ep + dir * closing * price - f * execution_costs e"
    "oe_realized_pnl ep' = oe_realized_pnl ep + dir * (price - oe_average ep) * closing"
proof -
  let ?pnl = "dir * (price - oe_average ep)"
  obtain ep1 ep2 where ep1: "ep1 = ep\<lparr>oe_realized_pnl := oe_realized_pnl ep + ?pnl * closing,
      oe_exit_notional := oe_exit_notional ep + price * closing\<rparr>"
    and c: "add_costs A e f ep1 = (Ok (), ep2)"
    and ep': "ep' = ep2\<lparr>oe_quantity := oe_quantity ep2 + (if sign_positive (oe_quantity ep2) then - closing else closing)\<rparr>"
    using assms(2) unfolding dir_def
    by (auto simp: reduce_episode_def outcome_simps split: if_splits dest!: ledger_overflow_Ok [OF assms(1)])
  note ep2 = add_costs_exact [OF assms(1) c]
  show "oe_quantity ep' = oe_quantity ep - dir * closing"
    "oe_realized_pnl ep' = oe_realized_pnl ep + dir * (price - oe_average ep) * closing"
    by (simp_all add: ep' ep2 ep1 dir_def)
  show "episode_cash ep' = episode_cash ep + dir * closing * price - f * execution_costs e"
    by (simp add: ep' ep2 ep1 dir_def episode_cash_def execution_costs_def algebra_simps)
qed

section \<open>The book as a cash account\<close>

text \<open>
  The account a book stands for: its cash, from closed and open episodes, and its holdings. The
  specification of an execution is a trade on it: the price is paid, the costs are paid, the
  holding moves.
\<close>

definition book_cash :: "episode_book \<Rightarrow> rat" where
  "book_cash b = sum_list (map pe_net_pnl (closed_episodes b))
     + sum_list (map (\<lambda>x. episode_cash (snd x)) (entries (open_episodes b)))"

definition book_holding :: "episode_book \<Rightarrow> asset \<Rightarrow> rat" where
  "book_holding b a = bget_or 0 (positions b) a"

definition trade :: "asset \<Rightarrow> rat \<Rightarrow> rat \<Rightarrow> rat \<Rightarrow> rat \<times> (asset \<Rightarrow> rat) \<Rightarrow> rat \<times> (asset \<Rightarrow> rat)" where
  "trade a delta price costs account = (fst account - delta * price - costs, (snd account)(a := snd account a + delta))"

definition account_of :: "episode_book \<Rightarrow> rat \<times> (asset \<Rightarrow> rat)" where
  "account_of b = (book_cash b, book_holding b)"

text \<open>Positions and open episodes agree, and no open episode is empty: what \<open>validate\<close> checks.\<close>

definition book_ok :: "episode_book \<Rightarrow> bool" where
  "book_ok b = (\<forall>a. bget (positions b) a = map_option oe_quantity (bget (open_episodes b) a)
     \<and> (\<forall>ep. bget (open_episodes b) a = Some ep \<longrightarrow> oe_quantity ep \<noteq> 0))"

lemma book_cash_put:
  assumes "bget (open_episodes b) a = Some ep"
  shows "book_cash (put_open a ep' b) = book_cash b - episode_cash ep + episode_cash ep'"
  using bm.sum_items_update [OF assms, of "\<lambda>x. episode_cash (snd x)" ep']
  by (simp add: book_cash_def put_open_def)

lemma book_cash_put_new:
  assumes "bget (open_episodes b) a = None"
  shows "book_cash (put_open a ep b) = book_cash b + episode_cash ep"
  using bm.sum_items_update_new [OF assms, of "\<lambda>x. episode_cash (snd x)" ep]
  by (simp add: book_cash_def put_open_def)

lemma put_open_fields [simp]:
  "bget (open_episodes (put_open a ep b)) k = (if k = a then Some ep else bget (open_episodes b) k)"
  "positions (put_open a ep b) = positions b" "closed_episodes (put_open a ep b) = closed_episodes b"
  by (simp_all add: put_open_def)

lemma open_new_exact:
  assumes "exact_arith A" and "open_new A H e price q f b = (Ok u, b')"
    and "bget (open_episodes b) (execution_asset e) = None"
  shows "positions b' = positions b" "book_cash b' = book_cash b - q * price - f * execution_costs e"
    "\<exists>ep. oe_quantity ep = q \<and> oe_realized_pnl ep = 0 \<and>
       (\<forall>k. bget (open_episodes b') k = (if k = execution_asset e then Some ep else bget (open_episodes b) k))"
    "closed_episodes b' = closed_episodes b"
proof -
  obtain n ep ep' where c: "add_costs A e f ep = (Ok (), ep')" and ep: "oe_quantity ep = q" "oe_average ep = price"
      "oe_realized_pnl ep = 0" "oe_fees ep = 0" "oe_funding ep = 0" "oe_slippage ep = 0"
    and b': "b' = put_open (execution_asset e) ep' (b\<lparr>next_episode_sequence := n\<rparr>)"
    using assms(2) by (auto simp: open_new_def outcome_simps Let_def split: outcome.splits prod.splits)
  note ep' = add_costs_exact [OF assms(1) c]
  show "positions b' = positions b" "closed_episodes b' = closed_episodes b" by (simp_all add: b')
  have "book_cash b' = book_cash b + episode_cash ep'"
    using book_cash_put_new [of "b\<lparr>next_episode_sequence := n\<rparr>"] assms(3) by (simp add: b' book_cash_def)
  then show "book_cash b' = book_cash b - q * price - f * execution_costs e"
    by (simp add: ep' episode_cash_def ep execution_costs_def algebra_simps)
  show "\<exists>ep. oe_quantity ep = q \<and> oe_realized_pnl ep = 0 \<and>
      (\<forall>k. bget (open_episodes b') k = (if k = execution_asset e then Some ep else bget (open_episodes b) k))"
    by (intro exI [of _ ep']) (simp add: b' ep' ep)
qed

lemma finish_episode_exact:
  assumes "exact_arith A" and "finish_episode A a t b = (Ok u, b')" and "bget (open_episodes b) a = Some ep"
    and "oe_quantity ep = 0"
  shows "positions b' = positions b" "book_cash b' = book_cash b"
    "bget (open_episodes b') k = (if k = a then None else bget (open_episodes b) k)"
proof -
  obtain net pe where net: "net = oe_realized_pnl ep - oe_fees ep - oe_funding ep - oe_slippage ep"
    and b': "b' = b\<lparr>open_episodes := bremove a (open_episodes b), closed_episodes := closed_episodes b @ [pe]\<rparr>"
    and pe: "pe_net_pnl pe = net"
    using assms(2,3) by (auto simp: finish_episode_def net_of_costs_def outcome_simps dest!: ledger_overflow_Ok [OF assms(1)])
  show "positions b' = positions b" "bget (open_episodes b') k = (if k = a then None else bget (open_episodes b) k)"
    by (simp_all add: b')
  show "book_cash b' = book_cash b"
    using bm.sum_items_remove [OF assms(3), of "\<lambda>x. episode_cash (snd x)"]
    by (simp add: b' book_cash_def pe net episode_cash_def assms(4))
qed

text \<open>What an execution leaves in a book, seen from its asset.\<close>

definition moved :: "asset \<Rightarrow> rat \<Rightarrow> rat \<Rightarrow> rat \<Rightarrow> episode_book \<Rightarrow> episode_book \<Rightarrow> bool" where
  "moved a after delta paid b b' = (positions b' = positions b \<and> book_cash b' = book_cash b - paid
     \<and> (\<forall>k. map_option oe_quantity (bget (open_episodes b') k)
          = (if k = a then (if after = 0 then None else Some after)
             else map_option oe_quantity (bget (open_episodes b) k))))"

lemma add_same_direction_exact:
  assumes "exact_arith A" and "add_same_direction A H e price delta b = (Ok u, b')" and "delta \<noteq> 0"
    and "case bget (open_episodes b) (execution_asset e) of None \<Rightarrow> after = delta
      | Some ep \<Rightarrow> after = oe_quantity ep + delta \<and> (0 < oe_quantity ep \<and> 0 < delta \<or> oe_quantity ep < 0 \<and> delta < 0)"
  shows "moved (execution_asset e) after delta (delta * price + execution_costs e) b b'"
proof (cases "bget (open_episodes b) (execution_asset e)")
  case None
  with assms(2) have o: "open_new A H e price delta 1 b = (Ok u, b')" by (simp add: add_same_direction_def)
  from open_new_exact [OF assms(1) o None] None assms(3,4) show ?thesis by (auto simp: moved_def)
next
  case (Some ep)
  with assms(2) obtain ep' where x: "extend_episode A e price delta ep = (Ok u, ep')"
    and b': "b' = put_open (execution_asset e) ep' b"
    by (auto simp: add_same_direction_def outcome_simps)
  have dir: "0 < oe_quantity ep \<and> 0 < delta \<or> oe_quantity ep < 0 \<and> delta < 0" "after = oe_quantity ep + delta"
    using assms(4) Some by simp_all
  note x' = extend_episode_exact [OF assms(1) x dir(1)]
  show ?thesis
    using x'(1,2) dir book_cash_put [OF Some, of ep'] by (auto simp: moved_def b')
qed

lemma close_or_flip_exact:
  assumes "exact_arith A" and "close_or_flip A H e price delta t b = (Ok u, b')"
    and "bget (open_episodes b) (execution_asset e) = Some ep"
    and "0 < oe_quantity ep \<and> delta < 0 \<or> oe_quantity ep < 0 \<and> 0 < delta"
  shows "moved (execution_asset e) (oe_quantity ep + delta) delta (delta * price + execution_costs e) b b'"
proof -
  let ?a = "execution_asset e" and ?q = "oe_quantity ep" and ?c = "min \<bar>delta\<bar> \<bar>oe_quantity ep\<bar>"
  define dir where "dir = (if sign_positive ?q then 1 else - 1 :: rat)"
  define f where "f = ?c / \<bar>delta\<bar>"
  have q: "?q = dir * \<bar>?q\<bar>" "delta = - dir * \<bar>delta\<bar>" "delta \<noteq> 0" "?q \<noteq> 0"
    using assms(4) by (auto simp: dir_def sign_positive_def)
  from assms(2,3) obtain f' ep1 b1 b2 residual
    where fr: "ledger_overflow ''closing fraction'' (d_div A ?c \<bar>delta\<bar>) = Ok f'"
    and r0: "reduce_episode A e price ?c f' ep = (Ok (), ep1)" and b1: "b1 = put_open ?a ep1 b"
    and fin0: "(if \<exists>x \<in> set_option (bget (open_episodes b1) ?a). oe_quantity x = 0
        then finish_episode A ?a t b1 else (Ok (), b1)) = (Ok (), b2)"
    and res0: "ledger_overflow ''flip residual'' (d_sub A \<bar>delta\<bar> ?c) = Ok residual"
    and rest0: "(if residual = 0 then act_return () else
        act_bind (act_try (ledger_overflow ''residual fraction'' (d_sub A 1 f'))) (\<lambda>g.
          open_new A H e price (if sign_positive delta then residual else - residual) g)) b2 = (Ok u, b')"
    unfolding close_or_flip_def Let_def
    by (simp add: act_bind_Ok act_entry_Ok ok_or_Ok del: put_open_fields) blast
  have f': "f' = f" and res: "residual = \<bar>delta\<bar> - ?c"
    using ledger_overflow_Ok(4) [OF assms(1) fr] ledger_overflow_Ok(2) [OF assms(1) res0] by (simp_all add: f_def)
  have r: "reduce_episode A e price ?c f ep = (Ok (), ep1)" using r0 by (simp add: f')
  have fin: "(if oe_quantity ep1 = 0 then finish_episode A ?a t (put_open ?a ep1 b) else (Ok (), put_open ?a ep1 b))
      = (Ok (), b2)" using fin0 unfolding b1 by simp
  have rest: "if residual = 0 then b' = b2 else
      open_new A H e price (if sign_positive delta then residual else - residual) (1 - f) b2 = (Ok u, b')"
    using rest0 ledger_overflow_Ok(2) [OF assms(1)] by (auto simp: act_bind_Ok f' split: if_splits)
  note r' = reduce_episode_exact [OF assms(1) r, folded dir_def]
  have cash1: "book_cash (put_open ?a ep1 b) = book_cash b + dir * ?c * price - f * execution_costs e"
    using book_cash_put [OF assms(3), of ep1] r'(2) by simp
  have zero: "oe_quantity ep1 = 0 \<longleftrightarrow> \<bar>?q\<bar> \<le> \<bar>delta\<bar>"
  proof -
    have "oe_quantity ep1 = dir * (\<bar>?q\<bar> - ?c)" using r'(1) q(1) by (simp add: right_diff_distrib)
    then show ?thesis by (auto simp: dir_def min_def split: if_splits)
  qed
  have b2: "positions b2 = positions b" "book_cash b2 = book_cash (put_open ?a ep1 b)"
    "bget (open_episodes b2) k = (if k = ?a then (if oe_quantity ep1 = 0 then None else Some ep1) else bget (open_episodes b) k)" for k
  proof -
    have "positions b2 = positions b \<and> book_cash b2 = book_cash (put_open ?a ep1 b) \<and>
      bget (open_episodes b2) k = (if k = ?a then (if oe_quantity ep1 = 0 then None else Some ep1) else bget (open_episodes b) k)"
    proof (cases "oe_quantity ep1 = 0")
      case True
      with fin have "finish_episode A ?a t (put_open ?a ep1 b) = (Ok (), b2)" by simp
      from finish_episode_exact [OF assms(1) this _ True] True show ?thesis by simp
    next
      case False
      with fin have "b2 = put_open ?a ep1 b" by simp
      with False show ?thesis by simp
    qed
    then show "positions b2 = positions b" "book_cash b2 = book_cash (put_open ?a ep1 b)"
      "bget (open_episodes b2) k = (if k = ?a then (if oe_quantity ep1 = 0 then None else Some ep1) else bget (open_episodes b) k)"
      by simp_all
  qed
  show ?thesis
  proof (cases "residual = 0")
    case True
    then have le: "\<bar>delta\<bar> \<le> \<bar>?q\<bar>" and f: "f = 1" using res q(3) by (auto simp: f_def min_def split: if_splits)
    then have "dir * ?c = - delta" using q(2) by (simp add: min_def)
    moreover from this have "oe_quantity ep1 = ?q + delta" using r'(1) by simp
    ultimately show ?thesis using True rest b2 cash1 f by (auto simp: moved_def)
  next
    case False
    then have gt: "\<bar>?q\<bar> < \<bar>delta\<bar>" using res by (auto simp: min_def split: if_splits)
    then have e0: "oe_quantity ep1 = 0" and c: "dir * ?c = ?q" and rq: "residual = \<bar>delta\<bar> - \<bar>?q\<bar>"
      using zero q(1) res by (simp_all add: min_def)
    let ?n = "if sign_positive delta then residual else - residual"
    have n: "?n = ?q + delta" using rq assms(4) by (auto simp: sign_positive_def)
    have new: "open_new A H e price ?n (1 - f) b2 = (Ok u, b')" using rest False by simp
    have none: "bget (open_episodes b2) ?a = None" using b2(3) [of ?a] e0 by simp
    note o = open_new_exact [OF assms(1) new none]
    have "?q + delta \<noteq> 0" using gt by auto
    moreover have "book_cash b' = book_cash b - (delta * price + execution_costs e)"
      using o(2) b2(2) cash1 n c by (simp add: algebra_simps)
    ultimately show ?thesis using o(1,3) b2(1,3) n by (auto simp: moved_def)
  qed
qed

lemma apply_execution_exact:
  assumes "exact_arith A" and "apply_execution A H e t b = (Ok u, b')" and "book_ok b"
  shows "book_ok b' \<and> account_of b' = (if se_filled e = 0 then account_of b else
     trade (execution_asset e) (signed_quantity_of (pa_side (se_action e)) (se_filled e))
       (the (se_average_price e)) (execution_costs e) (account_of b))"
proof (cases "se_filled e = 0")
  case True
  with assms(2,3) show ?thesis by (auto simp: apply_execution_def Let_def split: if_splits)
next
  case False
  let ?a = "execution_asset e" and ?d = "signed_quantity_of (pa_side (se_action e)) (se_filled e)"
  let ?c = "bget_or 0 (positions b) ?a"
  have d: "?d \<noteq> 0" using False by (cases "pa_side (se_action e)") (simp_all add: signed_quantity_of_def)
  have cur: "se_position_before e = ?c"
    using assms(2) by (auto simp: apply_execution_def Let_def split: if_splits)
  from assms(2) False obtain price after b1 where price: "se_average_price e = Some price"
    and after: "ledger_overflow ''position'' (d_add A ?c ?d) = Ok after"
    and step: "(if ?c = 0 \<or> sign_positive ?c = sign_positive ?d then add_same_direction A H e price ?d
        else close_or_flip A H e price ?d t) b = (Ok (), b1)"
    and b1: "b' = b1\<lparr>positions := if after = 0 then bremove ?a (positions b1)
       else binsert ?a after (positions b1)\<rparr>"
    unfolding apply_execution_def Let_def cur by (simp add: outcome_simps) blast
  have b': "b' = b1\<lparr>positions := if ?c + ?d = 0 then bremove ?a (positions b1)
       else binsert ?a (?c + ?d) (positions b1)\<rparr>"
    using b1 ledger_overflow_Ok(1) [OF assms(1) after] by simp
  have pos: "bget (positions b) a = map_option oe_quantity (bget (open_episodes b) a)" for a
    using assms(3) by (simp add: book_ok_def)
  have nz: "bget (open_episodes b) a = Some ep \<Longrightarrow> oe_quantity ep \<noteq> 0" for a ep
    using assms(3) by (simp add: book_ok_def)
  have m: "moved ?a (?c + ?d) ?d (?d * price + execution_costs e) b b1"
  proof (cases "bget (open_episodes b) ?a")
    case None
    then have c0: "?c = 0" using pos [of ?a] by (simp add: bget_or_def)
    then have "add_same_direction A H e price ?d b = (Ok (), b1)" using step by simp
    from add_same_direction_exact [OF assms(1) this d, of ?d] None c0 show ?thesis by simp
  next
    case (Some ep)
    then have c: "?c = oe_quantity ep" "?c \<noteq> 0" using pos [of ?a] nz by (auto simp: bget_or_def)
    show ?thesis
    proof (cases "sign_positive ?c = sign_positive ?d")
      case True
      then have "add_same_direction A H e price ?d b = (Ok (), b1)" using step by simp
      from add_same_direction_exact [OF assms(1) this d, of "?c + ?d"] Some c d True show ?thesis
        by (auto simp: sign_positive_def)
    next
      case False
      then have cl: "close_or_flip A H e price ?d t b = (Ok (), b1)" using step c(2) by simp
      from close_or_flip_exact [OF assms(1) cl Some] c d False show ?thesis
        by (auto simp: sign_positive_def)
    qed
  qed
  have quant: "map_option oe_quantity (bget (open_episodes b') k)
      = (if k = ?a then (if ?c + ?d = 0 then None else Some (?c + ?d)) else map_option oe_quantity (bget (open_episodes b) k))"
    and posn: "bget (positions b') k = (if k = ?a then (if ?c + ?d = 0 then None else Some (?c + ?d)) else bget (positions b) k)" for k
    using m by (auto simp: b' moved_def)
  have "book_ok b'"
    unfolding book_ok_def
  proof (intro allI conjI impI)
    show "bget (positions b') k = map_option oe_quantity (bget (open_episodes b') k)" for k
      using quant [of k] posn [of k] pos [of k] by simp
    show "oe_quantity ep \<noteq> 0" if "bget (open_episodes b') k = Some ep" for k ep
      using quant [of k] that nz [of k] by (cases "bget (open_episodes b) k") (auto split: if_splits)
  qed
  moreover have "book_holding b' = (book_holding b)(?a := book_holding b ?a + ?d)"
    using posn by (auto simp: fun_eq_iff book_holding_def bget_or_def)
  moreover have "book_cash b' = book_cash b - ?d * price - execution_costs e"
    using m by (simp add: b' moved_def book_cash_def)
  ultimately show ?thesis using False price by (simp add: account_of_def trade_def)
qed

section \<open>Runs of the ledger\<close>

datatype ledger_call =
    PortfolioExecution shadow_execution nat
  | PortfolioFunding asset rat
  | SourceExecution string shadow_execution nat
  | ReconcilePortfolio asset rat
  | AttributionResidual string episode_id rat
  | EconomicResiduals string episode_id rat rat rat rat

definition ignore_value :: "('s, 'a, 'e) action \<Rightarrow> ('s, unit, 'e) action" where
  "ignore_value m = act_bind m (\<lambda>_. act_return ())"

fun ledger_step :: "decimal_ops \<Rightarrow> (bytes \<Rightarrow> bytes) \<Rightarrow> ledger_call \<Rightarrow> (dual_ledger, unit, ledger_error) action" where
  "ledger_step A H (PortfolioExecution e t) = ignore_value (apply_portfolio_execution A H e t)"
| "ledger_step A H (PortfolioFunding a cost) = apply_portfolio_funding A a cost"
| "ledger_step A H (SourceExecution c e t) = ignore_value (apply_source_execution A H c e t)"
| "ledger_step A H (ReconcilePortfolio a pnl) = reconcile_last_portfolio_gross_pnl A a pnl"
| "ledger_step A H (AttributionResidual c i r) = ignore_value (assign_source_attribution_residual A c i r)"
| "ledger_step A H (EconomicResiduals c i g fe fu sl) =
     ignore_value (assign_source_episode_economic_residuals A c i g fe fu sl)"

text \<open>A run ends at its first failure.\<close>

definition ledger_run :: "decimal_ops \<Rightarrow> (bytes \<Rightarrow> bytes) \<Rightarrow> ledger_call list \<Rightarrow> dual_ledger \<Rightarrow> dual_ledger ledger_result" where
  "ledger_run A H calls l = try_fold (\<lambda>l call. case ledger_step A H call l of
     (Ok _, l') \<Rightarrow> Ok l' | (Err e, _) \<Rightarrow> Err e | (Panic, _) \<Rightarrow> Panic) l calls"

lemma ledger_run_step:
  "(case ledger_step A H call l of (Ok _, l') \<Rightarrow> Ok l' | (Err e, _) \<Rightarrow> Err e | (Panic, _) \<Rightarrow> Panic) = Ok l'
     \<longleftrightarrow> ledger_step A H call l = (Ok (), l')"
  by (cases "ledger_step A H call l"; cases "fst (ledger_step A H call l)") auto

definition ledger_ok :: "dual_ledger \<Rightarrow> bool" where
  "ledger_ok l = (schema_version l = 2 \<and> book_ok (portfolio_book l) \<and> (\<forall>c b. bget (source_books l) c = Some b \<longrightarrow> book_ok b))"

lemma book_ok_empty: "book_ok empty_book"
  by (simp add: book_ok_def empty_book_def)

lemma on_last_closed_fields:
  assumes "on_last_closed P m b = (Ok x, b')"
  shows "positions b' = positions b" "open_episodes b' = open_episodes b"
  using assms by (auto simp: on_last_closed_def outcome_simps split: if_splits)

lemma book_ok_cong: "positions b' = positions b \<Longrightarrow> open_episodes b' = open_episodes b \<Longrightarrow> book_ok b' = book_ok b"
  by (simp add: book_ok_def)

lemma ledger_step_ok:
  assumes "exact_arith A" and "ledger_ok l" and "ledger_step A H call l = (Ok (), l')"
  shows "ledger_ok l'"
proof -
  have port: "book_ok (portfolio_book l)" and srcs: "\<And>c. book_ok (source_book l c)"
    using assms(2) book_ok_empty by (auto simp: ledger_ok_def source_book_def bget_or_def split: option.splits)
  have put_p: "book_ok b \<Longrightarrow> ledger_ok (put_portfolio b l)" and put_s: "book_ok b \<Longrightarrow> ledger_ok (put_source c b l)" for b c
    using assms(2) by (auto simp: ledger_ok_def put_portfolio_def put_source_def split: if_splits)
  have app: "apply_reporting A H e t b = (Ok x, b') \<Longrightarrow> book_ok b \<Longrightarrow> book_ok b'" for e t b x b'
    using apply_execution_exact [OF assms(1)] by (auto simp: apply_reporting_def outcome_simps)
  have last: "on_last_closed P m b = (Ok x, b') \<Longrightarrow> book_ok b \<Longrightarrow> book_ok b'" for P b b' x
    and m :: "(portfolio_episode, 'x, ledger_error) action"
    using on_last_closed_fields book_ok_cong by metis
  have some: "bget (source_books l) c = Some b \<Longrightarrow> book_ok b" for c b
    using assms(2) by (auto simp: ledger_ok_def)
  show ?thesis
  proof (cases call)
    case (PortfolioExecution e t)
    with assms(3) show ?thesis using app port put_p
      by (auto simp: ignore_value_def apply_portfolio_execution_def outcome_simps)
  next
    case (PortfolioFunding a cost)
    with assms(3) obtain ep x where "bget (open_episodes (portfolio_book l)) a = Some ep"
      and l': "l' = put_portfolio (put_open a (ep\<lparr>oe_funding := x\<rparr>) (portfolio_book l)) l"
      by (auto simp: apply_portfolio_funding_def outcome_simps)
    with port show ?thesis unfolding l' by (intro put_p) (auto simp: book_ok_def)
  next
    case (SourceExecution c e t)
    with assms(3) show ?thesis using app srcs put_s
      by (auto simp: ignore_value_def apply_source_execution_def outcome_simps)
  next
    case (ReconcilePortfolio a pnl)
    with assms(3) obtain b where "on_last_closed (\<lambda>ep. pe_asset ep = a)
        (act_bind (act_modify (pe_realized_pnl_update (\<lambda>_. pnl))) (\<lambda>_.
         act_assign (\<lambda>ep. net_of_costs A ''exchange reconciled episode net pnl'' pnl (pe_fees ep) (pe_funding ep) (pe_slippage ep))
           (\<lambda>x. pe_net_pnl_update (\<lambda>_. x)))) (portfolio_book l) = (Ok (), b)" and l': "l' = put_portfolio b l"
      by (simp add: reconcile_last_portfolio_gross_pnl_def act_zoom_Ok) blast
    from on_last_closed_fields [OF this(1)] port have "book_ok b" by (simp add: book_ok_def)
    then show ?thesis unfolding l' by (rule put_p)
  next
    case (AttributionResidual c i r)
    with assms(3) obtain b b' x m where "bget (source_books l) c = Some b" and l': "l' = put_source c b' l"
      and "on_last_closed (\<lambda>ep. pe_id ep = i) m b = (Ok (x :: source_episode), b')"
      by (auto simp: assign_source_attribution_residual_def ignore_value_def on_source_def act_bind_Ok act_entry_Ok)
    from on_last_closed_fields [OF this(3)] some [OF this(1)] have "book_ok b'" by (simp add: book_ok_def)
    then show ?thesis unfolding l' by (rule put_s)
  next
    case (EconomicResiduals c i g fe fu sl)
    with assms(3) obtain b b' x m where "bget (source_books l) c = Some b" and l': "l' = put_source c b' l"
      and "on_last_closed (\<lambda>ep. pe_id ep = i) m b = (Ok (x :: source_episode), b')"
      by (auto simp: assign_source_episode_economic_residuals_def ignore_value_def on_source_def act_bind_Ok act_entry_Ok)
    from on_last_closed_fields [OF this(3)] some [OF this(1)] have "book_ok b'" by (simp add: book_ok_def)
    then show ?thesis unfolding l' by (rule put_s)
  qed
qed

lemma validate_book_ok: "book_ok b \<Longrightarrow> validate_episode_book b = Ok ()"
  by (auto simp: validate_episode_book_def outcome_simps book_ok_def entries_get split: option.splits)

text \<open>
  The ledger's integrity check holds throughout: after any run of executions, funding, exchange
  reconciliations and attribution residuals that succeed, started from the default ledger, in which
  the decimal arithmetic does not round, \<open>validate_integrity\<close> accepts the ledger.
\<close>

theorem ledger_stays_valid:
  assumes "exact_arith A" and "ledger_run A H calls default_ledger = Ok l"
  shows "validate_integrity l = Ok ()"
proof -
  have "ledger_ok l"
  proof (rule try_fold_inv [OF assms(2) [unfolded ledger_run_def], of ledger_ok])
    show "ledger_ok default_ledger" by (simp add: ledger_ok_def default_ledger_def book_ok_empty)
  qed (auto simp: ledger_run_step intro: ledger_step_ok [OF assms(1)])
  then have "schema_version l = 2" "\<forall>b \<in> set (portfolio_book l # bvals (source_books l)). book_ok b"
    by (auto simp: ledger_ok_def set_bvals)
  then show ?thesis
    by (auto simp: validate_integrity_def validate_ledger_def outcome_simps validate_book_ok)
qed

section \<open>Equity\<close>

text \<open>The specification: the account of a run of executions and funding payments of one book.\<close>

fun account_step :: "ledger_call \<Rightarrow> rat \<times> (asset \<Rightarrow> rat) \<Rightarrow> rat \<times> (asset \<Rightarrow> rat)" where
  "account_step (PortfolioExecution e t) account = (if se_filled e = 0 then account else
     trade (execution_asset e) (signed_quantity_of (pa_side (se_action e)) (se_filled e))
       (the (se_average_price e)) (execution_costs e) account)"
| "account_step (PortfolioFunding a cost) account = (fst account - cost, snd account)"
| "account_step _ account = account"

fun trading_call :: "ledger_call \<Rightarrow> bool" where
  "trading_call (ReconcilePortfolio a pnl) = False"
| "trading_call _ = True"

lemma ledger_step_account:
  assumes "exact_arith A" and "ledger_ok l" and "ledger_step A H call l = (Ok (), l')" and "trading_call call"
  shows "account_of (portfolio_book l') = account_step call (account_of (portfolio_book l))"
proof (cases call)
  case (PortfolioExecution e t)
  with assms(3) obtain b x where a: "apply_execution A H e t (portfolio_book l) = (Ok x, b)" and "portfolio_book l' = b"
    by (auto simp: ignore_value_def apply_portfolio_execution_def apply_reporting_def put_portfolio_def outcome_simps)
  moreover have "book_ok (portfolio_book l)" using assms(2) by (simp add: ledger_ok_def)
  ultimately show ?thesis using apply_execution_exact [OF assms(1) a] by (simp add: PortfolioExecution)
next
  case (PortfolioFunding a cost)
  with assms(3) obtain ep x where ep: "bget (open_episodes (portfolio_book l)) a = Some ep"
    and x: "ledger_overflow ''funding'' (d_add A (oe_funding ep) cost) = Ok x"
    and l': "portfolio_book l' = put_open a (ep\<lparr>oe_funding := x\<rparr>) (portfolio_book l)"
    by (auto simp: apply_portfolio_funding_def put_portfolio_def outcome_simps)
  have "episode_cash (ep\<lparr>oe_funding := x\<rparr>) = episode_cash ep - cost"
    using ledger_overflow_Ok(1) [OF assms(1) x] by (simp add: episode_cash_def)
  then show ?thesis
    using book_cash_put [OF ep, of "ep\<lparr>oe_funding := x\<rparr>"]
    by (simp add: PortfolioFunding l' account_of_def book_holding_def fun_eq_iff)
qed (use assms(3,4) in \<open>auto simp: ignore_value_def apply_source_execution_def put_source_def on_source_def
    assign_source_attribution_residual_def assign_source_episode_economic_residuals_def outcome_simps\<close>)

lemma ledger_run_account:
  assumes "exact_arith A" and "ledger_run A H calls l = Ok l'" and "ledger_ok l" and "\<forall>call \<in> set calls. trading_call call"
  shows "ledger_ok l' \<and> account_of (portfolio_book l') = fold account_step calls (account_of (portfolio_book l))"
  using assms(2-)
proof (induction calls arbitrary: l)
  case (Cons call calls)
  then obtain l1 where st: "ledger_step A H call l = (Ok (), l1)" and rest: "ledger_run A H calls l1 = Ok l'"
    by (auto simp: ledger_run_def outcome_simps ledger_run_step)
  have "ledger_ok l1" by (rule ledger_step_ok [OF assms(1) Cons.prems(2) st])
  from Cons.IH [OF rest this] ledger_step_account [OF assms(1) Cons.prems(2) st] Cons.prems(3)
  show ?case by simp
qed (simp add: ledger_run_def)

lemma default_account: "account_of (portfolio_book default_ledger) = (0, \<lambda>_. 0)"
  by (simp add: account_of_def default_ledger_def empty_book_def book_cash_def book_holding_def fun_eq_iff)

lemma default_ok: "ledger_ok default_ledger"
  by (simp add: ledger_ok_def default_ledger_def book_ok_empty)

text \<open>The value of holdings at given marks, and the gains of partly closed episodes.\<close>

definition holdings_value :: "(asset, rat) bmap \<Rightarrow> episode_book \<Rightarrow> rat" where
  "holdings_value marks b = sum_list (map (\<lambda>a. book_holding b a * bget_or 0 marks a) (bkeys (positions b)))"

definition partial_gains :: "episode_book \<Rightarrow> rat" where
  "partial_gains b = sum_list (map (\<lambda>x. oe_realized_pnl (snd x)) (entries (open_episodes b)))"

lemma net_of_costs_exact:
  "exact_arith A \<Longrightarrow> net_of_costs A w p fe fu sl = Ok x \<Longrightarrow> x = p - fe - fu - sl"
  using ledger_overflow_Ok(2) [of A w] by (fastforce simp: net_of_costs_def outcome_simps)

lemma closed_equity_exact:
  assumes "exact_arith A"
    and "try_fold (\<lambda>equity ep. ledger_overflow w (d_add A equity (pe_net_pnl ep))) v eps = Ok x"
  shows "x = v + sum_list (map pe_net_pnl eps)"
  using assms(2)
proof (induction eps arbitrary: v)
  case (Cons ep eps)
  then obtain y where y: "ledger_overflow w (d_add A v (pe_net_pnl ep)) = Ok y"
    and rest: "try_fold (\<lambda>equity ep. ledger_overflow w (d_add A equity (pe_net_pnl ep))) y eps = Ok x"
    by (auto simp: outcome_simps)
  from Cons.IH [OF rest] ledger_overflow_Ok(1) [OF assms(1) y] show ?case by simp
qed simp

lemma open_equity_exact:
  assumes "exact_arith A" and "try_fold (add_open_equity A w w' marks) v xs = Ok x"
  shows "x = v + sum_list (map (\<lambda>(a, ep). episode_cash ep - oe_realized_pnl ep + oe_quantity ep * bget_or 0 marks a) xs)"
  using assms(2)
proof (induction xs arbitrary: v)
  case (Cons y ys)
  obtain a ep where y: "y = (a, ep)" by (cases y)
  from Cons.prems obtain v2 where one: "add_open_equity A w w' marks v (a, ep) = Ok v2"
    and rest: "try_fold (add_open_equity A w w' marks) v2 ys = Ok x"
    by (auto simp: y and_then_Ok)
  from one obtain mark move un v1 where mark: "bget marks a = Some mark"
    and move: "ledger_overflow w (if sign_positive (oe_quantity ep) then d_sub A mark (oe_average ep)
        else d_sub A (oe_average ep) mark) = Ok move"
    and un: "ledger_overflow w (d_mul A move \<bar>oe_quantity ep\<bar>) = Ok un" and v1: "ledger_overflow w' (d_add A v un) = Ok v1"
    and v2: "net_of_costs A w' v1 (oe_fees ep) (oe_funding ep) (oe_slippage ep) = Ok v2"
    by (auto simp: add_open_equity_def outcome_simps)
  have "move * \<bar>oe_quantity ep\<bar> = (mark - oe_average ep) * oe_quantity ep"
    using move by (auto simp: sign_positive_def left_diff_distrib split: if_splits
        dest!: ledger_overflow_Ok(2) [OF assms(1)])
  then have "v2 = v + (episode_cash ep - oe_realized_pnl ep + oe_quantity ep * bget_or 0 marks a)"
    using net_of_costs_exact [OF assms(1) v2] ledger_overflow_Ok(1) [OF assms(1) v1]
      ledger_overflow_Ok(3) [OF assms(1) un] mark
    by (simp add: episode_cash_def bget_or_def algebra_simps)
  with Cons.IH [OF rest] show ?case by (simp add: y)
qed simp

lemma equity_of_exact:
  assumes "exact_arith A" and "equity_of A w1 w2 w3 start marks b = Ok v" and "book_ok b"
  shows "v + partial_gains b = start + book_cash b + holdings_value marks b"
proof -
  from assms(2) obtain x where x: "try_fold (\<lambda>equity ep. ledger_overflow w1 (d_add A equity (pe_net_pnl ep))) start (closed_episodes b) = Ok x"
    and v: "try_fold (add_open_equity A w2 w3 marks) x (entries (open_episodes b)) = Ok v"
    by (auto simp: equity_of_def outcome_simps)
  have "positions b = bvmap (\<lambda>_ ep. oe_quantity ep) (open_episodes b)"
    using assms(3) by (intro bmap_eqI) (simp add: book_ok_def)
  then have keys: "bkeys (positions b) = map fst (entries (open_episodes b))"
    by (simp add: bkeys_def bvmap.rep_eq comp_def)
  have hold: "(a, ep) \<in> set (entries (open_episodes b)) \<Longrightarrow> book_holding b a = oe_quantity ep" for a ep
    using assms(3) by (simp add: book_holding_def bget_or_def book_ok_def entries_get)
  have "holdings_value marks b = sum_list (map (\<lambda>(a, ep). oe_quantity ep * bget_or 0 marks a) (entries (open_episodes b)))"
    unfolding holdings_value_def keys map_map
    by (intro arg_cong [of _ _ sum_list] map_cong) (auto simp: hold)
  then show ?thesis
    using closed_equity_exact [OF assms(1) x] open_equity_exact [OF assms(1) v]
    by (simp add: book_cash_def partial_gains_def case_prod_unfold sum_list_addf sum_list_subtractf)
qed


section \<open>Partly closed positions\<close>

definition sample_fill :: "side \<Rightarrow> rat \<Rightarrow> rat \<Rightarrow> rat \<Rightarrow> shadow_execution" where
  "sample_fill s quantity price before = \<lparr>se_id = [3], se_action = sample_action s, se_decision_timestamp = 1,
     se_decision_book_id = [1], se_evaluation_book_id = [2], se_latency_scenario = Expected, se_latency_ms = 1,
     se_limit_price = price, se_quantity = quantity, se_filled = quantity, se_average_price = Some price,
     se_remainder = 0, se_filled_notional = quantity * price, se_fees = 0, se_funding = 0, se_slippage = 0,
     se_position_before = before, se_position_after = before + signed_quantity_of s quantity\<rparr>"

definition sample_trades :: "ledger_call list" where
  "sample_trades = [PortfolioExecution (sample_fill Buy 2 100 0) 2, PortfolioExecution (sample_fill Sell 1 110 2) 3]"

definition sample_marks :: "(asset, rat) bmap" where
  "sample_marks = binsert ''BTC'' 110 bempty"

lemma sample_sequence [simp]: "checked_add_nat 64 0 (Suc 0) = Some (Suc 0)"
  by (simp add: checked_add_nat_def)

lemma sample_trades_run:
  "\<exists>l. ledger_run exact_ops H sample_trades default_ledger = Ok l
     \<and> portfolio_equity exact_ops 1000 sample_marks 0 l = Ok 1010 \<and> portfolio_position l ''BTC'' = 1"
  by (simp add: ledger_run_def sample_trades_def default_ledger_def ignore_value_def apply_portfolio_execution_def
      act_bind_def act_zoom_def apply_reporting_def apply_execution_def empty_book_def Let_def sample_fill_def
      execution_asset_def sample_action_def signed_quantity_of_def ledger_overflow_def exact_ops_eval
      add_same_direction_def open_new_def add_costs_def act_assign_def add_fraction_def act_local_def fail_if_def
      put_open_def put_portfolio_def)
    (simp add: sign_positive_def close_or_flip_def act_bind_def Let_def execution_asset_def act_entry_def
      reduce_episode_def ledger_overflow_def exact_ops_eval act_assign_def add_costs_def add_fraction_def put_open_def
      portfolio_equity_def equity_of_def binsert.rep_eq bempty.rep_eq add_open_equity_def sample_marks_def
      net_of_costs_def portfolio_position_def)

text \<open>
  Reported equity leaves out what partly closed positions have realized: there is a run without
  costs and without rounding (two units bought at 100, one sold at 110) after which, with the mark
  at 110, the reported equity is lower than the starting equity plus the account's cash and holdings.
\<close>

theorem equity_omits_partial_gains:
  "\<exists>A calls l marks equity. exact_arith A \<and> ledger_run A H calls default_ledger = Ok l
     \<and> portfolio_equity A 1000 marks 0 l = Ok equity
     \<and> (let account = fold account_step calls (0, \<lambda>_. 0) in
          equity < 1000 + fst account
            + sum_list (map (\<lambda>a. snd account a * bget_or 0 marks a) (portfolio_book_assets l)))"
proof -
  obtain l where l: "ledger_run exact_ops H sample_trades default_ledger = Ok l"
      "portfolio_equity exact_ops 1000 sample_marks 0 l = Ok 1010" "portfolio_position l ''BTC'' = 1"
    using sample_trades_run [of H] by blast
  have trading: "\<forall>call \<in> set sample_trades. trading_call call" by (simp add: sample_trades_def)
  let ?account = "fold account_step sample_trades (0, \<lambda>_. 0)"
  have acc: "fst ?account = - 90" "snd ?account = (\<lambda>a. if a = ''BTC'' then 1 else 0)"
    by (simp_all add: sample_trades_def sample_fill_def sample_action_def trade_def execution_asset_def
        signed_quantity_of_def execution_costs_def fun_eq_iff)
  have "ledger_ok l" and "account_of (portfolio_book l) = ?account"
    using ledger_run_account [OF exact_ops_exact l(1) default_ok trading] by (simp_all add: default_account)
  then have hold: "book_holding (portfolio_book l) a = (if a = ''BTC'' then 1 else 0)"
    and ok: "book_ok (portfolio_book l)" for a
    by (auto simp: account_of_def acc prod_eq_iff ledger_ok_def)
  have has: "bhas (positions (portfolio_book l)) a \<longleftrightarrow> a = ''BTC''" for a
  proof -
    have "bhas (positions (portfolio_book l)) a \<longleftrightarrow> book_holding (portfolio_book l) a \<noteq> 0"
      using ok by (auto simp: book_ok_def book_holding_def bget_or_def bhas_def split: option.splits)
    then show ?thesis by (simp add: hold)
  qed
  have "bkeys (positions (portfolio_book l)) = bkeys (binsert ''BTC'' (1 :: rat) bempty)"
    by (rule keys_eq) (simp add: has)
  then have "portfolio_book_assets l = [''BTC'']"
    by (simp add: portfolio_book_assets_def bkeys_def binsert.rep_eq bempty.rep_eq)
  then have "(1010 :: rat) < 1000 + fst ?account
      + sum_list (map (\<lambda>a. snd ?account a * bget_or 0 sample_marks a) (portfolio_book_assets l))"
    by (simp add: acc sample_marks_def)
  then show ?thesis using l(1,2) exact_ops_exact by (metis (no_types))
qed


lemma ledger_stays_valid_witness:
  "\<exists>l. ledger_run exact_ops (\<lambda>b. b) sample_trades default_ledger = Ok l \<and> validate_integrity l = Ok ()"
proof -
  obtain l where l: "ledger_run exact_ops (\<lambda>b. b) sample_trades default_ledger = Ok l"
    using sample_trades_run [of "\<lambda>b. b"] by blast
  from ledger_stays_valid [OF exact_ops_exact this] l show ?thesis by blast
qed

end
