(* ===== verification/Live_Trading.thy ===== *)
theory Live_Trading
  imports Ledger "HOL-Library.Product_Lexorder"
begin

text \<open>
  Accounting of the live account (\<open>copytrade-core/src/live_trading.rs\<close>): verified exchange fills and
  funding events are applied exactly once to the dual ledger, with the current, settled and
  deployment equity. A failing application works on a clone, so it leaves the state as it was: the
  operations return the new state only with their success.
\<close>

section \<open>Data\<close>

datatype exchange_fill_identity = ExchangeFillIdentity
  (exchange_order_id: string) (trade_id: string) (fill_cloid: planned_cloid)

definition identity_tuple :: "exchange_fill_identity \<Rightarrow> string \<times> string \<times> bytes" where
  "identity_tuple i = (exchange_order_id i, trade_id i, fill_cloid i)"

lemma identity_tuple_inj: "identity_tuple a = identity_tuple b \<Longrightarrow> a = b"
  by (cases a; cases b) (simp add: identity_tuple_def)

instantiation exchange_fill_identity :: linorder
begin
definition less_eq_exchange_fill_identity :: "exchange_fill_identity \<Rightarrow> exchange_fill_identity \<Rightarrow> bool" where
  "less_eq_exchange_fill_identity a b = (identity_tuple a \<le> identity_tuple b)"
definition less_exchange_fill_identity :: "exchange_fill_identity \<Rightarrow> exchange_fill_identity \<Rightarrow> bool" where
  "less_exchange_fill_identity a b = (identity_tuple a < identity_tuple b)"
instance
proof
  fix a b c :: exchange_fill_identity
  show "a < b \<longleftrightarrow> a \<le> b \<and> \<not> b \<le> a"
    unfolding less_eq_exchange_fill_identity_def less_exchange_fill_identity_def by (rule less_le_not_le)
  show "a \<le> a" by (simp add: less_eq_exchange_fill_identity_def)
  show "a \<le> b \<Longrightarrow> b \<le> c \<Longrightarrow> a \<le> c" unfolding less_eq_exchange_fill_identity_def by (rule order_trans)
  show "a \<le> b \<or> b \<le> a" unfolding less_eq_exchange_fill_identity_def by (rule linear)
  show "a \<le> b \<Longrightarrow> b \<le> a \<Longrightarrow> a = b"
    unfolding less_eq_exchange_fill_identity_def by (rule identity_tuple_inj) (rule antisym)
qed
end

datatype liquidity_classification = Maker | Taker | UnknownLiquidity

datatype strategy_component = SourceOnly | TechnicalOnly | SourceTechnicalAgreement | SourceTechnicalDisagreement

text \<open>\<open>MarketRegime\<close> and \<open>SignalArchetype\<close> of \<open>technical.rs\<close>.\<close>

datatype market_regime = StrongBull | TransitionUp | RangeRegime | TransitionDown | StrongBear

datatype signal_archetype = TrendPullback | RangeMeanReversion | RegimeBreakout

record strategy_attribution =
  sa_component :: strategy_component
  sa_source_fraction :: rat
  sa_technical_fraction :: rat
  sa_archetype :: "signal_archetype option"
  sa_regime :: "market_regime option"
  sa_side :: side

definition validate_attribution :: "decimal_ops \<Rightarrow> strategy_attribution \<Rightarrow> unit ledger_result" where
  "validate_attribution A sa = fail_if (sa_source_fraction sa < 0 \<or> sa_technical_fraction sa < 0
     \<or> 1 < sa_source_fraction sa \<or> 1 < sa_technical_fraction sa
     \<or> d_add A (sa_source_fraction sa) (sa_technical_fraction sa) \<noteq> Some 1)
     (InvalidLiveEvent ''strategy attribution fractions must sum to one'')"

record verified_fill =
  vf_identity :: exchange_fill_identity
  vf_decision_id :: decision_id
  vf_target_version :: target_version
  vf_root_cloid :: planned_cloid
  vf_parent_cloid :: "planned_cloid option"
  vf_generation :: nat
  vf_asset :: asset
  vf_side :: side
  vf_reduce_only :: bool
  vf_quantity :: rat
  vf_price :: rat
  vf_limit_price :: rat
  vf_fee :: rat
  vf_closed_pnl :: rat
  vf_fee_asset :: string
  vf_liquidity :: liquidity_classification
  vf_reference_price :: rat
  vf_occurred_at :: nat
  vf_decision_timestamp :: nat
  vf_equity_after :: rat
  vf_source_hash :: payload_hash

record verified_funding =
  fe_event_id :: bytes
  fe_asset :: asset
  fe_amount :: rat
  fe_occurred_at :: nat
  fe_source_hash :: payload_hash

record live_fill_accounting =
  la_identity :: exchange_fill_identity
  la_decision_id :: decision_id
  la_root_cloid :: planned_cloid
  la_parent_cloid :: "planned_cloid option"
  la_generation :: nat
  la_asset :: asset
  la_side :: side
  la_quantity :: rat
  la_price :: rat
  la_limit_price :: rat
  la_fee :: rat
  la_closed_pnl :: rat
  la_fee_asset :: string
  la_liquidity :: liquidity_classification
  la_reference_price :: rat
  la_slippage :: rat
  la_position_before :: rat
  la_position_after :: rat
  la_current_equity :: rat
  la_settled_equity :: rat
  la_deployment_equity :: rat
  la_occurred_at :: nat
  la_attribution :: "strategy_attribution option"

record funding_accounting =
  fa_event :: verified_funding
  fa_current_equity :: rat
  fa_settled_equity :: rat
  fa_deployment_equity :: rat

record live_trading_state =
  lt_schema_version :: nat
  starting_equity :: rat
  lt_current_equity :: rat
  settled_equity :: rat
  lt_deployment_equity :: rat
  ledger :: dual_ledger
  applied_fills :: "exchange_fill_identity bset"
  applied_funding :: "bytes bset"
  fill_events :: "live_fill_accounting list"
  funding_events :: "funding_accounting list"
  verified_fills :: "verified_fill list"
  verified_fundings :: "verified_funding list"
  exchange_gross_pnl :: "(asset, rat) bmap"
  open_attribution :: "(asset, strategy_attribution) bmap"
  closed_attribution :: "(episode_id, strategy_attribution) bmap"
  lt_fill_cursor :: nat
  lt_funding_cursor :: nat

datatype applied_fill_result = AppliedFill live_fill_accounting "portfolio_episode option" | FillAlreadyApplied

datatype applied_funding_result = AppliedFunding funding_accounting | FundingAlreadyApplied

section \<open>State\<close>

definition new_live_state :: "rat \<Rightarrow> nat \<Rightarrow> live_trading_state ledger_result" where
  "new_live_state equity cursor =
    and_then (fail_if (equity \<le> 0) (InvalidLiveEvent ''starting equity must be positive'')) (\<lambda>_.
    Ok \<lparr>lt_schema_version = 1, starting_equity = equity, lt_current_equity = equity, settled_equity = equity,
        lt_deployment_equity = equity, ledger = default_ledger, applied_fills = bempty, applied_funding = bempty,
        fill_events = [], funding_events = [], verified_fills = [], verified_fundings = [],
        exchange_gross_pnl = bempty, open_attribution = bempty, closed_attribution = bempty,
        lt_fill_cursor = cursor, lt_funding_cursor = cursor\<rparr>)"

definition live_position :: "live_trading_state \<Rightarrow> asset \<Rightarrow> rat" where
  "live_position s a = portfolio_position (ledger s) a"

definition live_positions :: "live_trading_state \<Rightarrow> (asset, rat) bmap" where
  "live_positions s = bcollect (map (\<lambda>a. (a, portfolio_position (ledger s) a)) (portfolio_book_assets (ledger s)))"

definition advance_fill_cursor :: "nat \<Rightarrow> live_trading_state \<Rightarrow> live_trading_state ledger_result" where
  "advance_fill_cursor cursor s = and_then (fail_if (cursor < lt_fill_cursor s)
     (InvalidLiveEvent ''fill cursor cannot move backwards'')) (\<lambda>_. Ok (s\<lparr>lt_fill_cursor := cursor\<rparr>))"

definition advance_funding_cursor :: "nat \<Rightarrow> live_trading_state \<Rightarrow> live_trading_state ledger_result" where
  "advance_funding_cursor cursor s = and_then (fail_if (cursor < lt_funding_cursor s)
     (InvalidLiveEvent ''funding cursor cannot move backwards'')) (\<lambda>_. Ok (s\<lparr>lt_funding_cursor := cursor\<rparr>))"

definition recompute_deployment :: "live_trading_state \<Rightarrow> live_trading_state" where
  "recompute_deployment s = s\<lparr>lt_deployment_equity := min (lt_current_equity s) (settled_equity s)\<rparr>"

definition reconcile_equity :: "rat \<Rightarrow> live_trading_state \<Rightarrow> live_trading_state ledger_result" where
  "reconcile_equity equity s = and_then (fail_if (equity \<le> 0)
     (InvalidLiveEvent ''exchange equity must be positive'')) (\<lambda>_.
     Ok (recompute_deployment (s\<lparr>lt_current_equity := equity\<rparr>)))"

definition reconcile_positions :: "(asset, rat) bmap \<Rightarrow> live_trading_state \<Rightarrow> unit ledger_result" where
  "reconcile_positions exchange s = (if live_positions s = exchange then Ok () else Err PositionDivergence)"

definition latest_exchange_event_timestamp :: "live_trading_state \<Rightarrow> nat option" where
  "latest_exchange_event_timestamp s = max_by cmp
     ((if verified_fills s = [] then [] else [vf_occurred_at (last (verified_fills s))])
      @ (if verified_fundings s = [] then [] else [fe_occurred_at (last (verified_fundings s))]))"

definition set_strategy_attribution ::
  "decimal_ops \<Rightarrow> asset \<Rightarrow> strategy_attribution \<Rightarrow> live_trading_state \<Rightarrow> live_trading_state ledger_result" where
  "set_strategy_attribution A a sa s = and_then (validate_attribution A sa) (\<lambda>_.
     Ok (s\<lparr>open_attribution := binsert a sa (open_attribution s)\<rparr>))"

definition closed_episode_attribution :: "live_trading_state \<Rightarrow> episode_id \<Rightarrow> strategy_attribution option" where
  "closed_episode_attribution s i = bget (closed_attribution s) i"

text \<open>The checks \<open>load\<close> makes on a stored state.\<close>

definition load_check :: "live_trading_state \<Rightarrow> live_trading_state ledger_result" where
  "load_check s =
    and_then (fail_if (lt_schema_version s \<noteq> 1 \<or> starting_equity s \<le> 0 \<or> lt_current_equity s \<le> 0
        \<or> settled_equity s \<le> 0 \<or> lt_deployment_equity s \<noteq> min (lt_current_equity s) (settled_equity s))
      SchemaMismatch) (\<lambda>_.
    let fill_ids = bset_of (map la_identity (fill_events s));
        funding_ids = bset_of (map (\<lambda>f. fe_event_id (fa_event f)) (funding_events s)) in
    and_then (fail_if (bsize fill_ids \<noteq> length (fill_events s) \<or> fill_ids \<noteq> applied_fills s
        \<or> bsize funding_ids \<noteq> length (funding_events s) \<or> funding_ids \<noteq> applied_funding s)
      SchemaMismatch) (\<lambda>_. Ok s))"

section \<open>Fills\<close>

definition validate_fill :: "verified_fill \<Rightarrow> unit ledger_result" where
  "validate_fill f = fail_if (vf_asset f = [] \<or> vf_quantity f \<le> 0 \<or> vf_price f \<le> 0 \<or> vf_limit_price f \<le> 0
     \<or> vf_fee_asset f = [] \<or> vf_reference_price f \<le> 0 \<or> vf_equity_after f \<le> 0
     \<or> vf_occurred_at f < vf_decision_timestamp f
     \<or> fill_cloid (vf_identity f) \<noteq> vf_root_cloid f \<and> vf_generation f = 0
     \<or> 0 < vf_generation f \<and> vf_parent_cloid f = None)
     (InvalidLiveEvent ''invalid verified exchange fill'')"

definition FILL_DOMAIN :: bytes where "FILL_DOMAIN = str_bytes ''LIVE/EXCHANGE_FILL/V1''"

definition derive_execution_id :: "(bytes \<Rightarrow> bytes) \<Rightarrow> exchange_fill_identity \<Rightarrow> bytes" where
  "derive_execution_id H i = H (FILL_DOMAIN
     @ enc_u32 (length (exchange_order_id i)) @ str_bytes (exchange_order_id i)
     @ enc_u32 (length (trade_id i)) @ str_bytes (trade_id i) @ fill_cloid i)"

definition fill_execution ::
  "(bytes \<Rightarrow> bytes) \<Rightarrow> verified_fill \<Rightarrow> rat \<Rightarrow> rat \<Rightarrow> rat \<Rightarrow> rat \<Rightarrow> shadow_execution" where
  "fill_execution H f notional slippage before after =
    \<lparr>se_id = derive_execution_id H (vf_identity f),
     se_action = \<lparr>pa_decision_id = vf_decision_id f, pa_target_version = vf_target_version f, pa_asset = vf_asset f,
        pa_side = vf_side f, pa_rounded_notional = notional, pa_reduce_only = vf_reduce_only f,
        pa_action_ordinal = 0, pa_retry_generation = vf_generation f,
        pa_planned_cloid = fill_cloid (vf_identity f)\<rparr>,
     se_decision_timestamp = vf_decision_timestamp f,
     se_decision_book_id = vf_source_hash f, se_evaluation_book_id = vf_source_hash f,
     se_latency_scenario = Expected, se_latency_ms = saturating_sub (vf_occurred_at f) (vf_decision_timestamp f),
     se_limit_price = vf_limit_price f, se_quantity = vf_quantity f, se_filled = vf_quantity f,
     se_average_price = Some (vf_price f), se_remainder = 0, se_filled_notional = notional,
     se_fees = vf_fee f, se_funding = 0, se_slippage = slippage,
     se_position_before = before, se_position_after = after\<rparr>"

text \<open>An action on the ledger inside a transaction: its state is kept on success and dropped on failure.\<close>

definition on_ledger :: "(dual_ledger, 'a, ledger_error) action \<Rightarrow> dual_ledger \<Rightarrow> ('a \<times> dual_ledger) ledger_result" where
  "on_ledger m l = (case m l of (Ok x, l') \<Rightarrow> Ok (x, l') | (Err e, _) \<Rightarrow> Err e | (Panic, _) \<Rightarrow> Panic)"

text \<open>The exchange's gross pnl of a closed episode replaces the ledger's own.\<close>

definition settle_close ::
  "decimal_ops \<Rightarrow> verified_fill \<Rightarrow> bool \<Rightarrow> (asset, rat) bmap \<Rightarrow> dual_ledger \<Rightarrow> ((asset, rat) bmap \<times> dual_ledger) ledger_result" where
  "settle_close A f did_close gross_map l =
    (if did_close then
       and_then (ok_or PositionDivergence (bget gross_map (vf_asset f))) (\<lambda>gross.
       and_then (on_ledger (reconcile_last_portfolio_gross_pnl A (vf_asset f) gross) l) (\<lambda>(_, l').
       Ok (bremove (vf_asset f) gross_map, l')))
     else Ok (gross_map, l))"

definition record_closed ::
  "decimal_ops \<Rightarrow> portfolio_episode option \<Rightarrow> live_trading_state \<Rightarrow> live_trading_state ledger_result" where
  "record_closed A ep_closed s = (case ep_closed of
     None \<Rightarrow> Ok s
   | Some ep \<Rightarrow>
     let s = (case bget (open_attribution s) (pe_asset ep) of
         Some sa \<Rightarrow> s\<lparr>open_attribution := bremove (pe_asset ep) (open_attribution s),
                     closed_attribution := binsert (pe_id ep) sa (closed_attribution s)\<rparr>
       | None \<Rightarrow> s) in
     and_then (ledger_overflow ''settled equity'' (d_add A (settled_equity s) (pe_net_pnl ep))) (\<lambda>settled.
     Ok (s\<lparr>settled_equity := settled\<rparr>)))"

definition fill_accounting ::
  "verified_fill \<Rightarrow> rat \<Rightarrow> rat \<Rightarrow> rat \<Rightarrow> strategy_attribution option \<Rightarrow> live_trading_state \<Rightarrow> live_fill_accounting" where
  "fill_accounting f slippage before after sa s =
    \<lparr>la_identity = vf_identity f, la_decision_id = vf_decision_id f, la_root_cloid = vf_root_cloid f,
     la_parent_cloid = vf_parent_cloid f, la_generation = vf_generation f, la_asset = vf_asset f,
     la_side = vf_side f, la_quantity = vf_quantity f, la_price = vf_price f, la_limit_price = vf_limit_price f,
     la_fee = vf_fee f, la_closed_pnl = vf_closed_pnl f, la_fee_asset = vf_fee_asset f,
     la_liquidity = vf_liquidity f, la_reference_price = vf_reference_price f, la_slippage = slippage,
     la_position_before = before, la_position_after = after, la_current_equity = lt_current_equity s,
     la_settled_equity = settled_equity s, la_deployment_equity = lt_deployment_equity s,
     la_occurred_at = vf_occurred_at f, la_attribution = sa\<rparr>"

definition apply_exchange_fill ::
  "decimal_ops \<Rightarrow> (bytes \<Rightarrow> bytes) \<Rightarrow> verified_fill \<Rightarrow> live_trading_state
     \<Rightarrow> (applied_fill_result \<times> live_trading_state) ledger_result" where
  "apply_exchange_fill A H f s =
    and_then (validate_fill f) (\<lambda>_.
    if bhas (applied_fills s) (vf_identity f) then
      (if f \<in> set (verified_fills s) then Ok (FillAlreadyApplied, s)
       else Err (InvalidLiveEvent ''exchange fill identity payload conflict''))
    else
      let before = portfolio_position (ledger s) (vf_asset f);
          sa = bget (open_attribution s) (vf_asset f);
          delta = signed_quantity_of (vf_side f) (vf_quantity f) in
      and_then (ledger_overflow ''live position'' (d_add A before delta)) (\<lambda>after.
      and_then (ledger_overflow ''live filled notional'' (d_mul A (vf_quantity f) (vf_price f))) (\<lambda>notional.
      and_then (ledger_overflow ''live slippage'' (d_sub A (vf_price f) (vf_reference_price f))) (\<lambda>difference.
      and_then (ledger_overflow ''live slippage'' (d_mul A \<bar>difference\<bar> (vf_quantity f))) (\<lambda>slippage.
      let closed_before = length (portfolio_closed (ledger s)) in
      and_then (on_ledger (apply_portfolio_execution A H (fill_execution H f notional slippage before after)
        (vf_occurred_at f)) (ledger s)) (\<lambda>(_, l1).
      and_then (ledger_overflow ''exchange gross pnl''
        (d_add A (bget_or 0 (exchange_gross_pnl s) (vf_asset f)) (vf_closed_pnl f))) (\<lambda>gross.
      let did_close = closed_before < length (portfolio_closed l1) in
      and_then (settle_close A f did_close (binsert (vf_asset f) gross (exchange_gross_pnl s)) l1) (\<lambda>(gross_map, l2).
      let ep_closed = (if did_close \<and> portfolio_closed l2 \<noteq> [] then Some (last (portfolio_closed l2)) else None) in
      and_then (record_closed A ep_closed (s\<lparr>ledger := l2, exchange_gross_pnl := gross_map\<rparr>)) (\<lambda>s1.
      let s2 = s1\<lparr>lt_current_equity := vf_equity_after f\<rparr> in
      and_then (fail_if (lt_current_equity s2 \<le> 0 \<or> settled_equity s2 \<le> 0)
        (InvalidLiveEvent ''equity became nonpositive'')) (\<lambda>_.
      let s3 = recompute_deployment s2;
          accounting = fill_accounting f slippage before after sa s3 in
      Ok (AppliedFill accounting ep_closed,
          s3\<lparr>applied_fills := binsert (vf_identity f) () (applied_fills s3),
             fill_events := fill_events s3 @ [accounting],
             verified_fills := verified_fills s3 @ [f]\<rparr>)))))))))))"

definition apply_funding_event ::
  "decimal_ops \<Rightarrow> verified_funding \<Rightarrow> live_trading_state \<Rightarrow> (applied_funding_result \<times> live_trading_state) ledger_result" where
  "apply_funding_event A ev s =
    and_then (fail_if (fe_asset ev = []) (InvalidLiveEvent ''funding asset is empty'')) (\<lambda>_.
    if bhas (applied_funding s) (fe_event_id ev) then
      (if ev \<in> set (verified_fundings s) then Ok (FundingAlreadyApplied, s)
       else Err (InvalidLiveEvent ''funding event identity payload conflict''))
    else
      and_then (on_ledger (apply_portfolio_funding A (fe_asset ev) (- fe_amount ev)) (ledger s)) (\<lambda>(_, l).
      and_then (ledger_overflow ''funding equity'' (d_add A (lt_current_equity s) (fe_amount ev))) (\<lambda>equity.
      and_then (fail_if (equity \<le> 0) (InvalidLiveEvent ''funding made equity nonpositive'')) (\<lambda>_.
      let s1 = recompute_deployment (s\<lparr>ledger := l, lt_current_equity := equity\<rparr>);
          accounting = \<lparr>fa_event = ev, fa_current_equity = lt_current_equity s1,
             fa_settled_equity = settled_equity s1, fa_deployment_equity = lt_deployment_equity s1\<rparr> in
      Ok (AppliedFunding accounting,
          s1\<lparr>applied_funding := binsert (fe_event_id ev) () (applied_funding s1),
             funding_events := funding_events s1 @ [accounting],
             verified_fundings := verified_fundings s1 @ [ev]\<rparr>)))))"


section \<open>Runs\<close>

text \<open>The methods of the state, and a run of calls: a call that fails leaves the state as it was.\<close>

datatype live_call =
    ApplyFill verified_fill
  | ApplyFunding verified_funding
  | AdvanceFillCursor nat
  | AdvanceFundingCursor nat
  | ReconcileEquity rat
  | SetAttribution asset strategy_attribution

fun live_step :: "decimal_ops \<Rightarrow> (bytes \<Rightarrow> bytes) \<Rightarrow> live_call \<Rightarrow> live_trading_state \<Rightarrow> live_trading_state ledger_result" where
  "live_step A H (ApplyFill f) s = and_then (apply_exchange_fill A H f s) (\<lambda>(_, s'). Ok s')"
| "live_step A H (ApplyFunding ev) s = and_then (apply_funding_event A ev s) (\<lambda>(_, s'). Ok s')"
| "live_step A H (AdvanceFillCursor c) s = advance_fill_cursor c s"
| "live_step A H (AdvanceFundingCursor c) s = advance_funding_cursor c s"
| "live_step A H (ReconcileEquity x) s = reconcile_equity x s"
| "live_step A H (SetAttribution a sa) s = set_strategy_attribution A a sa s"

definition live_exec :: "decimal_ops \<Rightarrow> (bytes \<Rightarrow> bytes) \<Rightarrow> live_call \<Rightarrow> live_trading_state \<Rightarrow> live_trading_state" where
  "live_exec A H c s = (case live_step A H c s of Ok s' \<Rightarrow> s' | _ \<Rightarrow> s)"

text \<open>
  What the state guarantees: the checks of \<open>load\<close>, and that every identity applied has the event it
  stands for.
\<close>

definition live_ok :: "live_trading_state \<Rightarrow> bool" where
  "live_ok s = (lt_schema_version s = 1 \<and> 0 < starting_equity s \<and> 0 < lt_current_equity s \<and> 0 < settled_equity s
     \<and> lt_deployment_equity s = min (lt_current_equity s) (settled_equity s)
     \<and> map la_identity (fill_events s) = map vf_identity (verified_fills s)
     \<and> map fa_event (funding_events s) = verified_fundings s
     \<and> distinct (map vf_identity (verified_fills s)) \<and> distinct (map fe_event_id (verified_fundings s))
     \<and> applied_fills s = bset_of (map vf_identity (verified_fills s))
     \<and> applied_funding s = bset_of (map fe_event_id (verified_fundings s)))"

lemma bset_of_snoc: "bset_of (ks @ [k]) = binsert k () (bset_of ks)"
  by (rule bmap_eqI) (auto simp: bset_of_def bget_collect map_of_eq_None_iff)

lemma bsize_bset_of: "distinct ks \<Longrightarrow> bsize (bset_of ks) = length ks"
proof (induction ks rule: rev_induct)
  case Nil
  then show ?case by (simp add: bset_of_def bcollect_def)
next
  case (snoc k ks)
  then show ?case by (simp add: bset_of_snoc bsize_insert_new)
qed

lemma on_ledger_Ok [outcome_simps]: "on_ledger m l = Ok (x, l') \<longleftrightarrow> m l = (Ok x, l')"
  by (cases "m l"; cases "fst (m l)") (auto simp: on_ledger_def)

lemma recompute_deployment_fields [simp]:
  "recompute_deployment s = s\<lparr>lt_deployment_equity := min (lt_current_equity s) (settled_equity s)\<rparr>"
  by (simp add: recompute_deployment_def)

lemma record_closed_fields:
  assumes "record_closed A ep s = Ok s'"
  shows "\<exists>om cm v. s' = s\<lparr>open_attribution := om, closed_attribution := cm, settled_equity := v\<rparr>
    \<and> (case ep of None \<Rightarrow> v = settled_equity s
       | Some x \<Rightarrow> ledger_overflow ''settled equity'' (d_add A (settled_equity s) (pe_net_pnl x)) = Ok v)"
proof (cases ep)
  case None
  with assms have "s' = s\<lparr>open_attribution := open_attribution s, closed_attribution := closed_attribution s,
      settled_equity := settled_equity s\<rparr>" by (simp add: record_closed_def)
  then show ?thesis using None by fastforce
next
  case (Some x)
  show ?thesis
  proof (cases "bget (open_attribution s) (pe_asset x)")
    case None
    with assms Some obtain v where "ledger_overflow ''settled equity'' (d_add A (settled_equity s) (pe_net_pnl x)) = Ok v"
      "s' = s\<lparr>settled_equity := v\<rparr>" by (auto simp: record_closed_def outcome_simps)
    then have "s' = s\<lparr>open_attribution := open_attribution s, closed_attribution := closed_attribution s,
      settled_equity := v\<rparr>" by simp
    then show ?thesis using Some \<open>ledger_overflow _ _ = _\<close> by fastforce
  next
    case (Some sa)
    with assms \<open>ep = Some x\<close> show ?thesis by (auto simp: record_closed_def outcome_simps Let_def)
  qed
qed

text \<open>An application of a new fill, in its three parts: the ledger's step, the close it made, the event it records.\<close>

lemma apply_fill_new:
  assumes "apply_exchange_fill A H f s = Ok (r, s')" and "\<not> bhas (applied_fills s) (vf_identity f)"
  shows "\<exists>e x l1 l2 g0 g ep s1 acc did. apply_portfolio_execution A H e (vf_occurred_at f) (ledger s) = (Ok x, l1)
    \<and> did = (length (portfolio_closed (ledger s)) < length (portfolio_closed l1))
    \<and> settle_close A f did g0 l1 = Ok (g, l2)
    \<and> ep = (if did \<and> portfolio_closed l2 \<noteq> [] then Some (last (portfolio_closed l2)) else None)
    \<and> record_closed A ep (s\<lparr>ledger := l2, exchange_gross_pnl := g\<rparr>) = Ok s1
    \<and> 0 < vf_equity_after f \<and> 0 < settled_equity s1 \<and> la_identity acc = vf_identity f \<and> r = AppliedFill acc ep
    \<and> s' = s1\<lparr>lt_current_equity := vf_equity_after f,
       lt_deployment_equity := min (vf_equity_after f) (settled_equity s1),
       applied_fills := binsert (vf_identity f) () (applied_fills s1),
       fill_events := fill_events s1 @ [acc], verified_fills := verified_fills s1 @ [f]\<rparr>"
proof -
  have not: "bhas (applied_fills s) (vf_identity f) = False" using assms(2) by simp
  obtain e x l1 g0 g l2 s1 before after slippage where
    "apply_portfolio_execution A H e (vf_occurred_at f) (ledger s) = (Ok x, l1)"
    and "settle_close A f (length (portfolio_closed (ledger s)) < length (portfolio_closed l1)) g0 l1 = Ok (g, l2)"
    and "record_closed A (if length (portfolio_closed (ledger s)) < length (portfolio_closed l1) \<and> portfolio_closed l2 \<noteq> []
        then Some (last (portfolio_closed l2)) else None) (s\<lparr>ledger := l2, exchange_gross_pnl := g\<rparr>) = Ok s1"
    and "0 < vf_equity_after f" "0 < settled_equity s1"
    and "(r, s') = (let s3 = recompute_deployment (s1\<lparr>lt_current_equity := vf_equity_after f\<rparr>);
        acc = fill_accounting f slippage before after (bget (open_attribution s) (vf_asset f)) s3 in
      (AppliedFill acc (if length (portfolio_closed (ledger s)) < length (portfolio_closed l1) \<and> portfolio_closed l2 \<noteq> []
        then Some (last (portfolio_closed l2)) else None),
       s3\<lparr>applied_fills := binsert (vf_identity f) () (applied_fills s3),
          fill_events := fill_events s3 @ [acc], verified_fills := verified_fills s3 @ [f]\<rparr>))"
    using assms(1) unfolding apply_exchange_fill_def not if_False Let_def
    by (simp only: and_then_Ok split_paired_Ex prod.case fail_if_Ok on_ledger_Ok outcome.inject prod.inject)
      (fastforce simp: Let_def)
  then show ?thesis by (fastforce simp: Let_def fill_accounting_def)
qed


lemma apply_fill_old:
  assumes "bhas (applied_fills s) (vf_identity f)"
  shows "apply_exchange_fill A H f s = and_then (validate_fill f) (\<lambda>_.
    if f \<in> set (verified_fills s) then Ok (FillAlreadyApplied, s)
    else Err (InvalidLiveEvent ''exchange fill identity payload conflict''))"
  using assms by (simp add: apply_exchange_fill_def)

lemma apply_fill_state:
  assumes "apply_exchange_fill A H f s = Ok (r, s')"
  obtains (old) "bhas (applied_fills s) (vf_identity f)" "s' = s" "f \<in> set (verified_fills s)" "r = FillAlreadyApplied"
  | (new) "\<not> bhas (applied_fills s) (vf_identity f)"
  using assms by (cases "bhas (applied_fills s) (vf_identity f)")
    (auto simp: apply_fill_old outcome_simps split: if_splits)

lemma live_ok_step:
  assumes "live_ok s" and "live_step A H c s = Ok s'"
  shows "live_ok s'"
proof (cases c)
  case (ApplyFill f)
  with assms(2) obtain r where r: "apply_exchange_fill A H f s = Ok (r, s')" by (auto simp: outcome_simps)
  then show ?thesis
  proof (cases rule: apply_fill_state)
    case old
    with assms(1) show ?thesis by simp
  next
    case new
    from apply_fill_new [OF r new] obtain l2 g ep s1 acc where
      s1: "record_closed A ep (s\<lparr>ledger := l2, exchange_gross_pnl := g\<rparr>) = Ok s1"
      and pos: "0 < vf_equity_after f" "0 < settled_equity s1" "la_identity acc = vf_identity f"
      and s': "s' = s1\<lparr>lt_current_equity := vf_equity_after f,
       lt_deployment_equity := min (vf_equity_after f) (settled_equity s1),
       applied_fills := binsert (vf_identity f) () (applied_fills s1),
       fill_events := fill_events s1 @ [acc], verified_fills := verified_fills s1 @ [f]\<rparr>"
      by blast
    from new assms(1) have "vf_identity f \<notin> set (map vf_identity (verified_fills s))" by (simp add: live_ok_def)
    with record_closed_fields [OF s1] pos assms(1) show ?thesis
      by (auto simp: live_ok_def s' bset_of_snoc)
  qed
next
  case (ApplyFunding ev)
  with assms(2) obtain r where r: "apply_funding_event A ev s = Ok (r, s')" by (auto simp: outcome_simps)
  show ?thesis
  proof (cases "bhas (applied_funding s) (fe_event_id ev)")
    case True
    with r assms(1) show ?thesis by (auto simp: apply_funding_event_def outcome_simps split: if_splits)
  next
    case False
    with assms(1) have "fe_event_id ev \<notin> set (map fe_event_id (verified_fundings s))" by (simp add: live_ok_def)
    with r False assms(1) show ?thesis
      by (auto simp: apply_funding_event_def outcome_simps live_ok_def bset_of_snoc Let_def)
  qed
qed (use assms in \<open>auto simp: live_ok_def outcome_simps advance_fill_cursor_def advance_funding_cursor_def
       reconcile_equity_def set_strategy_attribution_def\<close>)

lemma live_ok_new: "new_live_state x c = Ok s \<Longrightarrow> live_ok s"
  by (auto simp: new_live_state_def outcome_simps live_ok_def bset_of_def bcollect_def)

interpretation live: machine "live_exec A H" live_ok for A H
  by unfold_locales (auto simp: live_exec_def split: outcome.splits intro: live_ok_step)

lemma live_ok_loads:
  assumes "live_ok s"
  shows "load_check s = Ok s"
proof -
  have fills: "map la_identity (fill_events s) = map vf_identity (verified_fills s)"
    and funding: "map (\<lambda>f. fe_event_id (fa_event f)) (funding_events s) = map fe_event_id (verified_fundings s)"
    using assms by (auto simp: live_ok_def simp flip: map_map [of fe_event_id fa_event, unfolded comp_def])
  have len: "length (fill_events s) = length (verified_fills s)" "length (funding_events s) = length (verified_fundings s)"
    using fills funding by (metis length_map)+
  from assms show ?thesis
    by (simp add: load_check_def live_ok_def fail_if_def Let_def fills funding len bsize_bset_of)
qed

text \<open>An event that was recorded stays recorded: the invariant with one event of each kind added.\<close>

definition records_fill :: "verified_fill \<Rightarrow> live_trading_state \<Rightarrow> bool" where
  "records_fill f s = (live_ok s \<and> f \<in> set (verified_fills s))"

definition records_funding :: "verified_funding \<Rightarrow> live_trading_state \<Rightarrow> bool" where
  "records_funding ev s = (live_ok s \<and> ev \<in> set (verified_fundings s))"

lemma live_step_keeps:
  assumes "live_step A H c s = Ok s'"
  shows "set (verified_fills s) \<subseteq> set (verified_fills s') \<and> set (verified_fundings s) \<subseteq> set (verified_fundings s')"
proof (cases c)
  case (ApplyFill f)
  with assms obtain r where r: "apply_exchange_fill A H f s = Ok (r, s')" by (auto simp: outcome_simps)
  then show ?thesis
  proof (cases rule: apply_fill_state)
    case new
    from apply_fill_new [OF r new] obtain l2 g ep s1 acc where
      s1: "record_closed A ep (s\<lparr>ledger := l2, exchange_gross_pnl := g\<rparr>) = Ok s1"
      and s': "s' = s1\<lparr>lt_current_equity := vf_equity_after f,
       lt_deployment_equity := min (vf_equity_after f) (settled_equity s1),
       applied_fills := binsert (vf_identity f) () (applied_fills s1),
       fill_events := fill_events s1 @ [acc], verified_fills := verified_fills s1 @ [f]\<rparr>"
      by blast
    from record_closed_fields [OF s1] show ?thesis by (auto simp: s')
  qed simp
next
  case (ApplyFunding ev)
  with assms obtain r where "apply_funding_event A ev s = Ok (r, s')" by (auto simp: outcome_simps)
  then show ?thesis by (auto simp: apply_funding_event_def outcome_simps Let_def split: if_splits)
qed (use assms in \<open>auto simp: outcome_simps advance_fill_cursor_def advance_funding_cursor_def
       reconcile_equity_def set_strategy_attribution_def\<close>)

interpretation live_fill: machine "live_exec A H" "records_fill f" for A H f
  by unfold_locales
    (use live_step_keeps live_ok_step in \<open>fastforce simp: live_exec_def records_fill_def split: outcome.splits\<close>)

interpretation live_funding: machine "live_exec A H" "records_funding ev" for A H ev
  by unfold_locales
    (use live_step_keeps live_ok_step in \<open>fastforce simp: live_exec_def records_funding_def split: outcome.splits\<close>)

lemma recorded_fill_is_applied:
  "records_fill f s \<Longrightarrow> validate_fill f = Ok () \<Longrightarrow> apply_exchange_fill A H f s = Ok (FillAlreadyApplied, s)"
  by (simp add: records_fill_def live_ok_def apply_fill_old)

lemma recorded_fill_conflicts:
  assumes "records_fill f s" and "vf_identity g = vf_identity f" and "g \<noteq> f" and "validate_fill g = Ok ()"
  shows "apply_exchange_fill A H g s = Err (InvalidLiveEvent ''exchange fill identity payload conflict'')"
proof -
  have "g \<notin> set (verified_fills s)"
    using assms(1-3) by (auto simp: records_fill_def live_ok_def distinct_map dest: inj_onD)
  moreover have "bhas (applied_fills s) (vf_identity g)"
    using assms(1,2) by (simp add: records_fill_def live_ok_def)
  ultimately show ?thesis using assms(4) by (simp add: apply_fill_old)
qed

lemma recorded_funding_is_applied:
  "records_funding ev s \<Longrightarrow> fe_asset ev \<noteq> [] \<Longrightarrow> apply_funding_event A ev s = Ok (FundingAlreadyApplied, s)"
  by (auto simp: records_funding_def live_ok_def apply_funding_event_def)

lemma apply_fill_records:
  assumes "apply_exchange_fill A H f s = Ok (r, s')" and "live_ok s"
  shows "records_fill f s' \<and> validate_fill f = Ok ()"
proof -
  have v: "validate_fill f = Ok ()" using assms(1) by (auto simp: apply_exchange_fill_def outcome_simps)
  have "live_step A H (ApplyFill f) s = Ok s'" using assms(1) by simp
  then have "live_ok s'" using assms(2) by (blast intro: live_ok_step)
  moreover have "f \<in> set (verified_fills s')"
    using assms(1) by (cases rule: apply_fill_state) (use apply_fill_new [OF assms(1)] in \<open>auto\<close>)
  ultimately show ?thesis using v by (simp add: records_fill_def)
qed

lemma apply_funding_records:
  assumes "apply_funding_event A ev s = Ok (r, s')" and "live_ok s"
  shows "records_funding ev s' \<and> fe_asset ev \<noteq> []"
proof -
  have "live_step A (\<lambda>b. b) (ApplyFunding ev) s = Ok s'" using assms(1) by simp
  then have "live_ok s'" using assms(2) by (blast intro: live_ok_step)
  with assms(1) show ?thesis
    by (auto simp: records_funding_def apply_funding_event_def outcome_simps Let_def split: if_splits)
qed


text \<open>
  C24. A live state can always be loaded again: after any calls on a new state, whatever fails among
  them, the checks \<open>load\<close> makes accept the state, so positive equities, the deployment equity as the
  smaller of current and settled equity, and one accounting event for each applied identity.
\<close>

theorem live_state_loads:
  assumes "new_live_state equity cursor = Ok s"
  shows "load_check (fold (live_exec A H) calls s) = Ok (fold (live_exec A H) calls s)"
  using live.invar_run [OF live_ok_new [OF assms]] by (rule live_ok_loads)


section \<open>Settled equity\<close>

text \<open>An execution closes at most one episode.\<close>

lemma open_new_closed: "open_new A H e p q f b = (Ok u, b') \<Longrightarrow> closed_episodes b' = closed_episodes b"
  by (auto simp: open_new_def outcome_simps put_open_def Let_def)

lemma finish_closed:
  "finish_episode A a t b = (Ok u, b') \<Longrightarrow> \<exists>ep. closed_episodes b' = closed_episodes b @ [ep]"
  by (auto simp: finish_episode_def outcome_simps)

lemma close_or_flip_closed:
  assumes "close_or_flip A H e p d t b = (Ok u, b')"
  shows "closed_episodes b' = closed_episodes b \<or> (\<exists>ep. closed_episodes b' = closed_episodes b @ [ep])"
proof -
  let ?a = "execution_asset e"
  from assms obtain ep b2 r f where
    fin: "(if \<exists>x \<in> set_option (bget (open_episodes (put_open ?a ep b)) ?a). oe_quantity x = 0
        then finish_episode A ?a t (put_open ?a ep b) else (Ok (), put_open ?a ep b)) = (Ok (), b2)"
    and rest: "(if r = 0 then act_return () else
        act_bind (act_try (ledger_overflow ''residual fraction'' (d_sub A 1 f))) (\<lambda>g.
          open_new A H e p (if sign_positive d then r else - r) g)) b2 = (Ok u, b')"
    unfolding close_or_flip_def Let_def
    by (simp add: act_bind_Ok act_entry_Ok ok_or_Ok del: put_open_fields) blast
  have "closed_episodes b' = closed_episodes b2"
    using rest by (auto simp: act_bind_Ok open_new_closed split: if_splits)
  moreover have "closed_episodes (put_open ?a ep b) = closed_episodes b" by (simp add: put_open_def)
  ultimately show ?thesis using fin by (auto split: if_splits dest: finish_closed)
qed

lemma apply_execution_closed:
  assumes "apply_execution A H e t b = (Ok u, b')"
  shows "closed_episodes b' = closed_episodes b \<or> (\<exists>ep. closed_episodes b' = closed_episodes b @ [ep])"
proof (cases "bget_or 0 (positions b) (execution_asset e) = se_position_before e \<and> se_filled e \<noteq> 0")
  case False
  with assms show ?thesis by (auto simp: apply_execution_def Let_def split: if_splits)
next
  case True
  let ?a = "execution_asset e"
  from True assms obtain p d af b1 where
    m: "(if bget_or 0 (positions b) ?a = 0 \<or> sign_positive (bget_or 0 (positions b) ?a) = sign_positive d
        then add_same_direction A H e p d else close_or_flip A H e p d t) b = (Ok (), b1)"
    and b': "b' = b1\<lparr>positions := if af = 0 then bremove ?a (positions b1) else binsert ?a af (positions b1)\<rparr>"
    unfolding apply_execution_def Let_def
    by (simp add: act_bind_Ok del: if_split) blast
  from m have "closed_episodes b1 = closed_episodes b \<or> (\<exists>ep. closed_episodes b1 = closed_episodes b @ [ep])"
    by (auto simp: add_same_direction_def act_entry_Ok put_open_def dest: close_or_flip_closed open_new_closed
        split: option.splits if_splits)
  with b' show ?thesis by simp
qed

lemma portfolio_execution_closed:
  assumes "apply_portfolio_execution A H e t l = (Ok x, l')"
  shows "portfolio_closed l' = portfolio_closed l \<or> (\<exists>ep. portfolio_closed l' = portfolio_closed l @ [ep])"
  using assms by (auto simp: apply_portfolio_execution_def apply_reporting_def outcome_simps portfolio_closed_def
      put_portfolio_def dest!: apply_execution_closed)

definition closed_pnl :: "dual_ledger \<Rightarrow> rat" where
  "closed_pnl l = sum_list (map pe_net_pnl (portfolio_closed l))"

lemma reconcile_gross_closed:
  assumes "reconcile_last_portfolio_gross_pnl A a g l = (Ok u, l')"
  shows "\<exists>ep. portfolio_closed l \<noteq> [] \<and> portfolio_closed l' = butlast (portfolio_closed l) @ [ep]"
  using assms by (auto simp: reconcile_last_portfolio_gross_pnl_def on_last_closed_def outcome_simps
      portfolio_closed_def put_portfolio_def split: if_splits)

text \<open>What a new fill adds to the settled equity is what its close added to the ledger.\<close>

lemma fill_settles:
  assumes "exact_arith A" and "apply_exchange_fill A H f s = Ok (r, s')" and "\<not> bhas (applied_fills s) (vf_identity f)"
  shows "settled_equity s' - closed_pnl (ledger s') = settled_equity s - closed_pnl (ledger s)
    \<and> starting_equity s' = starting_equity s"
proof -
  from apply_fill_new [OF assms(2,3)] obtain e x l1 l2 g0 g ep s1 acc did where
    l1: "apply_portfolio_execution A H e (vf_occurred_at f) (ledger s) = (Ok x, l1)"
    and did: "did = (length (portfolio_closed (ledger s)) < length (portfolio_closed l1))"
    and l2: "settle_close A f did g0 l1 = Ok (g, l2)"
    and ep: "ep = (if did \<and> portfolio_closed l2 \<noteq> [] then Some (last (portfolio_closed l2)) else None)"
    and s1: "record_closed A ep (s\<lparr>ledger := l2, exchange_gross_pnl := g\<rparr>) = Ok s1"
    and s': "s' = s1\<lparr>lt_current_equity := vf_equity_after f,
       lt_deployment_equity := min (vf_equity_after f) (settled_equity s1),
       applied_fills := binsert (vf_identity f) () (applied_fills s1),
       fill_events := fill_events s1 @ [acc], verified_fills := verified_fills s1 @ [f]\<rparr>"
    by blast
  have keep: "ledger s' = l2" "starting_equity s' = starting_equity s" "settled_equity s' = settled_equity s1"
    using record_closed_fields [OF s1] by (auto simp: s')
  show ?thesis
  proof (cases did)
    case True
    with portfolio_execution_closed [OF l1] did obtain y where y: "portfolio_closed l1 = portfolio_closed (ledger s) @ [y]"
      by auto
    from l2 True obtain v where "reconcile_last_portfolio_gross_pnl A (vf_asset f) v l1 = (Ok (), l2)"
      by (auto simp: settle_close_def outcome_simps)
    from reconcile_gross_closed [OF this] y obtain z where z: "portfolio_closed l2 = portfolio_closed (ledger s) @ [z]" by auto
    with True ep have "ep = Some z" by simp
    with record_closed_fields [OF s1] have "settled_equity s1 = settled_equity s + pe_net_pnl z"
      by (auto dest: ledger_overflow_Ok(1) [OF assms(1)])
    with z show ?thesis by (simp add: keep closed_pnl_def)
  next
    case False
    with l2 have "l2 = l1" by (simp add: settle_close_def)
    moreover have "portfolio_closed l1 = portfolio_closed (ledger s)"
      using portfolio_execution_closed [OF l1] False did by auto
    moreover have "settled_equity s1 = settled_equity s" using record_closed_fields [OF s1] False ep by auto
    ultimately show ?thesis by (simp add: keep closed_pnl_def)
  qed
qed

definition settles :: "rat \<Rightarrow> live_trading_state \<Rightarrow> bool" where
  "settles equity s = (starting_equity s = equity \<and> settled_equity s = equity + closed_pnl (ledger s))"

lemma settles_step:
  assumes "exact_arith A" and "settles x s" and "live_step A H c s = Ok s'"
  shows "settles x s'"
proof (cases c)
  case (ApplyFill f)
  with assms(3) obtain r where r: "apply_exchange_fill A H f s = Ok (r, s')" by (auto simp: outcome_simps)
  then show ?thesis
  proof (cases rule: apply_fill_state)
    case new
    from fill_settles [OF assms(1) r new] assms(2) show ?thesis by (auto simp: settles_def)
  qed (use assms(2) in simp)
next
  case (ApplyFunding ev)
  with assms(3) obtain r where "apply_funding_event A ev s = Ok (r, s')" by (auto simp: outcome_simps)
  with assms(2) show ?thesis
    by (auto simp: apply_funding_event_def outcome_simps Let_def settles_def closed_pnl_def portfolio_closed_def
        apply_portfolio_funding_def put_portfolio_def put_open_def split: if_splits)
qed (use assms in \<open>auto simp: settles_def outcome_simps advance_fill_cursor_def advance_funding_cursor_def
       reconcile_equity_def set_strategy_attribution_def\<close>)

interpretation live_settles: machine "live_exec A H" "\<lambda>s. exact_arith A \<and> settles x s" for A H x
  by unfold_locales (auto simp: live_exec_def split: outcome.splits intro: settles_step)



section \<open>Witnesses\<close>

definition sample_live_fill :: "side \<Rightarrow> rat \<Rightarrow> rat \<Rightarrow> string \<Rightarrow> verified_fill" where
  "sample_live_fill sd price equity tid = \<lparr>vf_identity = ExchangeFillIdentity ''7'' tid [1], vf_decision_id = [1],
     vf_target_version = 1, vf_root_cloid = [1], vf_parent_cloid = None, vf_generation = 0, vf_asset = ''BTC'',
     vf_side = sd, vf_reduce_only = False, vf_quantity = 2, vf_price = price, vf_limit_price = price, vf_fee = 0,
     vf_closed_pnl = 0, vf_fee_asset = ''USDC'', vf_liquidity = Taker, vf_reference_price = price,
     vf_occurred_at = 5, vf_decision_timestamp = 4, vf_equity_after = equity, vf_source_hash = [2]\<rparr>"

definition sample_funding_event :: verified_funding where
  "sample_funding_event = \<lparr>fe_event_id = [9], fe_asset = ''BTC'', fe_amount = - 1, fe_occurred_at = 6, fe_source_hash = [3]\<rparr>"

lemma sample_live_run:
  "\<exists>s0 r s1 q s2. new_live_state 1000 5 = Ok s0
     \<and> apply_exchange_fill exact_ops (\<lambda>b. b) (sample_live_fill Buy 100 1000 ''a'') s0 = Ok (r, s1)
     \<and> apply_funding_event exact_ops sample_funding_event s1 = Ok (q, s2)"
  by (simp add: new_live_state_def fail_if_def apply_exchange_fill_def validate_fill_def sample_live_fill_def
      default_ledger_def apply_portfolio_execution_def portfolio_position_def on_ledger_def
      act_bind_def act_zoom_def apply_reporting_def apply_execution_def empty_book_def Let_def fill_execution_def
      execution_asset_def signed_quantity_of_def ledger_overflow_def exact_ops_eval
      add_same_direction_def open_new_def add_costs_def act_assign_def add_fraction_def act_local_def
      put_open_def put_portfolio_def settle_close_def record_closed_def portfolio_closed_def
      apply_funding_event_def sample_funding_event_def apply_portfolio_funding_def act_entry_def)


lemma live_state_loads_witness:
  "\<exists>s. new_live_state 1000 5 = Ok s
     \<and> is_ok (load_check (fold (live_exec exact_ops (\<lambda>b. b)) [ApplyFill (sample_live_fill Buy 100 1000 ''a'')] s))"
proof -
  obtain s where s: "new_live_state 1000 5 = Ok s" using sample_live_run by blast
  from live_state_loads [OF s, of exact_ops "\<lambda>b. b" "[ApplyFill (sample_live_fill Buy 100 1000 ''a'')]"] s
  show ?thesis by auto
qed


end
