(* ===== verification/Order_Planning.thy ===== *)
theory Order_Planning
  imports Shadow
begin

text \<open>
  Order sizes: the deployment equity (\<open>copytrade-core/src/deployment_equity.rs\<close>), the smallest order an
  exchange accepts for an asset (\<open>execution_floor.rs\<close>) and the plan of an order that only reduces risk
  (\<open>exit_planning.rs\<close>).
\<close>

section \<open>Deployment equity\<close>

record deployment_equity =
  de_starting_equity :: rat
  de_current_equity :: rat
  de_settled_equity :: rat
  de_deployment_equity :: rat
  de_realized_net_pnl :: rat
  de_unrealized_net_pnl :: rat

datatype deployment_equity_error = NonPositiveEquity | DeploymentOverflow

definition calculate_deployment_equity ::
  "decimal_ops \<Rightarrow> rat \<Rightarrow> rat \<Rightarrow> rat \<Rightarrow> (deployment_equity, deployment_equity_error) outcome" where
  "calculate_deployment_equity A starting current realized =
    and_then (ok_or DeploymentOverflow (d_add A starting realized)) (\<lambda>settled.
    and_then (fail_if (starting \<le> 0 \<or> current \<le> 0 \<or> settled \<le> 0) NonPositiveEquity) (\<lambda>_.
    and_then (ok_or DeploymentOverflow (d_sub A current settled)) (\<lambda>unrealized.
    Ok \<lparr>de_starting_equity = starting, de_current_equity = current, de_settled_equity = settled,
        de_deployment_equity = min current settled, de_realized_net_pnl = realized,
        de_unrealized_net_pnl = unrealized\<rparr>)))"

section \<open>Execution floors\<close>

record execution_floor_policy =
  exchange_minimum_notional :: rat
  rounding_buffer :: rat
  closeability_margin :: rat
  maximum_slippage_fraction :: rat

record asset_execution_floor =
  bounded_ioc_price :: rat
  minimum_quantity :: rat
  minimum_order_notional :: rat
  minimum_opening_notional :: rat

datatype execution_floor_error = FloorInvalidInput string | FloorOverflow string

type_synonym 'a floor_result = "('a, execution_floor_error) outcome"

definition validate_floor :: "market_rules \<Rightarrow> execution_floor_policy \<Rightarrow> unit floor_result" where
  "validate_floor rules p = fail_if (mark_price rules \<le> 0 \<or> price_tick rules \<le> 0 \<or> size_step rules \<le> 0
     \<or> exchange_minimum_notional p < 10 \<or> rounding_buffer p \<le> 0 \<or> closeability_margin p < 0
     \<or> \<not> (0 \<le> maximum_slippage_fraction p \<and> maximum_slippage_fraction p < 1))
     (FloorInvalidInput ''execution floor policy'')"

definition round_floor_price :: "decimal_ops \<Rightarrow> rat \<Rightarrow> rat \<Rightarrow> side \<Rightarrow> rat floor_result" where
  "round_floor_price A price tick s =
    and_then (ok_or (FloorOverflow ''price units'') (d_div A price tick)) (\<lambda>units.
    ok_or (FloorOverflow ''rounded price'')
      (d_mul A (case s of Buy \<Rightarrow> of_int \<lceil>units\<rceil> | Sell \<Rightarrow> of_int \<lfloor>units\<rfloor>) tick))"

definition quantity_for_notional :: "decimal_ops \<Rightarrow> rat \<Rightarrow> rat \<Rightarrow> rat \<Rightarrow> rat floor_result" where
  "quantity_for_notional A notional price step =
    and_then (ok_or (FloorOverflow ''minimum quantity'') (d_div A notional price)) (\<lambda>raw.
    and_then (ok_or (FloorOverflow ''lot units'') (d_div A raw step)) (\<lambda>units.
    ok_or (FloorOverflow ''rounded quantity'') (d_mul A (of_int \<lceil>units\<rceil>) step)))"

definition execution_floor_for_asset ::
  "decimal_ops \<Rightarrow> side \<Rightarrow> market_rules \<Rightarrow> execution_floor_policy \<Rightarrow> asset_execution_floor floor_result" where
  "execution_floor_for_asset A s rules p =
    and_then (validate_floor rules p) (\<lambda>_.
    and_then (case s of Buy \<Rightarrow> dec_add A 1 (maximum_slippage_fraction p)
              | Sell \<Rightarrow> dec_sub A 1 (maximum_slippage_fraction p)) (\<lambda>factor.
    and_then (ok_or (FloorOverflow ''bounded IOC price'') (d_mul A (mark_price rules) factor)) (\<lambda>raw.
    and_then (round_floor_price A raw (price_tick rules) s) (\<lambda>price.
    and_then (ok_or (FloorOverflow ''order buffer'')
      (d_add A (exchange_minimum_notional p) (rounding_buffer p))) (\<lambda>required_order.
    and_then (ok_or (FloorOverflow ''closeability margin'')
      (d_add A required_order (closeability_margin p))) (\<lambda>required_opening.
    and_then (quantity_for_notional A required_order price (size_step rules)) (\<lambda>quantity.
    and_then (quantity_for_notional A required_opening price (size_step rules)) (\<lambda>opening_quantity.
    and_then (ok_or (FloorOverflow ''minimum notional'') (d_mul A quantity price)) (\<lambda>order_notional.
    and_then (ok_or (FloorOverflow ''opening notional'') (d_mul A opening_quantity price)) (\<lambda>opening_notional.
    Ok \<lparr>bounded_ioc_price = price, minimum_quantity = quantity, minimum_order_notional = order_notional,
        minimum_opening_notional = opening_notional\<rparr>))))))))))"

definition validates_rounded_order :: "decimal_ops \<Rightarrow> rat \<Rightarrow> rat \<Rightarrow> rat \<Rightarrow> bool floor_result" where
  "validates_rounded_order A quantity price minimum_notional =
    and_then (fail_if (quantity < 0 \<or> price \<le> 0) (FloorInvalidInput ''rounded order'')) (\<lambda>_.
    and_then (ok_or (FloorOverflow ''rounded notional'') (d_mul A quantity price)) (\<lambda>notional.
    Ok (minimum_notional \<le> notional)))"

section \<open>Exit planning\<close>

record exit_planning_input =
  xi_asset :: asset
  xi_desired :: rat
  xi_filled_notional :: rat
  xi_filled_quantity :: rat
  xi_acknowledged_open :: rat
  xi_unknown_result :: rat
  xi_continuation :: rat
  xi_reference_price :: rat
  xi_rules :: market_rules
  xi_book :: shadow_market_snapshot
  xi_floor_policy :: execution_floor_policy
  xi_cushion :: rat
  xi_max_slippage :: rat

datatype residual_class = FullExit | RiskReduction | DirectionFlipCloseLeg | ExposureIncrease | AlreadySatisfied

record exit_plan =
  xp_asset :: asset
  xp_desired :: rat
  xp_committed :: rat
  xp_residual :: rat
  xp_class :: residual_class
  xp_side :: side
  xp_reduce_only :: bool
  xp_quantity :: rat
  xp_planned_notional :: rat
  xp_floor :: asset_execution_floor
  xp_ioc :: marketable_ioc_plan

text \<open>\<open>Pricing\<close> carries the text of the error of the floor or of the order plan; here the error itself.\<close>

datatype exit_planning_block =
    ExitInvalidInput string
  | ExitOverflow string
  | ExitAlreadySatisfied
  | ExposureIncreasing
  | OutstandingExposureRequiresReconciliation
  | BelowExchangeMinimum rat rat
  | FloorPricing execution_floor_error
  | IocPricing shadow_error

type_synonym 'a exit_result = "('a, exit_planning_block) outcome"

definition validate_exit :: "exit_planning_input \<Rightarrow> unit exit_result" where
  "validate_exit x = fail_if (xi_asset x = [] \<or> xi_reference_price x \<le> 0 \<or> size_step (xi_rules x) \<le> 0
     \<or> (xi_filled_notional x = 0) \<noteq> (xi_filled_quantity x = 0)) (ExitInvalidInput ''exit planning input'')"

definition classify :: "rat \<Rightarrow> rat \<Rightarrow> residual_class" where
  "classify committed desired =
    (if committed = desired then AlreadySatisfied
     else if committed = 0 then ExposureIncrease
     else if desired = 0 then FullExit
     else if (0 \<le> committed) \<noteq> (0 \<le> desired) then DirectionFlipCloseLeg
     else if \<bar>desired\<bar> < \<bar>committed\<bar> then RiskReduction
     else ExposureIncrease)"

definition round_down :: "decimal_ops \<Rightarrow> rat \<Rightarrow> rat \<Rightarrow> rat exit_result" where
  "round_down A v step = and_then (ok_or (ExitOverflow ''quantity rounding'') (d_div A v step)) (\<lambda>units.
     ok_or (ExitOverflow ''quantity rounding'') (d_mul A (of_int \<lfloor>units\<rfloor>) step))"

definition intended_notional :: "residual_class \<Rightarrow> rat \<Rightarrow> rat \<Rightarrow> rat exit_result" where
  "intended_notional c residual filled = (case c of
     FullExit \<Rightarrow> Ok \<bar>filled\<bar> | DirectionFlipCloseLeg \<Rightarrow> Ok \<bar>filled\<bar>
   | RiskReduction \<Rightarrow> Ok (min \<bar>residual\<bar> \<bar>filled\<bar>)
   | _ \<Rightarrow> Err ExposureIncreasing)"

definition raw_exit_quantity :: "decimal_ops \<Rightarrow> residual_class \<Rightarrow> exit_planning_input \<Rightarrow> rat exit_result" where
  "raw_exit_quantity A c x = (case c of
     FullExit \<Rightarrow> Ok \<bar>xi_filled_quantity x\<bar> | DirectionFlipCloseLeg \<Rightarrow> Ok \<bar>xi_filled_quantity x\<bar>
   | RiskReduction \<Rightarrow>
       and_then (ok_or (ExitOverflow ''destination quantity'') (d_div A \<bar>xi_desired x\<bar> (xi_reference_price x))) (\<lambda>destination.
       and_then (ok_or (ExitOverflow ''reduction quantity'') (d_sub A \<bar>xi_filled_quantity x\<bar> destination)) (\<lambda>q.
       Ok (max q 0)))
   | _ \<Rightarrow> Err ExposureIncreasing)"

definition committed_exposure :: "decimal_ops \<Rightarrow> exit_planning_input \<Rightarrow> rat exit_result" where
  "committed_exposure A x =
    and_then (ok_or (ExitOverflow ''committed exposure'') (d_add A (xi_filled_notional x) (xi_acknowledged_open x))) (\<lambda>v.
    and_then (ok_or (ExitOverflow ''committed exposure'') (d_add A v (xi_unknown_result x))) (\<lambda>v.
    ok_or (ExitOverflow ''committed exposure'') (d_add A v (xi_continuation x))))"

definition plan_risk_reducing_ioc :: "decimal_ops \<Rightarrow> exit_planning_input \<Rightarrow> exit_plan exit_result" where
  "plan_risk_reducing_ioc A x =
    and_then (validate_exit x) (\<lambda>_.
    and_then (committed_exposure A x) (\<lambda>committed.
    and_then (ok_or (ExitOverflow ''signed residual'') (d_sub A (xi_desired x) committed)) (\<lambda>residual.
    let c = classify committed (xi_desired x) in
    and_then (fail_if (c = AlreadySatisfied) ExitAlreadySatisfied) (\<lambda>_.
    and_then (fail_if (c = ExposureIncrease) ExposureIncreasing) (\<lambda>_.
    and_then (fail_if (xi_acknowledged_open x \<noteq> 0 \<or> xi_unknown_result x \<noteq> 0 \<or> xi_continuation x \<noteq> 0)
      OutstandingExposureRequiresReconciliation) (\<lambda>_.
    let s = (if 0 < xi_filled_notional x then Sell else Buy) in
    and_then (intended_notional c residual (xi_filled_notional x)) (\<lambda>intended.
    and_then (raw_exit_quantity A c x) (\<lambda>raw.
    and_then (round_down A raw (size_step (xi_rules x))) (\<lambda>rounded.
    let quantity = min rounded \<bar>xi_filled_quantity x\<bar> in
    and_then (map_err FloorPricing (execution_floor_for_asset A s (xi_rules x) (xi_floor_policy x))) (\<lambda>fl.
    and_then (ok_or (ExitOverflow ''exit notional'') (d_mul A quantity (bounded_ioc_price fl))) (\<lambda>planned.
    and_then (fail_if (quantity = 0 \<or> planned < minimum_order_notional fl)
      (BelowExchangeMinimum intended (minimum_order_notional fl))) (\<lambda>_.
    and_then (map_err IocPricing (plan_marketable_ioc A s quantity (xi_book x) (xi_reference_price x)
      (xi_cushion x) (xi_max_slippage x) (price_tick (xi_rules x)))) (\<lambda>ioc.
    Ok \<lparr>xp_asset = xi_asset x, xp_desired = xi_desired x, xp_committed = committed, xp_residual = residual,
        xp_class = c, xp_side = s, xp_reduce_only = True, xp_quantity = quantity, xp_planned_notional = planned,
        xp_floor = fl, xp_ioc = ioc\<rparr>)))))))))))))"

section \<open>Rounding\<close>

lemma ceiling_steps:
  assumes "0 < (step :: rat)" and "0 < price" and "n = of_int \<lceil>v / price / step\<rceil> * step"
  shows "v \<le> n * price" and "(n - step) * price < v"
proof -
  let ?u = "v / price / step"
  have v: "v = ?u * step * price" using assms(1,2) by simp
  have u: "?u \<le> of_int \<lceil>?u\<rceil>" "of_int \<lceil>?u\<rceil> - 1 < ?u" by linarith+
  have "?u * step * price \<le> of_int \<lceil>?u\<rceil> * step * price"
    using u(1) assms(1,2) by (intro mult_right_mono) auto
  then show "v \<le> n * price" using v assms(3) by simp
  have "(of_int \<lceil>?u\<rceil> - 1) * step * price < ?u * step * price"
    using u(2) assms(1,2) by (intro mult_strict_right_mono) auto
  then show "(n - step) * price < v" using v assms(3) by (simp add: left_diff_distrib)
qed

text \<open>The quantity for a notional, and the bounded price, when nothing rounds.\<close>

lemma quantity_for_notional_exact:
  assumes "exact_arith A" and "quantity_for_notional A v price step = Ok q"
  shows "price \<noteq> 0" and "q = of_int \<lceil>v / price / step\<rceil> * step"
proof -
  obtain raw units where "d_div A v price = Some raw" "d_div A raw step = Some units"
    "d_mul A (of_int \<lceil>units\<rceil>) step = Some q"
    using assms(2) by (auto simp: quantity_for_notional_def outcome_simps)
  with exact_arithD(3,4) [OF assms(1)] show "q = of_int \<lceil>v / price / step\<rceil> * step" by metis
  show "price \<noteq> 0" using \<open>d_div A v price = _\<close> by (rule exact_div_nonzero [OF assms(1)])
qed

lemma round_floor_price_exact:
  assumes "exact_arith A" and "round_floor_price A v tick s = Ok p" and "0 < tick" and "0 \<le> v"
  shows "case s of Buy \<Rightarrow> v \<le> p | Sell \<Rightarrow> p \<le> v" and "0 \<le> p"
proof -
  have p: "p = (case s of Buy \<Rightarrow> of_int \<lceil>v / tick\<rceil> | Sell \<Rightarrow> of_int \<lfloor>v / tick\<rfloor>) * tick"
    using assms(2) exact_arithD(3,4) [OF assms(1)]
    by (fastforce simp: round_floor_price_def outcome_simps)
  show "case s of Buy \<Rightarrow> v \<le> p | Sell \<Rightarrow> p \<le> v"
    using assms(3) by (cases s) (auto simp: p simp flip: pos_divide_le_eq pos_le_divide_eq)
  have "0 \<le> v / tick" using assms(3,4) by simp
  then show "0 \<le> p" using assms(3) by (cases s) (auto simp: p intro!: mult_nonneg_nonneg)
qed

text \<open>
  The floors of an asset are the least orders the exchange accepts: with arithmetic that does not
  round, the minimum order is a whole number of lots worth at least the exchange minimum and the
  rounding buffer at the bounded price, one lot less is not, opening also leaves the closeability
  margin, and the bounded price is no better than the mark price moved by the slippage bound. An
  order of the minimum quantity passes the check of rounded orders.
\<close>

theorem floor_is_least_valid_order:
  assumes "exact_arith A" and "execution_floor_for_asset A s rules p = Ok fl"
  defines "required \<equiv> exchange_minimum_notional p + rounding_buffer p"
  shows "(\<exists>n. minimum_quantity fl = of_int n * size_step rules)
    \<and> required \<le> minimum_order_notional fl
    \<and> (minimum_quantity fl - size_step rules) * bounded_ioc_price fl < required
    \<and> required + closeability_margin p \<le> minimum_opening_notional fl
    \<and> (case s of Buy \<Rightarrow> mark_price rules * (1 + maximum_slippage_fraction p) \<le> bounded_ioc_price fl
         | Sell \<Rightarrow> bounded_ioc_price fl \<le> mark_price rules * (1 - maximum_slippage_fraction p))
    \<and> validates_rounded_order A (minimum_quantity fl) (bounded_ioc_price fl) (exchange_minimum_notional p) = Ok True"
proof -
  from assms(2) obtain factor raw price ro rop q q2 on opn where v: "validate_floor rules p = Ok ()"
    and factor: "(case s of Buy \<Rightarrow> dec_add A 1 (maximum_slippage_fraction p)
              | Sell \<Rightarrow> dec_sub A 1 (maximum_slippage_fraction p)) = (Ok factor :: rat floor_result)"
    and raw: "d_mul A (mark_price rules) factor = Some raw"
    and price0: "round_floor_price A raw (price_tick rules) s = Ok price"
    and ro: "d_add A (exchange_minimum_notional p) (rounding_buffer p) = Some ro"
    and rop: "d_add A ro (closeability_margin p) = Some rop"
    and q0: "quantity_for_notional A ro price (size_step rules) = Ok q"
    and q20: "quantity_for_notional A rop price (size_step rules) = Ok q2"
    and n0: "d_mul A q price = Some on" and n20: "d_mul A q2 price = Some opn"
    and fl: "fl = \<lparr>bounded_ioc_price = price, minimum_quantity = q, minimum_order_notional = on,
       minimum_opening_notional = opn\<rparr>"
    unfolding execution_floor_for_asset_def and_then_Ok ok_or_Ok by (elim exE conjE) (rule that, (simp; fail)+)
  have "ro = required" "rop = required + closeability_margin p"
    using exact_arithD(1) [OF assms(1)] ro rop unfolding required_def by blast+
  with price0 q0 q20 n0 n20 have price: "round_floor_price A raw (price_tick rules) s = Ok (bounded_ioc_price fl)"
    and q: "quantity_for_notional A required (bounded_ioc_price fl) (size_step rules) = Ok (minimum_quantity fl)"
    and q2: "quantity_for_notional A (required + closeability_margin p) (bounded_ioc_price fl) (size_step rules) = Ok q2"
    and n: "d_mul A (minimum_quantity fl) (bounded_ioc_price fl) = Some (minimum_order_notional fl)"
    and n2: "d_mul A q2 (bounded_ioc_price fl) = Some (minimum_opening_notional fl)"
    by (simp_all add: fl)
  have pos: "0 < mark_price rules" "0 < price_tick rules" "0 < size_step rules" "10 \<le> exchange_minimum_notional p"
    "0 < rounding_buffer p" "0 \<le> maximum_slippage_fraction p" "maximum_slippage_fraction p < 1"
    using v by (auto simp: validate_floor_def outcome_simps)
  have f: "factor = (case s of Buy \<Rightarrow> 1 + maximum_slippage_fraction p | Sell \<Rightarrow> 1 - maximum_slippage_fraction p)"
    using factor exact_arithD(1,2) [OF assms(1)] by (cases s) (auto simp: dec_ops_def outcome_simps)
  have r: "raw = mark_price rules * factor" using raw by (rule exact_arithD(3) [OF assms(1)])
  then have "0 \<le> raw" using pos f by (cases s) auto
  note bp = round_floor_price_exact [OF assms(1) price pos(2) this]
  note qe = quantity_for_notional_exact [OF assms(1) q] and q2e = quantity_for_notional_exact [OF assms(1) q2]
  have price_pos: "0 < bounded_ioc_price fl" using bp(2) qe(1) by simp
  note lots = ceiling_steps [OF pos(3) price_pos qe(2)] and lots2 = ceiling_steps [OF pos(3) price_pos q2e(2)]
  have ne: "minimum_order_notional fl = minimum_quantity fl * bounded_ioc_price fl"
    "minimum_opening_notional fl = q2 * bounded_ioc_price fl"
    using n n2 exact_arithD(3) [OF assms(1)] by blast+
  have nonneg: "0 \<le> minimum_quantity fl"
  proof (rule ccontr)
    assume "\<not> 0 \<le> minimum_quantity fl"
    then have "minimum_quantity fl * bounded_ioc_price fl < 0" using price_pos by (simp add: mult_less_0_iff)
    with lots(1) pos show False by (simp add: required_def)
  qed
  have "validates_rounded_order A (minimum_quantity fl) (bounded_ioc_price fl) (exchange_minimum_notional p) = Ok True"
    using lots(1) nonneg price_pos pos n ne by (simp add: validates_rounded_order_def required_def fail_if_def)
  then show ?thesis using lots lots2(1) bp(1) qe(2) by (cases s) (auto simp: ne r f)
qed


section \<open>Exits\<close>

lemma classify_cases:
  "classify c d = FullExit \<longleftrightarrow> c \<noteq> 0 \<and> d = 0"
  "classify c d = AlreadySatisfied \<longleftrightarrow> c = d"
  "classify c d = DirectionFlipCloseLeg \<longleftrightarrow> c < 0 \<and> 0 < d \<or> 0 < c \<and> d < 0"
  "classify c d = RiskReduction \<longleftrightarrow> c < d \<and> d < 0 \<or> 0 < d \<and> d < c"
  by (auto simp: classify_def)

lemma round_down_exact:
  assumes "exact_arith A" and "round_down A v step = Ok q" and "0 < step"
  shows "q = of_int \<lfloor>v / step\<rfloor> * step" "q \<le> v" "v < q + step"
proof -
  show q: "q = of_int \<lfloor>v / step\<rfloor> * step"
    using assms(2) exact_arithD(3,4) [OF assms(1)] by (fastforce simp: round_down_def outcome_simps)
  have "of_int \<lfloor>v / step\<rfloor> \<le> v / step" "v / step < of_int \<lfloor>v / step\<rfloor> + 1" by linarith+
  then have "of_int \<lfloor>v / step\<rfloor> * step \<le> v" "v < (of_int \<lfloor>v / step\<rfloor> + 1) * step"
    using assms(3) by (simp_all only: pos_le_divide_eq pos_divide_less_eq)
  then show "q \<le> v" "v < q + step" by (simp_all add: q distrib_right)
qed

lemma committed_exact:
  assumes "exact_arith A" and "committed_exposure A x = Ok c"
  shows "c = xi_filled_notional x + xi_acknowledged_open x + xi_unknown_result x + xi_continuation x"
  using assms(2) by (auto simp: committed_exposure_def outcome_simps dest!: exact_arithD(1) [OF assms(1)])

lemma exit_plan_steps:
  assumes "plan_risk_reducing_ioc A x = Ok p"
  obtains c residual raw rounded where "validate_exit x = Ok ()"
    "committed_exposure A x = Ok (xp_committed p)" "d_sub A (xi_desired x) (xp_committed p) = Some residual"
    "xp_class p = classify (xp_committed p) (xi_desired x)" "xp_class p \<noteq> AlreadySatisfied" "xp_class p \<noteq> ExposureIncrease"
    "xi_acknowledged_open x = 0" "xi_unknown_result x = 0" "xi_continuation x = 0"
    "xp_side p = (if 0 < xi_filled_notional x then Sell else Buy)"
    "raw_exit_quantity A (xp_class p) x = Ok raw" "round_down A raw (size_step (xi_rules x)) = Ok rounded"
    "xp_quantity p = min rounded \<bar>xi_filled_quantity x\<bar>"
    "execution_floor_for_asset A (xp_side p) (xi_rules x) (xi_floor_policy x) = Ok (xp_floor p)"
    "minimum_order_notional (xp_floor p) \<le> xp_planned_notional p"
    "d_mul A (xp_quantity p) (bounded_ioc_price (xp_floor p)) = Some (xp_planned_notional p)"
    "plan_marketable_ioc A (xp_side p) (xp_quantity p) (xi_book x) (xi_reference_price x)
      (xi_cushion x) (xi_max_slippage x) (price_tick (xi_rules x)) = Ok (xp_ioc p)" "xp_reduce_only p"
  using assms by (auto simp: plan_risk_reducing_ioc_def outcome_simps Let_def)


section \<open>Witnesses\<close>

definition sample_floor_policy :: execution_floor_policy where
  "sample_floor_policy = \<lparr>exchange_minimum_notional = 10, rounding_buffer = 1, closeability_margin = 1,
     maximum_slippage_fraction = 0\<rparr>"

definition sample_exit :: exit_planning_input where
  "sample_exit = \<lparr>xi_asset = ''BTC'', xi_desired = 100, xi_filled_notional = 200, xi_filled_quantity = 2,
     xi_acknowledged_open = 0, xi_unknown_result = 0, xi_continuation = 0, xi_reference_price = 100,
     xi_rules = \<lparr>mark_price = 100, price_tick = 1, size_step = 1\<rparr>, xi_book = sample_book,
     xi_floor_policy = sample_floor_policy, xi_cushion = 0, xi_max_slippage = 0\<rparr>"

lemma sample_exit_plan: "is_ok (plan_risk_reducing_ioc exact_ops sample_exit)"
  by code_simp


lemma floor_is_least_valid_order_witness:
  "\<exists>fl. execution_floor_for_asset exact_ops Sell (xi_rules sample_exit) sample_floor_policy = Ok fl
     \<and> 11 \<le> minimum_order_notional fl \<and> 12 \<le> minimum_opening_notional fl"
proof -
  have "is_ok (execution_floor_for_asset exact_ops Sell (xi_rules sample_exit) sample_floor_policy)" by code_simp
  then obtain fl where fl: "execution_floor_for_asset exact_ops Sell (xi_rules sample_exit) sample_floor_policy = Ok fl"
    by (auto simp: is_ok_def split: outcome.splits)
  from floor_is_least_valid_order [OF exact_ops_exact this] fl show ?thesis by (auto simp: sample_floor_policy_def)
qed

end
