(* ===== verification/Allocation.thy ===== *)
theory Allocation
  imports Order_Planning
begin

text \<open>
  Sparse target admission (\<open>copytrade-core/src/allocation.rs\<close>): the desired targets of a small
  portfolio are ranked, required exits and reductions come first, and increases are admitted while
  the portfolio stays within its caps; a stronger new position may displace a weaker one.
\<close>

section \<open>Data\<close>

record sparse_allocation_input =
  ai_raw_targets :: "(asset, rat) bmap"
  ai_convictions :: "(asset, rat) bmap"
  ai_agreement_weights :: "(asset, rat) bmap"
  ai_floors :: "(asset, asset_execution_floor) bmap"
  ai_filled :: "(asset, rat) bmap"
  ai_equity :: rat
  ai_leverage :: rat
  ai_risk_scale :: rat
  ai_asset_pct :: rat
  ai_net_pct :: rat
  ai_hysteresis :: rat

record sparse_allocation =
  admitted_targets :: "(asset, rat) bmap"
  retained_below_minimum :: "(asset, rat) bmap"

datatype allocation_error =
    AllocationInvalidInput string
  | MissingExecutionFloor
  | AllocationOverflow string

type_synonym 'a alloc = "('a, allocation_error) outcome"

record candidate =
  cd_asset :: asset
  cd_desired :: rat
  cd_current :: rat
  cd_conviction :: rat
  cd_agreement :: rat
  cd_class :: nat

section \<open>Classes and ranking\<close>

definition transition_class :: "rat \<Rightarrow> rat \<Rightarrow> nat" where
  "transition_class current desired =
    (if current \<noteq> 0 \<and> desired = 0 then 0
     else if current \<noteq> 0 \<and> ((0 \<le> current) \<noteq> (0 \<le> desired) \<or> \<bar>desired\<bar> < \<bar>current\<bar>) then 1
     else if current \<noteq> 0 then 2
     else 3)"

text \<open>\<open>checked_sub(\<dots>).unwrap_or_default()\<close>.\<close>

definition sub_or_zero :: "decimal_ops \<Rightarrow> rat \<Rightarrow> rat \<Rightarrow> rat" where
  "sub_or_zero A x y = (case d_sub A x y of Some z \<Rightarrow> z | None \<Rightarrow> 0)"

definition compare_candidates :: "decimal_ops \<Rightarrow> candidate \<Rightarrow> candidate \<Rightarrow> ordering" where
  "compare_candidates A l r =
    then_with (cmp (cd_class l) (cd_class r))
    (then_with (cmp \<bar>cd_conviction r\<bar> \<bar>cd_conviction l\<bar>)
    (then_with (cmp (cd_agreement r) (cd_agreement l))
    (then_with (cmp \<bar>sub_or_zero A (cd_desired r) (cd_current r)\<bar> \<bar>sub_or_zero A (cd_desired l) (cd_current l)\<bar>)
      (cmp (cd_asset l) (cd_asset r)))))"

definition displaceable :: "sparse_allocation_input \<Rightarrow> rat \<Rightarrow> asset \<times> rat \<Rightarrow> bool" where
  "displaceable inp threshold e = (snd e \<noteq> 0
     \<and> (case bget (ai_filled inp) (fst e) of Some q \<Rightarrow> q \<noteq> 0 | None \<Rightarrow> False)
     \<and> (case bget (ai_convictions inp) (fst e) of Some c \<Rightarrow> \<bar>c\<bar> < threshold | None \<Rightarrow> False))"

text \<open>The weakest of the slots that can be displaced; each of them has a conviction.\<close>

definition weakest_displaceable_slot ::
  "decimal_ops \<Rightarrow> sparse_allocation_input \<Rightarrow> (asset, rat) bmap \<Rightarrow> candidate \<Rightarrow> asset option" where
  "weakest_displaceable_slot A inp admitted incoming =
    (let threshold = sub_or_zero A \<bar>cd_conviction incoming\<bar> (ai_hysteresis inp) in
     map_option fst (min_by (\<lambda>l r.
        then_with (cmp \<bar>bget_or 0 (ai_convictions inp) (fst l)\<bar> \<bar>bget_or 0 (ai_convictions inp) (fst r)\<bar>)
        (then_with (cmp (bget_or 0 (ai_agreement_weights inp) (fst l)) (bget_or 0 (ai_agreement_weights inp) (fst r)))
          (cmp (fst l) (fst r))))
      (filter (displaceable inp threshold) (entries admitted))))"

section \<open>Caps\<close>

fun within_caps_loop :: "decimal_ops \<Rightarrow> rat \<Rightarrow> rat \<Rightarrow> rat \<Rightarrow> rat \<Rightarrow> rat \<Rightarrow> rat list \<Rightarrow> bool alloc" where
  "within_caps_loop A asset_cap gross_cap net_cap gross net [] = Ok (gross \<le> gross_cap \<and> \<bar>net\<bar> \<le> net_cap)"
| "within_caps_loop A asset_cap gross_cap net_cap gross net (v # vs) =
    (if asset_cap < \<bar>v\<bar> then Ok False else
     and_then (ok_or (AllocationOverflow ''gross'') (d_add A gross \<bar>v\<bar>)) (\<lambda>gross.
     and_then (ok_or (AllocationOverflow ''net'') (d_add A net v)) (\<lambda>net.
     within_caps_loop A asset_cap gross_cap net_cap gross net vs)))"

definition within_caps :: "decimal_ops \<Rightarrow> (asset, rat) bmap \<Rightarrow> rat \<Rightarrow> rat \<Rightarrow> rat \<Rightarrow> bool alloc" where
  "within_caps A targets asset_cap gross_cap net_cap = within_caps_loop A asset_cap gross_cap net_cap 0 0 (bvals targets)"

section \<open>Allocation\<close>

definition alloc_mul :: "decimal_ops \<Rightarrow> rat \<Rightarrow> rat \<Rightarrow> string \<Rightarrow> rat alloc" where
  "alloc_mul A x y what = ok_or (AllocationOverflow what) (d_mul A x y)"

definition alloc_sub :: "decimal_ops \<Rightarrow> rat \<Rightarrow> rat \<Rightarrow> string \<Rightarrow> rat alloc" where
  "alloc_sub A x y what = ok_or (AllocationOverflow what) (d_sub A x y)"

definition validate_allocation :: "sparse_allocation_input \<Rightarrow> unit alloc" where
  "validate_allocation inp =
    and_then (fail_if (ai_equity inp \<le> 0 \<or> ai_leverage inp \<le> 0 \<or> ai_risk_scale inp \<le> 0 \<or> ai_hysteresis inp < 0)
      (AllocationInvalidInput ''non-positive allocation input'')) (\<lambda>_.
    and_then (fail_if (list_ex (\<lambda>a. \<not> bhas (ai_floors inp) a) (bkeys (ai_raw_targets inp) @ bkeys (ai_filled inp)))
      MissingExecutionFloor) (\<lambda>_.
    fail_if (\<not> (0 \<le> ai_asset_pct inp \<and> ai_asset_pct inp \<le> 1) \<or> \<not> (0 \<le> ai_net_pct inp \<and> ai_net_pct inp \<le> 1))
      (AllocationInvalidInput ''invalid risk percentage'')))"

definition allocation_assets :: "sparse_allocation_input \<Rightarrow> asset list" where
  "allocation_assets inp = bkeys (bset_of (bkeys (ai_raw_targets inp) @ bkeys (ai_filled inp)))"

definition initial_targets :: "sparse_allocation_input \<Rightarrow> (asset, rat) bmap" where
  "initial_targets inp = bcollect (map (\<lambda>a. (a, bget_or 0 (ai_filled inp) a)) (allocation_assets inp))"

text \<open>A reversal whose destination an order can open is closed first.\<close>

definition staged_target :: "rat \<Rightarrow> rat \<Rightarrow> nat \<Rightarrow> asset_execution_floor \<Rightarrow> rat" where
  "staged_target current desired class fl =
    (if class = 1 \<and> current \<noteq> 0 \<and> desired \<noteq> 0 \<and> (0 \<le> current) \<noteq> (0 \<le> desired)
        \<and> minimum_opening_notional fl \<le> \<bar>desired\<bar> then 0 else desired)"

text \<open>One asset of the first loop: it is skipped, retained below its minimum, or becomes a candidate.\<close>

definition collect_candidate ::
  "decimal_ops \<Rightarrow> sparse_allocation_input \<Rightarrow> rat \<Rightarrow> (asset, rat) bmap
     \<Rightarrow> candidate list \<times> (asset, rat) bmap \<Rightarrow> asset \<Rightarrow> (candidate list \<times> (asset, rat) bmap) alloc" where
  "collect_candidate A inp asset_cap admitted st a =
    and_then (or_panic (bget admitted a)) (\<lambda>current.
    and_then (clamp (bget_or 0 (ai_raw_targets inp) a) (- asset_cap) asset_cap) (\<lambda>desired.
    and_then (alloc_sub A desired current ''allocation residual'') (\<lambda>residual.
    if residual = 0 then Ok st else
    let class = transition_class current desired in
    and_then (ok_or MissingExecutionFloor (bget (ai_floors inp) a)) (\<lambda>fl.
    let required = (if current = 0 then minimum_opening_notional fl else minimum_order_notional fl) in
    if 2 \<le> class \<and> \<bar>residual\<bar> < required then Ok (fst st, binsert a residual (snd st))
    else Ok (fst st @ [\<lparr>cd_asset = a, cd_desired = staged_target current desired class fl, cd_current = current,
           cd_conviction = bget_or 0 (ai_convictions inp) a, cd_agreement = bget_or 0 (ai_agreement_weights inp) a,
           cd_class = class\<rparr>], snd st)))))"

text \<open>One candidate of the second loop.\<close>

definition admit_candidate ::
  "decimal_ops \<Rightarrow> sparse_allocation_input \<Rightarrow> rat \<Rightarrow> rat \<Rightarrow> rat \<Rightarrow> (asset, rat) bmap \<Rightarrow> candidate \<Rightarrow> (asset, rat) bmap alloc" where
  "admit_candidate A inp asset_cap gross_cap net_cap admitted c =
    (let proposed = binsert (cd_asset c) (cd_desired c) admitted in
     and_then (within_caps A proposed asset_cap gross_cap net_cap) (\<lambda>ok.
     if ok then Ok proposed
     else if cd_class c \<le> 1 then Ok (binsert (cd_asset c) (cd_desired c) admitted)
     else if cd_class c = 3 then
       (case weakest_displaceable_slot A inp admitted c of
          Some victim \<Rightarrow> Ok (binsert victim 0 admitted)
        | None \<Rightarrow> Ok admitted)
     else Ok admitted))"

definition allocate_sparse_portfolio :: "decimal_ops \<Rightarrow> sparse_allocation_input \<Rightarrow> sparse_allocation alloc" where
  "allocate_sparse_portfolio A inp =
    and_then (validate_allocation inp) (\<lambda>_.
    and_then (alloc_mul A (ai_equity inp) (ai_asset_pct inp) ''asset cap'') (\<lambda>asset_cap.
    and_then (alloc_mul A (ai_equity inp) (ai_leverage inp) ''leveraged equity'') (\<lambda>leveraged.
    and_then (alloc_mul A leveraged (ai_risk_scale inp) ''gross cap'') (\<lambda>gross_cap.
    and_then (alloc_mul A (ai_equity inp) (ai_net_pct inp) ''net cap'') (\<lambda>net_cap.
    let admitted = initial_targets inp in
    and_then (try_fold (collect_candidate A inp asset_cap admitted) ([], bempty) (allocation_assets inp))
      (\<lambda>(candidates, retained).
    and_then (try_fold (admit_candidate A inp asset_cap gross_cap net_cap) admitted
      (sort_by (compare_candidates A) candidates)) (\<lambda>admitted.
    Ok \<lparr>admitted_targets = admitted, retained_below_minimum = retained\<rparr>)))))))"


section \<open>The two loops\<close>

text \<open>A sort by a comparator that decides on a key first is sorted by that key.\<close>

lemma sorted_sort_by_key:
  assumes "\<And>x y. c x y = Greater \<Longrightarrow> f y \<le> (f x :: 'k::linorder)" and "\<And>x y. c x y \<noteq> Greater \<Longrightarrow> f x \<le> f y"
  shows "sorted (map f (sort_by c xs))"
proof (induction xs)
  case (Cons x xs)
  have set: "set (insert_by c x ys) = insert x (set ys)" for x ys
    by (metis mset_insert_by set_mset_mset set_mset_add_mset_insert)
  have "sorted (map f ys) \<Longrightarrow> sorted (map f (insert_by c x ys))" for ys
  proof (induction ys)
    case (Cons y ys)
    then show ?case using assms [of x y] by (cases "c x y = Greater") (auto simp: set intro: order_trans)
  qed simp
  with Cons show ?case by simp
qed simp

lemma bget_initial:
  "bget (initial_targets inp) a = (if a \<in> set (allocation_assets inp) then Some (bget_or 0 (ai_filled inp) a) else None)"
  by (simp add: initial_targets_def bget_collect rev_map map_of_map_restrict restrict_map_def)

lemma allocation_assets_props:
  "a \<in> set (allocation_assets inp) \<longleftrightarrow> bhas (ai_raw_targets inp) a \<or> bhas (ai_filled inp) a"
  "distinct (allocation_assets inp)"
  by (auto simp: allocation_assets_def set_bkeys bkeys_props)

definition wanted :: "sparse_allocation_input \<Rightarrow> rat \<Rightarrow> asset \<Rightarrow> rat" where
  "wanted inp cap a = min (max (bget_or 0 (ai_raw_targets inp) a) (- cap)) cap"

definition filled_of :: "sparse_allocation_input \<Rightarrow> asset \<Rightarrow> rat" where
  "filled_of inp a = bget_or 0 (ai_filled inp) a"

text \<open>What the first loop puts into a candidate.\<close>

definition candidate_ok :: "sparse_allocation_input \<Rightarrow> rat \<Rightarrow> candidate \<Rightarrow> bool" where
  "candidate_ok inp cap c = (cd_asset c \<in> set (allocation_assets inp)
     \<and> cd_current c = filled_of inp (cd_asset c) \<and> cd_class c = transition_class (cd_current c) (wanted inp cap (cd_asset c))
     \<and> (\<exists>fl. bget (ai_floors inp) (cd_asset c) = Some fl
          \<and> cd_desired c = staged_target (cd_current c) (wanted inp cap (cd_asset c)) (cd_class c) fl))"

text \<open>A risk-reducing change is wanted: an exit, a flip or a reduction.\<close>

definition reducing :: "sparse_allocation_input \<Rightarrow> rat \<Rightarrow> asset \<Rightarrow> bool" where
  "reducing inp cap a = (transition_class (filled_of inp a) (wanted inp cap a) \<le> 1)"

lemma reducing_wants_change: "reducing inp cap a \<Longrightarrow> wanted inp cap a \<noteq> filled_of inp a"
  by (auto simp: reducing_def transition_class_def split: if_splits)

lemma collect_all:
  assumes "exact_arith A"
    and "try_fold (collect_candidate A inp cap (initial_targets inp)) (cs, ret) as = Ok (cs', ret')"
    and "set as \<subseteq> set (allocation_assets inp)" and "distinct as"
  shows "\<exists>new. cs' = cs @ new \<and> (\<forall>c \<in> set new. candidate_ok inp cap c) \<and> distinct (map cd_asset new)
     \<and> set (map cd_asset new) \<subseteq> set as \<and> (\<forall>a \<in> set as. reducing inp cap a \<longrightarrow> a \<in> set (map cd_asset new))"
  using assms(2-4)
proof (induction as arbitrary: cs ret)
  case (Cons a as)
  from Cons.prems(1) obtain cs1 ret1 where step: "collect_candidate A inp cap (initial_targets inp) (cs, ret) a = Ok (cs1, ret1)"
    and rest: "try_fold (collect_candidate A inp cap (initial_targets inp)) (cs1, ret1) as = Ok (cs', ret')"
    by (auto simp: outcome_simps)
  from Cons.IH [OF rest] Cons.prems(2,3) obtain new where new: "cs' = cs1 @ new" "\<forall>c \<in> set new. candidate_ok inp cap c"
    "distinct (map cd_asset new)" "set (map cd_asset new) \<subseteq> set as" "\<forall>a \<in> set as. reducing inp cap a \<longrightarrow> a \<in> set (map cd_asset new)"
    by auto
  have a: "a \<in> set (allocation_assets inp)" "a \<notin> set as" using Cons.prems(2,3) by auto
  let ?k = "transition_class (filled_of inp a) (wanted inp cap a)"
  have init: "bget (initial_targets inp) a = Some (filled_of inp a)" using a(1) by (simp add: bget_initial filled_of_def)
  let ?new = "\<lambda>d fl. \<lparr>cd_asset = a, cd_desired = staged_target (filled_of inp a) d (transition_class (filled_of inp a) d) fl,
           cd_current = filled_of inp a, cd_conviction = bget_or 0 (ai_convictions inp) a,
           cd_agreement = bget_or 0 (ai_agreement_weights inp) a, cd_class = transition_class (filled_of inp a) d\<rparr>"
  obtain d residual where
    cd: "clamp (bget_or 0 (ai_raw_targets inp) a) (- cap) cap = (Ok d :: rat alloc)"
    and cr: "alloc_sub A d (filled_of inp a) ''allocation residual'' = Ok residual"
    using step unfolding collect_candidate_def init by (auto simp: and_then_Ok)
  have c0: "residual = 0 \<and> cs1 = cs \<or> residual \<noteq> 0 \<and> (\<exists>fl. bget (ai_floors inp) a = Some fl \<and>
      (cs1 = cs \<and> 2 \<le> transition_class (filled_of inp a) d \<or> cs1 = cs @ [?new d fl]))"
  proof (cases "residual = 0")
    case True
    with step cd cr show ?thesis by (simp add: collect_candidate_def init)
  next
    case False
    with step cd cr obtain fl where fl: "bget (ai_floors inp) a = Some fl"
      by (auto simp: collect_candidate_def init Let_def outcome_simps)
    define required where "required = (if filled_of inp a = 0 then minimum_opening_notional fl else minimum_order_notional fl)"
    have "(if 2 \<le> transition_class (filled_of inp a) d \<and> \<bar>residual\<bar> < required then Ok (cs, binsert a residual ret)
        else Ok (cs @ [?new d fl], ret)) = (Ok (cs1, ret1) :: (candidate list \<times> (asset, rat) bmap) alloc)"
      using step False unfolding collect_candidate_def init cd cr fl Let_def required_def by (simp only: or_panic.simps ok_or.simps and_then.simps if_False fst_conv snd_conv cr fl)
    with False fl show ?thesis by (auto split: if_splits)
  qed
  have d: "d = wanted inp cap a" and r: "residual = wanted inp cap a - filled_of inp a"
    using cd cr exact_arithD(2) [OF assms(1)] by (auto simp: clamp_Ok wanted_def alloc_sub_def outcome_simps)
  note c = c0 [unfolded d]
  show ?case
  proof (cases "cs1 = cs")
    case True
    have "\<not> reducing inp cap a" using c True r reducing_wants_change by (auto simp: reducing_def)
    then show ?thesis using new True by (intro exI [of _ new]) auto
  next
    case False
    then obtain x where x: "cs1 = cs @ [x]" "cd_asset x = a" "candidate_ok inp cap x"
      using c a(1) by (auto simp: candidate_ok_def)
    then show ?thesis using new a by (intro exI [of _ "x # new"]) auto
  qed
qed simp


lemma admit_step:
  assumes "admit_candidate A inp cap g n m c = Ok m'"
  obtains (taken) "m' = binsert (cd_asset c) (cd_desired c) m" "within_caps A m' cap g n = Ok True \<or> cd_class c \<le> 1"
  | (kept) "m' = m" "2 \<le> cd_class c"
  | (rotated) v q where "m' = binsert v 0 m" "bget m v = Some q" "2 \<le> cd_class c"
proof -
  let ?p = "binsert (cd_asset c) (cd_desired c) m"
  from assms obtain ok where ok: "within_caps A ?p cap g n = Ok ok"
    by (auto simp: admit_candidate_def Let_def outcome_simps)
  note step = assms [unfolded admit_candidate_def Let_def ok and_then.simps]
  show thesis
  proof (cases "ok \<or> cd_class c \<le> 1")
    case True
    then have "m' = ?p" using step by (cases ok) simp_all
    with True ok taken show ?thesis by auto
  next
    case False
    show ?thesis
    proof (cases "cd_class c = 3 \<and> weakest_displaceable_slot A inp m c \<noteq> None")
      case True
      then obtain v where v: "weakest_displaceable_slot A inp m c = Some v" by blast
      then obtain e where "e \<in> set (entries m)" "fst e = v"
        by (auto simp: weakest_displaceable_slot_def Let_def dest!: min_by_in)
      moreover have "m' = binsert v 0 m" using step False True v by simp
      ultimately show ?thesis using rotated [of v] True by (auto simp: entries_get)
    next
      case none: False
      have "m' = m" using step False none by (auto split: if_splits option.splits)
      with False kept show ?thesis by simp
    qed
  qed
qed

text \<open>Where a target can come from, and what happens to an asset that no remaining candidate is about.\<close>

definition sourced :: "sparse_allocation_input \<Rightarrow> candidate list \<Rightarrow> (asset, rat) bmap \<Rightarrow> bool" where
  "sourced inp C m = (\<forall>a. case bget m a of None \<Rightarrow> a \<notin> set (allocation_assets inp)
     | Some v \<Rightarrow> a \<in> set (allocation_assets inp)
         \<and> (v = 0 \<or> v = filled_of inp a \<or> (\<exists>c \<in> set C. cd_asset c = a \<and> v = cd_desired c)))"

lemma sourced_admit:
  assumes "admit_candidate A inp cap g n m c = Ok m'" and "sourced inp C m" and "c \<in> set C" and "candidate_ok inp cap c"
  shows "sourced inp C m'"
  using assms(1)
proof (cases rule: admit_step)
  case taken
  with assms(2-4) show ?thesis by (auto simp: sourced_def candidate_ok_def)
next
  case (rotated v q)
  from assms(2) have "case bget m v of None \<Rightarrow> v \<notin> set (allocation_assets inp) | Some u \<Rightarrow> v \<in> set (allocation_assets inp)"
    unfolding sourced_def by (drule_tac spec [of _ v]) (simp split: option.splits)
  with rotated have "v \<in> set (allocation_assets inp)" by simp
  with assms(2) show ?thesis by (auto simp: sourced_def rotated(1))
qed (use assms(2) in simp)

lemma settled_target:
  assumes "try_fold (admit_candidate A inp cap g n) m cs = Ok m'" and "bget m a = Some v"
    and "a \<notin> cd_asset ` set cs"
  shows "bget m' a = Some v \<or> bget m' a = Some 0"
proof -
  have "bget m' a = Some v \<or> bget m' a = Some 0"
    using assms(1)
  proof (rule try_fold_inv [where P = "\<lambda>m. bget m a = Some v \<or> bget m a = Some 0"])
    fix s x s'
    assume x: "x \<in> set cs" "bget s a = Some v \<or> bget s a = Some 0" and "admit_candidate A inp cap g n s x = Ok s'"
    from this(3) show "bget s' a = Some v \<or> bget s' a = Some 0"
      by (cases rule: admit_step) (use x assms(3) in auto)
  qed (simp add: assms(2))
  then show ?thesis .
qed

lemma reduction_admitted:
  assumes "try_fold (admit_candidate A inp cap g n) m cs = Ok m'" and "c \<in> set cs" and "cd_class c \<le> 1"
    and "distinct (map cd_asset cs)"
  shows "bget m' (cd_asset c) = Some (cd_desired c) \<or> bget m' (cd_asset c) = Some 0"
proof -
  from assms(2) obtain ys zs where cs: "cs = ys @ c # zs" by (auto simp: in_set_conv_decomp)
  with assms(1) obtain m1 m2 where m2: "admit_candidate A inp cap g n m1 c = Ok m2"
    and rest: "try_fold (admit_candidate A inp cap g n) m2 zs = Ok m'"
    by (auto simp: try_fold_append outcome_simps)
  have "bget m2 (cd_asset c) = Some (cd_desired c)"
    using m2 by (cases rule: admit_step) (use assms(3) in auto)
  with rest show ?thesis by (rule settled_target) (use assms(4) in \<open>auto simp: cs\<close>)
qed

lemma distinct_map_sort_by: "distinct (map f (sort_by c xs)) = distinct (map f xs)"
proof -
  have "mset (map f (sort_by c xs)) = mset (map f xs)" by simp
  then show ?thesis by (metis distinct_count_atmost_1 set_mset_mset)
qed

text \<open>The loops of an allocation that succeeds.\<close>

lemma allocation_loops:
  assumes "exact_arith A" and "allocate_sparse_portfolio A inp = Ok r"
  shows "\<exists>g n cs. 0 \<le> ai_equity inp * ai_asset_pct inp
    \<and> g = ai_equity inp * ai_leverage inp * ai_risk_scale inp \<and> n = ai_equity inp * ai_net_pct inp
    \<and> try_fold (admit_candidate A inp (ai_equity inp * ai_asset_pct inp) g n) (initial_targets inp)
        (sort_by (compare_candidates A) cs) = Ok (admitted_targets r)
    \<and> (\<forall>c \<in> set cs. candidate_ok inp (ai_equity inp * ai_asset_pct inp) c) \<and> distinct (map cd_asset cs)
    \<and> (\<forall>a \<in> set (allocation_assets inp). reducing inp (ai_equity inp * ai_asset_pct inp) a \<longrightarrow> a \<in> set (map cd_asset cs))"
proof -
  from assms(2) obtain cap l g n cs ret where v: "validate_allocation inp = Ok ()"
    and m: "d_mul A (ai_equity inp) (ai_asset_pct inp) = Some cap" "d_mul A (ai_equity inp) (ai_leverage inp) = Some l"
      "d_mul A l (ai_risk_scale inp) = Some g" "d_mul A (ai_equity inp) (ai_net_pct inp) = Some n"
    and cs: "try_fold (collect_candidate A inp cap (initial_targets inp)) ([], bempty) (allocation_assets inp) = Ok (cs, ret)"
    and adm: "try_fold (admit_candidate A inp cap g n) (initial_targets inp) (sort_by (compare_candidates A) cs)
        = Ok (admitted_targets r)"
    by (auto simp: allocate_sparse_portfolio_def alloc_mul_def outcome_simps Let_def)
  from m exact_arithD(3) [OF assms(1)] have e: "cap = ai_equity inp * ai_asset_pct inp"
    "g = ai_equity inp * ai_leverage inp * ai_risk_scale inp" "n = ai_equity inp * ai_net_pct inp" by metis+
  have "0 \<le> cap" using v by (auto simp: validate_allocation_def outcome_simps e)
  moreover from collect_all [OF assms(1) cs subset_refl] have "(\<forall>c \<in> set cs. candidate_ok inp cap c) \<and> distinct (map cd_asset cs)
      \<and> (\<forall>a \<in> set (allocation_assets inp). reducing inp cap a \<longrightarrow> a \<in> set (map cd_asset cs))"
    by (simp add: allocation_assets_props)
  ultimately show ?thesis using adm e by blast
qed

section \<open>Targets\<close>

lemma allocation_targets:
  fixes a :: asset
  assumes "exact_arith A" and "allocate_sparse_portfolio A inp = Ok r"
  defines "cap \<equiv> ai_equity inp * ai_asset_pct inp" and "t \<equiv> bget_or 0 (admitted_targets r) a"
  shows "(bhas (admitted_targets r) a \<longleftrightarrow> bhas (ai_raw_targets inp) a \<or> bhas (ai_filled inp) a)
    \<and> t \<in> {0, filled_of inp a, wanted inp cap a} \<and> \<bar>t\<bar> \<le> max \<bar>filled_of inp a\<bar> cap
    \<and> (filled_of inp a \<noteq> 0 \<and> (wanted inp cap a = 0 \<or> (0 \<le> filled_of inp a) \<noteq> (0 \<le> wanted inp cap a)
          \<or> \<bar>wanted inp cap a\<bar> < \<bar>filled_of inp a\<bar>) \<longrightarrow> t \<in> {0, wanted inp cap a})"
proof -
  from allocation_loops [OF assms(1,2)] obtain g n cs where cap0: "0 \<le> cap"
    and adm: "try_fold (admit_candidate A inp cap g n) (initial_targets inp) (sort_by (compare_candidates A) cs)
        = Ok (admitted_targets r)"
    and ok: "\<forall>c \<in> set cs. candidate_ok inp cap c" and dist: "distinct (map cd_asset cs)"
    and red: "\<forall>a \<in> set (allocation_assets inp). reducing inp cap a \<longrightarrow> a \<in> set (map cd_asset cs)"
    unfolding cap_def by blast
  have src: "sourced inp cs (admitted_targets r)"
    using adm
  proof (rule try_fold_inv)
    show "sourced inp cs (initial_targets inp)" by (auto simp: sourced_def bget_initial filled_of_def)
  qed (auto intro: sourced_admit simp: ok)
  have has: "bhas (admitted_targets r) a \<longleftrightarrow> a \<in> set (allocation_assets inp)"
    using src by (auto simp: sourced_def bhas_def split: option.splits)
  have desired: "cd_desired c \<in> {0, wanted inp cap (cd_asset c)}" if "c \<in> set cs" for c
    using ok that by (auto simp: candidate_ok_def staged_target_def split: if_splits)
  have t: "t \<in> {0, filled_of inp a, wanted inp cap a}"
  proof (cases "bget (admitted_targets r) a")
    case (Some v)
    with src have "v = 0 \<or> v = filled_of inp a \<or> (\<exists>c \<in> set cs. cd_asset c = a \<and> v = cd_desired c)"
      by (auto simp: sourced_def dest!: spec [of _ a])
    with desired Some show ?thesis by (auto simp: t_def bget_or_def)
  qed (simp add: t_def bget_or_def)
  have "\<bar>wanted inp cap a\<bar> \<le> cap" using cap0 by (auto simp: wanted_def min_def max_def)
  with t cap0 have bound: "\<bar>t\<bar> \<le> max \<bar>filled_of inp a\<bar> cap" by auto
  have "t \<in> {0, wanted inp cap a}" if "reducing inp cap a" and "filled_of inp a \<noteq> 0"
  proof -
    have "a \<in> set (allocation_assets inp)"
      using that(2) by (auto simp: allocation_assets_props filled_of_def bget_or_def bhas_def split: option.splits)
    with red that(1) obtain c where c: "c \<in> set cs" "cd_asset c = a" by auto
    with ok that(1) have "cd_class c \<le> 1" by (auto simp: candidate_ok_def reducing_def)
    with reduction_admitted [OF adm, of c] c dist have "bget (admitted_targets r) a \<in> {Some 0, Some (cd_desired c)}"
      by (auto simp: distinct_map_sort_by)
    with desired [OF c(1)] c(2) show ?thesis by (auto simp: t_def bget_or_def)
  qed
  moreover have "reducing inp cap a \<longleftrightarrow> filled_of inp a \<noteq> 0 \<and> (wanted inp cap a = 0
      \<or> (0 \<le> filled_of inp a) \<noteq> (0 \<le> wanted inp cap a) \<or> \<bar>wanted inp cap a\<bar> < \<bar>filled_of inp a\<bar>)"
    by (simp add: reducing_def transition_class_def)
  ultimately show ?thesis using has t bound allocation_assets_props(1) by blast
qed

text \<open>
  What allocation admits: a target is given exactly for the assets that are wanted or filled, and
  each is zero, the filled position or the wanted target (the raw target within the asset cap), so no
  asset goes beyond the cap that was not already beyond it. An exit, a reduction or a reversal is
  never held back: its target is the wanted one, or zero, and for an exit it is zero. The decimal
  arithmetic must not round.
\<close>

theorem allocation_admits:
  fixes a :: asset
  assumes "exact_arith A" and "allocate_sparse_portfolio A inp = Ok r"
  defines "cap \<equiv> ai_equity inp * ai_asset_pct inp" and "t \<equiv> bget_or 0 (admitted_targets r) a"
  shows "(bhas (admitted_targets r) a \<longleftrightarrow> bhas (ai_raw_targets inp) a \<or> bhas (ai_filled inp) a)
    \<and> t \<in> {0, filled_of inp a, wanted inp cap a} \<and> \<bar>t\<bar> \<le> max \<bar>filled_of inp a\<bar> cap
    \<and> (filled_of inp a \<noteq> 0 \<and> (wanted inp cap a = 0 \<or> (0 \<le> filled_of inp a) \<noteq> (0 \<le> wanted inp cap a)
          \<or> \<bar>wanted inp cap a\<bar> < \<bar>filled_of inp a\<bar>) \<longrightarrow> t \<in> {0, wanted inp cap a})"
  unfolding cap_def t_def by (rule allocation_targets [OF assms(1,2)])

section \<open>The gross cap\<close>

definition gross_exposure :: "(asset, rat) bmap \<Rightarrow> rat" where
  "gross_exposure m = sum_list (map abs (bvals m))"

lemma gross_exposure_sum:
  assumes "finite S" and "\<And>a. bhas m a \<Longrightarrow> a \<in> S"
  shows "gross_exposure m = (\<Sum>a\<in>S. \<bar>bget_or 0 m a\<bar>)"
proof -
  have "gross_exposure m = sum_list (map (\<lambda>a. \<bar>bget_or 0 m a\<bar>) (bkeys m))"
    unfolding gross_exposure_def map_bvals
    by (rule arg_cong [where f = sum_list]) (auto simp: set_bkeys bget_or_def bhas_def)
  also have "\<dots> = (\<Sum>a\<in>set (bkeys m). \<bar>bget_or 0 m a\<bar>)"
    by (rule sum_list_distinct_conv_sum_set) (rule bkeys_props)
  also have "\<dots> = (\<Sum>a\<in>S. \<bar>bget_or 0 m a\<bar>)"
    using assms by (intro sum.mono_neutral_left) (auto simp: set_bkeys bget_or_def bhas_def split: option.splits)
  finally show ?thesis .
qed

lemma within_caps_gross:
  assumes "exact_arith A" and "within_caps A m cap g n = Ok True"
  shows "gross_exposure m \<le> g"
proof -
  have "within_caps_loop A cap g n x y vs = Ok True \<Longrightarrow> x + sum_list (map abs vs) \<le> g" for x y vs
  proof (induction vs arbitrary: x y)
    case (Cons v vs)
    then obtain x' y' where "d_add A x \<bar>v\<bar> = Some x'" "within_caps_loop A cap g n x' y' vs = Ok True"
      by (auto simp: outcome_simps split: if_splits)
    with Cons.IH exact_arithD(1) [OF assms(1)] show ?case by fastforce
  qed simp
  from this [of 0 0] assms(2) show ?thesis by (simp add: within_caps_def gross_exposure_def)
qed

lemma gross_exposure_insert:
  assumes "\<bar>v\<bar> \<le> \<bar>bget_or 0 m a\<bar>"
  shows "gross_exposure (binsert a v m) \<le> gross_exposure m"
proof -
  let ?S = "insert a (set (bkeys m))"
  have "gross_exposure (binsert a v m) = (\<Sum>k\<in>?S. \<bar>bget_or 0 (binsert a v m) k\<bar>)"
    by (rule gross_exposure_sum) (auto simp: set_bkeys)
  also have "\<dots> \<le> (\<Sum>k\<in>?S. \<bar>bget_or 0 m k\<bar>)"
    using assms by (intro sum_mono) (auto simp: bget_or_def)
  also have "\<dots> = gross_exposure m" by (rule gross_exposure_sum [symmetric]) (auto simp: set_bkeys)
  finally show ?thesis .
qed

text \<open>The second loop, candidates in the order of their classes.\<close>

lemma admit_gross:
  assumes "exact_arith A" and "try_fold (admit_candidate A inp cap g n) m cs = Ok m'" and "gross_exposure m \<le> g"
    and "sorted (map cd_class cs)" and "distinct (map cd_asset cs)"
    and "\<forall>c \<in> set cs. cd_class c \<le> 1 \<longrightarrow> bget_or 0 m (cd_asset c) = cd_current c \<and> \<bar>cd_desired c\<bar> \<le> \<bar>cd_current c\<bar>"
  shows "gross_exposure m' \<le> g"
  using assms(2-)
proof (induction cs arbitrary: m)
  case (Cons c cs)
  from Cons.prems(1) obtain m1 where m1: "admit_candidate A inp cap g n m c = Ok m1"
    and rest: "try_fold (admit_candidate A inp cap g n) m1 cs = Ok m'" by (auto simp: outcome_simps)
  have g: "gross_exposure m1 \<le> g"
    using m1
  proof (cases rule: admit_step)
    case taken
    with Cons.prems(2,5) show ?thesis
      using within_caps_gross [OF assms(1)] gross_exposure_insert [of "cd_desired c" m "cd_asset c"] by auto
  next
    case (rotated v q)
    with Cons.prems(2) show ?thesis using gross_exposure_insert [of 0 m v] by simp
  qed (use Cons.prems(2) in simp)
  have "\<forall>c' \<in> set cs. cd_class c' \<le> 1 \<longrightarrow> bget_or 0 m1 (cd_asset c') = cd_current c' \<and> \<bar>cd_desired c'\<bar> \<le> \<bar>cd_current c'\<bar>"
  proof (cases "cd_class c \<le> 1")
    case True
    with m1 have "m1 = binsert (cd_asset c) (cd_desired c) m" by (cases rule: admit_step) auto
    moreover have "\<forall>c' \<in> set cs. cd_asset c' \<noteq> cd_asset c" using Cons.prems(4) by (simp add: image_iff) metis
    ultimately show ?thesis using Cons.prems(5) by (auto simp: bget_or_def)
  next
    case False
    with Cons.prems(3) show ?thesis by auto
  qed
  with rest g Cons.prems(3,4) show ?case by (intro Cons.IH) auto
qed simp



section \<open>Samples\<close>

definition sample_asset_floor :: asset_execution_floor where
  "sample_asset_floor = \<lparr>bounded_ioc_price = 1, minimum_quantity = 10, minimum_order_notional = 10, minimum_opening_notional = 12\<rparr>"

definition sample_allocation :: "(asset \<times> rat) list \<Rightarrow> (asset \<times> rat) list \<Rightarrow> sparse_allocation_input" where
  "sample_allocation raw filled = \<lparr>ai_raw_targets = bcollect raw, ai_convictions = bempty, ai_agreement_weights = bempty,
     ai_floors = bcollect [(''A'', sample_asset_floor), (''B'', sample_asset_floor)], ai_filled = bcollect filled,
     ai_equity = 1000, ai_leverage = 1, ai_risk_scale = 1, ai_asset_pct = 1 / 2, ai_net_pct = 1 / 20, ai_hysteresis = 0\<rparr>"

definition sample_hedge :: sparse_allocation_input where
  "sample_hedge = sample_allocation [(''A'', 100)] [(''A'', 100), (''B'', -100)]"

text \<open>
  Closing one leg of a hedge is admitted even when it takes the portfolio beyond the net cap: there is
  an input whose filled positions are within every cap and whose admitted targets are not, so a
  candidate of class 0 or 1 that fails the caps does not show that the starting portfolio broke them.
\<close>

theorem exit_can_break_net_cap:
  "\<exists>inp r. allocate_sparse_portfolio exact_ops inp = Ok r
     \<and> within_caps exact_ops (ai_filled inp) (ai_equity inp * ai_asset_pct inp)
          (ai_equity inp * ai_leverage inp * ai_risk_scale inp) (ai_equity inp * ai_net_pct inp) = Ok True
     \<and> within_caps exact_ops (admitted_targets r) (ai_equity inp * ai_asset_pct inp)
          (ai_equity inp * ai_leverage inp * ai_risk_scale inp) (ai_equity inp * ai_net_pct inp) = Ok False"
proof -
  let ?i = sample_hedge
  have caps: "within_caps exact_ops (ai_filled ?i) (ai_equity ?i * ai_asset_pct ?i)
      (ai_equity ?i * ai_leverage ?i * ai_risk_scale ?i) (ai_equity ?i * ai_net_pct ?i) = Ok True"
    by code_simp
  have "case allocate_sparse_portfolio exact_ops ?i of Ok r \<Rightarrow>
      within_caps exact_ops (admitted_targets r) (ai_equity ?i * ai_asset_pct ?i)
        (ai_equity ?i * ai_leverage ?i * ai_risk_scale ?i) (ai_equity ?i * ai_net_pct ?i) = Ok False | _ \<Rightarrow> False"
    by code_simp
  then obtain r where "allocate_sparse_portfolio exact_ops ?i = Ok r"
    "within_caps exact_ops (admitted_targets r) (ai_equity ?i * ai_asset_pct ?i)
        (ai_equity ?i * ai_leverage ?i * ai_risk_scale ?i) (ai_equity ?i * ai_net_pct ?i) = Ok False"
    by (auto split: outcome.splits)
  with caps show ?thesis by blast
qed

definition sample_growth :: sparse_allocation_input where
  "sample_growth = sample_allocation [(''A'', 40)] [(''A'', 20)]"

lemma sample_growth_ok: "is_ok (allocate_sparse_portfolio exact_ops sample_growth)"
  by code_simp

lemma allocation_admits_witness:
  "\<exists>r. allocate_sparse_portfolio exact_ops sample_growth = Ok r \<and> bhas (admitted_targets r) ''A''
     \<and> bget_or 0 (admitted_targets r) ''A'' \<in> {0, filled_of sample_growth ''A'', wanted sample_growth 500 ''A''}"
proof -
  obtain r where r: "allocate_sparse_portfolio exact_ops sample_growth = Ok r"
    using sample_growth_ok by (auto simp: is_ok_def split: outcome.splits)
  have "ai_equity sample_growth * ai_asset_pct sample_growth = 500" "bhas (ai_filled sample_growth) ''A''" by code_simp+
  with allocation_admits [OF exact_ops_exact r, of "''A''"] r show ?thesis by simp
qed


end
