(* ===== verification/Target_State.thy ===== *)
theory Target_State
  imports Allocation Identity
begin

text \<open>
  The ledger of absolute targets (\<open>copytrade-core/src/target_state.rs\<close>): for every asset ever targeted
  the raw and the admitted target, what is committed to it, and the residual left to execute.
\<close>

section \<open>Data\<close>

record virtual_target_state =
  ts_raw_desired :: rat
  ts_admitted :: rat
  ts_filled :: rat
  ts_acknowledged_open :: rat
  ts_unknown_result :: rat
  ts_residual :: rat
  ts_version :: target_version
  ts_source_set :: snapshot_set_id

record virtual_target_ledger =
  tl_schema_version :: nat
  tl_assets :: "(asset, virtual_target_state) bmap"

datatype target_state_error =
    TargetOverflow string
  | TargetPersistence string
  | TargetSchemaMismatch

type_synonym 'a target_result = "('a, target_state_error) outcome"

definition TARGET_LEDGER_SCHEMA_VERSION :: nat where "TARGET_LEDGER_SCHEMA_VERSION = 1"

definition default_target_ledger :: virtual_target_ledger where
  "default_target_ledger = \<lparr>tl_schema_version = TARGET_LEDGER_SCHEMA_VERSION, tl_assets = bempty\<rparr>"

section \<open>Operations\<close>

definition committed_target :: "decimal_ops \<Rightarrow> rat \<Rightarrow> rat \<Rightarrow> rat \<Rightarrow> rat target_result" where
  "committed_target A filled acknowledged unknown =
    and_then (ok_or (TargetOverflow ''committed exposure'') (d_add A filled acknowledged)) (\<lambda>v.
    ok_or (TargetOverflow ''committed exposure'') (d_add A v unknown))"

definition target_residual :: "decimal_ops \<Rightarrow> rat \<Rightarrow> rat \<Rightarrow> rat \<Rightarrow> rat \<Rightarrow> rat target_result" where
  "target_residual A admitted filled acknowledged unknown =
    and_then (committed_target A filled acknowledged unknown) (\<lambda>committed.
    ok_or (TargetOverflow ''target residual'') (d_sub A admitted committed))"

text \<open>The inputs of a replacement.\<close>

record target_replacement =
  tr_raw_desired :: "(asset, rat) bmap"
  tr_admitted :: "(asset, rat) bmap"
  tr_filled :: "(asset, rat) bmap"
  tr_acknowledged_open :: "(asset, rat) bmap"
  tr_unknown_result :: "(asset, rat) bmap"
  tr_version :: target_version
  tr_source_set :: snapshot_set_id

definition replacement_assets :: "target_replacement \<Rightarrow> virtual_target_ledger \<Rightarrow> asset list" where
  "replacement_assets r l = bkeys (bset_of (bkeys (tl_assets l) @ bkeys (tr_raw_desired r) @ bkeys (tr_admitted r)
     @ bkeys (tr_filled r) @ bkeys (tr_acknowledged_open r) @ bkeys (tr_unknown_result r)))"

definition replaced_target :: "decimal_ops \<Rightarrow> target_replacement \<Rightarrow> asset \<Rightarrow> virtual_target_state target_result" where
  "replaced_target A r a =
    (let raw = bget_or 0 (tr_raw_desired r) a; admitted = bget_or 0 (tr_admitted r) a;
         filled = bget_or 0 (tr_filled r) a; acknowledged = bget_or 0 (tr_acknowledged_open r) a;
         unknown = bget_or 0 (tr_unknown_result r) a in
     and_then (target_residual A admitted filled acknowledged unknown) (\<lambda>residual.
     Ok \<lparr>ts_raw_desired = raw, ts_admitted = admitted, ts_filled = filled, ts_acknowledged_open = acknowledged,
         ts_unknown_result = unknown, ts_residual = residual, ts_version = tr_version r,
         ts_source_set = tr_source_set r\<rparr>))"

definition replace_absolute_targets ::
  "decimal_ops \<Rightarrow> target_replacement \<Rightarrow> virtual_target_ledger \<Rightarrow> virtual_target_ledger target_result" where
  "replace_absolute_targets A r l =
    and_then (btraverse (replaced_target A r) (replacement_assets r l)) (\<lambda>replacement.
    Ok (l\<lparr>tl_assets := replacement\<rparr>))"

definition target_of :: "virtual_target_ledger \<Rightarrow> asset \<Rightarrow> virtual_target_state option" where
  "target_of l a = bget (tl_assets l) a"

definition ledger_admitted_targets :: "virtual_target_ledger \<Rightarrow> (asset, rat) bmap" where
  "ledger_admitted_targets l = bvmap (\<lambda>_ s. ts_admitted s) (tl_assets l)"

definition latest_target_version :: "virtual_target_ledger \<Rightarrow> target_version option" where
  "latest_target_version l = (case map ts_version (bvals (tl_assets l)) of
     [] \<Rightarrow> None
   | v # vs \<Rightarrow> if list_all (\<lambda>w. w = v) vs then Some v else None)"

definition retained_gaps :: "decimal_ops \<Rightarrow> rat \<Rightarrow> virtual_target_ledger \<Rightarrow> (asset, rat) bmap" where
  "retained_gaps A least l = bcollect (List.map_filter (\<lambda>(a, s).
     case target_residual A (ts_raw_desired s) (ts_filled s) (ts_acknowledged_open s) (ts_unknown_result s) of
       Ok gap \<Rightarrow> if gap \<noteq> 0 \<and> \<bar>gap\<bar> < least then Some (a, gap) else None
     | _ \<Rightarrow> None) (entries (tl_assets l)))"

definition validate_target :: "decimal_ops \<Rightarrow> virtual_target_state \<Rightarrow> unit target_result" where
  "validate_target A s =
    and_then (target_residual A (ts_admitted s) (ts_filled s) (ts_acknowledged_open s) (ts_unknown_result s)) (\<lambda>expected.
    fail_if (expected \<noteq> ts_residual s) (TargetPersistence ''target residual invariant mismatch''))"

definition validate_target_ledger :: "decimal_ops \<Rightarrow> virtual_target_ledger \<Rightarrow> unit target_result" where
  "validate_target_ledger A l =
    and_then (fail_if (tl_schema_version l \<noteq> TARGET_LEDGER_SCHEMA_VERSION) TargetSchemaMismatch) (\<lambda>_.
    and_then (check_all (validate_target A) (bvals (tl_assets l))) (\<lambda>_.
    fail_if (tl_assets l \<noteq> bempty \<and> latest_target_version l = None)
      (TargetPersistence ''target versions are inconsistent'')))"

section \<open>Integrity\<close>

text \<open>A call that fails leaves the ledger as it was.\<close>

definition replace_exec :: "decimal_ops \<Rightarrow> target_replacement \<Rightarrow> virtual_target_ledger \<Rightarrow> virtual_target_ledger" where
  "replace_exec A r l = (case replace_absolute_targets A r l of Ok l' \<Rightarrow> l' | _ \<Rightarrow> l)"

definition targets_ok :: "decimal_ops \<Rightarrow> virtual_target_ledger \<Rightarrow> bool" where
  "targets_ok A l = (tl_schema_version l = TARGET_LEDGER_SCHEMA_VERSION
     \<and> (\<exists>v. \<forall>a s. bget (tl_assets l) a = Some s \<longrightarrow> ts_version s = v
          \<and> target_residual A (ts_admitted s) (ts_filled s) (ts_acknowledged_open s) (ts_unknown_result s) = Ok (ts_residual s)))"

lemma btraverse_get_iff: "btraverse f ks = Ok m \<Longrightarrow> bget m k = Some v \<longleftrightarrow> k \<in> set ks \<and> f k = Ok v"
  using btraverse_get [of f ks m k] btraverse_Some [of f ks m k v] by auto

lemma replace_targets:
  assumes "replace_absolute_targets A r l = Ok l'"
  shows "tl_schema_version l' = tl_schema_version l"
    and "bget (tl_assets l') a = Some s \<longleftrightarrow> a \<in> set (replacement_assets r l) \<and> replaced_target A r a = Ok s"
    and "bhas (tl_assets l') a \<longleftrightarrow> a \<in> set (replacement_assets r l)"
  using assms by (auto simp: replace_absolute_targets_def outcome_simps btraverse_get_iff btraverse_has)

lemma targets_ok_replace: "targets_ok A l \<Longrightarrow> replace_absolute_targets A r l = Ok l' \<Longrightarrow> targets_ok A l'"
  unfolding targets_ok_def
  by (auto simp: replace_targets replaced_target_def outcome_simps Let_def intro!: exI [of _ "tr_version r"])

interpretation targets: machine "replace_exec A" "targets_ok A" for A
  by unfold_locales (auto simp: replace_exec_def split: outcome.splits intro: targets_ok_replace)

lemma targets_ok_valid:
  assumes "targets_ok A l"
  shows "validate_target_ledger A l = Ok ()"
proof -
  from assms obtain v where v: "\<And>a s. bget (tl_assets l) a = Some s \<Longrightarrow> ts_version s = v
      \<and> target_residual A (ts_admitted s) (ts_filled s) (ts_acknowledged_open s) (ts_unknown_result s) = Ok (ts_residual s)"
    by (auto simp: targets_ok_def)
  have "check_all (validate_target A) (bvals (tl_assets l)) = Ok ()"
    using v by (auto simp: outcome_simps set_bvals validate_target_def)
  moreover have "tl_assets l = bempty \<or> latest_target_version l \<noteq> None"
  proof (cases "tl_assets l = bempty")
    case False
    have all: "\<forall>s \<in> set (bvals (tl_assets l)). ts_version s = v" using v by (auto simp: set_bvals)
    have "bvals (tl_assets l) \<noteq> []" using False by (auto simp: bvals_def bsize_def simp flip: bsize_0)
    with all show ?thesis by (cases "bvals (tl_assets l)") (auto simp: latest_target_version_def list_all_iff)
  qed simp
  ultimately show ?thesis using assms by (simp add: validate_target_ledger_def targets_ok_def fail_if_def)
qed

text \<open>
  The target ledger is valid whatever happens: after any sequence of replacements, failing ones
  included, started from the default ledger, \<open>validate_integrity\<close> accepts it. No assumption on the
  decimal arithmetic is needed.
\<close>

theorem target_ledger_stays_valid:
  "validate_target_ledger A (fold (replace_exec A) rs default_target_ledger) = Ok ()"
proof (rule targets_ok_valid [OF targets.invar_run])
  show "targets_ok A default_target_ledger" by (simp add: targets_ok_def default_target_ledger_def)
qed

text \<open>
  A replacement is absolute: afterwards an asset has a target exactly if it had one before or one of
  the five inputs mentions it, the target holds the inputs' values (zero where they are silent) and
  the new version, and nothing of the old values; when nothing rounds, what is committed and the
  residual add up to the admitted target.
\<close>

theorem replacement_is_absolute:
  assumes "replace_absolute_targets A r l = Ok l'"
  shows "(target_of l' a \<noteq> None \<longleftrightarrow> target_of l a \<noteq> None
      \<or> (\<exists>m \<in> {tr_raw_desired r, tr_admitted r, tr_filled r, tr_acknowledged_open r, tr_unknown_result r}. bhas m a))
    \<and> (\<forall>s. target_of l' a = Some s \<longrightarrow>
         ts_raw_desired s = bget_or 0 (tr_raw_desired r) a \<and> ts_admitted s = bget_or 0 (tr_admitted r) a
       \<and> ts_filled s = bget_or 0 (tr_filled r) a \<and> ts_acknowledged_open s = bget_or 0 (tr_acknowledged_open r) a
       \<and> ts_unknown_result s = bget_or 0 (tr_unknown_result r) a
       \<and> ts_version s = tr_version r \<and> ts_source_set s = tr_source_set r
       \<and> (exact_arith A \<longrightarrow>
            ts_admitted s = ts_filled s + ts_acknowledged_open s + ts_unknown_result s + ts_residual s))"
proof -
  have exact: "w = x + y + z + v" if "exact_arith A" "target_residual A w x y z = Ok v" for w x y z v
    using that(2) by (auto simp: target_residual_def committed_target_def outcome_simps
        dest!: exact_arithD(1,2) [OF that(1)])
  have "target_of l' a \<noteq> None \<longleftrightarrow> a \<in> set (replacement_assets r l)"
    using replace_targets(3) [OF assms] by (simp add: target_of_def bhas_def)
  also have "\<dots> \<longleftrightarrow> target_of l a \<noteq> None
      \<or> (\<exists>m \<in> {tr_raw_desired r, tr_admitted r, tr_filled r, tr_acknowledged_open r, tr_unknown_result r}. bhas m a)"
    by (auto simp: replacement_assets_def set_bset set_bkeys target_of_def bhas_def)
  finally show ?thesis
    using exact by (auto simp: target_of_def replace_targets(2) [OF assms] replaced_target_def outcome_simps Let_def
        simp del: insert_iff bex_simps)
qed

definition sample_replacement :: target_replacement where
  "sample_replacement = \<lparr>tr_raw_desired = bcollect [(''A'', 30)], tr_admitted = bcollect [(''A'', 20)],
     tr_filled = bcollect [(''A'', 5)], tr_acknowledged_open = bempty, tr_unknown_result = bempty,
     tr_version = 2, tr_source_set = [1]\<rparr>"

lemma replacement_is_absolute_witness:
  "\<exists>l s. replace_absolute_targets exact_ops sample_replacement default_target_ledger = Ok l
     \<and> target_of l ''A'' = Some s \<and> ts_admitted s = 20 \<and> ts_residual s = 15"
proof -
  have "is_ok (replace_absolute_targets exact_ops sample_replacement default_target_ledger)" by code_simp
  then obtain l where l: "replace_absolute_targets exact_ops sample_replacement default_target_ledger = Ok l"
    by (auto simp: is_ok_def split: outcome.splits)
  have "bhas (tr_raw_desired sample_replacement) ''A''"
    and v: "bget_or 0 (tr_admitted sample_replacement) ''A'' = 20" "bget_or 0 (tr_filled sample_replacement) ''A'' = 5"
      "bget_or 0 (tr_acknowledged_open sample_replacement) ''A'' = 0" "bget_or 0 (tr_unknown_result sample_replacement) ''A'' = 0"
    by code_simp+
  with replacement_is_absolute [OF l, of "''A''"] obtain s where "target_of l ''A'' = Some s"
    "ts_admitted s = 20" "ts_admitted s = ts_filled s + ts_acknowledged_open s + ts_unknown_result s + ts_residual s"
    "ts_filled s = 5" "ts_acknowledged_open s = 0" "ts_unknown_result s = 0"
    using exact_ops_exact by (auto simp: target_of_def)
  with l show ?thesis by auto
qed

end
