(* ===== verification/Float_Arith.thy ===== *)
theory Float_Arith
  imports Rust_Base
begin

text \<open>
  Floating point values, as far as the program can tell them apart. It reads an \<open>f64\<close> only through
  \<open>is_finite\<close> and, once it is known to be finite, through comparisons and arithmetic: a finite value is
  its rational number (the two zeros are one), infinities and NaN are \<open>NotFinite\<close>. The rounding
  operations are a parameter.
\<close>

datatype f64 = Finite rat | NotFinite

record float_ops =
  f_add :: "rat \<Rightarrow> rat \<Rightarrow> f64"
  f_mul :: "rat \<Rightarrow> rat \<Rightarrow> f64"

fun is_finite :: "f64 \<Rightarrow> bool" where
  "is_finite (Finite _) = True"
| "is_finite NotFinite = False"

text \<open>The arithmetic without rounding, for the witnesses.\<close>

definition exact_float :: float_ops where
  "exact_float = \<lparr>f_add = (\<lambda>x y. Finite (x + y)), f_mul = (\<lambda>x y. Finite (x * y))\<rparr>"

end
