(* ===== verification/Confidence.thy ===== *)
theory Confidence
  imports Float_Arith
begin

text \<open>
  The confidence in a copied trader (\<open>copytrade-core/src/confidence.rs\<close>): a rung of a fixed ladder that
  reviews move, with quarantine and two permanent blocks.
\<close>

section \<open>Data\<close>

definition CONFIDENCE_LEVELS :: "rat list" where
  "CONFIDENCE_LEVELS = [0, 25 / 1000, 5 / 100, 10 / 100, 25 / 100, 50 / 100, 1]"

datatype candidate_state = Warmup | Active | Decayed | Quarantined | IntegrityBlocked | ManualDenylist

record candidate_confidence =
  cc_state :: candidate_state
  confidence_modifier :: rat
  cc_closed_episodes :: nat
  cc_active_days :: nat
  last_rung_change_episode :: nat
  consecutive_reentry_windows :: nat

record confidence_review =
  rv_closed_episodes :: nat
  rv_active_days :: nat
  rv_net_expectancy :: f64
  rv_annualized_sharpe :: f64

datatype confidence_outcome =
    GatheringData | Held | IncreasedOneRung | ReducedOneRung | QuarantinedNow | ReenteredWarmup
  | IntegrityBlockedNow | ManualDenylisted

datatype confidence_error = InvalidConfidenceLevel | NonFiniteMetric | EpisodeCountRegressed | PermanentlyBlocked

type_synonym confidence_result = "(confidence_outcome \<times> candidate_confidence, confidence_error) outcome"

definition new_confidence :: "rat \<Rightarrow> (candidate_confidence, confidence_error) outcome" where
  "new_confidence base =
    and_then (fail_if (base \<notin> set CONFIDENCE_LEVELS \<or> base = 0) InvalidConfidenceLevel) (\<lambda>_.
    Ok \<lparr>cc_state = Warmup, confidence_modifier = base, cc_closed_episodes = 0, cc_active_days = 0,
        last_rung_change_episode = 0, consecutive_reentry_windows = 0\<rparr>)"

definition contributes_to_consensus :: "candidate_confidence \<Rightarrow> bool" where
  "contributes_to_consensus c = (cc_state c \<in> {Warmup, Active, Decayed} \<and> 0 < confidence_modifier c)"

section \<open>The ladder\<close>

fun position :: "('a \<Rightarrow> bool) \<Rightarrow> 'a list \<Rightarrow> nat option" where
  "position P [] = None"
| "position P (x # xs) = (if P x then Some 0 else map_option Suc (position P xs))"

definition confidence_index :: "rat \<Rightarrow> nat option" where
  "confidence_index v = position (\<lambda>level. level = v) CONFIDENCE_LEVELS"

definition state_for_confidence :: "rat \<Rightarrow> candidate_state" where
  "state_for_confidence v = (if v = 1 then Active else if v = 0 then Quarantined else Decayed)"

definition increase_one_rung :: "candidate_confidence \<Rightarrow> candidate_confidence" where
  "increase_one_rung c =
    (let index = (case confidence_index (confidence_modifier c) of Some i \<Rightarrow> i | None \<Rightarrow> 0);
         v = CONFIDENCE_LEVELS ! min (index + 1) (length CONFIDENCE_LEVELS - 1) in
     c\<lparr>confidence_modifier := v, cc_state := state_for_confidence v\<rparr>)"

definition reduce_one_rung :: "candidate_confidence \<Rightarrow> candidate_confidence" where
  "reduce_one_rung c =
    (let index = (case confidence_index (confidence_modifier c) of Some i \<Rightarrow> i | None \<Rightarrow> 1);
         v = CONFIDENCE_LEVELS ! saturating_sub index 1 in
     c\<lparr>confidence_modifier := v, cc_state := (if v = 0 then Quarantined else Decayed)\<rparr>)"

section \<open>Reviews\<close>

definition hold_state :: "candidate_confidence \<Rightarrow> candidate_confidence" where
  "hold_state c = c\<lparr>cc_state := state_for_confidence (confidence_modifier c)\<rparr>"

text \<open>The review of a candidate that is not quarantined, its metrics being finite.\<close>

definition review_active ::
  "confidence_review \<Rightarrow> rat \<Rightarrow> rat \<Rightarrow> candidate_confidence \<Rightarrow> confidence_outcome \<times> candidate_confidence" where
  "review_active r expectancy sharpe c =
    (let closed = rv_closed_episodes r;
         eligible = (25 \<le> saturating_sub closed (last_rung_change_episode c));
         changed = last_rung_change_episode_update (\<lambda>_. closed) in
     if closed < 50 then (GatheringData, c\<lparr>cc_state := Warmup\<rparr>)
     else if closed < 100 \<or> rv_active_days r < 14 then
       (if expectancy < 0 \<and> eligible then (ReducedOneRung, changed (reduce_one_rung c))
        else (Held, hold_state c))
     else if sharpe < 0 then
       (QuarantinedNow, changed (c\<lparr>cc_state := Quarantined, confidence_modifier := 0, consecutive_reentry_windows := 0\<rparr>))
     else if \<not> eligible then (Held, hold_state c)
     else if 15 \<le> sharpe then (IncreasedOneRung, changed (increase_one_rung c))
     else if sharpe < 10 then (ReducedOneRung, changed (reduce_one_rung c))
     else (Held, hold_state c))"

definition apply_confidence_review :: "candidate_confidence \<Rightarrow> confidence_review \<Rightarrow> confidence_result" where
  "apply_confidence_review c r =
    and_then (fail_if (cc_state c \<in> {IntegrityBlocked, ManualDenylist}) PermanentlyBlocked) (\<lambda>_.
    case (rv_net_expectancy r, rv_annualized_sharpe r) of
      (Finite expectancy, Finite sharpe) \<Rightarrow>
        and_then (fail_if (rv_closed_episodes r < cc_closed_episodes c) EpisodeCountRegressed) (\<lambda>_.
        let c = c\<lparr>cc_closed_episodes := rv_closed_episodes r, cc_active_days := rv_active_days r\<rparr> in
        if cc_state c = Quarantined then Ok (QuarantinedNow, c) else Ok (review_active r expectancy sharpe c))
    | _ \<Rightarrow> Err NonFiniteMetric)"

definition observe_quarantine_reentry_window :: "candidate_confidence \<Rightarrow> f64 \<Rightarrow> confidence_result" where
  "observe_quarantine_reentry_window c annualized_sharpe =
    (if cc_state c \<noteq> Quarantined then Ok (Held, c)
     else case annualized_sharpe of
       NotFinite \<Rightarrow> Err NonFiniteMetric
     | Finite sharpe \<Rightarrow>
         and_then (if 15 \<le> sharpe then ok_or EpisodeCountRegressed (checked_add_nat 32 (consecutive_reentry_windows c) 1)
                   else Ok 0) (\<lambda>windows.
         if 3 \<le> windows then
           Ok (ReenteredWarmup, c\<lparr>cc_state := Warmup, confidence_modifier := CONFIDENCE_LEVELS ! 1,
               consecutive_reentry_windows := 0, last_rung_change_episode := cc_closed_episodes c\<rparr>)
         else Ok (QuarantinedNow, c\<lparr>consecutive_reentry_windows := windows\<rparr>)))"

definition block_integrity :: "candidate_confidence \<Rightarrow> confidence_outcome \<times> candidate_confidence" where
  "block_integrity c = (IntegrityBlockedNow, c\<lparr>cc_state := IntegrityBlocked, confidence_modifier := 0\<rparr>)"

definition manual_denylist :: "candidate_confidence \<Rightarrow> confidence_outcome \<times> candidate_confidence" where
  "manual_denylist c = (ManualDenylisted, c\<lparr>cc_state := ManualDenylist, confidence_modifier := 0\<rparr>)"

section \<open>Runs\<close>

datatype confidence_call = Review confidence_review | ReentryWindow f64 | BlockIntegrity | Denylist

definition kept :: "candidate_confidence \<Rightarrow> confidence_result \<Rightarrow> candidate_confidence" where
  "kept c r = (case r of Ok (_, c') \<Rightarrow> c' | _ \<Rightarrow> c)"

fun confidence_exec :: "confidence_call \<Rightarrow> candidate_confidence \<Rightarrow> candidate_confidence" where
  "confidence_exec (Review r) c = kept c (apply_confidence_review c r)"
| "confidence_exec (ReentryWindow x) c = kept c (observe_quarantine_reentry_window c x)"
| "confidence_exec BlockIntegrity c = snd (block_integrity c)"
| "confidence_exec Denylist c = snd (manual_denylist c)"

text \<open>The ladder, with the index of a level.\<close>

lemma confidence_index_level: "i < 7 \<Longrightarrow> confidence_index (CONFIDENCE_LEVELS ! i) = Some i"
  by (simp add: less_Suc_eq numeral_eq_Suc confidence_index_def CONFIDENCE_LEVELS_def) auto

lemma level_sign: "i < 7 \<Longrightarrow> 0 \<le> CONFIDENCE_LEVELS ! i \<and> (CONFIDENCE_LEVELS ! i = 0 \<longleftrightarrow> i = 0)
    \<and> (CONFIDENCE_LEVELS ! i = 1 \<longleftrightarrow> i = 6)"
  by (simp add: less_Suc_eq numeral_eq_Suc CONFIDENCE_LEVELS_def) auto


definition rung :: "candidate_confidence \<Rightarrow> nat" where
  "rung c = (case confidence_index (confidence_modifier c) of Some i \<Rightarrow> i | None \<Rightarrow> 0)"

definition confidence_ok :: "candidate_confidence \<Rightarrow> bool" where
  "confidence_ok c = (rung c < 7 \<and> confidence_modifier c = CONFIDENCE_LEVELS ! rung c
     \<and> (cc_state c \<in> {Quarantined, IntegrityBlocked, ManualDenylist} \<longleftrightarrow> rung c = 0)
     \<and> last_rung_change_episode c \<le> cc_closed_episodes c)"

lemma levels_length: "length CONFIDENCE_LEVELS = 7"
  by (simp add: CONFIDENCE_LEVELS_def)

lemma rung_level: "i < 7 \<Longrightarrow> confidence_modifier c = CONFIDENCE_LEVELS ! i \<Longrightarrow> rung c = i"
  by (simp add: rung_def confidence_index_level)

lemma confidence_okI:
  assumes "i < 7" and "confidence_modifier c = CONFIDENCE_LEVELS ! i"
    and "cc_state c \<in> {Quarantined, IntegrityBlocked, ManualDenylist} \<longleftrightarrow> i = 0"
    and "last_rung_change_episode c \<le> cc_closed_episodes c"
  shows "confidence_ok c"
  using assms rung_level [OF assms(1,2)] by (simp add: confidence_ok_def)

lemma confidence_index_rung: "confidence_ok c \<Longrightarrow> confidence_index (confidence_modifier c) = Some (rung c)"
  by (metis confidence_ok_def confidence_index_level)

text \<open>One step up or down the ladder.\<close>

lemma increase_rung:
  assumes "confidence_ok c"
  shows "confidence_ok (increase_one_rung c)" "rung (increase_one_rung c) = min (rung c + 1) 6"
proof -
  let ?i = "min (rung c + 1) 6"
  have i: "?i < 7" by simp
  have v: "confidence_modifier (increase_one_rung c) = CONFIDENCE_LEVELS ! ?i"
    using assms by (simp add: increase_one_rung_def Let_def confidence_index_rung levels_length)
  show r: "rung (increase_one_rung c) = ?i" using i v by (rule rung_level)
  have "cc_state (increase_one_rung c) = state_for_confidence (CONFIDENCE_LEVELS ! ?i)"
    using v by (simp add: increase_one_rung_def Let_def)
  then show "confidence_ok (increase_one_rung c)"
    using assms level_sign [OF i] v
    by (intro confidence_okI [OF i]) (auto simp: state_for_confidence_def increase_one_rung_def Let_def confidence_ok_def)
qed

lemma reduce_rung:
  assumes "confidence_ok c"
  shows "confidence_ok (reduce_one_rung c)" "rung (reduce_one_rung c) = rung c - 1"
proof -
  let ?i = "rung c - 1"
  have i: "?i < 7" using assms by (simp add: confidence_ok_def less_imp_diff_less)
  have v: "confidence_modifier (reduce_one_rung c) = CONFIDENCE_LEVELS ! ?i"
    using assms by (simp add: reduce_one_rung_def Let_def confidence_index_rung saturating_sub_def)
  show r: "rung (reduce_one_rung c) = ?i" using i v by (rule rung_level)
  have "cc_state (reduce_one_rung c) = (if CONFIDENCE_LEVELS ! ?i = 0 then Quarantined else Decayed)"
    using v by (simp add: reduce_one_rung_def Let_def)
  then show "confidence_ok (reduce_one_rung c)"
    using assms level_sign [OF i] v
    by (intro confidence_okI [OF i]) (auto simp: reduce_one_rung_def Let_def confidence_ok_def)
qed

lemma hold_rung:
  assumes "confidence_ok c" and "cc_state c \<notin> {IntegrityBlocked, ManualDenylist}"
  shows "confidence_ok (hold_state c)" "rung (hold_state c) = rung c"
proof -
  have i: "rung c < 7" and v: "confidence_modifier (hold_state c) = CONFIDENCE_LEVELS ! rung c"
    using assms by (simp_all add: confidence_ok_def hold_state_def)
  show "rung (hold_state c) = rung c" using i v by (rule rung_level)
  show "confidence_ok (hold_state c)"
    using assms level_sign [OF i] v
    by (intro confidence_okI [OF i]) (auto simp: hold_state_def state_for_confidence_def confidence_ok_def)
qed

text \<open>A new time of the last change and new counts keep a candidate well-formed.\<close>

lemma rung_updates [simp]:
  "rung (c\<lparr>last_rung_change_episode := n\<rparr>) = rung c" "rung (c\<lparr>cc_closed_episodes := n\<rparr>) = rung c"
  "rung (c\<lparr>cc_active_days := n\<rparr>) = rung c" "rung (c\<lparr>consecutive_reentry_windows := n\<rparr>) = rung c"
  "rung (c\<lparr>cc_state := s\<rparr>) = rung c"
  by (simp_all add: rung_def)

lemma changed_ok: "confidence_ok c \<Longrightarrow> n = cc_closed_episodes c \<Longrightarrow> confidence_ok (c\<lparr>last_rung_change_episode := n\<rparr>)"
  by (simp add: confidence_ok_def)

lemma rung_step_fields [simp]:
  "cc_closed_episodes (increase_one_rung c) = cc_closed_episodes c" "cc_closed_episodes (reduce_one_rung c) = cc_closed_episodes c"
  "last_rung_change_episode (hold_state c) = last_rung_change_episode c"
  by (simp_all add: increase_one_rung_def reduce_one_rung_def hold_state_def Let_def)

lemma quarantined_ok:
  assumes "last_rung_change_episode c \<le> cc_closed_episodes c" and "confidence_modifier c = 0"
    and "cc_state c \<in> {Quarantined, IntegrityBlocked, ManualDenylist}"
  shows "confidence_ok c" "rung c = 0"
proof -
  have v: "confidence_modifier c = CONFIDENCE_LEVELS ! 0" using assms(2) by (simp add: CONFIDENCE_LEVELS_def)
  show "rung c = 0" by (rule rung_level [OF _ v]) simp
  show "confidence_ok c" using assms by (intro confidence_okI [OF _ v]) simp_all
qed

text \<open>What a review of an active candidate does, in one statement.\<close>

lemma review_active_spec:
  assumes "confidence_ok c" and "cc_state c \<in> {Warmup, Active, Decayed}" and "cc_closed_episodes c = rv_closed_episodes r"
    and "review_active r e s c = (out, c')"
  shows "confidence_ok c' \<and> cc_state c' \<notin> {IntegrityBlocked, ManualDenylist} \<and> cc_closed_episodes c' = rv_closed_episodes r
    \<and> (rung c' = rung c \<and> last_rung_change_episode c' \<in> {last_rung_change_episode c, rv_closed_episodes r}
       \<or> last_rung_change_episode c' = rv_closed_episodes r
         \<and> (last_rung_change_episode c + 25 \<le> rv_closed_episodes r \<and> (rung c' = rung c + 1 \<or> rung c' + 1 = rung c)
            \<or> s < 0 \<and> 100 \<le> rv_closed_episodes r \<and> 14 \<le> rv_active_days r \<and> rung c' = 0))"
proof -
  have nz: "0 < rung c" using assms(1,2) by (auto simp: confidence_ok_def)
  have held: "confidence_ok (hold_state c)" "rung (hold_state c) = rung c"
    using assms(1,2) by (auto intro: hold_rung)
  have hs: "cc_state (hold_state c) \<notin> {IntegrityBlocked, ManualDenylist}" "cc_state (increase_one_rung c) \<notin> {IntegrityBlocked, ManualDenylist}"
    "cc_state (reduce_one_rung c) \<notin> {IntegrityBlocked, ManualDenylist}" "cc_closed_episodes (hold_state c) = cc_closed_episodes c"
    by (auto simp: hold_state_def increase_one_rung_def reduce_one_rung_def state_for_confidence_def Let_def)
  let ?up = "increase_one_rung c\<lparr>last_rung_change_episode := rv_closed_episodes r\<rparr>"
  let ?down = "reduce_one_rung c\<lparr>last_rung_change_episode := rv_closed_episodes r\<rparr>"
  let ?out = "c\<lparr>cc_state := Quarantined, confidence_modifier := 0, consecutive_reentry_windows := 0,
      last_rung_change_episode := rv_closed_episodes r\<rparr>"
  consider (gather) "c' = c\<lparr>cc_state := Warmup\<rparr>" | (hold) "c' = hold_state c"
    | (up) "c' = ?up" "last_rung_change_episode c + 25 \<le> rv_closed_episodes r"
    | (down) "c' = ?down" "last_rung_change_episode c + 25 \<le> rv_closed_episodes r"
    | (out) "c' = ?out" "s < 0" "100 \<le> rv_closed_episodes r" "14 \<le> rv_active_days r"
    using assms(4) by (auto simp: review_active_def Let_def saturating_sub_def split: if_splits)
  then show ?thesis
  proof cases
    case gather
    then show ?thesis using assms(1-3) nz by (auto simp: confidence_ok_def)
  next
    case hold
    then show ?thesis using held hs assms(3) by simp
  next
    case up
    then show ?thesis using increase_rung [OF assms(1)] hs assms(1,3) nz
      by (auto simp: min_def confidence_ok_def [of c] intro!: changed_ok)
  next
    case down
    then show ?thesis using reduce_rung [OF assms(1)] hs assms(3) nz by (auto intro!: changed_ok)
  next
    case out
    moreover have "confidence_ok c' \<and> rung c' = 0"
      using out(1) assms(1,3) by (intro conjI quarantined_ok) (auto simp: confidence_ok_def)
    ultimately show ?thesis using assms(3) by simp
  qed
qed

lemma review_steps:
  assumes "apply_confidence_review c r = Ok (out, c')"
  shows "\<exists>e s. rv_annualized_sharpe r = Finite s \<and> cc_state c \<notin> {IntegrityBlocked, ManualDenylist}
    \<and> cc_closed_episodes c \<le> rv_closed_episodes r
    \<and> (if cc_state c = Quarantined then (QuarantinedNow, c\<lparr>cc_closed_episodes := rv_closed_episodes r, cc_active_days := rv_active_days r\<rparr>)
      else review_active r e s (c\<lparr>cc_closed_episodes := rv_closed_episodes r, cc_active_days := rv_active_days r\<rparr>)) = (out, c')"
  using assms
  by (auto simp: apply_confidence_review_def outcome_simps Let_def split: f64.splits if_splits)

lemma review_ok:
  assumes "confidence_ok c" and "apply_confidence_review c r = Ok (out, c')"
  shows "confidence_ok c' \<and> cc_state c' \<notin> {IntegrityBlocked, ManualDenylist}"
proof -
  from review_steps [OF assms(2)] obtain e s where state: "cc_state c \<notin> {IntegrityBlocked, ManualDenylist}"
    and le: "cc_closed_episodes c \<le> rv_closed_episodes r"
    and res: "(if cc_state c = Quarantined then (QuarantinedNow, c\<lparr>cc_closed_episodes := rv_closed_episodes r, cc_active_days := rv_active_days r\<rparr>)
      else review_active r e s (c\<lparr>cc_closed_episodes := rv_closed_episodes r, cc_active_days := rv_active_days r\<rparr>)) = (out, c')"
    by blast
  let ?c = "c\<lparr>cc_closed_episodes := rv_closed_episodes r, cc_active_days := rv_active_days r\<rparr>"
  have ok: "confidence_ok ?c" using assms(1) le by (auto simp: confidence_ok_def)
  show ?thesis
  proof (cases "cc_state c = Quarantined")
    case True
    with res ok state show ?thesis by auto
  next
    case False
    with state have "cc_state ?c \<in> {Warmup, Active, Decayed}" by (cases "cc_state c") auto
    from review_active_spec [OF ok this] res False show ?thesis by simp
  qed
qed

lemma reentry_ok:
  assumes "confidence_ok c" and "observe_quarantine_reentry_window c x = Ok (out, c')"
  shows "confidence_ok c'"
proof -
  have "confidence_ok (c\<lparr>cc_state := Warmup, confidence_modifier := CONFIDENCE_LEVELS ! 1,
      consecutive_reentry_windows := 0, last_rung_change_episode := cc_closed_episodes c\<rparr>)"
    by (rule confidence_okI [of 1]) simp_all
  moreover have "confidence_ok (c\<lparr>consecutive_reentry_windows := n\<rparr>)" for n
    using assms(1) by (simp add: confidence_ok_def)
  ultimately show ?thesis using assms
    by (auto simp: observe_quarantine_reentry_window_def outcome_simps split: if_splits f64.splits)
qed

lemma block_ok:
  assumes "confidence_ok c"
  shows "confidence_ok (snd (block_integrity c))" "confidence_ok (snd (manual_denylist c))"
  using assms by (auto simp: block_integrity_def manual_denylist_def confidence_ok_def [of c] intro!: quarantined_ok)

interpretation confidence: machine confidence_exec confidence_ok
proof
  fix c i assume "confidence_ok c"
  then show "confidence_ok (confidence_exec i c)"
    by (cases i) (auto simp: kept_def block_ok split: outcome.splits dest: review_ok reentry_ok)
qed

lemma confidence_ok_new:
  assumes "new_confidence base = Ok c"
  shows "confidence_ok c"
proof -
  from assms have base: "base \<in> set CONFIDENCE_LEVELS" "base \<noteq> 0" and c: "confidence_modifier c = base" "cc_state c = Warmup"
    "last_rung_change_episode c \<le> cc_closed_episodes c"
    by (auto simp: new_confidence_def outcome_simps)
  from base(1) obtain i where i: "i < 7" "base = CONFIDENCE_LEVELS ! i" by (auto simp: in_set_conv_nth levels_length)
  with base(2) level_sign [OF i(1)] c show ?thesis by (intro confidence_okI [OF i(1)]) auto
qed

interpretation blocked: machine confidence_exec "\<lambda>c :: candidate_confidence. cc_state c \<in> {IntegrityBlocked, ManualDenylist} \<and> confidence_modifier c = 0"
proof
  fix c :: candidate_confidence and i assume "cc_state c \<in> {IntegrityBlocked, ManualDenylist} \<and> confidence_modifier c = 0"
  then show "cc_state (confidence_exec i c) \<in> {IntegrityBlocked, ManualDenylist} \<and> confidence_modifier (confidence_exec i c) = 0"
    by (cases i) (auto simp: kept_def apply_confidence_review_def observe_quarantine_reentry_window_def
        block_integrity_def manual_denylist_def split: outcome.splits)
qed

text \<open>
  Whatever calls are made on a new candidate, its confidence is a level of the ladder, and it
  contributes to the consensus exactly when that level is not zero, which is exactly when the
  candidate is neither quarantined nor blocked; once blocked it never contributes again.
\<close>

theorem confidence_consistent:
  fixes calls later :: "confidence_call list"
  assumes "new_confidence base = Ok c0"
  defines "c \<equiv> fold confidence_exec calls c0"
  shows "confidence_modifier c \<in> set CONFIDENCE_LEVELS
    \<and> (contributes_to_consensus c \<longleftrightarrow> confidence_modifier c \<noteq> 0)
    \<and> (contributes_to_consensus c \<longleftrightarrow> cc_state c \<notin> {Quarantined, IntegrityBlocked, ManualDenylist})
    \<and> (cc_state c \<in> {IntegrityBlocked, ManualDenylist} \<longrightarrow> \<not> contributes_to_consensus (fold confidence_exec later c))"
proof -
  have ok: "confidence_ok c" unfolding c_def using confidence_ok_new [OF assms(1)] by (rule confidence.invar_run)
  then have r: "rung c < 7" "confidence_modifier c = CONFIDENCE_LEVELS ! rung c"
    and q: "cc_state c \<in> {Quarantined, IntegrityBlocked, ManualDenylist} \<longleftrightarrow> rung c = 0"
    by (simp_all add: confidence_ok_def)
  note sign = level_sign [OF r(1)]
  have pos: "0 < confidence_modifier c \<longleftrightarrow> rung c \<noteq> 0" and zero: "confidence_modifier c = 0 \<longleftrightarrow> rung c = 0"
    using sign unfolding r(2) by linarith+
  have contributes: "contributes_to_consensus c \<longleftrightarrow> rung c \<noteq> 0"
    unfolding contributes_to_consensus_def pos using q by (cases "cc_state c") simp_all
  have "confidence_modifier c = 0" if "cc_state c \<in> {IntegrityBlocked, ManualDenylist}"
    using q that zero by blast
  with blocked.invar_run [of c later] have b: "\<not> contributes_to_consensus (fold confidence_exec later c)"
    if "cc_state c \<in> {IntegrityBlocked, ManualDenylist}" using that by (simp add: contributes_to_consensus_def)
  have "confidence_modifier c \<in> set CONFIDENCE_LEVELS" using r levels_length by (metis nth_mem)
  then show ?thesis unfolding contributes q zero using b by simp
qed

text \<open>
  A review moves a candidate by at most one rung, and by one only when at least 25 episodes closed
  since its last change; the one exception is a negative Sharpe ratio over at least 100 episodes and
  14 days, which quarantines it. A quarantined candidate is not moved by reviews.
\<close>

theorem review_moves_one_rung:
  assumes "new_confidence base = Ok c0" and "apply_confidence_review (fold confidence_exec calls c0) r = Ok (out, c')"
  defines "c \<equiv> fold confidence_exec calls c0"
  shows "rung c' = rung c
    \<or> (rung c' = rung c + 1 \<or> rung c' + 1 = rung c) \<and> last_rung_change_episode c + 25 \<le> rv_closed_episodes r
       \<and> last_rung_change_episode c' = rv_closed_episodes r
    \<or> rung c' = 0 \<and> cc_state c \<noteq> Quarantined \<and> 100 \<le> rv_closed_episodes r \<and> 14 \<le> rv_active_days r
       \<and> (\<exists>s < 0. rv_annualized_sharpe r = Finite s)"
proof -
  have ok: "confidence_ok c" unfolding c_def using confidence_ok_new [OF assms(1)] by (rule confidence.invar_run)
  from review_steps [OF assms(2)] obtain e s where m: "rv_annualized_sharpe r = Finite s"
    and res: "(if cc_state c = Quarantined then (QuarantinedNow, c\<lparr>cc_closed_episodes := rv_closed_episodes r, cc_active_days := rv_active_days r\<rparr>)
      else review_active r e s (c\<lparr>cc_closed_episodes := rv_closed_episodes r, cc_active_days := rv_active_days r\<rparr>)) = (out, c')"
    and state: "cc_state c \<notin> {IntegrityBlocked, ManualDenylist}" and le: "cc_closed_episodes c \<le> rv_closed_episodes r"
    unfolding c_def by blast
  let ?c = "c\<lparr>cc_closed_episodes := rv_closed_episodes r, cc_active_days := rv_active_days r\<rparr>"
  show ?thesis
  proof (cases "cc_state c = Quarantined")
    case True
    with res show ?thesis by auto
  next
    case False
    have ok': "confidence_ok ?c" using ok le by (auto simp: confidence_ok_def)
    have "cc_state ?c \<in> {Warmup, Active, Decayed}" using False state by (cases "cc_state c") auto
    moreover have "review_active r e s ?c = (out, c')" using res False by simp
    ultimately show ?thesis using review_active_spec [OF ok', of r e s out c'] False m by simp blast
  qed
qed

text \<open>Witnesses: a review after 100 episodes with a high ratio.\<close>

definition sample_review :: confidence_review where
  "sample_review = \<lparr>rv_closed_episodes = 100, rv_active_days = 20, rv_net_expectancy = Finite 1, rv_annualized_sharpe = Finite 20\<rparr>"

lemma sample_confidence: "is_ok (new_confidence (1 / 4))"
  by code_simp

lemma confidence_consistent_witness:
  "\<exists>c0. new_confidence (1 / 4) = Ok c0
     \<and> \<not> contributes_to_consensus (fold confidence_exec [Review sample_review] (confidence_exec BlockIntegrity c0))"
proof -
  obtain c0 where c0: "new_confidence (1 / 4) = Ok c0"
    using sample_confidence by (auto simp: is_ok_def split: outcome.splits)
  from confidence_consistent [OF c0, of "[BlockIntegrity]" "[Review sample_review]"] c0 show ?thesis
    by (simp add: block_integrity_def)
qed

lemma review_moves_one_rung_witness:
  "\<exists>c0 out c'. new_confidence (1 / 4) = Ok c0 \<and> apply_confidence_review c0 sample_review = Ok (out, c') \<and> rung c' \<le> rung c0 + 1"
proof -
  obtain c0 where c0: "new_confidence (1 / 4) = Ok c0"
    using sample_confidence by (auto simp: is_ok_def split: outcome.splits)
  have "case new_confidence (1 / 4) of Ok c \<Rightarrow> is_ok (apply_confidence_review c sample_review) | _ \<Rightarrow> False" by code_simp
  then obtain out c' where r: "apply_confidence_review c0 sample_review = Ok (out, c')"
    using c0 by (auto simp: is_ok_def split: outcome.splits)
  have "apply_confidence_review (fold confidence_exec [] c0) sample_review = Ok (out, c')" using r by simp
  from review_moves_one_rung [OF c0 this] have "rung c' \<le> rung c0 + 1" by auto
  with c0 r show ?thesis by blast
qed

end
