(* ===== verification/Consensus.thy ===== *)
theory Consensus
  imports Float_Arith Identity
begin

text \<open>
  The consensus of the copied traders (\<open>copytrade-core/src/consensus.rs\<close>): a bounded sum of weighted
  source exposures, and the book of the latest exposure state of every source.
\<close>

section \<open>Consensus\<close>

record consensus_input =
  ci_candidate :: string
  ci_weight :: f64
  ci_confidence :: f64
  ci_exposure :: f64
  ci_enabled :: bool
  ci_quarantined :: bool
  ci_snapshot_age_ms :: nat

record consensus_result =
  cr_exposure :: rat
  cr_contributions :: "(string, rat) bmap"

text \<open>An error is its text.\<close>

type_synonym 'a consensus = "('a, string) outcome"

text \<open>The checks on one input; they leave its three values.\<close>

definition validate_consensus_input :: "consensus_input \<Rightarrow> (rat \<times> rat \<times> rat) consensus" where
  "validate_consensus_input i =
    and_then (case ci_weight i of Finite w \<Rightarrow> if w < 0 then Err (''invalid allocation_weight for '' @ ci_candidate i) else Ok w
              | NotFinite \<Rightarrow> Err (''invalid allocation_weight for '' @ ci_candidate i)) (\<lambda>w.
    and_then (case ci_confidence i of
                Finite c \<Rightarrow> if 0 \<le> c \<and> c \<le> 1 then Ok c else Err (''invalid confidence_modifier for '' @ ci_candidate i)
              | NotFinite \<Rightarrow> Err (''invalid confidence_modifier for '' @ ci_candidate i)) (\<lambda>c.
    case ci_exposure i of Finite x \<Rightarrow> Ok (w, c, x)
    | NotFinite \<Rightarrow> Err (''non-finite source exposure for '' @ ci_candidate i)))"

definition skipped :: "nat \<Rightarrow> consensus_input \<Rightarrow> rat \<Rightarrow> bool" where
  "skipped max_age i weight = (\<not> ci_enabled i \<or> ci_quarantined i \<or> max_age < ci_snapshot_age_ms i \<or> weight = 0)"

text \<open>\<open>weight * confidence * exposure.clamp(-max, max)\<close>; a product of a value that is not finite stays so.\<close>

definition clamped :: "rat \<Rightarrow> rat \<Rightarrow> rat" where
  "clamped x bound = (if x < - bound then - bound else if bound < x then bound else x)"

definition contribution_of :: "float_ops \<Rightarrow> rat \<Rightarrow> rat \<times> rat \<times> rat \<Rightarrow> f64" where
  "contribution_of F max_exposure v = (case v of (w, c, x) \<Rightarrow>
     (case f_mul F w c of Finite p \<Rightarrow> f_mul F p (clamped x max_exposure) | NotFinite \<Rightarrow> NotFinite))"

definition add_contribution ::
  "float_ops \<Rightarrow> rat \<Rightarrow> nat \<Rightarrow> (string, rat) bmap \<Rightarrow> consensus_input \<Rightarrow> (string, rat) bmap consensus" where
  "add_contribution F max_exposure max_age m i =
    and_then (validate_consensus_input i) (\<lambda>v.
    if skipped max_age i (fst v) then Ok m
    else if bhas m (ci_candidate i) then Err (''duplicate candidate contribution for '' @ ci_candidate i)
    else case contribution_of F max_exposure v of
      NotFinite \<Rightarrow> Err (''non-finite source contribution for '' @ ci_candidate i)
    | Finite x \<Rightarrow> Ok (binsert (ci_candidate i) x m))"

fun sum_floats :: "float_ops \<Rightarrow> rat \<Rightarrow> rat list \<Rightarrow> f64" where
  "sum_floats F acc [] = Finite acc"
| "sum_floats F acc (x # xs) = (case f_add F acc x of Finite t \<Rightarrow> sum_floats F t xs | NotFinite \<Rightarrow> NotFinite)"

definition bounded_additive_consensus ::
  "float_ops \<Rightarrow> consensus_input list \<Rightarrow> f64 \<Rightarrow> nat \<Rightarrow> consensus_result consensus" where
  "bounded_additive_consensus F inputs max_source_exposure max_age =
    and_then (case max_source_exposure of
        Finite b \<Rightarrow> if b < 0 then Err ''max_source_exposure must be finite and non-negative'' else Ok b
      | NotFinite \<Rightarrow> Err ''max_source_exposure must be finite and non-negative'') (\<lambda>bound.
    and_then (fail_if (max_age = 0) ''source_snapshot_max_age_ms must be positive'') (\<lambda>_.
    and_then (try_fold (add_contribution F bound max_age) bempty inputs) (\<lambda>contributions.
    if contributions = bempty then Ok \<lparr>cr_exposure = 0, cr_contributions = bempty\<rparr>
    else case sum_floats F 0 (bvals contributions) of
      NotFinite \<Rightarrow> Err ''consensus exposure is non-finite''
    | Finite x \<Rightarrow> Ok \<lparr>cr_exposure = clamped x 1, cr_contributions = contributions\<rparr>)))"

section \<open>The order of the inputs\<close>

text \<open>The inputs that count, with the value each contributes.\<close>

definition counted :: "nat \<Rightarrow> consensus_input \<Rightarrow> bool" where
  "counted max_age i = (case ci_weight i of Finite w \<Rightarrow> \<not> skipped max_age i w | NotFinite \<Rightarrow> False)"

definition contributes :: "float_ops \<Rightarrow> rat \<Rightarrow> consensus_input \<Rightarrow> rat \<Rightarrow> bool" where
  "contributes F bound i x = (\<exists>v. validate_consensus_input i = Ok v \<and> contribution_of F bound v = Finite x)"

lemma validate_weight: "validate_consensus_input i = Ok v \<Longrightarrow> ci_weight i = Finite (fst v)"
  by (cases "ci_weight i"; cases "ci_confidence i"; cases "ci_exposure i")
    (auto simp: validate_consensus_input_def split: if_splits)

lemma add_contribution_Ok:
  "add_contribution F bound max_age m i = Ok m' \<longleftrightarrow> (\<exists>v. validate_consensus_input i = Ok v
     \<and> (if counted max_age i then \<not> bhas m (ci_candidate i)
          \<and> (\<exists>x. contribution_of F bound v = Finite x \<and> m' = binsert (ci_candidate i) x m) else m' = m))"
proof (cases "validate_consensus_input i")
  case (Ok v)
  then have counted: "counted max_age i \<longleftrightarrow> \<not> skipped max_age i (fst v)"
    using validate_weight [OF Ok] by (simp add: counted_def)
  show ?thesis
    by (cases "contribution_of F bound v") (auto simp: add_contribution_def Ok counted)
qed (simp_all add: add_contribution_def)

text \<open>The loop, described without its order: when it succeeds, and what it collects.\<close>

definition countable :: "float_ops \<Rightarrow> rat \<Rightarrow> nat \<Rightarrow> (string, rat) bmap \<Rightarrow> consensus_input list \<Rightarrow> bool" where
  "countable F bound max_age m inputs = ((\<forall>i \<in> set inputs. is_ok (validate_consensus_input i))
     \<and> distinct (map ci_candidate (filter (counted max_age) inputs))
     \<and> (\<forall>i \<in> set inputs. counted max_age i \<longrightarrow> \<not> bhas m (ci_candidate i) \<and> (\<exists>x. contributes F bound i x)))"

lemma contributes_unique: "contributes F bound i x \<Longrightarrow> contributes F bound i y \<Longrightarrow> y = x"
  by (auto simp: contributes_def)

lemma collect_succeeds:
  "is_ok (try_fold (add_contribution F bound max_age) m inputs) \<longleftrightarrow> countable F bound max_age m inputs"
proof (induction inputs arbitrary: m)
  case (Cons i inputs)
  have step: "is_ok (try_fold (add_contribution F bound max_age) m (i # inputs)) \<longleftrightarrow>
      (\<exists>m'. add_contribution F bound max_age m i = Ok m' \<and> countable F bound max_age m' inputs)"
    using Cons.IH by (cases "add_contribution F bound max_age m i") auto
  show ?case
  proof (cases "counted max_age i")
    case False
    then have "(\<exists>m'. add_contribution F bound max_age m i = Ok m' \<and> countable F bound max_age m' inputs)
        \<longleftrightarrow> is_ok (validate_consensus_input i) \<and> countable F bound max_age m inputs"
      by (auto simp: add_contribution_Ok is_ok_def split: outcome.splits)
    then show ?thesis unfolding step using False by (auto simp: countable_def)
  next
    case True
    have grow: "countable F bound max_age (binsert (ci_candidate i) x m) inputs \<longleftrightarrow>
        countable F bound max_age m inputs \<and> (\<forall>j \<in> set inputs. counted max_age j \<longrightarrow> ci_candidate j \<noteq> ci_candidate i)" for x
      by (auto simp: countable_def)
    have "(\<exists>m'. add_contribution F bound max_age m i = Ok m' \<and> countable F bound max_age m' inputs)
        \<longleftrightarrow> \<not> bhas m (ci_candidate i) \<and> (\<exists>x. contributes F bound i x) \<and> countable F bound max_age m inputs
          \<and> (\<forall>j \<in> set inputs. counted max_age j \<longrightarrow> ci_candidate j \<noteq> ci_candidate i)"
      using True by (auto simp: add_contribution_Ok contributes_def grow)
    moreover have "is_ok (validate_consensus_input i)" if "\<exists>x. contributes F bound i x"
      using that by (auto simp: contributes_def)
    moreover have "distinct (map ci_candidate (filter (counted max_age) (i # inputs))) \<longleftrightarrow>
        distinct (map ci_candidate (filter (counted max_age) inputs))
        \<and> (\<forall>j \<in> set inputs. counted max_age j \<longrightarrow> ci_candidate j \<noteq> ci_candidate i)"
      using True by (auto simp: image_iff)
    ultimately show ?thesis unfolding step countable_def using True by (simp del: distinct.simps filter.simps) blast
  qed
qed (simp add: countable_def)

lemma collected_contributions:
  assumes "try_fold (add_contribution F bound max_age) m0 inputs = Ok m"
  shows "bget m k = Some x \<longleftrightarrow> bget m0 k = Some x
     \<or> (\<exists>i \<in> set inputs. counted max_age i \<and> ci_candidate i = k \<and> contributes F bound i x)"
  using assms
proof (induction inputs arbitrary: m0)
  case (Cons i inputs)
  from Cons.prems obtain m1 where m1: "add_contribution F bound max_age m0 i = Ok m1"
    and rest: "try_fold (add_contribution F bound max_age) m1 inputs = Ok m" by (auto simp: outcome_simps)
  have "bget m1 k = Some x \<longleftrightarrow> bget m0 k = Some x \<or> counted max_age i \<and> ci_candidate i = k \<and> contributes F bound i x"
  proof (cases "counted max_age i")
    case True
    with m1 obtain v y where "validate_consensus_input i = Ok v" "\<not> bhas m0 (ci_candidate i)"
      "contribution_of F bound v = Finite y" "m1 = binsert (ci_candidate i) y m0"
      by (auto simp: add_contribution_Ok)
    with True show ?thesis by (auto simp: contributes_def bhas_def)
  next
    case False
    with m1 show ?thesis by (simp add: add_contribution_Ok)
  qed
  with Cons.IH [OF rest] show ?case by auto
qed simp

lemma consensus_steps:
  assumes "bounded_additive_consensus F inputs bound max_age = Ok r"
  obtains b m where "bound = Finite b" "try_fold (add_contribution F b max_age) bempty inputs = Ok m"
    "cr_contributions r = m" "cr_exposure r = 0 \<or> (\<exists>y. cr_exposure r = clamped y 1)"
proof (cases bound)
  case (Finite b)
  with assms obtain m where m: "try_fold (add_contribution F b max_age) bempty inputs = Ok m"
    and r: "(if m = bempty then Ok \<lparr>cr_exposure = 0, cr_contributions = bempty\<rparr>
      else case sum_floats F 0 (bvals m) of NotFinite \<Rightarrow> Err ''consensus exposure is non-finite''
      | Finite x \<Rightarrow> Ok \<lparr>cr_exposure = clamped x 1, cr_contributions = m\<rparr>) = (Ok r :: consensus_result consensus)"
    unfolding bounded_additive_consensus_def by (cases "b < 0") (auto simp: and_then_Ok)
  show thesis
  proof (rule that [OF Finite m])
    show "cr_contributions r = m" "cr_exposure r = 0 \<or> (\<exists>y. cr_exposure r = clamped y 1)"
      using r by (auto split: if_splits f64.splits)
  qed
qed (use assms in \<open>simp add: bounded_additive_consensus_def\<close>)

text \<open>
  The consensus does not depend on the order of the inputs: whenever one order gives a result, every
  permutation of the inputs gives the same, sums of floating point values included.
\<close>

theorem consensus_order_independent:
  assumes "bounded_additive_consensus F inputs bound max_age = Ok r" and "mset inputs' = mset inputs"
  shows "bounded_additive_consensus F inputs' bound max_age = Ok r"
proof -
  from assms(1) obtain b m where b: "bound = Finite b" and m: "try_fold (add_contribution F b max_age) bempty inputs = Ok m"
    by (rule consensus_steps)
  have set: "set inputs' = set inputs" using assms(2) by (rule mset_eq_setD)
  have "mset (map ci_candidate (filter (counted max_age) inputs')) = mset (map ci_candidate (filter (counted max_age) inputs))"
    using assms(2) by simp
  then have "distinct (map ci_candidate (filter (counted max_age) inputs'))
      = distinct (map ci_candidate (filter (counted max_age) inputs))"
    by (metis distinct_count_atmost_1 set_mset_mset)
  then have "countable F b max_age bempty inputs'"
    using collect_succeeds [of F b max_age bempty inputs] m set by (simp add: countable_def)
  then obtain m' where m': "try_fold (add_contribution F b max_age) bempty inputs' = Ok m'"
    using collect_succeeds [of F b max_age bempty inputs'] by (auto simp: is_ok_def split: outcome.splits)
  have "bget m' k = Some x \<longleftrightarrow> bget m k = Some x" for k x
    using collected_contributions [OF m, of k x] collected_contributions [OF m', of k x] set by simp
  then have "bget m' k = bget m k" for k by (metis not_None_eq)
  then have "m' = m" by (rule bmap_eqI)
  have "bounded_additive_consensus F inputs' bound max_age = bounded_additive_consensus F inputs bound max_age"
    unfolding bounded_additive_consensus_def b by (simp add: m m' \<open>m' = m\<close>)
  with assms(1) show ?thesis by simp
qed

text \<open>
  What counts: the contributions of a consensus are exactly those of the inputs that are enabled, not
  quarantined, fresh and of nonzero weight, each with its weighted exposure clamped to the bound, one
  per candidate, and the exposure lies between -1 and 1.
\<close>

theorem consensus_counts_exactly:
  assumes "bounded_additive_consensus F inputs (Finite b) max_age = Ok r"
  shows "(bget (cr_contributions r) k = Some x \<longleftrightarrow>
       (\<exists>i \<in> set inputs. counted max_age i \<and> ci_candidate i = k \<and> contributes F b i x))
    \<and> distinct (map ci_candidate (filter (counted max_age) inputs)) \<and> - 1 \<le> cr_exposure r \<and> cr_exposure r \<le> 1"
proof -
  from assms obtain m where m: "try_fold (add_contribution F b max_age) bempty inputs = Ok m" and r: "cr_contributions r = m"
    and e: "cr_exposure r = 0 \<or> (\<exists>y. cr_exposure r = clamped y 1)"
    using consensus_steps [of F inputs "Finite b" max_age r thesis] by auto
  have "distinct (map ci_candidate (filter (counted max_age) inputs))"
    using collect_succeeds [of F b max_age bempty inputs] m by (simp add: countable_def)
  with collected_contributions [OF m, of k x] r e show ?thesis by (auto simp: clamped_def)
qed

section \<open>The book of source exposures\<close>

record source_exposure_state =
  accepted_sequence :: nat
  sx_payload_hash :: payload_hash
  exposures :: "(string, rat) bmap"

datatype source_exposure_update = InsertedSource | FreshnessOnly | ReplacedSource | RejectedOlderOrEqual

type_synonym source_exposure_book = "(string, source_exposure_state) bmap"

definition accept_source_exposure_state ::
  "source_exposure_state option \<Rightarrow> source_exposure_state \<Rightarrow> source_exposure_update \<times> source_exposure_state option" where
  "accept_source_exposure_state current incoming = (case current of
     None \<Rightarrow> (InsertedSource, Some incoming)
   | Some existing \<Rightarrow>
       if accepted_sequence incoming \<le> accepted_sequence existing then (RejectedOlderOrEqual, Some existing)
       else if sx_payload_hash incoming = sx_payload_hash existing
         then (FreshnessOnly, Some (existing\<lparr>accepted_sequence := accepted_sequence incoming\<rparr>))
       else (ReplacedSource, Some incoming))"

definition accept_source :: "source_exposure_book \<Rightarrow> string \<Rightarrow> source_exposure_state
    \<Rightarrow> source_exposure_update \<times> source_exposure_book" where
  "accept_source book c incoming =
    (case accept_source_exposure_state (bget book c) incoming of
       (outcome, Some state) \<Rightarrow> (outcome, binsert c state (bremove c book))
     | (outcome, None) \<Rightarrow> (outcome, bremove c book))"

text \<open>The specification: of the states a source sent, the first of the highest sequence is held.\<close>

definition newest :: "source_exposure_state option \<Rightarrow> source_exposure_state \<Rightarrow> source_exposure_state option" where
  "newest current incoming = (case current of None \<Rightarrow> Some incoming
   | Some s \<Rightarrow> if accepted_sequence s < accepted_sequence incoming then Some incoming else Some s)"

definition source_exec :: "string \<times> source_exposure_state \<Rightarrow> source_exposure_book \<Rightarrow> source_exposure_book" where
  "source_exec x book = snd (accept_source book (fst x) (snd x))"

text \<open>Two states that say the same when their payload hashes agree.\<close>

definition same_state :: "source_exposure_state \<Rightarrow> source_exposure_state \<Rightarrow> bool" where
  "same_state s t = (sx_payload_hash s = sx_payload_hash t \<longrightarrow> exposures s = exposures t)"

lemma accept_newest:
  assumes "\<And>s. bget book c = Some s \<Longrightarrow> same_state s incoming"
  shows "bget (source_exec (c, incoming) book) k = (if k = c then newest (bget book c) incoming else bget book k)"
  using assms by (cases "bget book c")
    (auto simp: source_exec_def accept_source_def accept_source_exposure_state_def newest_def same_state_def)

text \<open>
  C34. The book of source exposures holds, for every source, the first of the states with the highest
  sequence among those it accepted: older or equal sequences never replace it, and one with the same
  payload only makes it fresher. States with the same payload hash are taken to have the same exposures.
\<close>

theorem source_book_holds_newest:
  assumes "\<And>x y. x \<in> set xs \<Longrightarrow> y \<in> set xs \<Longrightarrow> same_state (snd x) (snd y)"
  shows "bget (fold source_exec xs bempty) c = fold (\<lambda>x s. newest s (snd x)) (filter (\<lambda>x. fst x = c) xs) None"
proof -
  have "bget (fold source_exec xs bempty) c = fold (\<lambda>x s. newest s (snd x)) (filter (\<lambda>x. fst x = c) xs) None
      \<and> (\<forall>s. bget (fold source_exec xs bempty) c = Some s \<longrightarrow> (\<exists>x \<in> set xs. snd x = s))" for c
    using assms
  proof (induction xs arbitrary: c rule: rev_induct)
    case (snoc x xs)
    let ?b = "fold source_exec xs bempty"
    have "same_state s (snd x)" if "bget ?b (fst x) = Some s" for s
      using snoc.IH [of "fst x"] that snoc.prems by fastforce
    with accept_newest [of ?b "fst x" "snd x"]
    have "bget (source_exec x ?b) c = (if c = fst x then newest (bget ?b (fst x)) (snd x) else bget ?b c)" by simp
    moreover have "bget ?b c = fold (\<lambda>x s. newest s (snd x)) (filter (\<lambda>x. fst x = c) xs) None"
      "\<And>s. bget ?b c = Some s \<Longrightarrow> \<exists>x \<in> set xs. snd x = s"
      using snoc.IH [of c] snoc.prems by simp_all
    ultimately show ?case by (auto simp: newest_def split: option.splits if_splits)
  qed simp
  then show ?thesis by blast
qed


section \<open>Witnesses\<close>

definition sample_source :: "string \<Rightarrow> rat \<Rightarrow> consensus_input" where
  "sample_source c x = \<lparr>ci_candidate = c, ci_weight = Finite (1 / 2), ci_confidence = Finite 1, ci_exposure = Finite x,
     ci_enabled = True, ci_quarantined = False, ci_snapshot_age_ms = 1\<rparr>"

lemma sample_consensus_ok:
  "is_ok (bounded_additive_consensus exact_float [sample_source ''a'' 2, sample_source ''b'' (-3)] (Finite 1) 10)"
  by code_simp

lemma consensus_order_independent_witness:
  "\<exists>r. bounded_additive_consensus exact_float [sample_source ''a'' 2, sample_source ''b'' (-3)] (Finite 1) 10 = Ok r
     \<and> bounded_additive_consensus exact_float [sample_source ''b'' (-3), sample_source ''a'' 2] (Finite 1) 10 = Ok r"
proof -
  obtain r where r: "bounded_additive_consensus exact_float [sample_source ''a'' 2, sample_source ''b'' (-3)] (Finite 1) 10 = Ok r"
    using sample_consensus_ok by (auto simp: is_ok_def split: outcome.splits)
  from consensus_order_independent [OF r, of "[sample_source ''b'' (-3), sample_source ''a'' 2]"] r show ?thesis by simp
qed

lemma consensus_counts_exactly_witness:
  "\<exists>r. bounded_additive_consensus exact_float [sample_source ''a'' 2, sample_source ''b'' (-3)] (Finite 1) 10 = Ok r
     \<and> bget (cr_contributions r) ''b'' = Some (- 1 / 2)"
proof -
  let ?in = "[sample_source ''a'' 2, sample_source ''b'' (-3)]"
  obtain r where r: "bounded_additive_consensus exact_float ?in (Finite 1) 10 = Ok r"
    using sample_consensus_ok by (auto simp: is_ok_def split: outcome.splits)
  have "counted 10 (sample_source ''b'' (-3))" by code_simp
  moreover have "contributes exact_float 1 (sample_source ''b'' (-3)) (- 1 / 2)"
    by (simp add: contributes_def validate_consensus_input_def sample_source_def contribution_of_def exact_float_def clamped_def)
  moreover have "ci_candidate (sample_source ''b'' (-3)) = ''b''" by (simp add: sample_source_def)
  ultimately have "\<exists>i \<in> set ?in. counted 10 i \<and> ci_candidate i = ''b'' \<and> contributes exact_float 1 i (- 1 / 2)" by auto
  with consensus_counts_exactly [OF r, of "''b''" "- 1 / 2"] r show ?thesis by blast
qed

definition sample_exposures :: "nat \<Rightarrow> byte \<Rightarrow> source_exposure_state" where
  "sample_exposures n b = \<lparr>accepted_sequence = n, sx_payload_hash = [b], exposures = bempty\<rparr>"

lemma source_book_holds_newest_witness:
  "bget (fold source_exec [(''a'', sample_exposures 1 1), (''a'', sample_exposures 3 1), (''a'', sample_exposures 2 2)] bempty) ''a''
     = Some (sample_exposures 3 1)"
  by (subst source_book_holds_newest) (auto simp: same_state_def sample_exposures_def newest_def)

end
