(* ===== verification/Transport.thy ===== *)
theory Transport
  imports Live_Trading Submission_Registry
begin

text \<open>
  The exchange as the signer sees it (\<open>copytrade-signer/src/transport.rs\<close>): the wire records and how
  they become observations, fills, funding records, positions and equity. HTTP, JSON decoding and the
  text parser of decimals are outside: the decoded wire values are arguments and \<open>dec_parse\<close> is
  \<open>Decimal::from_str\<close>. Text is ASCII.
\<close>

section \<open>Hexadecimal text\<close>

definition hex_value :: "char \<Rightarrow> nat option" where
  "hex_value c = (let n = of_char c :: nat in
     if 48 \<le> n \<and> n \<le> 57 then Some (n - 48)
     else if 97 \<le> n \<and> n \<le> 102 then Some (n - 87)
     else if 65 \<le> n \<and> n \<le> 70 then Some (n - 55) else None)"

definition is_ascii_hexdigit :: "char \<Rightarrow> bool" where
  "is_ascii_hexdigit c = (hex_value c \<noteq> None)"

text \<open>\<open>u8::from_str_radix\<close> of two characters, base 16: a leading plus sign is accepted.\<close>

definition u8_from_hex :: "char \<Rightarrow> char \<Rightarrow> byte option" where
  "u8_from_hex c d = (if c = CHR ''+'' then map_option word_of_nat (hex_value d)
     else case (hex_value c, hex_value d) of (Some a, Some b) \<Rightarrow> Some (word_of_nat (16 * a + b)) | _ \<Rightarrow> None)"

fun decode_pairs :: "string \<Rightarrow> bytes option" where
  "decode_pairs [] = Some []"
| "decode_pairs [c] = None"
| "decode_pairs (c # d # s) = (case (u8_from_hex c d, decode_pairs s) of (Some b, Some bs) \<Rightarrow> Some (b # bs) | _ \<Rightarrow> None)"

definition strip_0x :: "string \<Rightarrow> string" where
  "strip_0x s = (if take 2 s = ''0x'' then drop 2 s else s)"

text \<open>Exactly \<open>n\<close> bytes, every character a hexadecimal digit.\<close>

definition decode_hex :: "'e \<Rightarrow> nat \<Rightarrow> string \<Rightarrow> (bytes, 'e) outcome" where
  "decode_hex e n s = and_then (fail_if (length s \<noteq> 2 * n \<or> \<not> list_all is_ascii_hexdigit s) e) (\<lambda>_.
     ok_or e (decode_pairs s))"

section \<open>Values\<close>

datatype submission_response =
    SubmissionAcknowledged
  | SubmissionFilled string rat rat
  | SubmissionRejected string

record cursor =
  start_time_ms :: nat
  end_time_ms :: "nat option"

record user_fill =
  uf_cloid :: planned_cloid
  uf_order_id :: string
  uf_trade_id :: string
  uf_asset :: asset
  uf_side :: string
  uf_price :: rat
  uf_quantity :: rat
  uf_closed_pnl :: rat
  uf_fee :: rat
  uf_fee_token :: string
  uf_crossed :: bool
  uf_occurred_at :: nat
  uf_source_hash :: payload_hash

record user_fill_batch =
  ub_fills :: "user_fill list"
  ub_next_cursor :: cursor
  ub_source_hash :: payload_hash

record funding_record =
  fr_event_hash :: string
  fr_asset :: asset
  fr_usdc_delta :: rat
  fr_occurred_at :: nat
  fr_source_hash :: payload_hash

record funding_batch =
  fb_events :: "funding_record list"
  fb_next_cursor :: cursor
  fb_source_hash :: payload_hash

record position_snapshot =
  ps_positions :: "(asset, rat) bmap"
  ps_account_equity :: rat
  ps_observed_at :: nat
  ps_source_hash :: payload_hash

record equity_snapshot =
  es_equity :: rat
  es_observed_at :: nat
  es_source_hash :: payload_hash

datatype order_observation =
    ObservedNotFound
  | ObservedOpen string rat rat
  | ObservedFilled string rat
  | ObservedCancelled string rat string
  | ObservedRejected string string

datatype submission_transport_error =
    TransportUnknownResult | TransportHttp nat | TransportInvalidResponse string

datatype reconciliation_error =
    ReconciliationHttp nat | ReconciliationTransport string | InvalidResponse string
  | ReconciliationArithmetic | IdentityMismatch

type_synonym 'a transport = "('a, reconciliation_error) outcome"

section \<open>Wire records\<close>

datatype order_status_wire = UnknownOid | OrderWire
  (wo_oid: nat) (wo_sz: string) (wo_orig_sz: string) (wo_cloid: "string option") (wo_status: string)

datatype data_status =
    WireSuccess | WaitingForFill | WaitingForTrigger | WireError string | Resting nat
  | WireFilled (filled_total_sz: string) (filled_avg_px: string) (filled_oid: nat)

datatype exchange_response = ExchangeOk (response_type: string) (statuses: "data_status list option") | ExchangeErr string

record user_fill_wire =
  fw_closed_pnl :: string
  fw_coin :: string
  fw_crossed :: bool
  fw_oid :: nat
  fw_px :: string
  fw_side :: string
  fw_sz :: string
  fw_time :: nat
  fw_fee :: string
  fw_fee_token :: string
  fw_tid :: nat
  fw_cloid :: "string option"

record clearinghouse_wire =
  cw_account_value :: string
  cw_positions :: "(string \<times> string) list"
  cw_time :: nat

record funding_wire =
  gw_time :: nat
  gw_hash :: string
  gw_coin :: string
  gw_usdc :: string

section \<open>Parsing\<close>

text \<open>\<open>u64::to_string\<close>.\<close>

fun nat_str :: "nat \<Rightarrow> string" where
  "nat_str n = (if n < 10 then [char_of (48 + n)] else nat_str (n div 10) @ [char_of (48 + n mod 10)])"

declare nat_str.simps [simp del]

definition validate_order_decimal :: "scaled \<Rightarrow> (unit, string) outcome" where
  "validate_order_decimal d = fail_if (scaled_value d \<le> 0 \<or> 8 < scale d)
     ''order decimal must be positive with at most eight decimal places''"

definition parse_signed_decimal :: "(string \<Rightarrow> (rat, string) outcome) \<Rightarrow> string \<Rightarrow> rat transport" where
  "parse_signed_decimal dec_parse s = map_err InvalidResponse (dec_parse s)"

definition parse_decimal :: "(string \<Rightarrow> (rat, string) outcome) \<Rightarrow> string \<Rightarrow> rat transport" where
  "parse_decimal dec_parse s = and_then (parse_signed_decimal dec_parse s) (\<lambda>v.
     and_then (fail_if (v < 0) (InvalidResponse ''expected nonnegative decimal'')) (\<lambda>_. Ok v))"

definition valid_address :: "string \<Rightarrow> bool" where
  "valid_address s = (length s = 42 \<and> take 2 s = ''0x'' \<and> list_all is_ascii_hexdigit (drop 2 s)
     \<and> list_ex (\<lambda>c. c \<noteq> CHR ''0'') (drop 2 s))"

definition transport_parse_cloid :: "string \<Rightarrow> planned_cloid transport" where
  "transport_parse_cloid s = decode_hex (InvalidResponse ''invalid cloid'') 16 (strip_0x s)"

definition ends_with :: "string \<Rightarrow> string \<Rightarrow> bool" where
  "ends_with s t = (length t \<le> length s \<and> drop (length s - length t) s = t)"

definition CANCELLED_STATUSES :: "string list" where
  "CANCELLED_STATUSES = [''canceled'', ''marginCanceled'', ''vaultWithdrawalCanceled'', ''openInterestCapCanceled'',
     ''selfTradeCanceled'', ''reduceOnlyCanceled'', ''siblingFilledCanceled'', ''delistedCanceled'',
     ''liquidatedCanceled'', ''scheduledCancel'']"

text \<open>\<open>cloid.as_deref().map(parse_cloid).transpose()?\<close>.\<close>

definition optional_cloid :: "string option \<Rightarrow> planned_cloid option transport" where
  "optional_cloid c = (case c of None \<Rightarrow> Ok None | Some s \<Rightarrow> and_then (transport_parse_cloid s) (\<lambda>x. Ok (Some x)))"

definition classify_status :: "string \<Rightarrow> string \<Rightarrow> rat \<Rightarrow> rat \<Rightarrow> rat \<Rightarrow> order_observation transport" where
  "classify_status status oid original remaining filled =
    (if status = ''open'' then Ok (ObservedOpen oid original remaining)
     else if status = ''filled'' then Ok (ObservedFilled oid filled)
     else if status \<in> set CANCELLED_STATUSES then Ok (ObservedCancelled oid filled status)
     else if ends_with status ''Rejected'' \<or> status = ''rejected'' then Ok (ObservedRejected oid status)
     else Err (InvalidResponse ''unknown order status''))"

definition parse_order_observation ::
  "decimal_ops \<Rightarrow> (string \<Rightarrow> (rat, string) outcome) \<Rightarrow> order_status_wire \<Rightarrow> planned_cloid \<Rightarrow> order_observation transport" where
  "parse_order_observation A dec_parse wire expected = (case wire of
     UnknownOid \<Rightarrow> Ok ObservedNotFound
   | OrderWire oid sz orig_sz c status \<Rightarrow>
       and_then (optional_cloid c) (\<lambda>c'.
       and_then (fail_if (c' \<noteq> Some expected) IdentityMismatch) (\<lambda>_.
       and_then (parse_decimal dec_parse orig_sz) (\<lambda>original.
       and_then (parse_decimal dec_parse sz) (\<lambda>remaining.
       and_then (ok_or ReconciliationArithmetic (d_sub A original remaining)) (\<lambda>filled.
       classify_status status (nat_str oid) original remaining filled))))))"

definition parse_submission_response ::
  "(string \<Rightarrow> (rat, string) outcome) \<Rightarrow> exchange_response \<Rightarrow> (submission_response, submission_transport_error) outcome" where
  "parse_submission_response dec_parse wire = (case wire of
     ExchangeErr reason \<Rightarrow> Ok (SubmissionRejected reason)
   | ExchangeOk t sts \<Rightarrow>
       and_then (fail_if (t \<noteq> ''order'') (TransportInvalidResponse ''unexpected exchange response'')) (\<lambda>_.
       and_then (ok_or (TransportInvalidResponse ''missing statuses'') sts) (\<lambda>sts.
       (case sts of
          [st] \<Rightarrow>
            (case st of
               WireSuccess \<Rightarrow> Ok SubmissionAcknowledged
             | WaitingForFill \<Rightarrow> Ok SubmissionAcknowledged
             | WireFilled total_sz avg_px oid \<Rightarrow>
                 and_then (map_err TransportInvalidResponse (dec_parse total_sz)) (\<lambda>q.
                 and_then (map_err TransportInvalidResponse (dec_parse avg_px)) (\<lambda>p.
                 Ok (SubmissionFilled (nat_str oid) q p)))
             | WireError reason \<Rightarrow> Ok (SubmissionRejected reason)
             | Resting oid \<Rightarrow> Err (TransportInvalidResponse (''IOC unexpectedly rested as order '' @ nat_str oid))
             | WaitingForTrigger \<Rightarrow> Err (TransportInvalidResponse ''IOC returned a trigger-waiting status''))
        | _ \<Rightarrow> Err (TransportInvalidResponse ''expected one order status'')))))"

text \<open>
  What \<open>submit_ioc\<close> makes of the answer: no connection, a server error, an unreadable body and a body
  that is not JSON are unknown results, any other failure status is definite.
\<close>

datatype http_answer = NoAnswer | HttpStatus nat | HttpBody (declared_length: "nat option") (http_body: bytes) | BrokenBody "nat option"

definition MAXIMUM_RESPONSE_BYTES :: nat where "MAXIMUM_RESPONSE_BYTES = 8 * 1024 * 1024"

definition too_long :: "nat option \<Rightarrow> bool" where
  "too_long l = (case l of None \<Rightarrow> False | Some n \<Rightarrow> MAXIMUM_RESPONSE_BYTES < n)"

definition submit_answer ::
  "(string \<Rightarrow> (rat, string) outcome) \<Rightarrow> (bytes \<Rightarrow> exchange_response option) \<Rightarrow> http_answer
     \<Rightarrow> (submission_response, submission_transport_error) outcome" where
  "submit_answer dec_parse json a = (case a of
     NoAnswer \<Rightarrow> Err TransportUnknownResult
   | HttpStatus s \<Rightarrow> Err (if 500 \<le> s \<and> s < 600 then TransportUnknownResult else TransportHttp s)
   | BrokenBody l \<Rightarrow> and_then (fail_if (too_long l) (TransportInvalidResponse ''response exceeds size limit'')) (\<lambda>_.
       Err TransportUnknownResult)
   | HttpBody l body \<Rightarrow>
       and_then (fail_if (too_long l \<or> MAXIMUM_RESPONSE_BYTES < length body)
         (TransportInvalidResponse ''response exceeds size limit'')) (\<lambda>_.
       and_then (ok_or TransportUnknownResult (json body)) (\<lambda>wire. parse_submission_response dec_parse wire)))"

section \<open>Pages\<close>

definition parse_fill :: "(string \<Rightarrow> (rat, string) outcome) \<Rightarrow> payload_hash \<Rightarrow> user_fill_wire \<Rightarrow> user_fill transport" where
  "parse_fill dec_parse source w =
    and_then (ok_or (InvalidResponse ''fill missing CLOID'') (fw_cloid w)) (\<lambda>s.
    and_then (transport_parse_cloid s) (\<lambda>c.
    and_then (parse_decimal dec_parse (fw_px w)) (\<lambda>price.
    and_then (parse_decimal dec_parse (fw_sz w)) (\<lambda>quantity.
    and_then (parse_signed_decimal dec_parse (fw_closed_pnl w)) (\<lambda>pnl.
    and_then (parse_signed_decimal dec_parse (fw_fee w)) (\<lambda>fee.
    Ok \<lparr>uf_cloid = c, uf_order_id = nat_str (fw_oid w), uf_trade_id = nat_str (fw_tid w), uf_asset = fw_coin w,
        uf_side = fw_side w, uf_price = price, uf_quantity = quantity, uf_closed_pnl = pnl, uf_fee = fee,
        uf_fee_token = fw_fee_token w, uf_crossed = fw_crossed w, uf_occurred_at = fw_time w,
        uf_source_hash = source\<rparr>))))))"

definition fills_page ::
  "(string \<Rightarrow> (rat, string) outcome) \<Rightarrow> cursor \<Rightarrow> payload_hash \<Rightarrow> user_fill_wire list \<Rightarrow> user_fill_batch transport" where
  "fills_page dec_parse cur source wire =
    and_then (try_fold (\<lambda>(next, fills) w. and_then (parse_fill dec_parse source w) (\<lambda>f.
        Ok (max next (saturating_add 64 (fw_time w) 1), fills @ [f]))) (start_time_ms cur, []) wire) (\<lambda>(next, fills).
    Ok \<lparr>ub_fills = fills, ub_next_cursor = \<lparr>start_time_ms = next, end_time_ms = end_time_ms cur\<rparr>,
        ub_source_hash = source\<rparr>)"

definition parse_funding :: "(string \<Rightarrow> (rat, string) outcome) \<Rightarrow> payload_hash \<Rightarrow> funding_wire \<Rightarrow> funding_record transport" where
  "parse_funding dec_parse source w = and_then (parse_signed_decimal dec_parse (gw_usdc w)) (\<lambda>d.
     Ok \<lparr>fr_event_hash = gw_hash w, fr_asset = gw_coin w, fr_usdc_delta = d, fr_occurred_at = gw_time w,
         fr_source_hash = source\<rparr>)"

definition funding_page ::
  "(string \<Rightarrow> (rat, string) outcome) \<Rightarrow> cursor \<Rightarrow> payload_hash \<Rightarrow> funding_wire list \<Rightarrow> funding_batch transport" where
  "funding_page dec_parse cur source wire =
    and_then (try_fold (\<lambda>(next, events) w. and_then (parse_funding dec_parse source w) (\<lambda>f.
        Ok (max next (saturating_add 64 (gw_time w) 1), events @ [f]))) (start_time_ms cur, []) wire) (\<lambda>(next, events).
    Ok \<lparr>fb_events = events, fb_next_cursor = \<lparr>start_time_ms = next, end_time_ms = end_time_ms cur\<rparr>,
        fb_source_hash = source\<rparr>)"

definition positions_page ::
  "(string \<Rightarrow> (rat, string) outcome) \<Rightarrow> payload_hash \<Rightarrow> clearinghouse_wire \<Rightarrow> position_snapshot transport" where
  "positions_page dec_parse source w =
    and_then (try_fold (\<lambda>m (coin, szi). and_then (parse_signed_decimal dec_parse szi) (\<lambda>q.
        Ok (if q \<noteq> 0 then binsert coin q m else m))) bempty (cw_positions w)) (\<lambda>positions.
    and_then (parse_decimal dec_parse (cw_account_value w)) (\<lambda>equity.
    Ok \<lparr>ps_positions = positions, ps_account_equity = equity, ps_observed_at = cw_time w, ps_source_hash = source\<rparr>))"

definition equity_page ::
  "(string \<Rightarrow> (rat, string) outcome) \<Rightarrow> payload_hash \<Rightarrow> clearinghouse_wire \<Rightarrow> equity_snapshot transport" where
  "equity_page dec_parse source w = and_then (parse_decimal dec_parse (cw_account_value w)) (\<lambda>equity.
    Ok \<lparr>es_equity = equity, es_observed_at = cw_time w, es_source_hash = source\<rparr>)"

section \<open>Facts\<close>

lemma hex_value_digit: "n < 16 \<Longrightarrow> hex_value (hex_digit n) = Some n \<and> hex_digit n \<noteq> CHR ''+''"
proof -
  have "\<forall>n \<in> set [0..<16]. hex_value (hex_digit n) = Some n \<and> hex_digit n \<noteq> CHR ''+''" by code_simp
  then show "n < 16 \<Longrightarrow> ?thesis" by simp
qed

definition hex_pair :: "byte \<Rightarrow> string" where
  "hex_pair b = [hex_digit (unat b div 16), hex_digit (unat b mod 16)]"

lemma unat_byte_less: "unat b < 256" for b :: byte
  using unsigned_less [of b] by simp

lemma decode_hex_pairs: "decode_pairs (concat (map hex_pair bs)) = Some bs
    \<and> length (concat (map hex_pair bs)) = 2 * length bs \<and> list_all is_ascii_hexdigit (concat (map hex_pair bs))"
proof (induction bs)
  case (Cons b bs)
  have "unat b div 16 < 16" "unat b mod 16 < 16" using unat_byte_less [of b] by (simp_all add: less_mult_imp_div_less)
  note D = hex_value_digit [OF this(1)] hex_value_digit [OF this(2)]
  have "16 * (unat b div 16) + unat b mod 16 = unat b" by simp
  then have "u8_from_hex (hex_digit (unat b div 16)) (hex_digit (unat b mod 16)) = Some b"
    using D unfolding u8_from_hex_def by (simp del: mult_div_mod_eq)
  with Cons D show ?case by (simp add: hex_pair_def is_ascii_hexdigit_def)
qed simp

lemma hex_bytes_pairs: "hex_bytes bs = ''0x'' @ concat (map hex_pair bs)"
  by (simp add: hex_bytes_def hex_pair_def [abs_def])

lemma decode_hex_bytes: "decode_hex e (length bs) (strip_0x (hex_bytes bs)) = Ok bs"
  by (simp add: hex_bytes_pairs strip_0x_def decode_hex_def decode_hex_pairs)

end
