(* ===== verification/Ipc.thy ===== *)
theory Ipc
  imports Live_Trading
begin

text \<open>
  The channel between observer and signer (\<open>copytrade-core/src/ipc.rs\<close>) and the execution envelope it
  carries (\<open>copytrade-core/src/authorized_intent.rs\<close>): messages, the policy, the frame format with its
  decoder, reading frames from a byte stream, and the sealing of an intent. MessagePack and SHA-256 are
  parameters: \<open>enc\<close> and \<open>dec\<close> (\<open>rmp_serde::to_vec\<close>, \<open>from_slice\<close>) and \<open>H\<close>.
\<close>

section \<open>Authorized intents\<close>

definition AUTHORIZED_INTENT_SCHEMA_VERSION :: nat where "AUTHORIZED_INTENT_SCHEMA_VERSION = 1"

datatype time_in_force = Ioc

record pre_signing_context =
  now_mono :: timestamp
  deployed_risk_policy_hash :: risk_policy_hash
  projection_input :: portfolio_projection_input
  exchange_minimum_notional :: rat

text \<open>
  The price and the quantity keep their scale, which the signer's registry checks; every other decimal
  is its value.
\<close>


record authorized_intent =
  ai_schema_version :: nat
  ai_decision_id :: decision_id
  ai_target_version :: target_version
  ai_root_cloid :: planned_cloid
  ai_planned_cloid :: planned_cloid
  ai_parent_cloid :: "planned_cloid option"
  ai_generation :: nat
  ai_asset :: asset
  ai_asset_index :: nat
  ai_side :: side
  ai_quantity :: scaled
  ai_limit_price :: scaled
  ai_reduce_only :: bool
  ai_time_in_force :: time_in_force
  ai_projection_hash :: projection_hash
  ai_risk_policy_hash :: risk_policy_hash
  ai_configuration_hash :: config_hash
  ai_market_rules_hash :: bytes
  ai_floor_policy_hash :: bytes
  ai_ioc_policy_hash :: bytes
  ai_observer_release_hash :: bytes
  ai_signer_release_hash :: bytes
  ai_release_manifest_hash :: bytes
  ai_reference_price :: rat
  ai_committed_before :: rat
  ai_committed_after :: rat
  ai_decision_timestamp :: nat
  ai_expires_at :: timestamp
  ai_authorization :: pre_signing_context
  ai_canonical_hash :: bytes

definition compute_canonical_hash ::
  "(authorized_intent \<Rightarrow> (bytes, string) outcome) \<Rightarrow> (bytes \<Rightarrow> bytes) \<Rightarrow> authorized_intent \<Rightarrow> (bytes, string) outcome" where
  "compute_canonical_hash enc H i =
    and_then (enc (i\<lparr>ai_canonical_hash := replicate 32 0\<rparr>)) (\<lambda>b. Ok (H b))"

definition seal ::
  "(authorized_intent \<Rightarrow> (bytes, string) outcome) \<Rightarrow> (bytes \<Rightarrow> bytes) \<Rightarrow> authorized_intent
     \<Rightarrow> (authorized_intent, string) outcome" where
  "seal enc H i = and_then (compute_canonical_hash enc H i) (\<lambda>h. Ok (i\<lparr>ai_canonical_hash := h\<rparr>))"

definition validate_canonical ::
  "(authorized_intent \<Rightarrow> (bytes, string) outcome) \<Rightarrow> (bytes \<Rightarrow> bytes) \<Rightarrow> authorized_intent \<Rightarrow> (unit, string) outcome" where
  "validate_canonical enc H i =
    and_then (fail_if (ai_schema_version i \<noteq> AUTHORIZED_INTENT_SCHEMA_VERSION)
      ''unsupported authorized intent schema'') (\<lambda>_.
    and_then (fail_if (ai_time_in_force i \<noteq> Ioc) ''authorized execution must be IOC'') (\<lambda>_.
    and_then (fail_if (scaled_value (ai_quantity i) \<le> 0 \<or> scaled_value (ai_limit_price i) \<le> 0
        \<or> ai_reference_price i \<le> 0 \<or> ai_expires_at i = 0)
      ''invalid authorized intent financial field'') (\<lambda>_.
    and_then (compute_canonical_hash enc H i) (\<lambda>h.
    fail_if (ai_canonical_hash i \<noteq> h) ''authorized intent canonical hash mismatch''))))"

section \<open>Messages\<close>

datatype process_role = Observer | Signer

record production_handshake =
  hs_protocol_version :: nat
  hs_role :: process_role
  hs_binary_hash :: bytes
  hs_source_tree :: string
  hs_policy_hash :: bytes
  hs_state_schema_version :: nat
  hs_nonce :: bytes
  hs_peer_nonce :: "bytes option"

record intent_identity =
  ii_cloid :: planned_cloid
  ii_target_version :: target_version
  ii_canonical_hash :: bytes

record event_identity =
  ev_signer :: bytes
  ev_sequence :: nat
  ev_hash :: bytes

datatype reconciliation_payload =
    IntentAccepted intent_identity nat
  | StartedEvent planned_cloid
  | UnknownEvent planned_cloid
  | AcknowledgedEvent planned_cloid string
  | RejectedEvent planned_cloid string
  | CancelledEvent planned_cloid rat
  | PartiallyFilledEvent planned_cloid string rat
  | FillEvent verified_fill
  | FundingEvent verified_funding
  | PositionSnapshot "(asset, rat) bmap" nat
  | EquitySnapshot rat nat
  | ReconciledEvent planned_cloid
  | NotSubmittedEvent planned_cloid

record reconciliation_event =
  re_identity :: event_identity
  re_payload :: reconciliation_payload

datatype observer_request =
    HandshakeRequest production_handshake
  | Submit authorized_intent
  | Reconcile planned_cloid
  | ReplayFrom nat
  | AcknowledgeEvents nat
  | Status

datatype signer_rejection =
    RejectInvalidIntent string | RejectDuplicateCloid | RejectExpired | RejectPolicyMismatch
  | RejectRiskChanged | RejectNotReady | RejectCapacityExhausted | RejectInternal string

datatype signer_response =
    HandshakeResponse production_handshake
  | Accepted intent_identity nat string
  | RejectedResponse planned_cloid signer_rejection
  | NotFoundResponse planned_cloid
  | StatusResponse bool bool nat
  | EventResponse reconciliation_event
  | EventsResponse "reconciliation_event list"
  | EventsAcknowledged nat

section \<open>Policy\<close>

definition IPC_MAGIC :: bytes where "IPC_MAGIC = str_bytes ''HYPA''"
definition IPC_PROTOCOL_VERSION :: nat where "IPC_PROTOCOL_VERSION = 1"
definition IPC_HEADER_BYTES :: nat where "IPC_HEADER_BYTES = 52"
definition OBSERVER_MESSAGE_TYPE :: nat where "OBSERVER_MESSAGE_TYPE = 1"
definition SIGNER_MESSAGE_TYPE :: nat where "SIGNER_MESSAGE_TYPE = 2"
definition IPC_STATE_SCHEMA_VERSION :: nat where "IPC_STATE_SCHEMA_VERSION = 2"

record ipc_policy =
  protocol_version :: nat
  maximum_frame_bytes :: nat
  maximum_pending_intents :: nat
  maximum_pending_reducing :: nat
  maximum_pending_increasing :: nat
  maximum_pending_events :: nat
  maximum_reorder_window :: nat
  write_timeout_ms :: nat
  acknowledgment_timeout_ms :: nat

datatype ipc_error =
    InvalidPolicy | FrameTooLarge | Truncated | InvalidMagic | UnsupportedVersion | UnexpectedMessageType
  | PayloadHashMismatch | EncodeError string | DecodeError string | IoError string | Timeout

type_synonym 'a ipc = "('a, ipc_error) outcome"

definition validate_policy :: "ipc_policy \<Rightarrow> unit ipc" where
  "validate_policy p = fail_if (protocol_version p \<noteq> IPC_PROTOCOL_VERSION
     \<or> maximum_frame_bytes p < IPC_HEADER_BYTES \<or> 16 * 1024 * 1024 < maximum_frame_bytes p
     \<or> maximum_pending_intents p = 0 \<or> maximum_pending_reducing p = 0 \<or> maximum_pending_increasing p = 0
     \<or> maximum_pending_events p = 0 \<or> maximum_reorder_window p = 0
     \<or> checked_add_nat 64 (maximum_pending_reducing p) (maximum_pending_increasing p)
         \<noteq> Some (maximum_pending_intents p)
     \<or> write_timeout_ms p = 0 \<or> acknowledgment_timeout_ms p = 0) InvalidPolicy"

section \<open>Frames\<close>

text \<open>\<open>from_be_bytes\<close>.\<close>

definition be_value :: "bytes \<Rightarrow> nat" where
  "be_value bs = foldl (\<lambda>n b. n * 256 + unat b) 0 bs"

record 'm decoded_frame =
  df_sequence :: nat
  df_payload_hash :: bytes
  df_message :: 'm

text \<open>The bytes of a frame: 4 magic, 2 version, 2 type, 8 sequence, 4 length, 32 digest, payload.\<close>

definition frame_bytes :: "(bytes \<Rightarrow> bytes) \<Rightarrow> nat \<Rightarrow> nat \<Rightarrow> bytes \<Rightarrow> bytes" where
  "frame_bytes H message_type sequence payload =
    IPC_MAGIC @ be_bytes 2 IPC_PROTOCOL_VERSION @ be_bytes 2 message_type @ be_bytes 8 sequence
    @ be_bytes 4 (length payload) @ H payload @ payload"

definition encode_frame ::
  "('m \<Rightarrow> (bytes, string) outcome) \<Rightarrow> (bytes \<Rightarrow> bytes) \<Rightarrow> nat \<Rightarrow> nat \<Rightarrow> 'm \<Rightarrow> nat \<Rightarrow> bytes ipc" where
  "encode_frame enc H message_type sequence message max_bytes =
    and_then (map_err EncodeError (enc message)) (\<lambda>payload.
    and_then (ok_or FrameTooLarge (checked_add_nat 64 IPC_HEADER_BYTES (length payload))) (\<lambda>total.
    and_then (fail_if (max_bytes < total \<or> 2 ^ 32 - 1 < length payload) FrameTooLarge) (\<lambda>_.
    Ok (frame_bytes H message_type sequence payload))))"

definition decode_frame ::
  "(bytes \<Rightarrow> ('m, string) outcome) \<Rightarrow> (bytes \<Rightarrow> bytes) \<Rightarrow> bytes \<Rightarrow> nat \<Rightarrow> nat \<Rightarrow> 'm decoded_frame ipc" where
  "decode_frame dec H bs message_type max_bytes =
    and_then (fail_if (length bs < IPC_HEADER_BYTES) Truncated) (\<lambda>_.
    and_then (fail_if (max_bytes < length bs) FrameTooLarge) (\<lambda>_.
    and_then (fail_if (take 4 bs \<noteq> IPC_MAGIC) InvalidMagic) (\<lambda>_.
    and_then (fail_if (be_value (take 2 (drop 4 bs)) \<noteq> IPC_PROTOCOL_VERSION) UnsupportedVersion) (\<lambda>_.
    and_then (fail_if (be_value (take 2 (drop 6 bs)) \<noteq> message_type) UnexpectedMessageType) (\<lambda>_.
    let sequence = be_value (take 8 (drop 8 bs)); size = be_value (take 4 (drop 16 bs)) in
    and_then (ok_or FrameTooLarge (checked_add_nat 64 IPC_HEADER_BYTES size)) (\<lambda>total.
    and_then (fail_if (length bs \<noteq> total) Truncated) (\<lambda>_.
    let payload = drop IPC_HEADER_BYTES bs; payload_hash = take 32 (drop 20 bs) in
    and_then (fail_if (H payload \<noteq> payload_hash) PayloadHashMismatch) (\<lambda>_.
    and_then (map_err DecodeError (dec payload)) (\<lambda>message.
    Ok \<lparr>df_sequence = sequence, df_payload_hash = payload_hash, df_message = message\<rparr>)))))))))"

definition canonical_payload_hash ::
  "('m \<Rightarrow> (bytes, string) outcome) \<Rightarrow> (bytes \<Rightarrow> bytes) \<Rightarrow> 'm \<Rightarrow> bytes ipc" where
  "canonical_payload_hash enc H message =
    and_then (map_err EncodeError (enc message)) (\<lambda>payload. Ok (H payload))"

text \<open>
  A reader is the list of bytes it will deliver before it ends: \<open>read_exact\<close> takes the next \<open>n\<close> of them
  or fails. The answer of the writer (done, an error, or the timeout) is an argument.
\<close>

definition read_exact :: "nat \<Rightarrow> bytes \<Rightarrow> (bytes \<times> bytes) ipc" where
  "read_exact n stream = (if length stream < n then Err (IoError ''early eof'') else Ok (take n stream, drop n stream))"

definition read_framed ::
  "(bytes \<Rightarrow> ('m, string) outcome) \<Rightarrow> (bytes \<Rightarrow> bytes) \<Rightarrow> ipc_policy \<Rightarrow> nat \<Rightarrow> bytes
     \<Rightarrow> ('m decoded_frame \<times> bytes) ipc" where
  "read_framed dec H policy message_type stream =
    and_then (validate_policy policy) (\<lambda>_.
    and_then (read_exact IPC_HEADER_BYTES stream) (\<lambda>(header, stream1).
    let payload_length = be_value (take 4 (drop 16 header)) in
    and_then (ok_or FrameTooLarge (checked_add_nat 64 IPC_HEADER_BYTES payload_length)) (\<lambda>total.
    and_then (fail_if (maximum_frame_bytes policy < total) FrameTooLarge) (\<lambda>_.
    and_then (read_exact (total - IPC_HEADER_BYTES) stream1) (\<lambda>(payload, stream2).
    and_then (decode_frame dec H (header @ payload) message_type (maximum_frame_bytes policy)) (\<lambda>frame.
    Ok (frame, stream2)))))))"

datatype write_answer = Written | WriteTimedOut | WriteFailed string

definition write_framed ::
  "('m \<Rightarrow> (bytes, string) outcome) \<Rightarrow> (bytes \<Rightarrow> bytes) \<Rightarrow> ipc_policy \<Rightarrow> nat \<Rightarrow> nat \<Rightarrow> 'm \<Rightarrow> write_answer
     \<Rightarrow> bytes \<Rightarrow> bytes ipc" where
  "write_framed enc H policy message_type sequence message answer stream =
    and_then (validate_policy policy) (\<lambda>_.
    and_then (encode_frame enc H message_type sequence message (maximum_frame_bytes policy)) (\<lambda>frame.
    case answer of Written \<Rightarrow> Ok (stream @ frame) | WriteTimedOut \<Rightarrow> Err Timeout | WriteFailed e \<Rightarrow> Err (IoError e)))"

section \<open>The frame format\<close>

lemma guard_Ok: "and_then (fail_if b e) f = Ok y \<longleftrightarrow> \<not> b \<and> f () = Ok y"
  by (simp add: fail_if_def)

lemma try_option_Ok: "and_then (ok_or e v) f = Ok y \<longleftrightarrow> (\<exists>x. v = Some x \<and> f x = Ok y)"
  by (cases v) simp_all

lemma try_err_Ok: "and_then (map_err g m) f = Ok y \<longleftrightarrow> (\<exists>x. m = Ok x \<and> f x = Ok y)"
  by (cases m) simp_all

lemma be_value_snoc: "be_value (xs @ [b]) = be_value xs * 256 + unat b"
  by (simp add: be_value_def)

lemma be_value_bytes: "n < 256 ^ k \<Longrightarrow> be_value (be_bytes k n) = n"
proof (induction k arbitrary: n)
  case (Suc k)
  have "n div 256 < 256 ^ k" using Suc.prems by (simp add: less_mult_imp_div_less mult.commute)
  then show ?case using Suc.IH [of "n div 256"] by (simp add: be_value_snoc unat_of_nat)
qed (simp add: be_value_def)

lemma be_bytes_value: "be_bytes (length bs) (be_value bs) = bs"
proof (induction bs rule: rev_induct)
  case (snoc b bs)
  have "unat b < 256" using unsigned_less [of b] by simp
  then show ?case using snoc by (simp add: be_value_snoc)
qed simp

lemma be_value_less: "be_value bs < 256 ^ length bs"
proof (induction bs rule: rev_induct)
  case (snoc b bs)
  have "unat b < 256" using unsigned_less [of b] by simp
  then have "be_value bs * 256 + unat b < (be_value bs + 1) * 256" by simp
  also have "\<dots> \<le> 256 ^ length bs * 256" using snoc by (intro mult_le_mono1) simp
  finally show ?case by (simp add: be_value_snoc mult.commute)
qed (simp add: be_value_def)

lemma length_magic [simp]: "length IPC_MAGIC = 4"
  by (simp add: IPC_MAGIC_def str_bytes_def)

text \<open>The fields of a frame, at the offsets of the header.\<close>

lemma frame_fields:
  fixes t n :: nat
  assumes "length (H payload) = 32"
  defines "f \<equiv> frame_bytes H t n payload"
  shows "length f = 52 + length payload" "take 4 f = IPC_MAGIC"
    "take 2 (drop 4 f) = be_bytes 2 IPC_PROTOCOL_VERSION" "take 2 (drop 6 f) = be_bytes 2 t"
    "take 8 (drop 8 f) = be_bytes 8 n" "take 4 (drop 16 f) = be_bytes 4 (length payload)"
    "take 32 (drop 20 f) = H payload" "drop 52 f = payload"
  using assms(1) by (simp_all add: f_def frame_bytes_def del: be_bytes.simps)

lemma decode_encode:
  assumes "encode_frame enc H t n m max_bytes = Ok f" and "\<And>b. enc m = Ok b \<Longrightarrow> dec b = Ok m \<and> length (H b) = 32"
    and "t < 2 ^ 16" "n < 2 ^ 64"
  obtains payload where "enc m = Ok payload" "f = frame_bytes H t n payload"
    "length f = 52 + length payload" "length f \<le> max_bytes" "length payload < 2 ^ 32"
    "decode_frame dec H f t max_bytes = Ok \<lparr>df_sequence = n, df_payload_hash = H payload, df_message = m\<rparr>"
proof -
  obtain payload where p: "enc m = Ok payload" "f = frame_bytes H t n payload"
    and le: "52 + length payload \<le> max_bytes" "length payload < 2 ^ 32"
    using assms(1) by (auto simp: encode_frame_def outcome_simps checked_add_nat_Some IPC_HEADER_BYTES_def)
  note P = assms(2) [OF p(1)]
  note F = frame_fields [where H = H and payload = payload and t = t and n = n, OF P [THEN conjunct2], folded p(2)]
  have "decode_frame dec H f t max_bytes = Ok \<lparr>df_sequence = n, df_payload_hash = H payload, df_message = m\<rparr>"
    using le assms(3,4) P
    by (simp add: decode_frame_def IPC_HEADER_BYTES_def F be_value_bytes checked_add_nat_def Let_def
        IPC_PROTOCOL_VERSION_def del: be_bytes.simps)
  with p le F(1) show ?thesis by (intro that) simp_all
qed


text \<open>What the decoder accepts is a frame.\<close>

lemma split_header:
  assumes "52 \<le> length bs"
  shows "bs = take 4 bs @ take 2 (drop 4 bs) @ take 2 (drop 6 bs) @ take 8 (drop 8 bs) @ take 4 (drop 16 bs)
    @ take 32 (drop 20 bs) @ drop 52 bs"
proof -
  have step: "drop k bs = take j (drop k bs) @ drop (k + j) bs" for k j
    by (metis add.commute append_take_drop_id drop_drop)
  have "bs = take 4 bs @ drop 4 bs" by simp
  then show ?thesis using step [of 4 2] step [of 6 2] step [of 8 8] step [of 16 4] step [of 20 32] by simp
qed

lemma be_bytes_take: "k + j \<le> length bs \<Longrightarrow> take k (drop j bs) = be_bytes k (be_value (take k (drop j bs)))"
  using be_bytes_value [of "take k (drop j bs)"] by simp

lemma be_value_take: "k + j \<le> length bs \<Longrightarrow> be_value (take k (drop j bs)) < 256 ^ k"
  using be_value_less [of "take k (drop j bs)"] by simp

lemma decode_frame_Ok:
  assumes "decode_frame dec H bs t max_bytes = Ok d"
  obtains payload where "bs = frame_bytes H t (df_sequence d) payload" "dec payload = Ok (df_message d)"
    "df_payload_hash d = H payload" "length bs \<le> max_bytes" "df_sequence d < 2 ^ 64"
    "length bs = 52 + length payload" "t < 2 ^ 16"
proof -
  from assms obtain m total where r: "\<not> length bs < 52" "\<not> max_bytes < length bs" "\<not> take 4 bs \<noteq> IPC_MAGIC"
    "\<not> be_value (take 2 (drop 4 bs)) \<noteq> IPC_PROTOCOL_VERSION" "\<not> be_value (take 2 (drop 6 bs)) \<noteq> t"
    "checked_add_nat 64 52 (be_value (take 4 (drop 16 bs))) = Some total" "\<not> length bs \<noteq> total"
    "\<not> H (drop 52 bs) \<noteq> take 32 (drop 20 bs)" "dec (drop 52 bs) = Ok m"
    "Ok \<lparr>df_sequence = be_value (take 8 (drop 8 bs)), df_payload_hash = take 32 (drop 20 bs), df_message = m\<rparr>
       = (Ok d :: 'a decoded_frame ipc)"
    unfolding decode_frame_def Let_def guard_Ok try_option_Ok try_err_Ok IPC_HEADER_BYTES_def by (elim conjE exE)
  have g: "52 \<le> length bs" "length bs \<le> max_bytes" "take 4 bs = IPC_MAGIC"
    "be_value (take 2 (drop 4 bs)) = IPC_PROTOCOL_VERSION" "be_value (take 2 (drop 6 bs)) = t"
    "H (drop 52 bs) = take 32 (drop 20 bs)" "dec (drop 52 bs) = Ok m"
    using r(1-5,8,9) by simp_all
  have len: "length (drop 52 bs) = be_value (take 4 (drop 16 bs))"
    using r(6,7) unfolding checked_add_nat_Some length_drop by linarith
  have d: "d = \<lparr>df_sequence = be_value (take 8 (drop 8 bs)), df_payload_hash = take 32 (drop 20 bs), df_message = m\<rparr>"
    using r(10) by simp
  have whole: "bs = frame_bytes H t (df_sequence d) (drop 52 bs)"
  proof -
    have "be_bytes 2 IPC_PROTOCOL_VERSION = take 2 (drop 4 bs)" "be_bytes 2 t = take 2 (drop 6 bs)"
      "be_bytes 8 (df_sequence d) = take 8 (drop 8 bs)" "be_bytes 4 (length (drop 52 bs)) = take 4 (drop 16 bs)"
      unfolding len d decoded_frame.simps g(4,5) [symmetric] using g(1) by (simp_all only: be_bytes_take [symmetric])
    then show ?thesis
      unfolding frame_bytes_def g(6) g(3) [symmetric] using split_header [OF g(1)] by argo
  qed
  have seq: "df_sequence d < 2 ^ 64"
    using be_value_take [of 8 8 bs] g(1) by (simp add: d)
  have t: "t < 2 ^ 16" using be_value_take [of 2 6 bs] g(1,5) by simp
  have n: "length bs = 52 + length (drop 52 bs)" using g(1) by simp
  show ?thesis using that [OF whole _ _ g(2) seq n t] g(6,7) by (simp add: d)
qed

section \<open>Streams of frames\<close>

text \<open>A writer that sends messages with their sequence numbers, and a reader of as many frames.\<close>

fun write_frames ::
  "('m \<Rightarrow> (bytes, string) outcome) \<Rightarrow> (bytes \<Rightarrow> bytes) \<Rightarrow> ipc_policy \<Rightarrow> nat \<Rightarrow> (nat \<times> 'm) list \<Rightarrow> bytes ipc" where
  "write_frames enc H policy t [] = Ok []"
| "write_frames enc H policy t ((n, m) # ms) =
    and_then (write_framed enc H policy t n m Written []) (\<lambda>f. and_then (write_frames enc H policy t ms) (\<lambda>fs. Ok (f @ fs)))"

fun read_frames ::
  "(bytes \<Rightarrow> ('m, string) outcome) \<Rightarrow> (bytes \<Rightarrow> bytes) \<Rightarrow> ipc_policy \<Rightarrow> nat \<Rightarrow> nat \<Rightarrow> bytes \<Rightarrow> ((nat \<times> 'm) list \<times> bytes) ipc" where
  "read_frames dec H policy t 0 stream = Ok ([], stream)"
| "read_frames dec H policy t (Suc k) stream =
    and_then (read_framed dec H policy t stream) (\<lambda>(d, rest).
    and_then (read_frames dec H policy t k rest) (\<lambda>(ds, rest'). Ok ((df_sequence d, df_message d) # ds, rest')))"

lemma read_write_framed:
  assumes "write_framed enc H policy t n m Written [] = Ok f"
    and "\<And>b. enc m = Ok b \<Longrightarrow> dec b = Ok m \<and> length (H b) = 32" and "t < 2 ^ 16" "n < 2 ^ 64"
  shows "\<exists>d. read_framed dec H policy t (f @ rest) = Ok (d, rest) \<and> df_sequence d = n \<and> df_message d = m"
proof -
  from assms(1) have v: "validate_policy policy = Ok ()"
    and e: "encode_frame enc H t n m (maximum_frame_bytes policy) = Ok f"
    by (auto simp: write_framed_def outcome_simps)
  obtain payload where p: "enc m = Ok payload" "f = frame_bytes H t n payload" "length f = 52 + length payload"
    "length f \<le> maximum_frame_bytes policy" "length payload < 2 ^ 32"
    and d: "decode_frame dec H f t (maximum_frame_bytes policy)
      = Ok \<lparr>df_sequence = n, df_payload_hash = H payload, df_message = m\<rparr>"
    using decode_encode [OF e assms(2-4)] by metis
  have H: "length (H payload) = 32" using assms(2) [OF p(1)] by simp
  have "take 4 (drop 16 (take 52 (f @ rest))) = take 4 (drop 16 f)"
    using p(3) by (simp add: drop_take)
  then have "be_value (take 4 (drop 16 (take 52 (f @ rest)))) = length payload"
    using frame_fields(6) [where H = H and payload = payload and t = t and n = n, OF H] p(2,5) be_value_bytes [of "length payload" 4] by simp
  moreover have "take 52 (f @ rest) @ take (length payload) (drop 52 (f @ rest)) = f"
    "drop (length payload) (drop 52 (f @ rest)) = rest"
    using p(3) by (simp_all add: take_add [symmetric])
  ultimately show ?thesis
    using p(3-5) v d
    by (simp add: read_framed_def read_exact_def IPC_HEADER_BYTES_def checked_add_nat_def)
qed

text \<open>
  C31. What one side writes the other reads: the frames of a stream come out one by one with their sequence
  numbers and messages, and nothing is consumed beyond them.
\<close>

theorem stream_round_trip:
  assumes "write_frames enc H policy t ms = Ok stream" and "t < 2 ^ 16"
    and "\<forall>(n, m) \<in> set ms. n < 2 ^ 64 \<and> (\<forall>b. enc m = Ok b \<longrightarrow> dec b = Ok m \<and> length (H b) = 32)"
  shows "read_frames dec H policy t (length ms) (stream @ rest) = Ok (ms, rest)"
  using assms(1,3)
proof (induction ms arbitrary: stream)
  case (Cons x ms)
  obtain n m where x: "x = (n, m)" by (cases x)
  from Cons.prems(1) obtain f fs where f: "write_framed enc H policy t n m Written [] = Ok f"
    and fs: "write_frames enc H policy t ms = Ok fs" and s: "stream = f @ fs"
    by (auto simp: x outcome_simps)
  have m: "n < 2 ^ 64" "\<And>b. enc m = Ok b \<Longrightarrow> dec b = Ok m \<and> length (H b) = 32"
    using Cons.prems(2) by (auto simp: x)
  obtain d where "read_framed dec H policy t (f @ fs @ rest) = Ok (d, fs @ rest)" "df_sequence d = n" "df_message d = m"
    using read_write_framed [OF f m(2) assms(2) m(1), of "fs @ rest"] by auto
  moreover have "read_frames dec H policy t (length ms) (fs @ rest) = Ok (ms, rest)"
    by (rule Cons.IH [OF fs]) (use Cons.prems(2) in auto)
  ultimately show ?case by (simp add: x s)
qed simp

text \<open>A toy codec for the witnesses: a message is its payload, the digest is 32 copies of its length.\<close>

definition toy_hash :: "bytes \<Rightarrow> bytes" where "toy_hash b = replicate 32 (word_of_nat (length b))"

definition sample_policy :: ipc_policy where
  "sample_policy = \<lparr>protocol_version = 1, maximum_frame_bytes = 4096, maximum_pending_intents = 2,
     maximum_pending_reducing = 1, maximum_pending_increasing = 1, maximum_pending_events = 8,
     maximum_reorder_window = 8, write_timeout_ms = 1000, acknowledgment_timeout_ms = 1000\<rparr>"

lemma sample_frames_ok: "validate_policy sample_policy = Ok ()"
  by (simp add: validate_policy_def sample_policy_def IPC_PROTOCOL_VERSION_def IPC_HEADER_BYTES_def checked_add_nat_def)

lemma sample_policy_bytes: "maximum_frame_bytes sample_policy = 4096"
  by (simp add: sample_policy_def)

lemma stream_round_trip_witness:
  "\<exists>stream. write_frames (Ok :: bytes \<Rightarrow> (bytes, string) outcome) toy_hash sample_policy 1 [(7, [1, 2]), (8, [])] = Ok stream
     \<and> read_frames (Ok :: bytes \<Rightarrow> (bytes, string) outcome) toy_hash sample_policy 1 2 (stream @ [9]) = Ok ([(7, [1, 2]), (8, [])], [9])"
proof -
  have "\<exists>stream. write_frames (Ok :: bytes \<Rightarrow> (bytes, string) outcome) toy_hash sample_policy 1 [(7, [1, 2]), (8, [])] = Ok stream"
    by (simp add: write_framed_def encode_frame_def sample_frames_ok checked_add_nat_def IPC_HEADER_BYTES_def
        sample_policy_bytes del: be_bytes.simps)
  then obtain stream where s:
    "write_frames (Ok :: bytes \<Rightarrow> (bytes, string) outcome) toy_hash sample_policy 1 [(7, [1, 2]), (8, [])] = Ok stream" ..
  have "read_frames (Ok :: bytes \<Rightarrow> (bytes, string) outcome) toy_hash sample_policy 1
      (length [(7::nat, [1, 2::byte]), (8, [])]) (stream @ [9]) = Ok ([(7, [1, 2]), (8, [])], [9])"
    by (rule stream_round_trip [OF s]) (simp_all add: toy_hash_def)
  moreover have "length [(7::nat, [1, 2::byte]), (8, [])] = 2" by simp
  ultimately show ?thesis using s by metis
qed



section \<open>Sealed intents\<close>

lemma canonical_hash_field: "compute_canonical_hash enc H (i\<lparr>ai_canonical_hash := h\<rparr>) = compute_canonical_hash enc H i"
  by (simp add: compute_canonical_hash_def)

lemma validate_canonical_Ok:
  "validate_canonical enc H i = Ok u \<longleftrightarrow> ai_schema_version i = 1 \<and> 0 < scaled_value (ai_quantity i)
     \<and> 0 < scaled_value (ai_limit_price i) \<and> 0 < ai_reference_price i \<and> 0 < ai_expires_at i
     \<and> compute_canonical_hash enc H i = Ok (ai_canonical_hash i)"
  by (cases "ai_time_in_force i")
    (auto simp: validate_canonical_def outcome_simps AUTHORIZED_INTENT_SCHEMA_VERSION_def not_le)

lemma same_hash: "ai_canonical_hash j = h \<Longrightarrow> j\<lparr>ai_canonical_hash := h\<rparr> = j"
  by (cases j) simp

text \<open>
  A seal binds every field: an intent that passes the check and carries the hash of a sealed intent is
  that intent, unless the two encodings collide under the hash.
\<close>

theorem seal_binds_intent:
  assumes "seal enc H i = Ok sealed" and "validate_canonical enc H j = Ok ()"
    and "ai_canonical_hash j = ai_canonical_hash sealed"
    and "\<forall>a b x. enc a = Ok x \<and> enc b = Ok x \<longrightarrow> a = b"
    and "\<forall>x y. enc (i\<lparr>ai_canonical_hash := replicate 32 0\<rparr>) = Ok x
       \<and> enc (j\<lparr>ai_canonical_hash := replicate 32 0\<rparr>) = Ok y \<and> H x = H y \<longrightarrow> x = y"
  shows "j = sealed"
proof -
  let ?z = "\<lambda>k. k\<lparr>ai_canonical_hash := replicate 32 0\<rparr> :: authorized_intent"
  obtain x where x: "enc (?z i) = Ok x" "sealed = i\<lparr>ai_canonical_hash := H x\<rparr>"
    using assms(1) by (auto simp: seal_def compute_canonical_hash_def outcome_simps)
  have "compute_canonical_hash enc H j = Ok (ai_canonical_hash j)"
    using assms(2) unfolding validate_canonical_Ok by blast
  then obtain y where y: "enc (?z j) = Ok y" "ai_canonical_hash j = H y"
    by (cases "enc (?z j)") (simp_all add: compute_canonical_hash_def)
  have "H x = H y" using assms(3) x(2) y(2) by simp
  then have "x = y" using assms(5) x(1) y(1) by blast
  then have "enc (?z i) = Ok x \<and> enc (?z j) = Ok x" using x(1) y(1) by simp
  then have "?z i = ?z j" by (rule assms(4) [rule_format])
  then have "(?z i)\<lparr>ai_canonical_hash := H x\<rparr> = (?z j)\<lparr>ai_canonical_hash := H x\<rparr>" by (rule arg_cong)
  then have "i\<lparr>ai_canonical_hash := H x\<rparr> = j\<lparr>ai_canonical_hash := H x\<rparr>" by simp
  moreover have "j\<lparr>ai_canonical_hash := H x\<rparr> = j" using y(2) \<open>x = y\<close> by (simp add: same_hash)
  ultimately show ?thesis using x(2) by simp
qed

lemma seal_validates:
  assumes "seal enc H i = Ok sealed" and "ai_schema_version i = 1" "0 < scaled_value (ai_quantity i)"
    "0 < scaled_value (ai_limit_price i)" "0 < ai_reference_price i" "0 < ai_expires_at i"
  shows "validate_canonical enc H sealed = Ok ()"
proof -
  obtain h where h: "compute_canonical_hash enc H i = Ok h" "sealed = i\<lparr>ai_canonical_hash := h\<rparr>"
    using assms(1) by (cases "compute_canonical_hash enc H i") (simp_all add: seal_def)
  then show ?thesis using assms(2-) by (simp add: validate_canonical_Ok canonical_hash_field)
qed

definition sample_context :: pre_signing_context where
  "sample_context = \<lparr>now_mono = 100, deployed_risk_policy_hash = replicate 32 7,
     projection_input = sample_input [(''BTC'', 0)] [(''BTC'', 20)], exchange_minimum_notional = 10\<rparr>"

definition sample_envelope :: authorized_intent where
  "sample_envelope = \<lparr>ai_schema_version = 1, ai_decision_id = replicate 32 1, ai_target_version = 1,
     ai_root_cloid = replicate 16 2, ai_planned_cloid = replicate 16 2, ai_parent_cloid = None, ai_generation = 0,
     ai_asset = ''BTC'', ai_asset_index = 0, ai_side = Buy, ai_quantity = Scaled 2 1, ai_limit_price = Scaled 100 0,
     ai_reduce_only = False, ai_time_in_force = Ioc, ai_projection_hash = replicate 32 9,
     ai_risk_policy_hash = replicate 32 7, ai_configuration_hash = replicate 32 8,
     ai_market_rules_hash = replicate 32 10, ai_floor_policy_hash = replicate 32 11,
     ai_ioc_policy_hash = replicate 32 12, ai_observer_release_hash = replicate 32 13,
     ai_signer_release_hash = replicate 32 14, ai_release_manifest_hash = replicate 32 9,
     ai_reference_price = 100, ai_committed_before = 0, ai_committed_after = 20, ai_decision_timestamp = 90,
     ai_expires_at = 200, ai_authorization = sample_context, ai_canonical_hash = replicate 32 0\<rparr>"

definition sample_codec :: "authorized_intent \<Rightarrow> (bytes, string) outcome" where
  "sample_codec i = (if i = sample_envelope then Ok [1] else Err ''unsupported'')"

lemma sample_envelope_zeroed: "sample_envelope\<lparr>ai_canonical_hash := replicate 32 0\<rparr> = sample_envelope"
  by (rule same_hash) (simp add: sample_envelope_def)

lemma seal_binds_intent_witness:
  "\<exists>sealed. seal sample_codec toy_hash sample_envelope = Ok sealed \<and> validate_canonical sample_codec toy_hash sealed = Ok ()
     \<and> sealed = sealed\<lparr>ai_canonical_hash := toy_hash [1]\<rparr>"
proof -
  let ?s = "sample_envelope\<lparr>ai_canonical_hash := toy_hash [1]\<rparr>"
  have s: "seal sample_codec toy_hash sample_envelope = Ok ?s"
    by (simp add: seal_def compute_canonical_hash_def sample_envelope_zeroed sample_codec_def)
  have v: "validate_canonical sample_codec toy_hash ?s = Ok ()"
    by (rule seal_validates [OF s]) (simp_all add: sample_envelope_def scaled_value_def)
  have "?s = ?s\<lparr>ai_canonical_hash := toy_hash [1]\<rparr>" by simp
  moreover have "?s = ?s" by (rule seal_binds_intent [OF s v]) (auto simp: sample_codec_def split: if_splits)
  ultimately show ?thesis using s v by blast
qed

end
