(* ===== verification/Exchange_Batches.thy ===== *)
theory Exchange_Batches
  imports Transport
begin

text \<open>
  Reconciliation of the live ledger (\<open>copytrade-signer/src/reconciliation.rs\<close>): a batch of fills and
  funding records is ordered by time, matched with the durable intents and applied to a copy of the
  live state, which replaces the state only when everything succeeded and was saved. The text of a
  ledger error is a parameter \<open>show_error\<close>, the answer of the file system an argument.
\<close>

section \<open>Application\<close>

record applied_batch =
  ab_fills :: "verified_fill list"
  ab_funding :: "verified_funding list"

datatype exchange_event = EventFill user_fill | EventFunding funding_record

fun event_key :: "exchange_event \<Rightarrow> nat \<times> nat \<times> string" where
  "event_key (EventFill f) = (uf_occurred_at f, 0, uf_trade_id f)"
| "event_key (EventFunding e) = (fr_occurred_at e, 1, fr_event_hash e)"

definition event_time :: "exchange_event \<Rightarrow> nat" where "event_time e = fst (event_key e)"
definition event_kind :: "exchange_event \<Rightarrow> nat" where "event_kind e = fst (snd (event_key e))"

fun event_asset :: "exchange_event \<Rightarrow> asset" where
  "event_asset (EventFill f) = uf_asset f"
| "event_asset (EventFunding e) = fr_asset e"

definition FUNDING_EVENT_DOMAIN :: bytes where "FUNDING_EVENT_DOMAIN = str_bytes ''LIVE/FUNDING_EVENT/V1''"

definition funding_id :: "(bytes \<Rightarrow> bytes) \<Rightarrow> string \<Rightarrow> bytes" where
  "funding_id H h = H (FUNDING_EVENT_DOMAIN @ enc_u32 (as_width 32 (length h)) @ str_bytes h)"

definition batch_decode_cloid :: "string \<Rightarrow> planned_cloid signer" where
  "batch_decode_cloid s = decode_hex InvalidIntent 16 (strip_0x s)"

definition expected_side :: "approved_execution_intent \<Rightarrow> string" where
  "expected_side durable = (if ei_is_buy durable then ''B'' else ''A'')"

definition verified_fill_of :: "user_fill \<Rightarrow> approved_execution_intent \<Rightarrow> rat \<Rightarrow> verified_fill signer" where
  "verified_fill_of f durable equity =
    and_then (fail_if (uf_asset f \<noteq> ei_asset durable \<or> uf_side f \<noteq> expected_side durable) ExchangeFillMismatch) (\<lambda>_.
    and_then (decode_hex InvalidIntent 32 (ei_decision_id durable)) (\<lambda>decision.
    and_then (batch_decode_cloid (ei_root_cloid durable)) (\<lambda>root.
    and_then (case ei_parent_cloid durable of None \<Rightarrow> Ok None
       | Some p \<Rightarrow> and_then (batch_decode_cloid p) (\<lambda>c. Ok (Some c))) (\<lambda>parent.
    Ok \<lparr>vf_identity = ExchangeFillIdentity (uf_order_id f) (uf_trade_id f) (uf_cloid f), vf_decision_id = decision,
        vf_target_version = ei_target_version durable, vf_root_cloid = root, vf_parent_cloid = parent,
        vf_generation = ei_continuation_generation durable, vf_asset = uf_asset f,
        vf_side = (if ei_is_buy durable then Buy else Sell), vf_reduce_only = ei_reduce_only durable,
        vf_quantity = uf_quantity f, vf_price = uf_price f, vf_limit_price = scaled_value (ei_limit_price durable),
        vf_fee = uf_fee f, vf_closed_pnl = uf_closed_pnl f, vf_fee_asset = uf_fee_token f,
        vf_liquidity = (if uf_crossed f then Taker else Maker),
        vf_reference_price = ei_decision_reference_price durable, vf_occurred_at = uf_occurred_at f,
        vf_decision_timestamp = ei_decision_timestamp_ms durable, vf_equity_after = equity,
        vf_source_hash = uf_source_hash f\<rparr>))))"

definition verified_funding_of :: "(bytes \<Rightarrow> bytes) \<Rightarrow> funding_record \<Rightarrow> verified_funding" where
  "verified_funding_of H e = \<lparr>fe_event_id = funding_id H (fr_event_hash e), fe_asset = fr_asset e,
     fe_amount = fr_usdc_delta e, fe_occurred_at = fr_occurred_at e, fe_source_hash = fr_source_hash e\<rparr>"

definition batch_events :: "user_fill list \<Rightarrow> funding_record list \<Rightarrow> exchange_event list" where
  "batch_events fills funding =
    sort_by (\<lambda>l r. cmp (event_key l) (event_key r)) (map EventFill fills @ map EventFunding funding)"

definition ambiguous_pair :: "exchange_event \<Rightarrow> exchange_event \<Rightarrow> bool" where
  "ambiguous_pair a b = (event_time a = event_time b \<and> event_asset a = event_asset b \<and> event_kind a \<noteq> event_kind b)"

fun ambiguous_windows :: "exchange_event list \<Rightarrow> bool" where
  "ambiguous_windows (a # b # es) = (ambiguous_pair a b \<or> ambiguous_windows (b # es))"
| "ambiguous_windows _ = False"

definition ledger_step :: "(ledger_error \<Rightarrow> string) \<Rightarrow> 'a ledger_result \<Rightarrow> 'a signer" where
  "ledger_step show_error r = map_err (\<lambda>e. Ledger (show_error e)) r"

definition apply_event ::
  "decimal_ops \<Rightarrow> (bytes \<Rightarrow> bytes) \<Rightarrow> (ledger_error \<Rightarrow> string) \<Rightarrow> submission_registry \<Rightarrow> rat
     \<Rightarrow> applied_batch \<times> live_trading_state \<Rightarrow> exchange_event \<Rightarrow> (applied_batch \<times> live_trading_state) signer" where
  "apply_event A H show_error reg equity st ev = (case ev of
     EventFill f \<Rightarrow>
       and_then (ok_or UnknownCloid (bget (submissions reg) (hex_bytes (uf_cloid f)))) (\<lambda>entry.
       and_then (verified_fill_of f (fst entry) equity) (\<lambda>v.
       and_then (ledger_step show_error (apply_exchange_fill A H v (snd st))) (\<lambda>(r, s).
       Ok (case r of AppliedFill _ _ \<Rightarrow> (fst st)\<lparr>ab_fills := ab_fills (fst st) @ [v]\<rparr> | FillAlreadyApplied \<Rightarrow> fst st, s))))
   | EventFunding e \<Rightarrow>
       let v = verified_funding_of H e in
       and_then (ledger_step show_error (apply_funding_event A v (snd st))) (\<lambda>(r, s).
       Ok (case r of AppliedFunding _ \<Rightarrow> (fst st)\<lparr>ab_funding := ab_funding (fst st) @ [v]\<rparr>
           | FundingAlreadyApplied \<Rightarrow> fst st, s)))"

definition apply_authenticated_batches ::
  "decimal_ops \<Rightarrow> (bytes \<Rightarrow> bytes) \<Rightarrow> (ledger_error \<Rightarrow> string) \<Rightarrow> submission_registry \<Rightarrow> user_fill_batch \<Rightarrow> funding_batch
     \<Rightarrow> rat \<Rightarrow> ledger_error option \<Rightarrow> live_trading_state \<Rightarrow> (applied_batch \<times> live_trading_state) signer" where
  "apply_authenticated_batches A H show_error reg fills funding equity save s =
    (let events = batch_events (ub_fills fills) (fb_events funding) in
    and_then (fail_if (ambiguous_windows events) AmbiguousExchangeEventOrdering) (\<lambda>_.
    and_then (try_fold (apply_event A H show_error reg equity) (\<lparr>ab_fills = [], ab_funding = []\<rparr>, s) events) (\<lambda>(applied, s1).
    and_then (ledger_step show_error (advance_fill_cursor (start_time_ms (ub_next_cursor fills)) s1)) (\<lambda>s2.
    and_then (ledger_step show_error (advance_funding_cursor (start_time_ms (fb_next_cursor funding)) s2)) (\<lambda>s3.
    and_then (ledger_step show_error (reconcile_equity equity s3)) (\<lambda>s4.
    and_then (ledger_step show_error (case save of None \<Rightarrow> Ok () | Some e \<Rightarrow> Err e)) (\<lambda>_.
    Ok (applied, s4))))))))"


section \<open>One event\<close>

text \<open>An event of the batch is in the ledger.\<close>

fun in_ledger :: "(bytes \<Rightarrow> bytes) \<Rightarrow> submission_registry \<Rightarrow> rat \<Rightarrow> live_trading_state \<Rightarrow> exchange_event \<Rightarrow> bool" where
  "in_ledger H reg equity s (EventFill f) = (\<exists>i st v. bget (submissions reg) (hex_bytes (uf_cloid f)) = Some (i, st)
     \<and> verified_fill_of f i equity = Ok v \<and> validate_fill v = Ok () \<and> records_fill v s)"
| "in_ledger H reg equity s (EventFunding e) =
     (fr_asset e \<noteq> [] \<and> records_funding (verified_funding_of H e) s)"

lemma in_ledger_mono:
  assumes "in_ledger H reg equity s ev" "set (verified_fills s) \<subseteq> set (verified_fills t)"
    "set (verified_fundings s) \<subseteq> set (verified_fundings t)" "live_ok t"
  shows "in_ledger H reg equity t ev"
  using assms by (cases ev) (auto simp: records_fill_def records_funding_def)

lemma verified_fill_fields:
  assumes "verified_fill_of f i equity = Ok v"
  shows "vf_occurred_at v = uf_occurred_at f \<and> vf_quantity v = uf_quantity f \<and> vf_price v = uf_price f
    \<and> vf_asset v = uf_asset f \<and> uf_asset f = ei_asset i \<and> vf_equity_after v = equity
    \<and> vf_identity v = ExchangeFillIdentity (uf_order_id f) (uf_trade_id f) (uf_cloid f)
    \<and> vf_side v = (if ei_is_buy i then Buy else Sell) \<and> uf_side f = expected_side i"
  using assms by (auto simp: verified_fill_of_def outcome_simps)

lemma apply_fill_appends:
  assumes "apply_exchange_fill A H v s = Ok (r, s')"
  shows "verified_fundings s' = verified_fundings s
    \<and> (case r of AppliedFill _ _ \<Rightarrow> verified_fills s' = verified_fills s @ [v] | FillAlreadyApplied \<Rightarrow> s' = s)"
  using assms
proof (cases rule: apply_fill_state)
  case new
  from apply_fill_new [OF assms new] obtain l2 g ep s1 acc where
    s1: "record_closed A ep (s\<lparr>ledger := l2, exchange_gross_pnl := g\<rparr>) = Ok s1" and r: "r = AppliedFill acc ep"
    and s': "s' = s1\<lparr>lt_current_equity := vf_equity_after v,
       lt_deployment_equity := min (vf_equity_after v) (settled_equity s1),
       applied_fills := binsert (vf_identity v) () (applied_fills s1),
       fill_events := fill_events s1 @ [acc], verified_fills := verified_fills s1 @ [v]\<rparr>"
    by blast
  from record_closed_fields [OF s1] r show ?thesis by (auto simp: s')
qed simp

lemma apply_funding_appends:
  assumes "apply_funding_event A v s = Ok (r, s')"
  shows "verified_fills s' = verified_fills s
    \<and> (case r of AppliedFunding _ \<Rightarrow> verified_fundings s' = verified_fundings s @ [v] | FundingAlreadyApplied \<Rightarrow> s' = s)"
  using assms by (auto simp: apply_funding_event_def outcome_simps Let_def split: if_splits)

lemma apply_event_Ok:
  assumes "apply_event A H show_error reg equity (ap, s) ev = Ok (ap', s')" and "live_ok s"
  obtains xs ys where "ab_fills ap' = ab_fills ap @ xs" "verified_fills s' = verified_fills s @ xs"
    "ab_funding ap' = ab_funding ap @ ys" "verified_fundings s' = verified_fundings s @ ys"
    "set (map vf_occurred_at xs) \<subseteq> {event_time ev}" "set (map fe_occurred_at ys) \<subseteq> {event_time ev}"
    "length xs \<le> 1" "length ys \<le> 1" "live_ok s'" "in_ledger H reg equity s' ev"
proof (cases ev)
  case (EventFill f)
  from assms(1) obtain i st v r where v: "bget (submissions reg) (hex_bytes (uf_cloid f)) = Some (i, st)"
      "verified_fill_of f i equity = Ok v" "apply_exchange_fill A H v s = Ok (r, s')"
    and ap: "ap' = (case r of AppliedFill _ _ \<Rightarrow> ap\<lparr>ab_fills := ab_fills ap @ [v]\<rparr> | FillAlreadyApplied \<Rightarrow> ap)"
    unfolding EventFill apply_event_def ledger_step_def exchange_event.case fst_conv snd_conv
    by (auto simp: outcome_simps)
  have rec: "records_fill v s' \<and> validate_fill v = Ok ()" using apply_fill_records [OF v(3) assms(2)] .
  then have il: "in_ledger H reg equity s' ev" using v by (auto simp: EventFill)
  have t: "vf_occurred_at v = event_time ev"
    using verified_fill_fields [OF v(2)] by (simp add: EventFill event_time_def)
  have ok: "live_ok s'" using rec by (simp add: records_fill_def)
  show ?thesis
  proof (cases r)
    case (AppliedFill acc ep)
    show ?thesis by (rule that [of "[v]" "[]"])
      (use apply_fill_appends [OF v(3)] il t ok in \<open>simp_all add: AppliedFill ap\<close>)
  next
    case FillAlreadyApplied
    show ?thesis by (rule that [of "[]" "[]"])
      (use apply_fill_appends [OF v(3)] il t ok in \<open>simp_all add: FillAlreadyApplied ap\<close>)
  qed
next
  case (EventFunding e)
  let ?v = "verified_funding_of H e"
  from assms(1) obtain r where v: "apply_funding_event A ?v s = Ok (r, s')"
    and ap: "ap' = (case r of AppliedFunding _ \<Rightarrow> ap\<lparr>ab_funding := ab_funding ap @ [?v]\<rparr> | FundingAlreadyApplied \<Rightarrow> ap)"
    unfolding EventFunding apply_event_def ledger_step_def Let_def exchange_event.case fst_conv snd_conv
    by (auto simp: outcome_simps)
  have rec: "records_funding ?v s' \<and> fe_asset ?v \<noteq> []" using apply_funding_records [OF v assms(2)] .
  then have il: "in_ledger H reg equity s' ev" by (simp add: EventFunding verified_funding_of_def)
  have t: "fe_occurred_at ?v = event_time ev" by (simp add: EventFunding event_time_def verified_funding_of_def)
  have ok: "live_ok s'" using rec by (simp add: records_funding_def)
  show ?thesis
  proof (cases r)
    case (AppliedFunding acc)
    show ?thesis by (rule that [of "[]" "[?v]"])
      (use apply_funding_appends [OF v] il t ok in \<open>simp_all add: AppliedFunding ap\<close>)
  next
    case FundingAlreadyApplied
    show ?thesis by (rule that [of "[]" "[]"])
      (use apply_funding_appends [OF v] il t ok in \<open>simp_all add: FundingAlreadyApplied ap\<close>)
  qed
qed

lemma apply_event_again:
  assumes "in_ledger H reg equity s ev"
  shows "apply_event A H show_error reg equity (ap, s) ev = Ok (ap, s)"
proof (cases ev)
  case (EventFill f)
  with assms obtain i st v where "bget (submissions reg) (hex_bytes (uf_cloid f)) = Some (i, st)"
    "verified_fill_of f i equity = Ok v" "validate_fill v = Ok ()" "records_fill v s" by auto
  then show ?thesis by (simp add: EventFill apply_event_def recorded_fill_is_applied ledger_step_def)
next
  case (EventFunding e)
  with assms have "records_funding (verified_funding_of H e) s" "fe_asset (verified_funding_of H e) \<noteq> []"
    by (simp_all add: verified_funding_of_def)
  then show ?thesis by (simp add: EventFunding apply_event_def recorded_funding_is_applied ledger_step_def)
qed

lemma apply_events_again:
  "\<forall>ev \<in> set evs. in_ledger H reg equity s ev \<Longrightarrow>
     try_fold (apply_event A H show_error reg equity) (ap, s) evs = Ok (ap, s)"
  by (induction evs) (simp_all add: apply_event_again)

section \<open>Batches\<close>

lemma sorted_short: "length xs \<le> 1 \<Longrightarrow> sorted xs"
  by (cases xs) auto

lemma apply_events_Ok:
  assumes "try_fold (apply_event A H show_error reg equity) (ap, s) evs = Ok (ap', s')" and "live_ok s"
    and "sorted (map event_time evs)"
  shows "\<exists>xs ys. ab_fills ap' = ab_fills ap @ xs \<and> verified_fills s' = verified_fills s @ xs
    \<and> ab_funding ap' = ab_funding ap @ ys \<and> verified_fundings s' = verified_fundings s @ ys
    \<and> set (map vf_occurred_at xs) \<subseteq> event_time ` set evs \<and> set (map fe_occurred_at ys) \<subseteq> event_time ` set evs
    \<and> sorted (map vf_occurred_at xs) \<and> sorted (map fe_occurred_at ys) \<and> live_ok s'
    \<and> (\<forall>ev \<in> set evs. in_ledger H reg equity s' ev)"
  using assms
proof (induction evs arbitrary: ap s)
  case (Cons ev evs)
  obtain ap1 s1 where one: "apply_event A H show_error reg equity (ap, s) ev = Ok (ap1, s1)"
    and more: "try_fold (apply_event A H show_error reg equity) (ap1, s1) evs = Ok (ap', s')"
    using Cons.prems(1) by (auto simp: outcome_simps)
  obtain xs ys where E: "ab_fills ap1 = ab_fills ap @ xs" "verified_fills s1 = verified_fills s @ xs"
    "ab_funding ap1 = ab_funding ap @ ys" "verified_fundings s1 = verified_fundings s @ ys"
    "set (map vf_occurred_at xs) \<subseteq> {event_time ev}" "set (map fe_occurred_at ys) \<subseteq> {event_time ev}"
    "length xs \<le> 1" "length ys \<le> 1" "live_ok s1" "in_ledger H reg equity s1 ev"
    using apply_event_Ok [OF one Cons.prems(2)] .
  have "sorted (map event_time evs)" and later: "\<forall>e \<in> set evs. event_time ev \<le> event_time e"
    using Cons.prems(3) by auto
  from Cons.IH [OF more E(9) this(1)] obtain xs' ys' where R:
    "ab_fills ap' = ab_fills ap1 @ xs'" "verified_fills s' = verified_fills s1 @ xs'"
    "ab_funding ap' = ab_funding ap1 @ ys'" "verified_fundings s' = verified_fundings s1 @ ys'"
    "set (map vf_occurred_at xs') \<subseteq> event_time ` set evs" "set (map fe_occurred_at ys') \<subseteq> event_time ` set evs"
    "sorted (map vf_occurred_at xs')" "sorted (map fe_occurred_at ys')" "live_ok s'"
    "\<forall>e \<in> set evs. in_ledger H reg equity s' e" by blast
  have "in_ledger H reg equity s' ev"
    by (rule in_ledger_mono [OF E(10) _ _ R(9)]) (simp_all add: R(2,4))
  moreover have "sorted (map vf_occurred_at (xs @ xs'))" "sorted (map fe_occurred_at (ys @ ys'))"
    using E(5-8) R(5-8) later by (fastforce simp: sorted_append sorted_short)+
  moreover have "set (map vf_occurred_at (xs @ xs')) \<subseteq> event_time ` set (ev # evs)"
    "set (map fe_occurred_at (ys @ ys')) \<subseteq> event_time ` set (ev # evs)"
    using E(5,6) R(5,6) by auto
  ultimately show ?case using E(1-4) R(1-4,9,10)
    by (intro exI [of _ "xs @ xs'"] exI [of _ "ys @ ys'"]) simp
qed auto

lemma sorted_batch: "sorted (map event_time (batch_events fills funding))"
proof -
  have "sorted (map event_key (batch_events fills funding))"
    unfolding batch_events_def by (rule sorted_sort_by)
  then show ?thesis
    by (simp add: sorted_wrt_map event_time_def [abs_def] comp_def)
      (erule sorted_wrt_mono_rel [rotated], auto simp: less_eq_prod_def)
qed

lemma set_batch: "set (batch_events fills funding) = EventFill ` set fills \<union> EventFunding ` set funding"
  by (simp add: batch_events_def)

lemma batches_Ok:
  assumes "apply_authenticated_batches A H show_error reg fills funding equity save s = Ok (applied, s')"
  obtains s1 where "\<not> ambiguous_windows (batch_events (ub_fills fills) (fb_events funding))"
    "try_fold (apply_event A H show_error reg equity) (\<lparr>ab_fills = [], ab_funding = []\<rparr>, s)
       (batch_events (ub_fills fills) (fb_events funding)) = Ok (applied, s1)"
    "lt_fill_cursor s1 \<le> start_time_ms (ub_next_cursor fills)"
    "lt_funding_cursor s1 \<le> start_time_ms (fb_next_cursor funding)" "0 < equity" "save = None"
    "s' = s1\<lparr>lt_fill_cursor := start_time_ms (ub_next_cursor fills),
       lt_funding_cursor := start_time_ms (fb_next_cursor funding), lt_current_equity := equity,
       lt_deployment_equity := min equity (settled_equity s1)\<rparr>"
  using assms unfolding apply_authenticated_batches_def Let_def ledger_step_def
  by (cases save) (auto simp: outcome_simps advance_fill_cursor_def advance_funding_cursor_def reconcile_equity_def)

lemma batch_state_ok:
  assumes "live_ok s1" "0 < equity"
  shows "live_ok (s1\<lparr>lt_fill_cursor := c, lt_funding_cursor := d, lt_current_equity := equity,
       lt_deployment_equity := min equity (settled_equity s1)\<rparr>)"
  using assms by (simp add: live_ok_def)

lemma batch_state:
  assumes "apply_authenticated_batches A H show_error reg fills funding equity save s = Ok (applied, s')" and "live_ok s"
  shows "verified_fills s' = verified_fills s @ ab_fills applied" "sorted (map vf_occurred_at (ab_fills applied))"
    "verified_fundings s' = verified_fundings s @ ab_funding applied" "sorted (map fe_occurred_at (ab_funding applied))"
    "ev \<in> set (batch_events (ub_fills fills) (fb_events funding)) \<Longrightarrow> in_ledger H reg equity s' ev" "live_ok s'"
    "lt_current_equity s' = equity" "lt_fill_cursor s' = start_time_ms (ub_next_cursor fills)"
    "lt_funding_cursor s' = start_time_ms (fb_next_cursor funding)"
    "lt_deployment_equity s' = min equity (settled_equity s')" "0 < equity" "save = None"
    "\<not> ambiguous_windows (batch_events (ub_fills fills) (fb_events funding))"
proof -
  let ?evs = "batch_events (ub_fills fills) (fb_events funding)"
  obtain s1 where b: "\<not> ambiguous_windows ?evs"
    "try_fold (apply_event A H show_error reg equity) (\<lparr>ab_fills = [], ab_funding = []\<rparr>, s) ?evs = Ok (applied, s1)"
    "0 < equity" "save = None"
    and s': "s' = s1\<lparr>lt_fill_cursor := start_time_ms (ub_next_cursor fills),
       lt_funding_cursor := start_time_ms (fb_next_cursor funding), lt_current_equity := equity,
       lt_deployment_equity := min equity (settled_equity s1)\<rparr>"
    using batches_Ok [OF assms(1)] by metis
  from apply_events_Ok [OF b(2) assms(2) sorted_batch] obtain xs ys where
    E: "ab_fills applied = xs" "verified_fills s1 = verified_fills s @ xs" "ab_funding applied = ys"
      "verified_fundings s1 = verified_fundings s @ ys" "sorted (map vf_occurred_at xs)" "sorted (map fe_occurred_at ys)"
    and ok: "live_ok s1" and all: "\<forall>ev \<in> set ?evs. in_ledger H reg equity s1 ev" by auto
  show ok': "live_ok s'" unfolding s' by (rule batch_state_ok [OF ok b(3)])
  show "in_ledger H reg equity s' ev" if "ev \<in> set ?evs"
    by (rule in_ledger_mono [of H reg equity s1, OF _ _ _ ok']) (use all that in \<open>simp_all add: s'\<close>)
  show "verified_fills s' = verified_fills s @ ab_fills applied" "sorted (map vf_occurred_at (ab_fills applied))"
    "verified_fundings s' = verified_fundings s @ ab_funding applied" "sorted (map fe_occurred_at (ab_funding applied))"
    "lt_current_equity s' = equity" "lt_fill_cursor s' = start_time_ms (ub_next_cursor fills)"
    "lt_funding_cursor s' = start_time_ms (fb_next_cursor funding)" "lt_deployment_equity s' = min equity (settled_equity s')"
    using E by (simp_all add: s')
qed (use batches_Ok [OF assms(1)] in metis)+

text \<open>
  C25. A batch that is accepted is applied completely and in order: the ledger gains exactly the fills and
  funding events that are reported, in order of time; every event of the batch is then in the ledger,
  under the identity, quantity and price the exchange gave and with the side its intent has; the equity
  and both cursors are those of the batch, and the saved state passes the checks of a restart.
\<close>

theorem batch_is_applied_completely:
  assumes "new_live_state starting c0 = Ok s0" and "s = fold (live_exec A H) calls s0"
    and "apply_authenticated_batches A H show_error reg fills funding equity save s = Ok (applied, s')"
  shows "verified_fills s' = verified_fills s @ ab_fills applied \<and> sorted (map vf_occurred_at (ab_fills applied))
    \<and> verified_fundings s' = verified_fundings s @ ab_funding applied \<and> sorted (map fe_occurred_at (ab_funding applied))
    \<and> (\<forall>f \<in> set (ub_fills fills). \<exists>v \<in> set (verified_fills s').
         vf_identity v = ExchangeFillIdentity (uf_order_id f) (uf_trade_id f) (uf_cloid f)
         \<and> vf_quantity v = uf_quantity f \<and> vf_price v = uf_price f \<and> uf_side f = (if vf_side v = Buy then ''B'' else ''A''))
    \<and> (\<forall>e \<in> set (fb_events funding). \<exists>v \<in> set (verified_fundings s').
         fe_event_id v = funding_id H (fr_event_hash e) \<and> fe_amount v = fr_usdc_delta e)
    \<and> lt_current_equity s' = equity \<and> lt_fill_cursor s' = start_time_ms (ub_next_cursor fills)
    \<and> lt_funding_cursor s' = start_time_ms (fb_next_cursor funding) \<and> load_check s' = Ok s'"
proof -
  have ok: "live_ok s" unfolding assms(2) by (rule live.invar_run) (rule live_ok_new [OF assms(1)])
  note B = batch_state [OF assms(3) ok]
  note all = B(5)
  have "\<exists>v \<in> set (verified_fills s'). vf_identity v = ExchangeFillIdentity (uf_order_id f) (uf_trade_id f) (uf_cloid f)
         \<and> vf_quantity v = uf_quantity f \<and> vf_price v = uf_price f \<and> uf_side f = (if vf_side v = Buy then ''B'' else ''A'')"
    if "f \<in> set (ub_fills fills)" for f
    using all [of "EventFill f"] that
    by (auto simp: set_batch records_fill_def expected_side_def dest!: verified_fill_fields split: if_splits)
  moreover have "\<exists>v \<in> set (verified_fundings s'). fe_event_id v = funding_id H (fr_event_hash e) \<and> fe_amount v = fr_usdc_delta e"
    if "e \<in> set (fb_events funding)" for e
    using all [of "EventFunding e"] that
    by (auto simp: set_batch records_funding_def intro!: bexI [of _ "verified_funding_of H e"])
      (simp_all add: verified_funding_of_def)
  ultimately show ?thesis using B(1-4,7-9) live_ok_loads [OF B(6)] by blast
qed

text \<open>
  Delivering a batch again, in the same words and with the same equity, applies nothing and changes
  nothing.
\<close>

theorem batch_replay_changes_nothing:
  assumes "new_live_state starting c0 = Ok s0" and "s = fold (live_exec A H) calls s0"
    and "apply_authenticated_batches A H show_error reg fills funding equity save s = Ok (applied, s')"
  shows "apply_authenticated_batches A H show_error reg fills funding equity save s'
    = Ok (\<lparr>ab_fills = [], ab_funding = []\<rparr>, s')"
proof -
  have ok: "live_ok s" unfolding assms(2) by (rule live.invar_run) (rule live_ok_new [OF assms(1)])
  note B = batch_state [OF assms(3) ok]
  have "\<forall>ev \<in> set (batch_events (ub_fills fills) (fb_events funding)). in_ledger H reg equity s' ev"
    using B(5) by blast
  note again = apply_events_again [OF this, of A show_error "\<lparr>ab_fills = [], ab_funding = []\<rparr>"]
  have d: "min (lt_current_equity s') (settled_equity s') = lt_deployment_equity s'" using B(7,10) by simp
  have "s'\<lparr>lt_fill_cursor := start_time_ms (ub_next_cursor fills),
      lt_funding_cursor := start_time_ms (fb_next_cursor funding), lt_current_equity := equity,
      lt_deployment_equity := min equity (settled_equity s')\<rparr> = s'"
    unfolding B(7-9) [symmetric] by (simp add: d)
  with again B(11-13) show ?thesis
    by (simp add: apply_authenticated_batches_def Let_def ledger_step_def advance_fill_cursor_def
        advance_funding_cursor_def reconcile_equity_def B(8,9))
qed

text \<open>
  A fill that comes again with a later equity is not the fill that was recorded: the equity read with the
  batch is part of the record, so the application reports a conflict and nothing of the batch is applied.
\<close>

theorem redelivered_fill_conflicts:
  assumes "new_live_state starting c0 = Ok s0" and "s = fold (live_exec A H) calls s0"
    and "apply_authenticated_batches A H show_error reg fills funding equity save s = Ok (applied, s')"
    and "f \<in> set (ub_fills fills)" and "0 < equity'" "equity' \<noteq> equity"
    and "ub_fills fills' = [f]" "fb_events funding' = []"
  shows "apply_authenticated_batches A H show_error reg fills' funding' equity' save' s'
    = Err (Ledger (show_error (InvalidLiveEvent ''exchange fill identity payload conflict'')))"
proof -
  have ok: "live_ok s" unfolding assms(2) by (rule live.invar_run) (rule live_ok_new [OF assms(1)])
  have "EventFill f \<in> set (batch_events (ub_fills fills) (fb_events funding))" using assms(4) by (simp add: set_batch)
  from batch_state(5) [OF assms(3) ok this] obtain i st v where v:
    "bget (submissions reg) (hex_bytes (uf_cloid f)) = Some (i, st)" "verified_fill_of f i equity = Ok v"
    "validate_fill v = Ok ()" "records_fill v s'" by auto
  let ?w = "v\<lparr>vf_equity_after := equity'\<rparr>"
  have w: "verified_fill_of f i equity' = Ok ?w" using v(2) by (auto simp: verified_fill_of_def outcome_simps)
  have "vf_identity ?w = vf_identity v" "validate_fill ?w = Ok ()" using v(3) assms(5) by (simp_all add: validate_fill_def fail_if_Ok)
  moreover have "?w \<noteq> v" using verified_fill_fields [OF v(2)] assms(6) by (metis verified_fill.select_convs(20) verified_fill.surjective verified_fill.update_convs(20))
  ultimately have "apply_exchange_fill A H ?w s' = Err (InvalidLiveEvent ''exchange fill identity payload conflict'')"
    by (intro recorded_fill_conflicts [OF v(4)])
  with v(1) w assms(7,8) show ?thesis
    by (simp add: apply_authenticated_batches_def batch_events_def apply_event_def ledger_step_def)
qed

section \<open>Witnesses\<close>

definition sample_registry :: submission_registry where
  "sample_registry = \<lparr>submissions = binsert cloid_a (sample_intent (CHR ''a''), Acknowledged ''91'') bempty,
     unknown_assets = bempty, not_found_confirmations = bempty, maximum_submissions = 10, history = []\<rparr>"

definition sample_user_fill :: user_fill where
  "sample_user_fill = \<lparr>uf_cloid = replicate 16 170, uf_order_id = ''91'', uf_trade_id = ''1'', uf_asset = ''BTC'',
     uf_side = ''B'', uf_price = 100, uf_quantity = 1 / 20, uf_closed_pnl = 0, uf_fee = 0, uf_fee_token = ''USDC'',
     uf_crossed = True, uf_occurred_at = 200, uf_source_hash = [3]\<rparr>"

definition sample_fills :: user_fill_batch where
  "sample_fills = \<lparr>ub_fills = [sample_user_fill], ub_next_cursor = \<lparr>start_time_ms = 301, end_time_ms = Some 300\<rparr>,
     ub_source_hash = [3]\<rparr>"

definition sample_funding :: funding_batch where
  "sample_funding = \<lparr>fb_events = [\<lparr>fr_event_hash = ''x'', fr_asset = ''BTC'', fr_usdc_delta = - 1, fr_occurred_at = 250,
       fr_source_hash = [4]\<rparr>], fb_next_cursor = \<lparr>start_time_ms = 301, end_time_ms = Some 300\<rparr>, fb_source_hash = [4]\<rparr>"

definition sample_batch :: "live_trading_state \<Rightarrow> (applied_batch \<times> live_trading_state) signer" where
  "sample_batch s = apply_authenticated_batches exact_ops (\<lambda>b. b) (\<lambda>_. []) sample_registry sample_fills sample_funding
     999 None s"

definition sample_verified :: verified_fill where
  "sample_verified = \<lparr>vf_identity = ExchangeFillIdentity ''91'' ''1'' (replicate 16 170), vf_decision_id = replicate 32 170,
     vf_target_version = 1, vf_root_cloid = replicate 16 170, vf_parent_cloid = None, vf_generation = 0,
     vf_asset = ''BTC'', vf_side = Buy, vf_reduce_only = False, vf_quantity = 1 / 20, vf_price = 100, vf_limit_price = 100,
     vf_fee = 0, vf_closed_pnl = 0, vf_fee_asset = ''USDC'', vf_liquidity = Taker, vf_reference_price = 100,
     vf_occurred_at = 200, vf_decision_timestamp = 0, vf_equity_after = 999, vf_source_hash = [3]\<rparr>"

lemma sample_hex:
  "hex_bytes (replicate 16 170) = cloid_a" "decode_hex InvalidIntent 32 (replicate 64 (CHR ''a'')) = Ok (replicate 32 170)"
  "batch_decode_cloid cloid_a = Ok (replicate 16 170)"
  by code_simp+

lemma sample_verified_of: "verified_fill_of sample_user_fill (sample_intent (CHR ''a'')) 999 = Ok sample_verified"
proof -
  have "ei_decision_id (sample_intent (CHR ''a'')) = replicate 64 (CHR ''a'')" "ei_root_cloid (sample_intent (CHR ''a'')) = cloid_a"
    by (simp_all add: sample_intent_def cloid_a_def)
  note S = this sample_hex
  show ?thesis unfolding verified_fill_of_def S
    by (simp add: sample_user_fill_def sample_intent_def expected_side_def scaled_value_def sample_verified_def)
qed

lemma sample_representable: "representable (1 / 20)" "representable (- (1 / 20))" "representable 5"
  by code_simp+

lemma sample_fill_applies:
  "\<exists>s0 r s1 q s2. new_live_state 1000 5 = Ok s0 \<and> lt_fill_cursor s0 = 5 \<and> lt_funding_cursor s0 = 5
     \<and> apply_exchange_fill exact_ops (\<lambda>b. b) sample_verified s0 = Ok (r, s1)
     \<and> apply_funding_event exact_ops (verified_funding_of (\<lambda>b. b) (hd (fb_events sample_funding))) s1 = Ok (q, s2)
     \<and> lt_fill_cursor s2 = 5 \<and> lt_funding_cursor s2 = 5"
  by (simp add: new_live_state_def fail_if_def apply_exchange_fill_def validate_fill_def sample_verified_def
      default_ledger_def apply_portfolio_execution_def portfolio_position_def on_ledger_def
      act_bind_def act_zoom_def apply_reporting_def apply_execution_def empty_book_def Let_def fill_execution_def
      execution_asset_def signed_quantity_of_def ledger_overflow_def exact_ops_eval sample_representable
      add_same_direction_def open_new_def add_costs_def act_assign_def add_fraction_def act_local_def
      put_open_def put_portfolio_def settle_close_def record_closed_def portfolio_closed_def
      apply_funding_event_def verified_funding_of_def sample_funding_def apply_portfolio_funding_def act_entry_def)

lemma sample_batch_runs: "\<exists>s applied s'. new_live_state 1000 5 = Ok s \<and> sample_batch s = Ok (applied, s')"
proof -
  obtain s0 r s1 q s2 where s: "new_live_state 1000 5 = Ok s0"
    "apply_exchange_fill exact_ops (\<lambda>b. b) sample_verified s0 = Ok (r, s1)"
    "apply_funding_event exact_ops (verified_funding_of (\<lambda>b. b) (hd (fb_events sample_funding))) s1 = Ok (q, s2)"
    "lt_fill_cursor s2 = 5" "lt_funding_cursor s2 = 5"
    using sample_fill_applies by blast
  have ev: "batch_events [sample_user_fill] (fb_events sample_funding)
      = [EventFill sample_user_fill, EventFunding (hd (fb_events sample_funding))]"
    by (simp add: batch_events_def sample_funding_def sample_user_fill_def cmp_def less_prod_def)
  have na: "ambiguous_windows [EventFill sample_user_fill, EventFunding (hd (fb_events sample_funding))] = False"
    by (simp add: ambiguous_pair_def event_time_def sample_user_fill_def sample_funding_def)
  have "bget (submissions sample_registry) (hex_bytes (uf_cloid sample_user_fill)) = Some (sample_intent (CHR ''a''), Acknowledged ''91'')"
    by (simp add: sample_registry_def sample_user_fill_def sample_hex(1))
  then have "\<exists>applied s'. sample_batch s0 = Ok (applied, s')"
    using s(2-5) unfolding sample_batch_def apply_authenticated_batches_def sample_fills_def user_fill_batch.simps ev
      Let_def na by (simp add: apply_event_def sample_verified_of ledger_step_def
        advance_fill_cursor_def advance_funding_cursor_def reconcile_equity_def Let_def)
      (simp add: sample_funding_def)
  with s(1) show ?thesis by blast
qed

lemma batch_is_applied_completely_witness:
  "\<exists>s applied s'. new_live_state 1000 5 = Ok s \<and> sample_batch s = Ok (applied, s')
     \<and> (\<exists>v \<in> set (verified_fills s'). vf_quantity v = 1 / 20)"
proof -
  obtain s applied s' where s: "new_live_state 1000 5 = Ok s" "sample_batch s = Ok (applied, s')"
    using sample_batch_runs by blast
  from batch_is_applied_completely [OF s(1) _ s(2) [unfolded sample_batch_def], of "[]"] s show ?thesis
    by (fastforce simp: sample_fills_def sample_user_fill_def)
qed

lemma batch_replay_changes_nothing_witness:
  "\<exists>s applied s'. new_live_state 1000 5 = Ok s \<and> sample_batch s = Ok (applied, s')
     \<and> sample_batch s' = Ok (\<lparr>ab_fills = [], ab_funding = []\<rparr>, s')"
proof -
  obtain s applied s' where s: "new_live_state 1000 5 = Ok s" "sample_batch s = Ok (applied, s')"
    using sample_batch_runs by blast
  from batch_replay_changes_nothing [OF s(1) _ s(2) [unfolded sample_batch_def], of "[]"] s show ?thesis
    by (auto simp: sample_batch_def)
qed

lemma redelivered_fill_conflicts_witness:
  "\<exists>s applied s'. new_live_state 1000 5 = Ok s \<and> sample_batch s = Ok (applied, s')
     \<and> apply_authenticated_batches exact_ops (\<lambda>b. b) (\<lambda>_. []) sample_registry sample_fills (sample_funding\<lparr>fb_events := []\<rparr>)
         998 None s' = Err (Ledger [])"
proof -
  obtain s applied s' where s: "new_live_state 1000 5 = Ok s" "sample_batch s = Ok (applied, s')"
    using sample_batch_runs by blast
  from redelivered_fill_conflicts [OF s(1) _ s(2) [unfolded sample_batch_def], where calls = "[]"
      and f = sample_user_fill and equity' = 998 and fills' = sample_fills and funding' = "sample_funding\<lparr>fb_events := []\<rparr>"
      and save' = None] s
  show ?thesis by (fastforce simp: sample_fills_def)
qed

end
