(* ===== verification/Outbox.thy ===== *)
theory Outbox
  imports Ipc
begin

text \<open>
  The signer's durable outbox (\<open>copytrade-signer/src/outbox.rs\<close>): events with consecutive sequence
  numbers, appended once per source key, replayed to the observer and acknowledged by it. MessagePack and
  SHA-256 are the parameters \<open>enc\<close> and \<open>H\<close>, the text of an error is \<open>show_ipc\<close>; file access and JSON are outside: \<open>outbox_load_check\<close> is what
  \<open>load\<close> does with the decoded outbox.
\<close>

definition OUTBOX_SCHEMA_VERSION :: nat where "OUTBOX_SCHEMA_VERSION = 1"

record outbox =
  ob_schema_version :: nat
  ob_signer :: bytes
  ob_next_sequence :: nat
  ob_acknowledged :: nat
  ob_source_keys :: "string bset"
  ob_events :: "reconciliation_event list"
  ob_maximum :: nat

type_synonym 'a outbox_result = "('a, string) outcome"

definition new_outbox :: "bytes \<Rightarrow> nat \<Rightarrow> outbox outbox_result" where
  "new_outbox signer n = and_then (fail_if (n = 0) ''outbox capacity must be nonzero'') (\<lambda>_.
     Ok \<lparr>ob_schema_version = OUTBOX_SCHEMA_VERSION, ob_signer = signer, ob_next_sequence = 1, ob_acknowledged = 0,
         ob_source_keys = bempty, ob_events = [], ob_maximum = n\<rparr>)"

text \<open>\<open>append_once\<close> returns with the outbox it leaves: the next sequence is taken before the payload is hashed.\<close>

definition append_once ::
  "(reconciliation_payload \<Rightarrow> (bytes, string) outcome) \<Rightarrow> (bytes \<Rightarrow> bytes) \<Rightarrow> (ipc_error \<Rightarrow> string)
     \<Rightarrow> string \<Rightarrow> reconciliation_payload
     \<Rightarrow> outbox \<Rightarrow> nat option outbox_result \<times> outbox" where
  "append_once enc H show_ipc source_key payload ob =
    (if bhas (ob_source_keys ob) source_key then (Ok None, ob)
     else if ob_maximum ob \<le> length (ob_events ob) then (Err ''reconciliation outbox capacity exhausted'', ob)
     else let sequence = ob_next_sequence ob in
       (case checked_add_nat 64 sequence 1 of
          None \<Rightarrow> (Err ''reconciliation sequence overflow'', ob)
        | Some following \<Rightarrow>
            let ob = ob\<lparr>ob_next_sequence := following\<rparr> in
            (case canonical_payload_hash enc H payload of
               Ok h \<Rightarrow>
                 (Ok (Some sequence),
                  ob\<lparr>ob_events := ob_events ob @ [\<lparr>re_identity = \<lparr>ev_signer = ob_signer ob, ev_sequence = sequence, ev_hash = h\<rparr>,
                       re_payload = payload\<rparr>],
                     ob_source_keys := binsert source_key () (ob_source_keys ob)\<rparr>)
             | Err e \<Rightarrow> (Err (show_ipc e), ob)
             | Panic \<Rightarrow> (Panic, ob))))"

definition events_after :: "nat \<Rightarrow> outbox \<Rightarrow> reconciliation_event list" where
  "events_after sequence ob = filter (\<lambda>e. sequence < ev_sequence (re_identity e)) (ob_events ob)"

definition acknowledge :: "nat \<Rightarrow> outbox \<Rightarrow> outbox outbox_result" where
  "acknowledge sequence ob =
    and_then (fail_if (sequence < ob_acknowledged ob \<or> saturating_sub (ob_next_sequence ob) 1 < sequence)
      ''invalid reconciliation acknowledgment'') (\<lambda>_. Ok (ob\<lparr>ob_acknowledged := sequence\<rparr>))"

definition highest_sequence :: "outbox \<Rightarrow> nat" where
  "highest_sequence ob = saturating_sub (ob_next_sequence ob) 1"

definition event_check ::
  "(reconciliation_payload \<Rightarrow> (bytes, string) outcome) \<Rightarrow> (bytes \<Rightarrow> bytes) \<Rightarrow> nat \<times> reconciliation_event \<Rightarrow> bool" where
  "event_check enc H e = (ev_sequence (re_identity (snd e)) = fst e + 1
     \<and> canonical_payload_hash enc H (re_payload (snd e)) = Ok (ev_hash (re_identity (snd e))))"

definition outbox_load_check ::
  "(reconciliation_payload \<Rightarrow> (bytes, string) outcome) \<Rightarrow> (bytes \<Rightarrow> bytes) \<Rightarrow> outbox \<Rightarrow> outbox outbox_result" where
  "outbox_load_check enc H ob =
    and_then (fail_if (ob_schema_version ob \<noteq> OUTBOX_SCHEMA_VERSION \<or> ob_maximum ob = 0
        \<or> ob_maximum ob < length (ob_events ob) \<or> \<not> list_all (event_check enc H) (enumerate 0 (ob_events ob)))
      ''invalid reconciliation outbox'') (\<lambda>_. Ok ob)"

section \<open>Runs\<close>

datatype outbox_op = Append string reconciliation_payload | Acknowledge nat

fun outbox_exec ::
  "(reconciliation_payload \<Rightarrow> (bytes, string) outcome) \<Rightarrow> (bytes \<Rightarrow> bytes) \<Rightarrow> (ipc_error \<Rightarrow> string)
     \<Rightarrow> outbox_op \<Rightarrow> outbox \<Rightarrow> outbox" where
  "outbox_exec enc H show_ipc (Append k p) ob = snd (append_once enc H show_ipc k p ob)"
| "outbox_exec enc H show_ipc (Acknowledge n) ob = (case acknowledge n ob of Ok ob' \<Rightarrow> ob' | _ \<Rightarrow> ob)"

text \<open>
  What the outbox guarantees when every payload can be encoded: consecutive numbers from one on, the
  right hashes, and a key for every event. \<open>outbox_of\<close> is the invariant with the capacity and the
  signer it was made for.
\<close>

definition outbox_ok ::
  "(reconciliation_payload \<Rightarrow> (bytes, string) outcome) \<Rightarrow> (bytes \<Rightarrow> bytes) \<Rightarrow> bytes \<Rightarrow> nat \<Rightarrow> outbox \<Rightarrow> bool" where
  "outbox_ok enc H signer n ob = (ob_schema_version ob = 1 \<and> ob_maximum ob = n \<and> 0 < n \<and> ob_signer ob = signer
     \<and> length (ob_events ob) \<le> n \<and> ob_next_sequence ob = length (ob_events ob) + 1
     \<and> map (\<lambda>e. ev_sequence (re_identity e)) (ob_events ob) = [1..<length (ob_events ob) + 1]
     \<and> (\<forall>e \<in> set (ob_events ob). ev_signer (re_identity e) = signer
          \<and> canonical_payload_hash enc H (re_payload e) = Ok (ev_hash (re_identity e)))
     \<and> ob_acknowledged ob \<le> length (ob_events ob) \<and> bsize (ob_source_keys ob) = length (ob_events ob))"

lemma append_cases:
  obtains (known) "bhas (ob_source_keys ob) k" "append_once enc H show_ipc k p ob = (Ok None, ob)"
  | (full) "\<not> bhas (ob_source_keys ob) k" "ob_maximum ob \<le> length (ob_events ob)" "snd (append_once enc H show_ipc k p ob) = ob"
      "\<not> is_ok (fst (append_once enc H show_ipc k p ob))"
  | (overflow) "2 ^ 64 \<le> ob_next_sequence ob + 1" "snd (append_once enc H show_ipc k p ob) = ob"
      "\<not> is_ok (fst (append_once enc H show_ipc k p ob))"
  | (unencodable) "\<not> is_ok (enc p)" "snd (append_once enc H show_ipc k p ob) = ob\<lparr>ob_next_sequence := ob_next_sequence ob + 1\<rparr>"
      "\<not> is_ok (fst (append_once enc H show_ipc k p ob))"
  | (appended) h where "\<not> bhas (ob_source_keys ob) k" "length (ob_events ob) < ob_maximum ob"
      "canonical_payload_hash enc H p = Ok h"
      "append_once enc H show_ipc k p ob = (Ok (Some (ob_next_sequence ob)), ob\<lparr>ob_next_sequence := ob_next_sequence ob + 1,
         ob_events := ob_events ob @ [\<lparr>re_identity = \<lparr>ev_signer = ob_signer ob, ev_sequence = ob_next_sequence ob, ev_hash = h\<rparr>,
           re_payload = p\<rparr>], ob_source_keys := binsert k () (ob_source_keys ob)\<rparr>)"
proof (cases "bhas (ob_source_keys ob) k")
  case True
  then show ?thesis by (intro known) (simp_all add: append_once_def)
next
  case new: False
  show ?thesis
  proof (cases "ob_maximum ob \<le> length (ob_events ob)")
    case True
    with new show ?thesis by (intro full) (simp_all add: append_once_def)
  next
    case room: False
    show ?thesis
    proof (cases "ob_next_sequence ob + 1 < 2 ^ 64")
      case False
      then show ?thesis using new room by (intro overflow) (simp_all add: append_once_def checked_add_nat_def)
    next
      case fits: True
      show ?thesis
      proof (cases "enc p")
        case (Ok b)
        with new room fits show ?thesis
          by (intro appended [of "H b"]) (simp_all add: append_once_def checked_add_nat_def canonical_payload_hash_def Let_def)
      qed (use new room fits in \<open>intro unencodable; simp_all add: append_once_def checked_add_nat_def canonical_payload_hash_def Let_def\<close>)+
    qed
  qed
qed

lemma outbox_ok_exec:
  assumes "outbox_ok enc H signer n ob" and "\<And>p. is_ok (enc p)"
  shows "outbox_ok enc H signer n (outbox_exec enc H show_ipc op ob)"
proof (cases op)
  case (Append k p)
  show ?thesis
  proof (cases rule: append_cases [of ob k enc H show_ipc p])
    case (appended h)
    then have "snd (append_once enc H show_ipc k p ob) = ob\<lparr>ob_next_sequence := ob_next_sequence ob + 1,
         ob_events := ob_events ob @ [\<lparr>re_identity = \<lparr>ev_signer = ob_signer ob, ev_sequence = ob_next_sequence ob, ev_hash = h\<rparr>,
           re_payload = p\<rparr>], ob_source_keys := binsert k () (ob_source_keys ob)\<rparr>" by simp
    with appended(1-3) assms(1) show ?thesis
      by (auto simp: Append outbox_ok_def bsize_insert_new simp del: upt_Suc) (simp_all add: upt_Suc_append)
  qed (use assms in \<open>auto simp: Append\<close>)
next
  case (Acknowledge m)
  with assms(1) show ?thesis
    by (cases "acknowledge m ob") (auto simp: acknowledge_def outcome_simps outbox_ok_def saturating_sub_def)
qed

lemma outbox_ok_new: "new_outbox signer n = Ok ob \<Longrightarrow> outbox_ok enc H signer n ob"
  by (auto simp: new_outbox_def outcome_simps outbox_ok_def OUTBOX_SCHEMA_VERSION_def)

definition total_codec :: "(reconciliation_payload \<Rightarrow> (bytes, string) outcome) \<Rightarrow> bool" where
  "total_codec enc = (\<forall>p. is_ok (enc p))"

definition outbox_inv ::
  "(reconciliation_payload \<Rightarrow> (bytes, string) outcome) \<Rightarrow> (bytes \<Rightarrow> bytes) \<Rightarrow> bytes \<Rightarrow> nat \<Rightarrow> outbox \<Rightarrow> bool" where
  "outbox_inv enc H signer n ob = (total_codec enc \<and> outbox_ok enc H signer n ob)"

interpretation outbox: ranked_machine "outbox_exec enc H show_ipc" "outbox_inv enc H signer n" "\<lambda>ob. length (ob_events ob)"
  for enc H show_ipc signer n
proof
  fix ob op
  assume "outbox_inv enc H signer n ob"
  then have "outbox_ok enc H signer n ob" "\<And>p. is_ok (enc p)" by (auto simp: outbox_inv_def total_codec_def)
  then show "outbox_inv enc H signer n (outbox_exec enc H show_ipc op ob)"
    using outbox_ok_exec by (auto simp: outbox_inv_def total_codec_def)
  show "length (ob_events ob) \<le> length (ob_events (outbox_exec enc H show_ipc op ob))"
  proof (cases op)
    case (Append k p)
    then show ?thesis by (cases rule: append_cases [of ob k enc H show_ipc p]) auto
  qed (auto simp: acknowledge_def fail_if_def)
qed

text \<open>What is in the outbox stays where it is, and a key that is in stays in.\<close>

lemma outbox_exec_extends:
  "\<exists>es. ob_events (outbox_exec enc H show_ipc op ob) = ob_events ob @ es"
  "bhas (ob_source_keys ob) k \<Longrightarrow> bhas (ob_source_keys (outbox_exec enc H show_ipc op ob)) k"
proof -
  have "(\<exists>es. ob_events (outbox_exec enc H show_ipc op ob) = ob_events ob @ es)
    \<and> (bhas (ob_source_keys ob) k \<longrightarrow> bhas (ob_source_keys (outbox_exec enc H show_ipc op ob)) k)"
  proof (cases op)
    case (Append j p)
    then show ?thesis by (cases rule: append_cases [of ob j enc H show_ipc p]) auto
  qed (auto simp: acknowledge_def fail_if_def)
  then show "\<exists>es. ob_events (outbox_exec enc H show_ipc op ob) = ob_events ob @ es"
    "bhas (ob_source_keys ob) k \<Longrightarrow> bhas (ob_source_keys (outbox_exec enc H show_ipc op ob)) k" by blast+
qed

lemma outbox_run_extends:
  "(\<exists>es. ob_events (fold (outbox_exec enc H show_ipc) ops ob) = ob_events ob @ es)
    \<and> (bhas (ob_source_keys ob) k \<longrightarrow> bhas (ob_source_keys (fold (outbox_exec enc H show_ipc) ops ob)) k)"
proof (induction ops arbitrary: ob)
  case (Cons op ops)
  from outbox_exec_extends(1) [of enc H show_ipc op ob] Cons [of "outbox_exec enc H show_ipc op ob"]
    outbox_exec_extends(2) [of ob k enc H show_ipc op]
  show ?case by auto
qed simp

lemma filter_upt_drop: "k \<le> length xs \<Longrightarrow> map f xs = [1..<length xs + 1] \<Longrightarrow> filter (\<lambda>x. k < f x) xs = drop k xs"
proof -
  assume k: "k \<le> length xs" and m: "map f xs = [1..<length xs + 1]"
  have nth: "f (xs ! i) = i + 1" if "i < length xs" for i
    using arg_cong [OF m, of "\<lambda>l. l ! i"] that by (simp del: upt_Suc)
  have "filter (\<lambda>x. k < f x) (take k xs) = []"
    by (auto simp: filter_empty_conv in_set_conv_nth nth)
  moreover have "filter (\<lambda>x. k < f x) (drop k xs) = drop k xs"
    using k by (auto simp: filter_id_conv in_set_conv_nth nth)
  ultimately show ?thesis by (metis append_take_drop_id filter_append self_append_conv2)
qed

lemma outbox_ok_facts:
  assumes "outbox_ok enc H signer n ob"
  shows "k \<le> length (ob_events ob) \<Longrightarrow> events_after k ob = drop k (ob_events ob)"
    "outbox_load_check enc H ob = Ok ob" "highest_sequence ob = length (ob_events ob)"
proof -
  have m: "map (\<lambda>e. ev_sequence (re_identity e)) (ob_events ob) = [1..<length (ob_events ob) + 1]"
    using assms by (simp add: outbox_ok_def)
  show "k \<le> length (ob_events ob) \<Longrightarrow> events_after k ob = drop k (ob_events ob)"
    unfolding events_after_def using m by (rule filter_upt_drop [rotated])
  have nth: "ev_sequence (re_identity (ob_events ob ! i)) = i + 1" if "i < length (ob_events ob)" for i
    using arg_cong [OF m, of "\<lambda>l. l ! i"] that by (simp del: upt_Suc)
  have "list_all (event_check enc H) (enumerate 0 (ob_events ob))"
    using assms nth by (auto simp: list_all_length nth_enumerate_eq event_check_def outbox_ok_def)
  then show "outbox_load_check enc H ob = Ok ob"
    using assms by (simp add: outbox_load_check_def outbox_ok_def OUTBOX_SCHEMA_VERSION_def fail_if_def)
  show "highest_sequence ob = length (ob_events ob)"
    using assms by (simp add: highest_sequence_def saturating_sub_def outbox_ok_def)
qed

section \<open>Properties\<close>

text \<open>
  C33. Replay is complete and stable: after any appends and acknowledgments a restart accepts the outbox; an
  observer that has taken the events up to a number gets exactly the rest; what it took earlier are the
  same events it would get now; and appending under a key that is in changes nothing.
\<close>

theorem outbox_replay_is_complete:
  assumes "new_outbox signer n = Ok ob0" and "total_codec enc"
    and "ob = fold (outbox_exec enc H show_ipc) ops ob0" and "ob' = fold (outbox_exec enc H show_ipc) ops' ob"
  shows "outbox_load_check enc H ob' = Ok ob'
    \<and> (\<forall>k \<le> highest_sequence ob'. take k (ob_events ob') @ events_after k ob' = ob_events ob')
    \<and> (\<forall>k \<le> highest_sequence ob. take k (ob_events ob) = take k (ob_events ob'))
    \<and> (\<forall>k p. bhas (ob_source_keys ob) k \<longrightarrow> append_once enc H show_ipc k p ob' = (Ok None, ob'))"
proof -
  have inv0: "outbox_inv enc H signer n ob0" using assms(1,2) by (simp add: outbox_inv_def outbox_ok_new)
  have inv: "outbox_inv enc H signer n ob" unfolding assms(3) by (rule outbox.invar_run [OF inv0])
  have inv': "outbox_inv enc H signer n ob'" unfolding assms(4) by (rule outbox.invar_run [OF inv])
  note F = outbox_ok_facts [OF inv [unfolded outbox_inv_def, THEN conjunct2]]
  note F' = outbox_ok_facts [OF inv' [unfolded outbox_inv_def, THEN conjunct2]]
  obtain es where es: "ob_events ob' = ob_events ob @ es"
    using outbox_run_extends [of enc H show_ipc ops' ob] unfolding assms(4) by blast
  have "bhas (ob_source_keys ob') k" if "bhas (ob_source_keys ob) k" for k
    using outbox_run_extends [of enc H show_ipc ops' ob k] that unfolding assms(4) by blast
  then have "append_once enc H show_ipc k p ob' = (Ok None, ob')" if "bhas (ob_source_keys ob) k" for k p
    using that by (simp add: append_once_def)
  moreover have "take k (ob_events ob') @ events_after k ob' = ob_events ob'" if "k \<le> highest_sequence ob'" for k
    using F'(1) F'(3) that by simp
  moreover have "take k (ob_events ob) = take k (ob_events ob')" if "k \<le> highest_sequence ob" for k
    using F(3) es that by simp
  ultimately show ?thesis using F'(2) by blast
qed

text \<open>
  An outbox that is full stays full: an acknowledgment frees no place, so that every later event under
  a new key is refused.
\<close>

theorem acknowledging_frees_nothing:
  assumes "new_outbox signer n = Ok ob0" and "total_codec enc"
    and "ob = fold (outbox_exec enc H show_ipc) ops ob0" and "length (ob_events ob) = n"
    and "ob' = fold (outbox_exec enc H show_ipc) ops' ob" and "\<not> bhas (ob_source_keys ob') k"
  shows "append_once enc H show_ipc k p ob' = (Err ''reconciliation outbox capacity exhausted'', ob')"
proof -
  have inv0: "outbox_inv enc H signer n ob0" using assms(1,2) by (simp add: outbox_inv_def outbox_ok_new)
  have inv: "outbox_inv enc H signer n ob" unfolding assms(3) by (rule outbox.invar_run [OF inv0])
  have "outbox_inv enc H signer n ob'" unfolding assms(5) by (rule outbox.invar_run [OF inv])
  moreover have "n \<le> length (ob_events ob')"
    using outbox.rank_run [OF inv] assms(4) unfolding assms(5) by simp
  ultimately show ?thesis using assms(6) by (simp add: append_once_def outbox_inv_def outbox_ok_def)
qed

definition toy_payload_codec :: "reconciliation_payload \<Rightarrow> (bytes, string) outcome" where
  "toy_payload_codec p = (case p of ReconciledEvent c \<Rightarrow> Ok (1 # c) | _ \<Rightarrow> Ok [0])"

lemma toy_payload_total: "total_codec toy_payload_codec"
  by (simp add: total_codec_def toy_payload_codec_def split: reconciliation_payload.split)

lemma outbox_replay_is_complete_witness:
  "\<exists>ob0. new_outbox [7] 4 = Ok ob0 \<and>
     (let ob = fold (outbox_exec toy_payload_codec toy_hash (\<lambda>_. [])) [Append ''a'' (ReconciledEvent [1]), Append ''b'' (UnknownEvent [2])] ob0
      in outbox_load_check toy_payload_codec toy_hash ob = Ok ob \<and> events_after 1 ob \<noteq> [])"
proof -
  obtain ob0 where o: "new_outbox [7] 4 = Ok ob0" by (simp add: new_outbox_def)
  have "events_after 1 (fold (outbox_exec toy_payload_codec toy_hash (\<lambda>_. []))
      [Append ''a'' (ReconciledEvent [1]), Append ''b'' (UnknownEvent [2])] ob0) \<noteq> []"
    using o by (auto simp: new_outbox_def append_once_def Let_def checked_add_nat_def canonical_payload_hash_def
        toy_payload_codec_def events_after_def)
  with outbox_replay_is_complete [OF o toy_payload_total refl refl, of toy_hash "\<lambda>_. []" "[]"
      "[Append ''a'' (ReconciledEvent [1]), Append ''b'' (UnknownEvent [2])]"] o
  show ?thesis by (auto simp: Let_def)
qed

lemma acknowledging_frees_nothing_witness:
  "\<exists>ob0. new_outbox [7] 1 = Ok ob0 \<and>
     (let ob = fold (outbox_exec toy_payload_codec toy_hash (\<lambda>_. [])) [Append ''a'' (ReconciledEvent [1]), Acknowledge 1] ob0
      in append_once toy_payload_codec toy_hash (\<lambda>_. []) ''b'' (UnknownEvent [2]) ob
        = (Err ''reconciliation outbox capacity exhausted'', ob))"
proof -
  obtain ob0 where o: "new_outbox [7] 1 = Ok ob0" by (simp add: new_outbox_def)
  let ?ob = "fold (outbox_exec toy_payload_codec toy_hash (\<lambda>_. [])) [Append ''a'' (ReconciledEvent [1])] ob0"
  let ?ob' = "fold (outbox_exec toy_payload_codec toy_hash (\<lambda>_. [])) [Acknowledge 1] ?ob"
  have "length (ob_events ?ob) = 1" "\<not> bhas (ob_source_keys ?ob') ''b''"
    using o by (auto simp: new_outbox_def append_once_def Let_def checked_add_nat_def canonical_payload_hash_def
        toy_payload_codec_def acknowledge_def saturating_sub_def)
  from acknowledging_frees_nothing [OF o toy_payload_total refl this(1) refl this(2)] o
  show ?thesis by (auto simp: Let_def)
qed

end
