(* ===== verification/Production.thy ===== *)
theory Production
  imports Stateful Ipc Exchange_Batches Order_Planning
begin

text \<open>
  The production signer (\<open>copytrade-signer/src/production.rs\<close>): authorization of an intent against the
  exchange's current state, signing and submission, reconciliation of unknown results and of a restart.
  The transport, the disk and the clock of the outside world are an \<open>environment\<close> that answers the n-th
  external call in any way; MessagePack, SHA-256, the signature and the texts of errors are the
  \<open>platform\<close>. The locks serialise each section between two awaits: \<open>submit_authorized\<close> is given as its
  two sections around the call to the exchange, between which other calls may run.
\<close>

section \<open>Outside the signer\<close>

record platform =
  pf_arith :: decimal_ops
  pf_hash :: "bytes \<Rightarrow> bytes"
  pf_decimal_text :: "rat \<Rightarrow> string"
  pf_encode_intent :: "authorized_intent \<Rightarrow> (bytes, string) outcome"
  pf_signature :: "authorized_intent \<Rightarrow> nat \<Rightarrow> (bytes, signer_error) outcome"
  pf_show_reconciliation :: "reconciliation_error \<Rightarrow> string"
  pf_show_ledger :: "ledger_error \<Rightarrow> string"
  pf_show_risk :: "risk_violation \<Rightarrow> string"

record ioc_request =
  rq_asset_index :: nat
  rq_is_buy :: bool
  rq_limit_price :: scaled
  rq_quantity :: scaled
  rq_reduce_only :: bool
  rq_cloid :: planned_cloid
  rq_nonce :: nat
  rq_signature :: bytes

text \<open>A write to disk may fail before or after the new file has replaced the old one.\<close>

datatype disk_answer = DiskWritten | DiskFailed signer_error bool

record environment =
  env_disk :: "nat \<Rightarrow> disk_answer"
  env_submit :: "nat \<Rightarrow> ioc_request \<Rightarrow> (submission_response, submission_transport_error) outcome"
  env_lookup :: "nat \<Rightarrow> planned_cloid \<Rightarrow> order_observation transport"
  env_fills :: "nat \<Rightarrow> cursor \<Rightarrow> user_fill_batch transport"
  env_funding :: "nat \<Rightarrow> cursor \<Rightarrow> funding_batch transport"
  env_positions :: "nat \<Rightarrow> position_snapshot transport"
  env_equity :: "nat \<Rightarrow> equity_snapshot transport"
  env_ledger_save :: "nat \<Rightarrow> ledger_error option"

section \<open>State\<close>

text \<open>
  \<open>sg_disk\<close> is the registry file, \<open>sg_sent\<close> the requests handed to the transport so far and \<open>sg_clock\<close>
  counts the external calls.
\<close>

record signing_state =
  sg_nonce :: nat
  sg_registry :: submission_registry
  sg_reconciled :: bool
  sg_risk_policy_hash :: risk_policy_hash
  sg_configuration_hash :: config_hash
  sg_manifest_hash :: bytes
  sg_live :: live_trading_state
  sg_disk :: submission_registry
  sg_sent :: "ioc_request list"
  sg_clock :: nat

type_synonym 'a signing = "(signing_state, 'a, signer_error) action"

definition new_signer ::
  "submission_registry \<Rightarrow> nat \<Rightarrow> risk_policy_hash \<Rightarrow> config_hash \<Rightarrow> bytes \<Rightarrow> live_trading_state \<Rightarrow> signing_state signer" where
  "new_signer reg initial_nonce risk config manifest live =
    and_then (next_nonce_floor reg) (\<lambda>lowest.
    Ok \<lparr>sg_nonce = max initial_nonce lowest, sg_registry = reg, sg_reconciled = False, sg_risk_policy_hash = risk,
        sg_configuration_hash = config, sg_manifest_hash = manifest, sg_live = live, sg_disk = reg, sg_sent = [],
        sg_clock = 0\<rparr>)"

text \<open>An external call: the answer depends on how many calls were made before.\<close>

definition ask :: "(nat \<Rightarrow> 'a) \<Rightarrow> 'a signing" where
  "ask answer = (\<lambda>s. (Ok (answer (sg_clock s)), s\<lparr>sg_clock := sg_clock s + 1\<rparr>))"

definition ask_exchange :: "platform \<Rightarrow> (nat \<Rightarrow> 'a transport) \<Rightarrow> 'a signing" where
  "ask_exchange P answer = act_bind (ask answer) (\<lambda>r.
     act_try (map_err (\<lambda>e. Reconciliation (pf_show_reconciliation P e)) r))"

definition persist :: "environment \<Rightarrow> unit signing" where
  "persist E = act_bind (ask (env_disk E)) (\<lambda>a. case a of
     DiskWritten \<Rightarrow> act_modify (\<lambda>s. s\<lparr>sg_disk := sg_registry s\<rparr>)
   | DiskFailed e replaced \<Rightarrow>
       act_bind (act_modify (\<lambda>s. if replaced then s\<lparr>sg_disk := sg_registry s\<rparr> else s)) (\<lambda>_. act_try (Err e)))"

definition on_registry :: "(submission_registry \<Rightarrow> submission_registry signer) \<Rightarrow> unit signing" where
  "on_registry f = act_assign (\<lambda>s. f (sg_registry s)) (\<lambda>reg s. s\<lparr>sg_registry := reg\<rparr>)"

definition on_registry_value :: "(submission_registry \<Rightarrow> ('a \<times> submission_registry) signer) \<Rightarrow> 'a signing" where
  "on_registry_value f = (\<lambda>s. case f (sg_registry s) of
     Ok (x, reg) \<Rightarrow> (Ok x, s\<lparr>sg_registry := reg\<rparr>) | Err e \<Rightarrow> (Err e, s) | Panic \<Rightarrow> (Panic, s))"

definition cloid_string :: "planned_cloid \<Rightarrow> string" where
  "cloid_string c = hex_bytes c"

definition hex32 :: "bytes \<Rightarrow> string" where
  "hex32 bs = concat (map hex_pair bs)"

definition unprefixed_hex :: "string \<Rightarrow> string" where
  "unprefixed_hex s = strip_0x s"

definition transition_and_persist ::
  "environment \<Rightarrow> planned_cloid \<Rightarrow> submission_state \<Rightarrow> nat \<Rightarrow> unit signing" where
  "transition_and_persist E c st recorded_at =
    act_bind (on_registry (\<lambda>reg. transition_at reg (cloid_string c) st recorded_at)) (\<lambda>_. persist E)"

definition durable_intent :: "authorized_intent \<Rightarrow> approved_execution_intent" where
  "durable_intent i =
    \<lparr>ei_decision_id = unprefixed_hex (hex_bytes (ai_decision_id i)), ei_target_version = ai_target_version i,
     ei_root_cloid = cloid_string (ai_root_cloid i), ei_cloid = cloid_string (ai_planned_cloid i),
     ei_parent_cloid = map_option cloid_string (ai_parent_cloid i), ei_continuation_generation = ai_generation i,
     ei_asset = ai_asset i, ei_asset_index = ai_asset_index i, ei_is_buy = (ai_side i = Buy),
     ei_reduce_only = ai_reduce_only i, ei_limit_price = ai_limit_price i, ei_quantity = ai_quantity i,
     ei_risk_projection_hash = unprefixed_hex (hex_bytes (ai_projection_hash i)),
     ei_risk_policy_hash = unprefixed_hex (hex_bytes (ai_risk_policy_hash i)),
     ei_configuration_hash = unprefixed_hex (hex_bytes (ai_configuration_hash i)),
     ei_release_manifest_hash = hex32 (ai_release_manifest_hash i),
     ei_decision_reference_price = ai_reference_price i, ei_decision_timestamp_ms = ai_decision_timestamp i,
     ei_expires_at_mono = ai_expires_at i, ei_canonical_intent_hash = hex32 (ai_canonical_hash i)\<rparr>"

section \<open>Authorization\<close>

datatype authorization_failure =
    Expired | PolicyHashMismatch | InvalidIdentity | InvalidMarketRules | BelowExchangeMinimum
  | TargetNoLongerRequiresAction | ProjectionChanged | UnresolvedAsset | AuthorizationDuplicateCloid
  | AuthorizationRisk string | AuthorizationArithmetic

type_synonym 'a authorization = "('a, authorization_failure) outcome"

text \<open>The operator \<open>%\<close> is exact, with the sign of the dividend, and panics on zero.\<close>

definition truncated :: "rat \<Rightarrow> int" where
  "truncated x = (if 0 \<le> x then \<lfloor>x\<rfloor> else \<lceil>x\<rceil>)"

definition dec_rem :: "rat \<Rightarrow> rat \<Rightarrow> (rat, 'e) outcome" where
  "dec_rem x y = (if y = 0 then Panic else Ok (x - y * of_int (truncated (x / y))))"

definition side_matches :: "side \<Rightarrow> rat \<Rightarrow> bool" where
  "side_matches sd required = (case sd of Buy \<Rightarrow> 0 < required | Sell \<Rightarrow> required < 0)"

definition on_market_grid :: "authorized_intent \<Rightarrow> market_rules \<Rightarrow> unit authorization" where
  "on_market_grid i rules =
    and_then (dec_rem (scaled_value (ai_quantity i)) (size_step rules)) (\<lambda>r.
    and_then (fail_if (r \<noteq> 0) InvalidMarketRules) (\<lambda>_.
    and_then (dec_rem (scaled_value (ai_limit_price i)) (price_tick rules)) (\<lambda>r.
    fail_if (r \<noteq> 0) InvalidMarketRules)))"

definition validate_authorized_intent ::
  "platform \<Rightarrow> authorized_intent \<Rightarrow> pre_signing_context \<Rightarrow> submission_registry \<Rightarrow> unit authorization" where
  "validate_authorized_intent P i ctx reg = (let A = pf_arith P; H = pf_hash P in
    and_then (map_err (\<lambda>_. InvalidIdentity) (validate_canonical (pf_encode_intent P) H i)) (\<lambda>_.
    and_then (fail_if (ai_expires_at i < now_mono ctx) Expired) (\<lambda>_.
    and_then (fail_if (ai_risk_policy_hash i \<noteq> deployed_risk_policy_hash ctx) PolicyHashMismatch) (\<lambda>_.
    and_then (fail_if (case submission_state_of reg (cloid_string (ai_planned_cloid i)) of
        None \<Rightarrow> False | Some st \<Rightarrow> st \<noteq> AuthorizedNotSubmitted) AuthorizationDuplicateCloid) (\<lambda>_.
    and_then (fail_if (\<not> ai_reduce_only i \<and> \<not> permits_increase reg (ai_asset i)) UnresolvedAsset) (\<lambda>_.
    and_then (fail_if (ai_asset i = [] \<or> scaled_value (ai_quantity i) \<le> 0 \<or> scaled_value (ai_limit_price i) \<le> 0
        \<or> ai_reference_price i \<le> 0 \<or> ai_generation i = 0 \<and> ai_parent_cloid i \<noteq> None
        \<or> 0 < ai_generation i \<and> ai_parent_cloid i = None) InvalidIdentity) (\<lambda>_.
    and_then (ok_or InvalidMarketRules (bget (rules_of (projection_input ctx)) (ai_asset i))) (\<lambda>rules.
    and_then (on_market_grid i rules) (\<lambda>_.
    and_then (map_err (\<lambda>_. AuthorizationArithmetic) (validates_rounded_order A (scaled_value (ai_quantity i))
        (scaled_value (ai_limit_price i)) (pre_signing_context.exchange_minimum_notional ctx))) (\<lambda>enough.
    and_then (fail_if (\<not> enough) BelowExchangeMinimum) (\<lambda>_.
    and_then (map_err (\<lambda>e. AuthorizationRisk (pf_show_risk P e))
        (project_and_validate_portfolio A (projection_input ctx))) (\<lambda>projection.
    and_then (map_err (\<lambda>_. AuthorizationArithmetic) (derive_projection_hash H (pf_decimal_text P) projection)) (\<lambda>h.
    and_then (fail_if (h \<noteq> ai_projection_hash i) ProjectionChanged) (\<lambda>_.
    let required = bget_or 0 (rounded_deltas projection) (ai_asset i) in
    and_then (ok_or AuthorizationArithmetic (d_mul A (scaled_value (ai_quantity i)) (mark_price rules))) (\<lambda>intended.
    fail_if (\<not> side_matches (ai_side i) required \<or> \<bar>required\<bar> \<noteq> intended) TargetNoLongerRequiresAction)))))))))))))))"

text \<open>\<open>{self:?}\<close>: the text \<open>signer_rejection\<close> looks at; the platform's text of a risk error is escaped.\<close>

fun show_authorization :: "authorization_failure \<Rightarrow> string" where
  "show_authorization Expired = ''Expired''"
| "show_authorization PolicyHashMismatch = ''PolicyHashMismatch''"
| "show_authorization InvalidIdentity = ''InvalidIdentity''"
| "show_authorization InvalidMarketRules = ''InvalidMarketRules''"
| "show_authorization BelowExchangeMinimum = ''BelowExchangeMinimum''"
| "show_authorization TargetNoLongerRequiresAction = ''CurrentTargetNoLongerRequiresAction''"
| "show_authorization ProjectionChanged = ''ProjectionChanged''"
| "show_authorization UnresolvedAsset = ''UnresolvedAsset''"
| "show_authorization AuthorizationDuplicateCloid = ''DuplicateCloid''"
| "show_authorization (AuthorizationRisk e) = ''Risk('' @ [CHR 0x22] @ e @ [CHR 0x22] @ '')''"
| "show_authorization AuthorizationArithmetic = ''Arithmetic''"

definition positions_to_notional ::
  "decimal_ops \<Rightarrow> position_snapshot \<Rightarrow> portfolio_projection_input \<Rightarrow> (asset, rat) bmap signer" where
  "positions_to_notional A snapshot inp = btry_vmap (\<lambda>a quantity.
     and_then (ok_or MissingMarketRules (map_option mark_price (bget (rules_of inp) a))) (\<lambda>mark.
     ok_or InvalidDecimal (d_mul A quantity mark))) (ps_positions snapshot)"

text \<open>The orders whose result is unknown, as open exposure; a notional that overflows drops its order.\<close>

definition unknown_exposure ::
  "decimal_ops \<Rightarrow> approved_execution_intent \<times> submission_state \<Rightarrow> open_order_exposure option" where
  "unknown_exposure A e = (if is_unknown_result (snd e) then
     map_option (\<lambda>notional. \<lparr>oo_asset = ei_asset (fst e), oo_side = Some (if ei_is_buy (fst e) then Buy else Sell),
         oo_notional = Some notional, oo_lifecycle = SubmissionUnknown\<rparr>)
       (d_mul A (scaled_value (ei_quantity (fst e))) (scaled_value (ei_limit_price (fst e))))
     else None)"

definition refreshed_context ::
  "decimal_ops \<Rightarrow> authorized_intent \<Rightarrow> nat \<Rightarrow> position_snapshot \<Rightarrow> equity_snapshot \<Rightarrow> submission_registry
     \<Rightarrow> pre_signing_context signer" where
  "refreshed_context A i now account equity reg = (let ctx = ai_authorization i; inp = projection_input ctx in
    and_then (positions_to_notional A account (inp\<lparr>current_equity := es_equity equity\<rparr>)) (\<lambda>filled.
    Ok (ctx\<lparr>now_mono := now, projection_input := inp\<lparr>current_equity := es_equity equity, filled_positions := filled,
       acknowledged_open_orders := List.map_filter (unknown_exposure A) (bvals (submissions reg)),
       filled_position_state_complete := True, open_order_state_complete := True\<rparr>\<rparr>)))"

text \<open>The checks before the exchange is asked.\<close>

definition authorize_checks :: "platform \<Rightarrow> authorized_intent \<Rightarrow> signing_state \<Rightarrow> unit signer" where
  "authorize_checks P i s =
    and_then (map_err Authorization (validate_canonical (pf_encode_intent P) (pf_hash P) i)) (\<lambda>_.
    and_then (fail_if (\<not> sg_reconciled s) StartupNotReconciled) (\<lambda>_.
    and_then (fail_if (deployed_risk_policy_hash (ai_authorization i) \<noteq> sg_risk_policy_hash s
        \<or> ai_risk_policy_hash i \<noteq> sg_risk_policy_hash s) (Authorization ''deployed risk-policy hash mismatch'')) (\<lambda>_.
    and_then (fail_if (ai_configuration_hash i \<noteq> sg_configuration_hash s
        \<or> ai_release_manifest_hash i \<noteq> sg_manifest_hash s) (Authorization ''release/configuration hash mismatch'')) (\<lambda>_.
    fail_if (\<not> ai_reduce_only i \<and> has_authorized_not_submitted (sg_registry s)
        \<and> submission_state_of (sg_registry s) (cloid_string (ai_planned_cloid i)) \<noteq> Some AuthorizedNotSubmitted)
      StartupNotReconciled))))"

definition admit_intent :: "authorized_intent \<Rightarrow> nat \<Rightarrow> submission_registry \<Rightarrow> submission_registry signer" where
  "admit_intent i now reg = (let durable = durable_intent i; key = cloid_string (ai_planned_cloid i) in
    if submission_state_of reg key = Some AuthorizedNotSubmitted
    then and_then (fail_if (map_option fst (bget (submissions reg) key) \<noteq> Some durable) CloidMismatch) (\<lambda>_.
         transition_at reg key Authorized now)
    else register reg durable)"

definition read_account :: "platform \<Rightarrow> environment \<Rightarrow> (position_snapshot \<times> equity_snapshot) signing" where
  "read_account P E =
    act_bind (ask_exchange P (env_positions E)) (\<lambda>account.
    act_bind (ask_exchange P (env_equity E)) (\<lambda>equity.
    act_bind (act_try (fail_if (es_equity equity \<noteq> ps_account_equity account)
      (Reconciliation ''position and equity snapshots disagree''))) (\<lambda>_.
    act_return (account, equity))))"

definition authorize :: "platform \<Rightarrow> environment \<Rightarrow> authorized_intent \<Rightarrow> nat \<Rightarrow> nat signing" where
  "authorize P E i now =
    act_bind (act_get (authorize_checks P i)) (\<lambda>_.
    act_bind (read_account P E) (\<lambda>(account, equity).
    act_bind (act_get (\<lambda>s. refreshed_context (pf_arith P) i now account equity (sg_registry s))) (\<lambda>ctx.
    act_bind (act_get (\<lambda>s. map_err (\<lambda>e. Authorization (show_authorization e))
        (validate_authorized_intent P i ctx (sg_registry s)))) (\<lambda>_.
    act_bind (on_registry (admit_intent i now)) (\<lambda>_.
    act_bind (persist E) (\<lambda>_.
    act_get (\<lambda>s. durable_sequence (sg_registry s))))))))"

section \<open>Submission\<close>

definition sign_ioc :: "platform \<Rightarrow> authorized_intent \<Rightarrow> nat \<Rightarrow> ioc_request signer" where
  "sign_ioc P i nonce =
    and_then (canonical_decimal (pf_decimal_text P) (ai_limit_price i)) (\<lambda>_.
    and_then (canonical_decimal (pf_decimal_text P) (ai_quantity i)) (\<lambda>_.
    and_then (pf_signature P i nonce) (\<lambda>signature.
    Ok \<lparr>rq_asset_index = ai_asset_index i, rq_is_buy = (ai_side i = Buy), rq_limit_price = ai_limit_price i,
        rq_quantity = ai_quantity i, rq_reduce_only = ai_reduce_only i, rq_cloid = ai_planned_cloid i,
        rq_nonce = nonce, rq_signature = signature\<rparr>)))"

text \<open>The nonce allocator when no other thread uses it.\<close>

definition take_nonce :: "nat \<Rightarrow> nat signing" where
  "take_nonce unix_millis = (\<lambda>s. let nonce = max (sg_nonce s) unix_millis in
     case checked_add_nat 64 nonce 1 of
       None \<Rightarrow> (Err NonceOverflow, s)
     | Some following \<Rightarrow> (Ok nonce, s\<lparr>sg_nonce := following\<rparr>))"

text \<open>The section before the exchange is called: it ends with the request handed to the transport.\<close>

definition submit_prepare :: "platform \<Rightarrow> environment \<Rightarrow> authorized_intent \<Rightarrow> nat \<Rightarrow> ioc_request signing" where
  "submit_prepare P E i unix_millis =
    act_bind (act_get (\<lambda>s. fail_if (\<not> sg_reconciled s) StartupNotReconciled)) (\<lambda>_.
    act_bind (act_get (\<lambda>s. approved_intent (sg_registry s) (cloid_string (ai_planned_cloid i)))) (\<lambda>persisted.
    act_bind (act_try (fail_if (persisted \<noteq> durable_intent i)
      (Authorization ''authorized intent differs from durable record''))) (\<lambda>_.
    act_bind (take_nonce unix_millis) (\<lambda>nonce.
    act_bind (transition_and_persist E (ai_planned_cloid i) (NonceAllocated nonce) unix_millis) (\<lambda>_.
    act_bind (act_try (sign_ioc P i nonce)) (\<lambda>request.
    act_bind (transition_and_persist E (ai_planned_cloid i) (Signed nonce) unix_millis) (\<lambda>_.
    act_bind (transition_and_persist E (ai_planned_cloid i) (SubmissionStarted nonce) unix_millis) (\<lambda>_.
    act_return request))))))))"

definition hand_over :: "ioc_request \<Rightarrow> signing_state \<Rightarrow> signing_state" where
  "hand_over request s = s\<lparr>sg_reconciled := False, sg_sent := sg_sent s @ [request]\<rparr>"

definition submit_begin :: "platform \<Rightarrow> environment \<Rightarrow> authorized_intent \<Rightarrow> nat \<Rightarrow> ioc_request signing" where
  "submit_begin P E i unix_millis =
    act_bind (submit_prepare P E i unix_millis) (\<lambda>request.
    act_bind (act_modify (hand_over request)) (\<lambda>_. act_return request))"

datatype production_result = ResultAcknowledged | ResultFilled string rat | ResultRejected string | ResultUnknown

text \<open>The section after the answer.\<close>

definition submit_finish ::
  "environment \<Rightarrow> planned_cloid \<Rightarrow> nat \<Rightarrow> nat \<Rightarrow> (submission_response, submission_transport_error) outcome
     \<Rightarrow> production_result signing" where
  "submit_finish E c nonce unix_millis response =
    (let record_state = (\<lambda>st. transition_and_persist E c st unix_millis) in
     case response of
       Ok SubmissionAcknowledged \<Rightarrow>
         act_bind (record_state (Acknowledged (cloid_string c))) (\<lambda>_. act_return ResultAcknowledged)
     | Ok (SubmissionFilled order_id filled _) \<Rightarrow>
         act_bind (record_state (Filled order_id filled)) (\<lambda>_. act_return (ResultFilled order_id filled))
     | Ok (SubmissionRejected reason) \<Rightarrow>
         act_bind (record_state (Rejected reason)) (\<lambda>_. act_return (ResultRejected reason))
     | Err TransportUnknownResult \<Rightarrow> act_bind (record_state (UnknownResult nonce)) (\<lambda>_. act_return ResultUnknown)
     | Err (TransportInvalidResponse _) \<Rightarrow> act_bind (record_state (UnknownResult nonce)) (\<lambda>_. act_return ResultUnknown)
     | Err (TransportHttp status) \<Rightarrow>
         (let reason = ''exchange HTTP '' @ nat_str status in
          act_bind (record_state (Rejected reason)) (\<lambda>_. act_try (Err (Transport reason))))
     | Panic \<Rightarrow> act_try Panic)"

definition submit_authorized ::
  "platform \<Rightarrow> environment \<Rightarrow> authorized_intent \<Rightarrow> nat \<Rightarrow> production_result signing" where
  "submit_authorized P E i unix_millis =
    act_bind (submit_begin P E i unix_millis) (\<lambda>request.
    act_bind (ask (\<lambda>n. env_submit E n request)) (\<lambda>response.
    submit_finish E (ai_planned_cloid i) (rq_nonce request) unix_millis response))"

definition submit :: "platform \<Rightarrow> environment \<Rightarrow> authorized_intent \<Rightarrow> nat \<Rightarrow> production_result signing" where
  "submit P E i unix_millis = act_bind (authorize P E i unix_millis) (\<lambda>_. submit_authorized P E i unix_millis)"

section \<open>Reconciliation\<close>

definition decode_planned_cloid :: "string \<Rightarrow> planned_cloid signer" where
  "decode_planned_cloid s = decode_hex InvalidIntent 16 (strip_0x s)"

text \<open>The state an observation stands for; \<open>NotFound\<close> is handled before.\<close>

definition observed_state :: "decimal_ops \<Rightarrow> order_observation \<Rightarrow> submission_state signer" where
  "observed_state A ob = (case ob of
     ObservedNotFound \<Rightarrow> Err UnknownCloid
   | ObservedOpen oid original remaining \<Rightarrow>
       and_then (ok_or InvalidDecimal (d_sub A original remaining)) (\<lambda>filled.
       Ok (if filled = 0 then Acknowledged oid else PartiallyFilled oid filled))
   | ObservedFilled oid filled \<Rightarrow> Ok (Filled oid filled)
   | ObservedCancelled oid filled _ \<Rightarrow> Ok (Cancelled (Some oid) filled)
   | ObservedRejected _ reason \<Rightarrow> Ok (Rejected reason))"

definition confirm_missing :: "environment \<Rightarrow> string \<Rightarrow> nat \<Rightarrow> nat \<Rightarrow> nat \<Rightarrow> submission_state signing" where
  "confirm_missing E key observed_at required interval =
    act_bind (act_get (\<lambda>s. fail_if (case submission_state_of (sg_registry s) key of
        None \<Rightarrow> True | Some st \<Rightarrow> \<not> is_unknown_result st)
      (Reconciliation ''previously observed order is now not found''))) (\<lambda>_.
    act_bind (on_registry_value (\<lambda>reg. confirm_submission_not_found reg key observed_at required interval)) (\<lambda>resolved.
    act_bind (persist E) (\<lambda>_.
    if resolved then act_return ReconciledNotFound
    else act_get (\<lambda>s. ok_or UnknownCloid (submission_state_of (sg_registry s) key)))))"

definition reconcile_unknown ::
  "platform \<Rightarrow> environment \<Rightarrow> planned_cloid \<Rightarrow> nat \<Rightarrow> nat \<Rightarrow> nat \<Rightarrow> submission_state signing" where
  "reconcile_unknown P E c observed_at required interval =
    act_bind (ask_exchange P (\<lambda>n. env_lookup E n c)) (\<lambda>observation.
    if observation = ObservedNotFound then confirm_missing E (cloid_string c) observed_at required interval
    else act_bind (act_try (observed_state (pf_arith P) observation)) (\<lambda>st.
      act_bind (transition_and_persist E c st observed_at) (\<lambda>_. act_return st)))"

section \<open>Pages\<close>

definition PAGE_LIMIT :: nat where "PAGE_LIMIT = 10000"

primrec fill_pages ::
  "platform \<Rightarrow> environment \<Rightarrow> nat \<Rightarrow> nat \<Rightarrow> cursor \<Rightarrow> user_fill list \<Rightarrow> user_fill_batch signing" where
  "fill_pages P E end_time 0 cur fetched = act_try (Err (Reconciliation ''fill pagination limit exceeded''))"
| "fill_pages P E end_time (Suc k) cur fetched =
    act_bind (ask_exchange P (\<lambda>n. env_fills E n cur)) (\<lambda>page.
    if ub_fills page = [] then
      act_return \<lparr>ub_fills = fetched, ub_next_cursor = \<lparr>start_time_ms = saturating_add 64 end_time 1,
        end_time_ms = Some end_time\<rparr>, ub_source_hash = ub_source_hash page\<rparr>
    else if start_time_ms (ub_next_cursor page) \<le> start_time_ms cur then
      act_try (Err (Reconciliation ''fill pagination cursor did not advance''))
    else if end_time < start_time_ms (ub_next_cursor page) then
      act_return \<lparr>ub_fills = fetched @ ub_fills page, ub_next_cursor = ub_next_cursor page,
        ub_source_hash = ub_source_hash page\<rparr>
    else fill_pages P E end_time k (ub_next_cursor page) (fetched @ ub_fills page))"

definition read_all_fills :: "platform \<Rightarrow> environment \<Rightarrow> nat \<Rightarrow> nat \<Rightarrow> user_fill_batch signing" where
  "read_all_fills P E start_time end_time =
    (let cur = \<lparr>start_time_ms = start_time, end_time_ms = Some end_time\<rparr> in
     if end_time < start_time then act_return \<lparr>ub_fills = [], ub_next_cursor = cur, ub_source_hash = replicate 32 0\<rparr>
     else fill_pages P E end_time PAGE_LIMIT cur [])"

primrec funding_pages ::
  "platform \<Rightarrow> environment \<Rightarrow> nat \<Rightarrow> nat \<Rightarrow> cursor \<Rightarrow> funding_record list \<Rightarrow> funding_batch signing" where
  "funding_pages P E end_time 0 cur fetched = act_try (Err (Reconciliation ''funding pagination limit exceeded''))"
| "funding_pages P E end_time (Suc k) cur fetched =
    act_bind (ask_exchange P (\<lambda>n. env_funding E n cur)) (\<lambda>page.
    if fb_events page = [] then
      act_return \<lparr>fb_events = fetched, fb_next_cursor = \<lparr>start_time_ms = saturating_add 64 end_time 1,
        end_time_ms = Some end_time\<rparr>, fb_source_hash = fb_source_hash page\<rparr>
    else if start_time_ms (fb_next_cursor page) \<le> start_time_ms cur then
      act_try (Err (Reconciliation ''funding pagination cursor did not advance''))
    else if end_time < start_time_ms (fb_next_cursor page) then
      act_return \<lparr>fb_events = fetched @ fb_events page, fb_next_cursor = fb_next_cursor page,
        fb_source_hash = fb_source_hash page\<rparr>
    else funding_pages P E end_time k (fb_next_cursor page) (fetched @ fb_events page))"

definition read_all_funding :: "platform \<Rightarrow> environment \<Rightarrow> nat \<Rightarrow> nat \<Rightarrow> funding_batch signing" where
  "read_all_funding P E start_time end_time =
    (let cur = \<lparr>start_time_ms = start_time, end_time_ms = Some end_time\<rparr> in
     if end_time < start_time then act_return \<lparr>fb_events = [], fb_next_cursor = cur, fb_source_hash = replicate 32 0\<rparr>
     else funding_pages P E end_time PAGE_LIMIT cur [])"

section \<open>Restart\<close>

fun seen_on_exchange :: "submission_state \<Rightarrow> bool" where
  "seen_on_exchange (Acknowledged _) = True"
| "seen_on_exchange (PartiallyFilled _ _) = True"
| "seen_on_exchange (Filled _ _) = True"
| "seen_on_exchange (Cancelled _ _) = True"
| "seen_on_exchange (Rejected _) = True"
| "seen_on_exchange _ = False"

definition resolve ::
  "platform \<Rightarrow> environment \<Rightarrow> string \<Rightarrow> nat \<Rightarrow> nat \<Rightarrow> nat \<Rightarrow> (submission_state \<Rightarrow> bool) \<Rightarrow> unit signing" where
  "resolve P E key now required interval accepted =
    act_bind (act_try (decode_planned_cloid key)) (\<lambda>c.
    act_bind (reconcile_unknown P E c now required interval) (\<lambda>st.
    act_try (fail_if (\<not> accepted st) StartupNotReconciled)))"

definition startup_entry ::
  "platform \<Rightarrow> environment \<Rightarrow> nat \<Rightarrow> nat \<Rightarrow> nat \<Rightarrow> string \<times> submission_state \<Rightarrow> unit signing" where
  "startup_entry P E now required interval e =
    (let key = fst e;
         step = (\<lambda>st. act_bind (on_registry (\<lambda>reg. transition_at reg key st now)) (\<lambda>_. persist E)) in
     case snd e of
       Authorized \<Rightarrow> step AuthorizedNotSubmitted
     | NonceAllocated _ \<Rightarrow> step AuthorizedNotSubmitted
     | Signed _ \<Rightarrow> step AuthorizedNotSubmitted
     | SubmissionStarted nonce \<Rightarrow>
         act_bind (step (UnknownResult nonce)) (\<lambda>_.
         resolve P E key now required interval (\<lambda>st. \<not> is_unknown_result st))
     | UnknownResult _ \<Rightarrow> resolve P E key now required interval (\<lambda>st. \<not> is_unknown_result st)
     | Acknowledged _ \<Rightarrow> resolve P E key now required interval seen_on_exchange
     | PartiallyFilled _ _ \<Rightarrow> resolve P E key now required interval seen_on_exchange
     | _ \<Rightarrow> act_return ())"

definition apply_batches_to_live ::
  "platform \<Rightarrow> environment \<Rightarrow> user_fill_batch \<Rightarrow> funding_batch \<Rightarrow> rat \<Rightarrow> applied_batch signing" where
  "apply_batches_to_live P E fills funding equity =
    act_bind (ask (env_ledger_save E)) (\<lambda>save.
    act_bind (act_get (\<lambda>s. apply_authenticated_batches (pf_arith P) (pf_hash P) (pf_show_ledger P) (sg_registry s)
      fills funding equity save (sg_live s))) (\<lambda>(applied, live).
    act_bind (act_modify (\<lambda>s. s\<lparr>sg_live := live\<rparr>)) (\<lambda>_. act_return applied)))"

definition startup_entries :: "signing_state \<Rightarrow> (string \<times> submission_state) list" where
  "startup_entries s = map (\<lambda>e. (fst e, snd (snd e))) (entries (submissions (sg_registry s)))"

text \<open>The first half of a startup reconciliation: fills, funding and positions.\<close>

definition startup_sync :: "platform \<Rightarrow> environment \<Rightarrow> nat \<Rightarrow> applied_batch signing" where
  "startup_sync P E now =
    act_bind (act_get (\<lambda>s. Ok (lt_fill_cursor (sg_live s), lt_funding_cursor (sg_live s)))) (\<lambda>(fill_cursor, funding_cursor).
    act_bind (read_all_fills P E fill_cursor now) (\<lambda>fills.
    act_bind (read_all_funding P E funding_cursor now) (\<lambda>funding.
    act_bind (read_account P E) (\<lambda>(account, equity).
    act_bind (apply_batches_to_live P E fills funding (es_equity equity)) (\<lambda>applied.
    act_bind (act_get (\<lambda>s. ledger_step (pf_show_ledger P) (reconcile_positions (ps_positions account) (sg_live s)))) (\<lambda>_.
    act_return applied))))))"

definition startup_orders :: "platform \<Rightarrow> environment \<Rightarrow> nat \<Rightarrow> nat \<Rightarrow> nat \<Rightarrow> unit signing" where
  "startup_orders P E now required interval =
    act_bind (act_get (\<lambda>s. Ok (startup_entries s))) (\<lambda>states.
    act_each (startup_entry P E now required interval) states)"

definition reconcile_startup ::
  "platform \<Rightarrow> environment \<Rightarrow> nat \<Rightarrow> nat \<Rightarrow> nat \<Rightarrow> applied_batch signing" where
  "reconcile_startup P E now required interval =
    act_bind (act_modify (\<lambda>s. s\<lparr>sg_reconciled := False\<rparr>)) (\<lambda>_.
    act_bind (startup_sync P E now) (\<lambda>applied.
    act_bind (startup_orders P E now required interval) (\<lambda>_.
    act_bind (act_modify (\<lambda>s. s\<lparr>sg_reconciled := True\<rparr>)) (\<lambda>_.
    act_return applied))))"

section \<open>Queries\<close>

definition durable_state :: "planned_cloid \<Rightarrow> signing_state \<Rightarrow> (submission_state \<times> nat) signer" where
  "durable_state c s = and_then (ok_or UnknownCloid (submission_state_of (sg_registry s) (cloid_string c))) (\<lambda>st.
     and_then (durable_sequence (sg_registry s)) (\<lambda>n. Ok (st, n)))"

definition idempotent_state :: "authorized_intent \<Rightarrow> signing_state \<Rightarrow> submission_state option signer" where
  "idempotent_state i s = (let key = cloid_string (ai_planned_cloid i) in
     case bget (submissions (sg_registry s)) key of
       None \<Rightarrow> Ok None
     | Some e \<Rightarrow> if fst e = durable_intent i then Ok (submission_state_of (sg_registry s) key) else Err CloidMismatch)"

text \<open>\<open>decode_hex32\<close> does not check for digits: \<open>from_str_radix\<close> does.\<close>

definition decode_hex32 :: "string \<Rightarrow> bytes signer" where
  "decode_hex32 s = and_then (fail_if (length s \<noteq> 64) (Decode ''expected 32-byte hex value'')) (\<lambda>_.
     ok_or (Decode ''invalid digit found in string'') (decode_pairs s))"

definition signer_intent_identity :: "planned_cloid \<Rightarrow> signing_state \<Rightarrow> intent_identity signer" where
  "signer_intent_identity c s =
    and_then (ok_or UnknownCloid (bget (submissions (sg_registry s)) (cloid_string c))) (\<lambda>e.
    and_then (decode_hex32 (ei_canonical_intent_hash (fst e))) (\<lambda>h.
    Ok \<lparr>ii_cloid = c, ii_target_version = ei_target_version (fst e), ii_canonical_hash = h\<rparr>))"

definition is_ready :: "signing_state \<Rightarrow> bool" where
  "is_ready s = (sg_reconciled s \<and> \<not> has_authorized_not_submitted (sg_registry s))"

definition durable_transitions_after :: "nat \<Rightarrow> signing_state \<Rightarrow> (nat \<times> transition_record) list signer" where
  "durable_transitions_after n s = Ok (drop n (map (\<lambda>(k, e). (k + 1, e)) (enumerate 0 (history (sg_registry s)))))"

section \<open>Growth of the registry\<close>

text \<open>An order that was handed to the exchange or that the exchange has answered for.\<close>

fun started :: "submission_state \<Rightarrow> bool" where
  "started Authorized = False"
| "started AuthorizedNotSubmitted = False"
| "started (NonceAllocated _) = False"
| "started (Signed _) = False"
| "started _ = True"

lemma started_stays: "valid_transition s t \<Longrightarrow> started s \<Longrightarrow> started t"
  by (auto simp: valid_transition_def split: submission_state.splits)

text \<open>A state in which the exchange may hold the order without the signer knowing; and one it has left.\<close>

fun doubtful :: "submission_state \<Rightarrow> bool" where
  "doubtful (SubmissionStarted _) = True"
| "doubtful (UnknownResult _) = True"
| "doubtful _ = False"

lemma settled_stays: "valid_transition s t \<Longrightarrow> started s \<Longrightarrow> \<not> doubtful s \<Longrightarrow> \<not> doubtful t"
  by (auto simp: valid_transition_def split: submission_state.splits)

lemma unknown_doubtful: "is_unknown_result st \<Longrightarrow> doubtful st"
  by (cases st) simp_all

definition registry_grows :: "submission_registry \<Rightarrow> submission_registry \<Rightarrow> bool" where
  "registry_grows a b = ((\<forall>c i st. bget (submissions a) c = Some (i, st) \<longrightarrow>
       (\<exists>st'. bget (submissions b) c = Some (i, st') \<and> (started st \<longrightarrow> started st' \<and> (doubtful st' \<longrightarrow> doubtful st))))
     \<and> (\<forall>c. bhas (submissions b) c \<longrightarrow> bhas (submissions a) c \<or> valid_cloid c)
     \<and> (\<exists>h. history b = history a @ h))"

lemma registry_grows_trans: "registry_grows a b \<Longrightarrow> registry_grows b c \<Longrightarrow> registry_grows a c"
proof -
  assume ab: "registry_grows a b" and bc: "registry_grows b c"
  have "\<exists>st'. bget (submissions c) k = Some (i, st') \<and> (started st \<longrightarrow> started st' \<and> (doubtful st' \<longrightarrow> doubtful st))"
    if in_a: "bget (submissions a) k = Some (i, st)" for k i st
  proof -
    obtain st1 where "bget (submissions b) k = Some (i, st1)" "started st \<longrightarrow> started st1 \<and> (doubtful st1 \<longrightarrow> doubtful st)"
      using ab in_a unfolding registry_grows_def by blast
    moreover obtain st2 where "bget (submissions c) k = Some (i, st2)" "started st1 \<longrightarrow> started st2 \<and> (doubtful st2 \<longrightarrow> doubtful st1)"
      using bc calculation(1) unfolding registry_grows_def by blast
    ultimately show ?thesis by blast
  qed
  moreover have "\<exists>h. history c = history a @ h" using ab bc by (auto simp: registry_grows_def)
  ultimately show ?thesis using ab bc unfolding registry_grows_def by blast
qed

lemma register_grows:
  assumes "register reg i = Ok reg'"
  shows "registry_grows reg reg'"
proof -
  from assms have v: "valid_cloid (ei_cloid i)" "\<not> bhas (submissions reg) (ei_cloid i)"
    and r: "submissions reg' = binsert (ei_cloid i) (i, Authorized) (submissions reg)" "\<exists>h. history reg' = history reg @ h"
    by (auto simp: register_def outcome_simps validate_intent_def)
  then show ?thesis by (auto simp: registry_grows_def bhas_def)
qed

lemma transition_grows:
  assumes "transition_at reg c st now = Ok reg'"
  shows "registry_grows reg reg'"
  using assms
proof (cases rule: transition_at_cases)
  case (moved i s)
  then show ?thesis
    by (auto simp: registry_grows_def started_stays bget_has dest: settled_stays)
qed (auto simp: registry_grows_def)

lemma confirm_grows: "confirm_submission_not_found reg c t required interval = Ok (d, reg') \<Longrightarrow> registry_grows reg reg'"
  by (erule confirm_cases) (auto simp: registry_grows_def bget_has)

lemma admit_grows: "admit_intent i now reg = Ok reg' \<Longrightarrow> registry_grows reg reg'"
  by (auto simp: admit_intent_def Let_def outcome_simps split: if_splits intro: register_grows transition_grows)

text \<open>A change of the registry that puts no further order in doubt.\<close>

definition calm :: "submission_registry \<Rightarrow> submission_registry \<Rightarrow> bool" where
  "calm a b = (\<forall>c i st. bget (submissions b) c = Some (i, st) \<and> doubtful st \<longrightarrow> bget (submissions a) c = Some (i, st))"

lemma calm_transition: "transition_at reg c st now = Ok reg' \<Longrightarrow> \<not> doubtful st \<Longrightarrow> calm reg reg'"
  by (erule transition_at_cases) (auto simp: calm_def split: if_splits)

lemma calm_confirm: "confirm_submission_not_found reg c t required interval = Ok (d, reg') \<Longrightarrow> calm reg reg'"
  by (erule confirm_cases) (auto simp: calm_def split: if_splits)

lemma calm_admit: "admit_intent i now reg = Ok reg' \<Longrightarrow> calm reg reg'"
  by (auto simp: admit_intent_def Let_def outcome_simps register_def calm_def split: if_splits
      dest: calm_transition [unfolded calm_def])

lemma history_nonces_append: "history b = history a @ h \<Longrightarrow> set (history_nonces a) \<subseteq> set (history_nonces b)"
  by (auto simp: history_nonces_def List.map_filter_def)

text \<open>What was sent is in the registry: started, under its nonce, with the fields of its durable intent.\<close>

definition carries :: "ioc_request \<Rightarrow> approved_execution_intent \<Rightarrow> bool" where
  "carries r i = (rq_asset_index r = ei_asset_index i \<and> rq_is_buy r = ei_is_buy i \<and> rq_limit_price r = ei_limit_price i
     \<and> rq_quantity r = ei_quantity i \<and> rq_reduce_only r = ei_reduce_only i)"

definition sent_in :: "ioc_request list \<Rightarrow> submission_registry \<Rightarrow> bool" where
  "sent_in rs reg = (\<forall>r \<in> set rs. \<exists>i st. bget (submissions reg) (cloid_string (rq_cloid r)) = Some (i, st) \<and> started st
     \<and> rq_nonce r \<in> set (history_nonces reg) \<and> carries r i)"

definition settled_in :: "ioc_request list \<Rightarrow> submission_registry \<Rightarrow> bool" where
  "settled_in rs reg = (\<forall>r \<in> set rs. \<exists>i st. bget (submissions reg) (cloid_string (rq_cloid r)) = Some (i, st)
     \<and> started st \<and> \<not> doubtful st)"

definition keys_valid :: "submission_registry \<Rightarrow> bool" where
  "keys_valid reg = (\<forall>c. bhas (submissions reg) c \<longrightarrow> valid_cloid c)"

lemma sent_in_grows: "sent_in rs a \<Longrightarrow> registry_grows a b \<Longrightarrow> sent_in rs b"
  unfolding sent_in_def registry_grows_def using history_nonces_append by (meson subsetD)

lemma settled_in_grows: "settled_in rs a \<Longrightarrow> registry_grows a b \<Longrightarrow> settled_in rs b"
  unfolding settled_in_def registry_grows_def by meson

lemma keys_valid_grows: "keys_valid a \<Longrightarrow> registry_grows a b \<Longrightarrow> keys_valid b"
  unfolding keys_valid_def registry_grows_def by blast

definition registry_holds :: "signing_state \<Rightarrow> submission_registry \<Rightarrow> bool" where
  "registry_holds s reg = (sent_in (sg_sent s) reg \<and> settled_in (butlast (sg_sent s)) reg \<and> keys_valid reg)"

definition signing_inv :: "signing_state \<Rightarrow> bool" where
  "signing_inv s = (registry_holds s (sg_registry s) \<and> registry_holds s (sg_disk s)
     \<and> distinct (map rq_cloid (sg_sent s)) \<and> sorted_wrt (<) (map rq_nonce (sg_sent s))
     \<and> (\<forall>r \<in> set (sg_sent s). rq_nonce r < sg_nonce s))"

text \<open>An action that leaves what was sent, the registry, the file and the nonces alone.\<close>

lemma keeps_ask [keeps_intro]: "(\<And>s n. J s \<Longrightarrow> J (s\<lparr>sg_clock := n\<rparr>)) \<Longrightarrow> act_keeps J (ask f)"
  by (simp add: act_keeps_def ask_def)

lemma keeps_ask_exchange [keeps_intro]: "(\<And>s n. J s \<Longrightarrow> J (s\<lparr>sg_clock := n\<rparr>)) \<Longrightarrow> act_keeps J (ask_exchange P f)"
  unfolding ask_exchange_def by (intro keeps_intro)

lemma keeps_persist:
  "(\<And>s n. J s \<Longrightarrow> J (s\<lparr>sg_clock := n\<rparr>)) \<Longrightarrow> (\<And>s. J s \<Longrightarrow> J (s\<lparr>sg_disk := sg_registry s\<rparr>)) \<Longrightarrow> act_keeps J (persist E)"
  unfolding persist_def by (auto intro!: keeps_intro act_keeps_modify split: disk_answer.split)

lemma keeps_on_registry:
  "(\<And>s reg. J s \<Longrightarrow> f (sg_registry s) = Ok reg \<Longrightarrow> J (s\<lparr>sg_registry := reg\<rparr>)) \<Longrightarrow> act_keeps J (on_registry f)"
  unfolding on_registry_def by (rule act_keeps_assign)

lemma keeps_on_registry_value:
  "(\<And>s x reg. J s \<Longrightarrow> f (sg_registry s) = Ok (x, reg) \<Longrightarrow> J (s\<lparr>sg_registry := reg\<rparr>)) \<Longrightarrow> act_keeps J (on_registry_value f)"
  by (auto simp: act_keeps_def on_registry_value_def split: outcome.splits)

lemma keeps_case_prod [keeps_intro]:
  "(\<And>a b. act_keeps J (f a b)) \<Longrightarrow> act_keeps J (case x of (a, b) \<Rightarrow> f a b)"
  by (cases x) simp

section \<open>Invariants of the operations\<close>

text \<open>
  A property of the signer's state that survives external calls, a write of the registry to disk and the
  changes \<open>R\<close> of the registry, which cover admissions, confirmations and the transitions that put no
  order in doubt, survives an authorization and a reconciliation.
\<close>

locale registry_invariant =
  fixes J :: "signing_state \<Rightarrow> bool" and R :: "submission_registry \<Rightarrow> submission_registry \<Rightarrow> bool"
  assumes clock: "J s \<Longrightarrow> J (s\<lparr>sg_clock := n\<rparr>)"
    and disk: "J s \<Longrightarrow> J (s\<lparr>sg_disk := sg_registry s\<rparr>)"
    and change: "J s \<Longrightarrow> R (sg_registry s) reg \<Longrightarrow> J (s\<lparr>sg_registry := reg\<rparr>)"
    and admit: "admit_intent i t a = Ok b \<Longrightarrow> R a b"
    and confirm: "confirm_submission_not_found a c t required interval = Ok (d, b) \<Longrightarrow> R a b"
    and settle: "transition_at a c st t = Ok b \<Longrightarrow> \<not> doubtful st \<Longrightarrow> R a b"
begin

lemma keeps_external: "act_keeps J (ask f)" "act_keeps J (ask_exchange P g)" "act_keeps J (persist E)"
  by (auto intro: keeps_ask keeps_ask_exchange keeps_persist clock disk)

lemma keeps_registry: "(\<And>a b. f a = Ok b \<Longrightarrow> R a b) \<Longrightarrow> act_keeps J (on_registry f)"
  by (auto intro: keeps_on_registry change)

lemma keeps_settle: "\<not> doubtful st \<Longrightarrow> act_keeps J (transition_and_persist E c st t)"
  unfolding transition_and_persist_def
  by (intro keeps_intro keeps_external keeps_registry) (rule settle)

lemma keeps_account: "act_keeps J (read_account P E)"
  unfolding read_account_def by (intro keeps_intro keeps_external)

lemma keeps_authorize: "act_keeps J (authorize P E i now)"
  unfolding authorize_def
  by (intro keeps_intro keeps_external keeps_account keeps_registry admit)

lemma keeps_observed: "act_keeps J (act_bind (act_try (observed_state A ob)) (\<lambda>st.
    act_bind (transition_and_persist E c st t) (\<lambda>_. act_return st)))"
proof -
  have ok: "\<not> doubtful st" if "observed_state A ob = Ok st" for st
    using that by (cases ob) (auto simp: observed_state_def outcome_simps split: if_splits)
  show ?thesis
  proof (cases "observed_state A ob")
    case (Ok st)
    then have "act_bind (act_try (observed_state A ob)) (\<lambda>st. act_bind (transition_and_persist E c st t) (\<lambda>_. act_return st))
        = act_bind (transition_and_persist E c st t) (\<lambda>_. act_return st)" by (simp add: act_bind_def fun_eq_iff)
    then show ?thesis using keeps_settle [OF ok [OF Ok]] by (simp add: keeps_intro)
  qed (simp_all add: act_keeps_def act_bind_def)
qed

lemma keeps_reconcile: "act_keeps J (reconcile_unknown P E c t required interval)"
  unfolding reconcile_unknown_def confirm_missing_def
  by (intro keeps_intro keeps_external keeps_observed keeps_on_registry_value)
    (auto intro: change confirm)

end

text \<open>
  When it also survives every transition, changes of the live state and larger nonces, it survives every
  operation that leaves the readiness flag and the requests sent alone.
\<close>

locale signing_invariant = registry_invariant J R
  for J :: "signing_state \<Rightarrow> bool" and R :: "submission_registry \<Rightarrow> submission_registry \<Rightarrow> bool" +
  assumes transition: "transition_at a c st t = Ok b \<Longrightarrow> R a b"
    and live: "J s \<Longrightarrow> J (s\<lparr>sg_live := l\<rparr>)"
    and nonce: "J s \<Longrightarrow> sg_nonce s \<le> n \<Longrightarrow> J (s\<lparr>sg_nonce := n\<rparr>)"
begin

lemma keeps_transition: "act_keeps J (transition_and_persist E c st t)"
  unfolding transition_and_persist_def
  by (intro keeps_intro keeps_external keeps_registry) (rule transition)

lemma keeps_nonce: "act_keeps J (take_nonce t)"
  by (auto simp: act_keeps_def take_nonce_def Let_def checked_add_nat_Some split: option.split intro!: nonce)

lemma keeps_prepare: "act_keeps J (submit_prepare P E i t)"
  unfolding submit_prepare_def by (intro keeps_intro keeps_nonce keeps_transition)

lemma keeps_finish: "act_keeps J (submit_finish E c n t response)"
  unfolding submit_finish_def Let_def
  by (auto split: outcome.split submission_response.split submission_transport_error.split
      intro!: keeps_intro keeps_transition)

lemma keeps_fill_pages: "act_keeps J (fill_pages P E t k cur acc)"
  by (induction k arbitrary: cur acc) (simp_all add: keeps_intro keeps_external)

lemma keeps_funding_pages: "act_keeps J (funding_pages P E t k cur acc)"
  by (induction k arbitrary: cur acc) (simp_all add: keeps_intro keeps_external)

lemma keeps_resolve: "act_keeps J (resolve P E key now required interval ok)"
  unfolding resolve_def by (intro keeps_intro keeps_reconcile)

lemma keeps_startup_step: "act_keeps J (act_bind (on_registry (\<lambda>reg. transition_at reg key st now)) (\<lambda>_. persist E))"
  by (intro keeps_intro keeps_external keeps_registry transition)

lemma keeps_startup_entry: "act_keeps J (startup_entry P E now required interval e)"
  unfolding startup_entry_def Let_def
  by (cases "snd e") (simp_all add: keeps_intro keeps_startup_step keeps_resolve)

lemma keeps_sync: "act_keeps J (startup_sync P E now)"
  unfolding startup_sync_def read_all_fills_def read_all_funding_def apply_batches_to_live_def Let_def
  by (intro keeps_intro keeps_external keeps_account keeps_fill_pages keeps_funding_pages act_keeps_modify live)

lemma keeps_orders: "act_keeps J (startup_orders P E now required interval)"
  unfolding startup_orders_def by (intro keeps_intro keeps_startup_entry)

lemma keeps_startup:
  assumes "\<And>s b. J s \<Longrightarrow> J (s\<lparr>sg_reconciled := b\<rparr>)"
  shows "act_keeps J (reconcile_startup P E now required interval)"
  unfolding reconcile_startup_def by (intro keeps_intro keeps_sync keeps_orders act_keeps_modify assms)

end

interpretation sent: signing_invariant signing_inv registry_grows
proof
  fix s reg assume "signing_inv s" "registry_grows (sg_registry s) reg"
  then show "signing_inv (s\<lparr>sg_registry := reg\<rparr>)"
    using sent_in_grows [of "sg_sent s" "sg_registry s" reg] settled_in_grows [of "butlast (sg_sent s)" "sg_registry s" reg]
      keys_valid_grows [of "sg_registry s" reg] by (simp add: signing_inv_def registry_holds_def)
next
  fix s n assume "signing_inv s" "sg_nonce s \<le> n"
  then show "signing_inv (s\<lparr>sg_nonce := n\<rparr>)" by (auto simp: signing_inv_def registry_holds_def)
qed (auto simp: signing_inv_def registry_holds_def intro: admit_grows confirm_grows transition_grows)

lemma hex_bytes_inj: "hex_bytes a = hex_bytes b \<Longrightarrow> a = b"
  unfolding hex_bytes_pairs by (metis append_same_eq same_append_eq decode_hex_pairs option.inject)

lemma on_registry_Ok [outcome_simps]:
  "on_registry f s = (Ok u, s') \<longleftrightarrow> (\<exists>reg. f (sg_registry s) = Ok reg \<and> s' = s\<lparr>sg_registry := reg\<rparr>)"
  by (simp add: on_registry_def act_assign_Ok)

lemma persist_Ok [outcome_simps]:
  "persist E s = (Ok u, s') \<longleftrightarrow> env_disk E (sg_clock s) = DiskWritten
     \<and> s' = s\<lparr>sg_clock := sg_clock s + 1, sg_disk := sg_registry s\<rparr>"
  by (cases "env_disk E (sg_clock s)") (auto simp: persist_def act_bind_def ask_def)

lemma transition_and_persist_Ok:
  assumes "transition_and_persist E c st t s = (Ok u, s')"
  obtains reg where "transition_at (sg_registry s) (cloid_string c) st t = Ok reg"
    "s' = s\<lparr>sg_registry := reg, sg_clock := sg_clock s + 1, sg_disk := reg\<rparr>"
  using assms by (auto simp: transition_and_persist_def outcome_simps)

lemma transition_entry:
  assumes "transition_at reg c st t = Ok reg'" "bget (submissions reg) c = Some (i, s0)"
  shows "bget (submissions reg') c = Some (i, st)"
  using assms(1) by (cases rule: transition_at_cases) (use assms(2) in auto)

lemma transition_nonce:
  assumes "transition_at reg c st t = Ok reg'" "bget (submissions reg) c = Some (i, s0)" "s0 \<noteq> st" "state_nonce st = Some n"
  shows "n \<in> set (history_nonces reg')"
  using assms(1) by (cases rule: transition_at_cases) (use assms(2-4) in \<open>auto simp: history_nonces_def map_filter_simps List.map_filter_def\<close>)

lemma take_nonce_Ok [outcome_simps]:
  "take_nonce t s = (Ok n, s') \<longleftrightarrow> n = max (sg_nonce s) t \<and> n + 1 < 2 ^ 64 \<and> s' = s\<lparr>sg_nonce := n + 1\<rparr>"
  by (auto simp: take_nonce_def Let_def checked_add_nat_def)

text \<open>A signer that is ready has no unknown result, and of what it sent nothing is still being submitted.\<close>

definition ready_inv :: "signing_state \<Rightarrow> bool" where
  "ready_inv s = (sg_reconciled s \<longrightarrow> (\<forall>c i st. bget (submissions (sg_registry s)) c = Some (i, st) \<and> doubtful st
     \<longrightarrow> \<not> is_unknown_result st \<and> c \<notin> cloid_string ` rq_cloid ` set (sg_sent s)))"

interpretation ready: registry_invariant ready_inv calm
proof
  fix s reg assume "ready_inv s" "calm (sg_registry s) reg"
  then show "ready_inv (s\<lparr>sg_registry := reg\<rparr>)" unfolding ready_inv_def calm_def by simp blast
qed (auto simp: ready_inv_def intro: calm_admit calm_confirm calm_transition)

section \<open>Hexadecimal keys\<close>

lemma lower_hex_pair:
  assumes "c \<in> set ''0123456789abcdef''" "d \<in> set ''0123456789abcdef''"
  shows "\<exists>b. u8_from_hex c d = Some b \<and> hex_pair b = [c, d]"
proof -
  have "\<forall>c \<in> set ''0123456789abcdef''. \<forall>d \<in> set ''0123456789abcdef''.
      (case u8_from_hex c d of None \<Rightarrow> False | Some b \<Rightarrow> hex_pair b = [c, d])" by code_simp
  with assms show ?thesis by (fastforce split: option.splits)
qed

lemma decode_lower_hex: "decode_pairs s = Some bs \<Longrightarrow> is_lower_hex s \<Longrightarrow> concat (map hex_pair bs) = s"
proof (induction s arbitrary: bs rule: decode_pairs.induct)
  case (3 c d s)
  have cd: "c \<in> set ''0123456789abcdef''" "d \<in> set ''0123456789abcdef''" "is_lower_hex s"
    using "3.prems"(2) by (simp_all add: is_lower_hex_def)
  obtain b where b: "u8_from_hex c d = Some b" "hex_pair b = [c, d]" using lower_hex_pair [OF cd(1,2)] by blast
  with "3.prems"(1) obtain bs' where "decode_pairs s = Some bs'" "bs = b # bs'" by (auto split: option.splits)
  with "3.IH" cd(3) b show ?case by simp
qed simp_all

lemma decode_valid_cloid:
  assumes "decode_planned_cloid key = Ok c" "valid_cloid key"
  shows "cloid_string c = key"
proof -
  from assms(2) have k: "key = ''0x'' @ drop 2 key" "is_lower_hex (drop 2 key)"
    unfolding valid_cloid_def by (metis append_take_drop_id)+
  have "strip_0x key = drop 2 key" using assms(2) by (simp add: strip_0x_def valid_cloid_def)
  with assms(1) have "decode_pairs (drop 2 key) = Some c"
    by (auto simp: decode_planned_cloid_def decode_hex_def outcome_simps)
  from decode_lower_hex [OF this k(2)] k(1) show ?thesis by (simp add: cloid_string_def hex_bytes_pairs)
qed

section \<open>What a reconciliation leaves\<close>

definition only_changes :: "string \<Rightarrow> signing_state \<Rightarrow> signing_state \<Rightarrow> bool" where
  "only_changes key s s' = (\<forall>k. k \<noteq> key \<longrightarrow> bget (submissions (sg_registry s')) k = bget (submissions (sg_registry s)) k)"

lemma transition_changes:
  assumes "transition_at reg c st t = Ok reg'"
  shows "(\<exists>i. bget (submissions reg') c = Some (i, st)) \<and> (\<forall>k. k \<noteq> c \<longrightarrow> bget (submissions reg') k = bget (submissions reg) k)"
  using assms by (cases rule: transition_at_cases) auto

lemma transition_and_persist_changes:
  assumes "transition_and_persist E c st t s = (Ok u, s')"
  shows "(\<exists>i. bget (submissions (sg_registry s')) (cloid_string c) = Some (i, st)) \<and> only_changes (cloid_string c) s s'"
  using transition_and_persist_Ok [OF assms] transition_changes by (metis only_changes_def signing_state.select_convs(2)
      signing_state.surjective signing_state.update_convs(2,8,10))

lemma on_registry_value_Ok [outcome_simps]:
  "on_registry_value f s = (Ok x, s') \<longleftrightarrow> (\<exists>reg. f (sg_registry s) = Ok (x, reg) \<and> s' = s\<lparr>sg_registry := reg\<rparr>)"
  by (auto simp: on_registry_value_def split: outcome.splits)

lemma confirm_missing_Ok:
  assumes "confirm_missing E key t required interval s = (Ok st, s')"
  shows "(\<not> doubtful st \<or> is_unknown_result st) \<and> (\<exists>i. bget (submissions (sg_registry s')) key = Some (i, st))
    \<and> only_changes key s s'"
proof -
  from assms obtain d reg where c: "confirm_submission_not_found (sg_registry s) key t required interval = Ok (d, reg)"
    and s': "sg_registry s' = reg"
    and st: "if d then st = ReconciledNotFound else submission_state_of reg key = Some st"
    unfolding confirm_missing_def act_bind_Ok act_simps
    by (auto simp: outcome_simps split: if_splits)
  show ?thesis
    using c by (cases rule: confirm_cases)
      (use st in \<open>auto simp: s' only_changes_def submission_state_of_def split: if_splits\<close>)
qed

lemma observed_settled: "observed_state A ob = Ok st \<Longrightarrow> \<not> doubtful st"
  by (cases ob) (auto simp: observed_state_def outcome_simps split: if_splits)

lemma ask_exchange_Ok [outcome_simps]:
  "ask_exchange P f s = (Ok x, s') \<longleftrightarrow> f (sg_clock s) = Ok x \<and> s' = s\<lparr>sg_clock := sg_clock s + 1\<rparr>"
  by (auto simp: ask_exchange_def act_bind_def ask_def outcome_simps split: outcome.splits)

lemma reconcile_unknown_Ok:
  assumes "reconcile_unknown P E c t required interval s = (Ok st, s')"
  shows "(\<not> doubtful st \<or> is_unknown_result st) \<and> (\<exists>i. bget (submissions (sg_registry s')) (cloid_string c) = Some (i, st))
    \<and> only_changes (cloid_string c) s s'"
proof -
  from assms obtain ob s1 where s1: "s1 = s\<lparr>sg_clock := sg_clock s + 1\<rparr>"
    and r: "(if ob = ObservedNotFound then confirm_missing E (cloid_string c) t required interval
      else act_bind (act_try (observed_state (pf_arith P) ob)) (\<lambda>st.
        act_bind (transition_and_persist E c st t) (\<lambda>_. act_return st))) s1 = (Ok st, s')"
    unfolding reconcile_unknown_def act_bind_Ok ask_exchange_Ok by blast
  have same: "only_changes k s1 s' \<Longrightarrow> only_changes k s s'" for k by (simp add: only_changes_def s1)
  show ?thesis
  proof (cases "ob = ObservedNotFound")
    case True
    with r confirm_missing_Ok [of E "cloid_string c" t required interval s1 st s'] same show ?thesis by simp
  next
    case False
    with r have o: "observed_state (pf_arith P) ob = Ok st" and "transition_and_persist E c st t s1 = (Ok (), s')"
      by (auto simp: act_bind_Ok)
    with transition_and_persist_changes [OF this(2)] observed_settled [OF o] same show ?thesis by blast
  qed
qed

lemma resolve_Ok:
  assumes "resolve P E key now required interval accepted s = (Ok u, s')" and "valid_cloid key"
    and "\<And>st. accepted st \<Longrightarrow> \<not> is_unknown_result st"
  shows "(\<exists>i st. bget (submissions (sg_registry s')) key = Some (i, st) \<and> \<not> doubtful st) \<and> only_changes key s s'"
proof -
  from assms(1) obtain c st where d: "decode_planned_cloid key = Ok c"
    and r: "reconcile_unknown P E c now required interval s = (Ok st, s')" and a: "accepted st"
    by (auto simp: resolve_def act_bind_Ok fail_if_Ok)
  show ?thesis
    using reconcile_unknown_Ok [OF r] decode_valid_cloid [OF d assms(2)] assms(3) [OF a] by blast
qed

lemma seen_settled: "seen_on_exchange st \<Longrightarrow> \<not> is_unknown_result st"
  by (cases st) simp_all

lemma startup_entry_Ok:
  assumes "startup_entry P E now required interval (key, st) s = (Ok u, s')" and "valid_cloid key"
    and "bget (submissions (sg_registry s)) key = Some (i, st)"
  shows "(\<exists>i st. bget (submissions (sg_registry s')) key = Some (i, st) \<and> \<not> doubtful st) \<and> only_changes key s s'"
proof -
  have step: "(\<exists>i. bget (submissions (sg_registry s1)) key = Some (i, t)) \<and> only_changes key s s1"
    if "act_bind (on_registry (\<lambda>reg. transition_at reg key t now)) (\<lambda>_. persist E) s = (Ok u, s1)" for t u s1
    using that transition_changes by (auto simp: act_bind_Ok outcome_simps only_changes_def)
  have trans: "only_changes key s s1 \<Longrightarrow> only_changes key s1 s2 \<Longrightarrow> only_changes key s s2" for s1 s2
    by (simp add: only_changes_def)
  show ?thesis
  proof (cases st)
    case (SubmissionStarted n)
    with assms(1) obtain s1 where s1: "act_bind (on_registry (\<lambda>reg. transition_at reg key (UnknownResult n) now)) (\<lambda>_. persist E) s = (Ok (), s1)"
      "resolve P E key now required interval (\<lambda>st. \<not> is_unknown_result st) s1 = (Ok u, s')"
      by (auto simp: startup_entry_def act_bind_Ok)
    from resolve_Ok [OF s1(2) assms(2)] step [OF s1(1)] trans show ?thesis by blast
  next
    case (UnknownResult n)
    with assms(1) have "resolve P E key now required interval (\<lambda>st. \<not> is_unknown_result st) s = (Ok u, s')"
      by (simp add: startup_entry_def)
    from resolve_Ok [OF this assms(2)] show ?thesis by blast
  next
    case (Acknowledged o')
    with assms(1) have "resolve P E key now required interval seen_on_exchange s = (Ok u, s')" by (simp add: startup_entry_def)
    from resolve_Ok [OF this assms(2) seen_settled] show ?thesis .
  next
    case (PartiallyFilled o' f)
    with assms(1) have "resolve P E key now required interval seen_on_exchange s = (Ok u, s')" by (simp add: startup_entry_def)
    from resolve_Ok [OF this assms(2) seen_settled] show ?thesis .
  qed (use assms(1,3) step in \<open>fastforce simp: startup_entry_def only_changes_def\<close>)+
qed

lemma startup_entries_Ok:
  assumes "act_each (startup_entry P E now required interval) es s = (Ok u, s')"
    and "\<forall>(key, st) \<in> set es. valid_cloid key \<and> (\<exists>i. bget (submissions (sg_registry s)) key = Some (i, st))"
    and "distinct (map fst es)"
  shows "(\<forall>key \<in> set (map fst es). \<exists>i st. bget (submissions (sg_registry s')) key = Some (i, st) \<and> \<not> doubtful st)
    \<and> (\<forall>key. key \<notin> set (map fst es) \<longrightarrow> bget (submissions (sg_registry s')) key = bget (submissions (sg_registry s)) key)"
  using assms
proof (induction es arbitrary: s)
  case (Cons e es)
  obtain key st where e: "e = (key, st)" by (cases e)
  from Cons.prems(1) obtain s1 where one: "startup_entry P E now required interval (key, st) s = (Ok (), s1)"
    and more: "act_each (startup_entry P E now required interval) es s1 = (Ok u, s')"
    by (auto simp: e act_bind_Ok)
  obtain i where i: "valid_cloid key" "bget (submissions (sg_registry s)) key = Some (i, st)"
    using Cons.prems(2) by (auto simp: e)
  note S = startup_entry_Ok [OF one i]
  have "valid_cloid k \<and> (\<exists>i. bget (submissions (sg_registry s1)) k = Some (i, t))" if kt: "(k, t) \<in> set es" for k t
  proof -
    have "k \<noteq> key" using Cons.prems(3) kt by (force simp: e)
    then have "bget (submissions (sg_registry s1)) k = bget (submissions (sg_registry s)) k"
      using S by (simp add: only_changes_def)
    then show ?thesis using Cons.prems(2) kt by (simp add: e) blast
  qed
  then have "\<forall>(k, t) \<in> set es. valid_cloid k \<and> (\<exists>i. bget (submissions (sg_registry s1)) k = Some (i, t))" by blast
  note I = Cons.IH [OF more this]
  have d: "key \<notin> set (map fst es)" "distinct (map fst es)" using Cons.prems(3) by (simp_all add: e)
  note I = I [OF d(2)]
  show ?case
  proof (intro conjI ballI allI impI)
    fix k assume "k \<in> set (map fst (e # es))"
    then consider "k = key" | "k \<in> set (map fst es)" by (auto simp: e)
    then show "\<exists>i st. bget (submissions (sg_registry s')) k = Some (i, st) \<and> \<not> doubtful st"
    proof cases
      case 1
      then show ?thesis using I S d(1) by simp
    next
      case 2
      then show ?thesis using I by blast
    qed
  next
    fix k assume "k \<notin> set (map fst (e # es))"
    then show "bget (submissions (sg_registry s')) k = bget (submissions (sg_registry s)) k"
      using I S by (simp add: e only_changes_def)
  qed
qed simp

section \<open>The hand-over of a request\<close>

text \<open>What holds when a request has been prepared.\<close>

lemma submit_prepare_Ok:
  assumes "submit_prepare P E i t s = (Ok r, s')"
  obtains st where "sg_reconciled s" "bget (submissions (sg_registry s)) (cloid_string (ai_planned_cloid i)) = Some (durable_intent i, st)"
    "\<not> started st" "bget (submissions (sg_registry s')) (cloid_string (ai_planned_cloid i)) = Some (durable_intent i, SubmissionStarted (rq_nonce r))"
    "sg_disk s' = sg_registry s'" "rq_nonce r \<in> set (history_nonces (sg_registry s'))"
    "rq_cloid r = ai_planned_cloid i" "carries r (durable_intent i)" "sg_nonce s \<le> rq_nonce r" "sg_nonce s' = rq_nonce r + 1"
    "sg_sent s' = sg_sent s" "registry_grows (sg_registry s) (sg_registry s')"
proof -
  let ?c = "cloid_string (ai_planned_cloid i)"
  from assms obtain p n s1 s2 s3 where a: "sg_reconciled s" "approved_intent (sg_registry s) ?c = Ok p" "p = durable_intent i"
    and n: "take_nonce t s = (Ok n, s1)"
    and t1: "transition_and_persist E (ai_planned_cloid i) (NonceAllocated n) t s1 = (Ok (), s2)"
    and r: "sign_ioc P i n = Ok r"
    and t2: "transition_and_persist E (ai_planned_cloid i) (Signed n) t s2 = (Ok (), s3)"
    and t3: "transition_and_persist E (ai_planned_cloid i) (SubmissionStarted n) t s3 = (Ok (), s')"
    unfolding submit_prepare_def act_bind_Ok act_simps by (auto simp: fail_if_Ok)
  have s1: "s1 = s\<lparr>sg_nonce := n + 1\<rparr>" "n = max (sg_nonce s) t" using n by (simp_all add: take_nonce_Ok)
  obtain st where st: "bget (submissions (sg_registry s)) ?c = Some (durable_intent i, st)" "\<not> started st"
    using a(2,3) by (auto simp: approved_intent_def outcome_simps)
  obtain r1 where r1: "transition_at (sg_registry s) ?c (NonceAllocated n) t = Ok r1"
    "s2 = s1\<lparr>sg_registry := r1, sg_clock := sg_clock s1 + 1, sg_disk := r1\<rparr>"
    using transition_and_persist_Ok [OF t1] s1 by auto
  obtain r2 where r2: "transition_at r1 ?c (Signed n) t = Ok r2"
    "s3 = s2\<lparr>sg_registry := r2, sg_clock := sg_clock s2 + 1, sg_disk := r2\<rparr>"
    using transition_and_persist_Ok [OF t2] r1(2) by auto
  obtain r3 where r3: "transition_at r2 ?c (SubmissionStarted n) t = Ok r3"
    "s' = s3\<lparr>sg_registry := r3, sg_clock := sg_clock s3 + 1, sg_disk := r3\<rparr>"
    using transition_and_persist_Ok [OF t3] r2(2) by auto
  have e1: "bget (submissions r1) ?c = Some (durable_intent i, NonceAllocated n)" using transition_entry [OF r1(1) st(1)] .
  have e2: "bget (submissions r2) ?c = Some (durable_intent i, Signed n)" using transition_entry [OF r2(1) e1] .
  have e3: "bget (submissions r3) ?c = Some (durable_intent i, SubmissionStarted n)" using transition_entry [OF r3(1) e2] .
  have hn: "n \<in> set (history_nonces r3)" by (rule transition_nonce [OF r3(1) e2]) simp_all
  have g: "registry_grows (sg_registry s) r3"
    using registry_grows_trans [OF transition_grows [OF r1(1)] registry_grows_trans [OF transition_grows [OF r2(1)] transition_grows [OF r3(1)]]] .
  have q: "rq_nonce r = n" "rq_cloid r = ai_planned_cloid i" "carries r (durable_intent i)"
    using r by (auto simp: sign_ioc_def outcome_simps carries_def durable_intent_def)
  show ?thesis
    using a(1) st(1,2) e3 hn q s1 r1(2) r2(2) r3(2) g by (intro that [of st]) simp_all
qed

text \<open>The readiness invariant while an order that has not been sent is brought to its submission.\<close>

definition ready_beside :: "string \<Rightarrow> signing_state \<Rightarrow> bool" where
  "ready_beside c s = (ready_inv s \<and> c \<notin> cloid_string ` rq_cloid ` set (sg_sent s))"

interpretation ready_beside: registry_invariant "ready_beside c" calm for c
  by unfold_locales (auto simp: ready_beside_def ready.clock ready.disk ready.change intro: calm_admit calm_confirm calm_transition)

lemma ready_beside_nonce: "ready_beside c s \<Longrightarrow> ready_beside c (s\<lparr>sg_nonce := n\<rparr>)"
  by (auto simp: ready_beside_def ready_inv_def)

lemma ready_beside_start:
  "act_keeps (ready_beside (cloid_string c)) (transition_and_persist E c (SubmissionStarted n) t)"
  unfolding transition_and_persist_def
proof (intro keeps_intro ready_beside.keeps_external keeps_on_registry)
  fix s reg assume "ready_beside (cloid_string c) s" "transition_at (sg_registry s) (cloid_string c) (SubmissionStarted n) t = Ok reg"
  then have ri: "ready_inv s" and fresh: "cloid_string c \<notin> cloid_string ` rq_cloid ` set (sg_sent s)"
    and new: "\<exists>i. bget (submissions reg) (cloid_string c) = Some (i, SubmissionStarted n)"
    and same: "\<forall>k. k \<noteq> cloid_string c \<longrightarrow> bget (submissions reg) k = bget (submissions (sg_registry s)) k"
    using transition_changes by (auto simp: ready_beside_def)
  have "\<not> is_unknown_result st \<and> k \<notin> cloid_string ` rq_cloid ` set (sg_sent s)"
    if "sg_reconciled s" "bget (submissions reg) k = Some (i, st)" "doubtful st" for k i st
  proof (cases "k = cloid_string c")
    case True
    then show ?thesis using new fresh that(2) by auto
  next
    case False
    then have "bget (submissions (sg_registry s)) k = Some (i, st)" using same that(2) by simp
    then show ?thesis using ri that(1,3) unfolding ready_inv_def by blast
  qed
  then show "ready_beside (cloid_string c) (s\<lparr>sg_registry := reg\<rparr>)"
    using fresh unfolding ready_beside_def ready_inv_def by simp blast
qed

lemma ready_beside_prepare:
  "act_keeps (ready_beside (cloid_string (ai_planned_cloid i))) (submit_prepare P E i t)"
proof -
  have "act_keeps (ready_beside c) (take_nonce t)" for c
    by (auto simp: act_keeps_def take_nonce_def Let_def ready_beside_nonce split: option.split)
  then show ?thesis unfolding submit_prepare_def
    by (intro keeps_intro ready_beside.keeps_settle ready_beside_start) simp_all
qed

lemma ready_prepare:
  assumes "signing_inv s" "ready_inv s"
  shows "ready_inv (snd (submit_prepare P E i t s))"
proof (cases "cloid_string (ai_planned_cloid i) \<in> cloid_string ` rq_cloid ` set (sg_sent s)")
  case False
  then have "ready_beside (cloid_string (ai_planned_cloid i)) s" using assms(2) by (simp add: ready_beside_def)
  from act_keepsD [OF ready_beside_prepare this] show ?thesis by (simp add: ready_beside_def)
next
  case True
  then obtain j st where j: "bget (submissions (sg_registry s)) (cloid_string (ai_planned_cloid i)) = Some (j, st)" "started st"
    using assms(1) unfolding signing_inv_def registry_holds_def sent_in_def by force
  have "\<not> (\<exists>p. approved_intent (sg_registry s) (cloid_string (ai_planned_cloid i)) = Ok p)"
    using j by (auto simp: approved_intent_def outcome_simps)
  then have "snd (submit_prepare P E i t s) = s"
    by (auto simp: submit_prepare_def act_bind_def split: outcome.splits)
  with assms(2) show ?thesis by simp
qed


lemma keeps_begin:
  assumes inv: "signing_inv s" and ready: "ready_inv s"
  shows "signing_inv (snd (submit_begin P E i t s)) \<and> ready_inv (snd (submit_begin P E i t s))"
proof (cases rule: act_bind_cases [of "submit_prepare P E i t" s "\<lambda>request. act_bind (act_modify (hand_over request)) (\<lambda>_. act_return request)"])
  case (Ok r s1)
  have inv1: "signing_inv s1" using act_keepsD [OF sent.keeps_prepare inv, of P E i t] Ok(1) by simp
  let ?c = "cloid_string (ai_planned_cloid i)"
  obtain st where p: "sg_reconciled s" "bget (submissions (sg_registry s)) ?c = Some (durable_intent i, st)"
    "\<not> started st" "bget (submissions (sg_registry s1)) ?c = Some (durable_intent i, SubmissionStarted (rq_nonce r))"
    "sg_disk s1 = sg_registry s1" "rq_nonce r \<in> set (history_nonces (sg_registry s1))"
    "rq_cloid r = ai_planned_cloid i" "carries r (durable_intent i)" "sg_nonce s \<le> rq_nonce r" "sg_nonce s1 = rq_nonce r + 1"
    "sg_sent s1 = sg_sent s" "registry_grows (sg_registry s) (sg_registry s1)"
    using submit_prepare_Ok [OF Ok(1)] by metis
  have fresh: "rq_cloid r \<notin> set (map rq_cloid (sg_sent s))"
    using inv p(2,3,7) by (auto simp: signing_inv_def registry_holds_def sent_in_def)
  have old: "sent_in (sg_sent s) (sg_registry s1)" "keys_valid (sg_registry s1)"
    using inv1 p(11) by (simp_all add: signing_inv_def registry_holds_def)
  have "sent_in [r] (sg_registry s1)" using p(4,6,7,8) by (simp add: sent_in_def)
  with old(1) have new: "sent_in (sg_sent s @ [r]) (sg_registry s1)" unfolding sent_in_def by simp
  have "settled_in (sg_sent s) (sg_registry s)" unfolding settled_in_def
  proof
    fix q assume q: "q \<in> set (sg_sent s)"
    then obtain j st where j: "bget (submissions (sg_registry s)) (cloid_string (rq_cloid q)) = Some (j, st)" "started st"
      using inv unfolding signing_inv_def registry_holds_def sent_in_def by blast
    moreover have "\<not> doubtful st" using ready p(1) j(1) q unfolding ready_inv_def by blast
    ultimately show "\<exists>j st. bget (submissions (sg_registry s)) (cloid_string (rq_cloid q)) = Some (j, st) \<and> started st \<and> \<not> doubtful st"
      by blast
  qed
  then have settled: "settled_in (sg_sent s) (sg_registry s1)" using p(12) by (rule settled_in_grows)
  have below: "\<forall>q \<in> set (sg_sent s). rq_nonce q < rq_nonce r" using inv p(9) by (auto simp: signing_inv_def)
  have ord: "distinct (map rq_cloid (sg_sent s))" "sorted_wrt (<) (map rq_nonce (sg_sent s))"
    using inv by (simp_all add: signing_inv_def)
  have "signing_inv (hand_over r s1)"
    using new settled old(2) below ord fresh p(5,10,11)
    by (auto simp: signing_inv_def registry_holds_def hand_over_def sorted_wrt_append less_Suc_eq)
  moreover have "ready_inv (hand_over r s1)" by (simp add: ready_inv_def hand_over_def)
  ultimately show ?thesis using Ok(2) by (simp add: submit_begin_def act_bind_def)
next
  case (Err e s1)
  then show ?thesis
    using act_keepsD [OF sent.keeps_prepare inv, of P E i t] ready_prepare [OF inv ready, of P E i t] by (simp add: submit_begin_def)
next
  case (Panic s1)
  then show ?thesis
    using act_keepsD [OF sent.keeps_prepare inv, of P E i t] ready_prepare [OF inv ready, of P E i t] by (simp add: submit_begin_def)
qed

text \<open>The answer to a request that was sent puts no settled order back in doubt.\<close>

definition ready_after :: "string \<Rightarrow> signing_state \<Rightarrow> bool" where
  "ready_after c s = (ready_inv s \<and> (sg_reconciled s \<longrightarrow>
     (\<exists>i st. bget (submissions (sg_registry s)) c = Some (i, st) \<and> started st \<and> \<not> doubtful st)))"

lemma ready_after_settle: "act_keeps (ready_after (cloid_string c)) (transition_and_persist E c st t)"
  unfolding transition_and_persist_def
proof (intro keeps_intro keeps_on_registry keeps_persist)
  fix s reg assume r: "ready_after (cloid_string c) s" and t: "transition_at (sg_registry s) (cloid_string c) st t = Ok reg"
  show "ready_after (cloid_string c) (s\<lparr>sg_registry := reg\<rparr>)"
  proof (cases "sg_reconciled s")
    case True
    then obtain i s0 where s0: "bget (submissions (sg_registry s)) (cloid_string c) = Some (i, s0)" "started s0" "\<not> doubtful s0"
      using r unfolding ready_after_def by blast
    have g: "registry_grows (sg_registry s) reg" using t by (rule transition_grows)
    have e: "bget (submissions reg) (cloid_string c) = Some (i, st)" using transition_entry [OF t s0(1)] .
    then have st: "started st" "\<not> doubtful st" using g s0 unfolding registry_grows_def by (metis option.inject prod.inject)+
    then have "ready_inv (s\<lparr>sg_registry := reg\<rparr>)"
      using r ready.change [OF _ calm_transition [OF t]] by (simp add: ready_after_def)
    with e st show ?thesis by (simp add: ready_after_def)
  qed (simp add: ready_after_def ready_inv_def)
qed (auto simp: ready_after_def ready_inv_def)

lemma ready_finish:
  assumes inv: "signing_inv s" and ready: "ready_inv s" and q: "q \<in> set (sg_sent s)"
  shows "ready_inv (snd (submit_finish E (rq_cloid q) n t response s))"
proof -
  obtain i st where i: "bget (submissions (sg_registry s)) (cloid_string (rq_cloid q)) = Some (i, st)" "started st"
    using inv q unfolding signing_inv_def registry_holds_def sent_in_def by blast
  moreover have "sg_reconciled s \<longrightarrow> \<not> doubtful st" using ready q i(1) unfolding ready_inv_def by blast
  ultimately have "ready_after (cloid_string (rq_cloid q)) s" using ready unfolding ready_after_def by blast
  moreover have "act_keeps (ready_after (cloid_string (rq_cloid q))) (submit_finish E (rq_cloid q) n t response)"
    unfolding submit_finish_def Let_def
    by (auto split: outcome.split submission_response.split submission_transport_error.split
        intro!: keeps_intro ready_after_settle)
  ultimately show ?thesis using act_keepsD [of "ready_after (cloid_string (rq_cloid q))"] unfolding ready_after_def by blast
qed

section \<open>A startup reconciliation\<close>

interpretation unready: signing_invariant "\<lambda>s. \<not> sg_reconciled s" "\<lambda>_ _. True"
  by unfold_locales simp_all

lemma startup_Ok:
  assumes "reconcile_startup P E now required interval s = (Ok applied, s')" and inv: "signing_inv s"
  shows "sg_reconciled s' \<and> (\<forall>c i st. bget (submissions (sg_registry s')) c = Some (i, st) \<longrightarrow> \<not> doubtful st)"
proof -
  from assms(1) obtain s1 s2 where s1: "startup_sync P E now (s\<lparr>sg_reconciled := False\<rparr>) = (Ok applied, s1)"
    and s2: "startup_orders P E now required interval s1 = (Ok (), s2)" and s': "s' = s2\<lparr>sg_reconciled := True\<rparr>"
    unfolding reconcile_startup_def by (auto simp: act_bind_Ok)
  have "signing_inv (s\<lparr>sg_reconciled := False\<rparr>)" using inv by (simp add: signing_inv_def registry_holds_def)
  from act_keepsD [OF sent.keeps_sync this, of P E now] have "keys_valid (sg_registry s1)"
    by (simp add: s1 signing_inv_def registry_holds_def)
  then have keys: "\<forall>(key, st) \<in> set (startup_entries s1). valid_cloid key
      \<and> (\<exists>i. bget (submissions (sg_registry s1)) key = Some (i, st))"
    by (auto simp: startup_entries_def keys_valid_def bhas_def entries_get)
  have d: "distinct (map fst (startup_entries s1))" by (simp add: startup_entries_def comp_def bm.distinct_keys)
  from s2 have "act_each (startup_entry P E now required interval) (startup_entries s1) s1 = (Ok (), s2)"
    by (auto simp: startup_orders_def act_bind_Ok)
  note R = startup_entries_Ok [OF this keys d]
  have "\<not> doubtful st" if "bget (submissions (sg_registry s2)) c = Some (i, st)" for c i st
  proof (cases "c \<in> set (map fst (startup_entries s1))")
    case True
    with R that show ?thesis by fastforce
  next
    case False
    with R that have "bget (submissions (sg_registry s1)) c = Some (i, st)" by metis
    then have "(c, i, st) \<in> set (entries (submissions (sg_registry s1)))" by (simp add: entries_get)
    then have "(c, st) \<in> set (startup_entries s1)" by (force simp: startup_entries_def)
    then have "c \<in> set (map fst (startup_entries s1))" by force
    with False show ?thesis by blast
  qed
  then show ?thesis by (simp add: s')
qed

lemma ready_startup:
  assumes "signing_inv s"
  shows "ready_inv (snd (reconcile_startup P E now required interval s))"
proof (cases "\<exists>x s'. reconcile_startup P E now required interval s = (Ok x, s')")
  case True
  then obtain x s' where "reconcile_startup P E now required interval s = (Ok x, s')" by blast
  with startup_Ok [OF this assms] show ?thesis by (simp add: ready_inv_def) blast
next
  case False
  let ?s = "s\<lparr>sg_reconciled := False\<rparr>"
  let ?m = "act_bind (startup_sync P E now) (\<lambda>applied. act_bind (startup_orders P E now required interval) (\<lambda>_. act_return applied))"
  have "act_keeps (\<lambda>s. \<not> sg_reconciled s) ?m" by (intro keeps_intro unready.keeps_sync unready.keeps_orders)
  then have "\<not> sg_reconciled (snd (?m ?s))" unfolding act_keeps_def by simp
  moreover have "snd (reconcile_startup P E now required interval s) = snd (?m ?s)"
    using False by (auto simp: reconcile_startup_def act_bind_def split: prod.splits outcome.splits)
  ultimately show ?thesis by (simp add: ready_inv_def)
qed

end
