(* ===== verification/Signing_Runs.thy ===== *)
theory Signing_Runs
  imports Production
begin

text \<open>
  Runs of the production signer: its calls in any order, with answers that come late, twice or never and
  restarts from the registry file, and what holds of every state they reach.
\<close>

section \<open>Runs\<close>

text \<open>
  The calls of the signer in any order: the two sections of a submission apart, with the answer to the
  k-th request arriving late, twice or never, and restarts from the file at any point (a restart that is
  refused leaves the state). The transport's answers to everything else come from the environment, in which
  time also passes when others call it.
\<close>

datatype signing_op =
    CallAuthorize authorized_intent nat
  | BeginSubmit authorized_intent nat
  | FinishSubmit nat nat "(submission_response, submission_transport_error) outcome"
  | CallReconcile planned_cloid nat nat nat
  | CallStartup nat nat nat
  | Restart nat live_trading_state
  | ExternalCall

definition restart :: "nat \<Rightarrow> live_trading_state \<Rightarrow> signing_state \<Rightarrow> signing_state signer" where
  "restart initial_nonce live s =
    and_then (restore_check (sg_disk s)) (\<lambda>reg.
    and_then (new_signer reg initial_nonce (sg_risk_policy_hash s) (sg_configuration_hash s) (sg_manifest_hash s) live) (\<lambda>s'.
    Ok (s'\<lparr>sg_sent := sg_sent s, sg_clock := sg_clock s\<rparr>)))"

fun signing_exec :: "platform \<Rightarrow> environment \<Rightarrow> signing_op \<Rightarrow> signing_state \<Rightarrow> signing_state" where
  "signing_exec P E (CallAuthorize i t) s = snd (authorize P E i t s)"
| "signing_exec P E (BeginSubmit i t) s = snd (submit_begin P E i t s)"
| "signing_exec P E (FinishSubmit k t r) s = (if k < length (sg_sent s)
     then let q = sg_sent s ! k in snd (submit_finish E (rq_cloid q) (rq_nonce q) t r s) else s)"
| "signing_exec P E (CallReconcile c t k w) s = snd (reconcile_unknown P E c t k w s)"
| "signing_exec P E (CallStartup t k w) s = snd (reconcile_startup P E t k w s)"
| "signing_exec P E (Restart n live) s = (case restart n live s of Ok s' \<Rightarrow> s' | _ \<Rightarrow> s)"
| "signing_exec P E ExternalCall s = s\<lparr>sg_clock := sg_clock s + 1\<rparr>"

definition signer_ok :: "signing_state \<Rightarrow> bool" where
  "signer_ok s = (signing_inv s \<and> ready_inv s)"

lemma restore_check_same: "restore_check reg = Ok reg' \<Longrightarrow> reg' = reg"
  by (auto simp: restore_check_def outcome_simps)

lemma restore_check_keys: "restore_check reg = Ok reg' \<Longrightarrow> keys_valid reg"
proof -
  assume "restore_check reg = Ok reg'"
  then have c: "check_all restore_entry (entries (submissions reg)) = Ok ()" by (auto simp: restore_check_def outcome_simps)
  have "valid_cloid k" if k: "bhas (submissions reg) k" for k
  proof -
    obtain e where "bget (submissions reg) k = Some e" using k by (auto simp: bhas_def)
    then have "(k, e) \<in> set (entries (submissions reg))" by (simp add: entries_get)
    with c have "restore_entry (k, e) = Ok ()" by (simp add: check_all_Ok)
    then show ?thesis by (auto simp: restore_entry_def validate_intent_def outcome_simps)
  qed
  then show ?thesis by (simp add: keys_valid_def)
qed

lemma nonce_floor_above:
  assumes "next_nonce_floor reg = Ok lowest" "n \<in> set (history_nonces reg)"
  shows "n < lowest"
proof (cases "max_by cmp (history_nonces reg)")
  case None
  with assms(2) show ?thesis by simp
next
  case (Some m)
  then have "n \<le> m" using max_by_cmp assms(2) by blast
  with Some assms(1) show ?thesis by (auto simp: next_nonce_floor_def checked_add_nat_Some outcome_simps)
qed

lemma restart_ok:
  assumes "signer_ok s" "restart n live s = Ok s'"
  shows "signer_ok s'"
proof -
  obtain lowest where l: "next_nonce_floor (sg_disk s) = Ok lowest"
    and s': "s' = \<lparr>sg_nonce = max n lowest, sg_registry = sg_disk s, sg_reconciled = False,
      sg_risk_policy_hash = sg_risk_policy_hash s, sg_configuration_hash = sg_configuration_hash s,
      sg_manifest_hash = sg_manifest_hash s, sg_live = live, sg_disk = sg_disk s, sg_sent = sg_sent s, sg_clock = sg_clock s\<rparr>"
    using assms(2) by (auto simp: restart_def new_signer_def outcome_simps dest!: restore_check_same)
  have "rq_nonce r < lowest" if "r \<in> set (sg_sent s)" for r
    using nonce_floor_above [OF l] assms(1) that unfolding signer_ok_def signing_inv_def registry_holds_def sent_in_def by blast
  then have "\<forall>r \<in> set (sg_sent s). rq_nonce r < max n lowest" by (simp add: less_max_iff_disj)
  with assms(1) show ?thesis by (simp add: s' signer_ok_def signing_inv_def registry_holds_def ready_inv_def)
qed

interpretation signing: machine "signing_exec P E" signer_ok for P E
proof
  fix s op assume ok: "signer_ok s"
  then have inv: "signing_inv s" and ready: "ready_inv s" by (simp_all add: signer_ok_def)
  have flag: "signing_inv (s\<lparr>sg_reconciled := b\<rparr>)" if "signing_inv s" for s b
    using that by (simp add: signing_inv_def registry_holds_def)
  show "signer_ok (signing_exec P E op s)"
  proof (cases op)
    case (CallAuthorize i t)
    then show ?thesis
      using act_keepsD [OF sent.keeps_authorize inv] act_keepsD [OF ready.keeps_authorize ready] by (simp add: signer_ok_def)
  next
    case (BeginSubmit i t)
    then show ?thesis using keeps_begin [OF inv ready] by (simp add: signer_ok_def)
  next
    case (FinishSubmit k t r)
    then show ?thesis
      using ok act_keepsD [OF sent.keeps_finish inv] ready_finish [OF inv ready] by (simp add: signer_ok_def Let_def)
  next
    case (CallReconcile c t k w)
    then show ?thesis
      using act_keepsD [OF sent.keeps_reconcile inv] act_keepsD [OF ready.keeps_reconcile ready] by (simp add: signer_ok_def)
  next
    case (CallStartup t k w)
    then show ?thesis
      using act_keepsD [OF sent.keeps_startup [OF flag] inv] ready_startup [OF inv] by (simp add: signer_ok_def)
  next
    case (Restart n live)
    then show ?thesis using ok restart_ok by (simp split: outcome.split)
  next
    case ExternalCall
    then show ?thesis using sent.clock [OF inv] ready.clock [OF ready] by (simp add: signer_ok_def)
  qed
qed

lemma new_signer_ok:
  assumes "restore_check reg = Ok reg" "new_signer reg n risk config manifest live = Ok s"
  shows "signer_ok s"
  using assms(2) restore_check_keys [OF assms(1)]
  by (auto simp: new_signer_def outcome_simps signer_ok_def signing_inv_def registry_holds_def sent_in_def settled_in_def ready_inv_def)

section \<open>Properties\<close>

text \<open>
  C1. No order is sent twice and no nonce is used twice: whatever calls the signer serves, with whatever
  answers, disk failures and restarts in between, the requests handed to the transport carry pairwise
  different client order ids and strictly increasing nonces.
\<close>

theorem each_order_sent_once:
  assumes "restore_check reg = Ok reg" and "new_signer reg n risk config manifest live = Ok s0"
    and "s = fold (signing_exec P E) ops s0"
  shows "distinct (map rq_cloid (sg_sent s)) \<and> sorted_wrt (<) (map rq_nonce (sg_sent s))"
  using signing.invar_run [OF new_signer_ok [OF assms(1,2)], of P E ops]
  by (simp add: assms(3) signer_ok_def signing_inv_def)

text \<open>
  C2. What was sent is durable: the registry file and the registry in memory hold every request that was
  handed to the transport, under its client order id, as started, with its nonce in the history and with
  the asset, side, price, quantity and reduce-only flag that were sent; and only the last request may
  still be in doubt.
\<close>

theorem sent_orders_are_durable:
  assumes "restore_check reg = Ok reg" and "new_signer reg n risk config manifest live = Ok s0"
    and "s = fold (signing_exec P E) ops s0" and "r \<in> set (sg_sent s)" and "durable \<in> {sg_registry s, sg_disk s}"
  shows "\<exists>i st. bget (submissions durable) (cloid_string (rq_cloid r)) = Some (i, st) \<and> started st
    \<and> rq_nonce r \<in> set (history_nonces durable) \<and> carries r i \<and> (doubtful st \<longrightarrow> r = last (sg_sent s))"
proof -
  have "registry_holds s durable"
    using signing.invar_run [OF new_signer_ok [OF assms(1,2)], of P E ops] assms(3,5)
    by (auto simp: signer_ok_def signing_inv_def)
  then have h: "sent_in (sg_sent s) durable" "settled_in (butlast (sg_sent s)) durable" by (simp_all add: registry_holds_def)
  from h(1) assms(4) obtain i st where i: "bget (submissions durable) (cloid_string (rq_cloid r)) = Some (i, st)" "started st"
    "rq_nonce r \<in> set (history_nonces durable)" "carries r i" unfolding sent_in_def by blast
  have "r = last (sg_sent s)" if "doubtful st"
  proof (rule ccontr)
    assume "r \<noteq> last (sg_sent s)"
    then have "r \<in> set (butlast (sg_sent s))" using assms(4)
      by (metis append_butlast_last_id append_is_Nil_conv in_set_conv_decomp list.distinct(1) list.set_cases set_ConsD Un_iff set_append empty_iff list.set(1))
    then show False using h(2) i(1) that unfolding settled_in_def by auto
  qed
  with i show ?thesis by blast
qed

text \<open>
  C3. Readiness is sound: whenever the signer accepts work, no order is in the state of an unknown result and
  every request that was ever sent has a definite state.
\<close>

theorem ready_signer_has_no_doubtful_order:
  assumes "restore_check reg = Ok reg" and "new_signer reg n risk config manifest live = Ok s0"
    and "s = fold (signing_exec P E) ops s0" and "sg_reconciled s"
    and "bget (submissions (sg_registry s)) c = Some (i, st)"
  shows "\<not> is_unknown_result st \<and> (c \<in> cloid_string ` rq_cloid ` set (sg_sent s) \<longrightarrow> started st \<and> \<not> doubtful st)"
proof -
  have ok: "signing_inv s" "ready_inv s"
    using signing.invar_run [OF new_signer_ok [OF assms(1,2)], of P E ops] by (simp_all add: assms(3) signer_ok_def)
  have "started st" if "c \<in> cloid_string ` rq_cloid ` set (sg_sent s)"
    using ok(1) that assms(5) unfolding signing_inv_def registry_holds_def sent_in_def by force
  then show ?thesis using ok(2) assms(4,5) unknown_doubtful [of st] unfolding ready_inv_def by blast
qed

section \<open>A run\<close>

definition sample_platform :: platform where
  "sample_platform = \<lparr>pf_arith = exact_ops, pf_hash = toy_hash, pf_decimal_text = (\<lambda>_. ''1''),
     pf_encode_intent = sample_codec, pf_signature = (\<lambda>_ _. Ok [1]), pf_show_reconciliation = (\<lambda>_. ''error''),
     pf_show_ledger = (\<lambda>_. ''error''), pf_show_risk = (\<lambda>_. ''error'')\<rparr>"

definition quiet_exchange :: environment where
  "quiet_exchange = \<lparr>env_disk = (\<lambda>_. DiskWritten), env_submit = (\<lambda>_ _. Ok SubmissionAcknowledged),
     env_lookup = (\<lambda>_ _. Ok ObservedNotFound),
     env_fills = (\<lambda>_ cur. Ok \<lparr>ub_fills = [], ub_next_cursor = cur, ub_source_hash = []\<rparr>),
     env_funding = (\<lambda>_ cur. Ok \<lparr>fb_events = [], fb_next_cursor = cur, fb_source_hash = []\<rparr>),
     env_positions = (\<lambda>_. Ok \<lparr>ps_positions = bempty, ps_account_equity = 1000, ps_observed_at = 90, ps_source_hash = []\<rparr>),
     env_equity = (\<lambda>_. Ok \<lparr>es_equity = 1000, es_observed_at = 90, es_source_hash = []\<rparr>),
     env_ledger_save = (\<lambda>_. None)\<rparr>"

abbreviation sample_key :: string where
  "sample_key \<equiv> ''0x02020202020202020202020202020202''"

lemma sample_key_eq: "cloid_string (replicate 16 2) = sample_key"
  by code_simp

lemma sample_durable_key: "ei_cloid (durable_intent sample_envelope) = sample_key"
  by (simp add: durable_intent_def sample_envelope_def sample_key_eq [simplified])

lemma sample_durable_valid: "validate_intent (durable_intent sample_envelope) = Ok ()"
  by code_simp


definition authorized_registry :: submission_registry where
  "authorized_registry = \<lparr>submissions = binsert sample_key (durable_intent sample_envelope, Authorized) bempty,
     unknown_assets = bempty, not_found_confirmations = bempty, maximum_submissions = 10,
     history = [\<lparr>tr_cloid = sample_key, tr_state = Authorized, recorded_at_ms = 0\<rparr>]\<rparr>"

lemma authorized_registry_restores: "restore_check authorized_registry = Ok authorized_registry"
  by code_simp

definition fresh_live :: live_trading_state where
  "fresh_live = (case new_live_state 1000 5 of Ok s \<Rightarrow> s)"

definition fresh_signer :: signing_state where
  "fresh_signer = (case new_signer authorized_registry 1 (replicate 32 7) (replicate 32 8) (replicate 32 9) fresh_live of Ok s \<Rightarrow> s)"

lemma fresh_signer_eq:
  "new_signer authorized_registry 1 (replicate 32 7) (replicate 32 8) (replicate 32 9) fresh_live = Ok fresh_signer"
  by (simp add: fresh_signer_def new_signer_def next_nonce_floor_def history_nonces_def authorized_registry_def
      map_filter_simps)

lemma page_limit_Suc: obtains k where "PAGE_LIMIT = Suc k"
  by (cases PAGE_LIMIT) (simp_all add: PAGE_LIMIT_def)

lemma quiet_fields [simp]:
  "pf_arith sample_platform = exact_ops" "pf_hash sample_platform = toy_hash"
  "pf_show_ledger sample_platform = (\<lambda>_. ''error'')" "pf_show_reconciliation sample_platform = (\<lambda>_. ''error'')"
  "pf_decimal_text sample_platform = (\<lambda>_. ''1'')" "pf_signature sample_platform = (\<lambda>_ _. Ok [1])"
  "env_disk quiet_exchange = (\<lambda>_. DiskWritten)" "env_lookup quiet_exchange = (\<lambda>_ _. Ok ObservedNotFound)"
  "env_fills quiet_exchange = (\<lambda>_ cur. Ok \<lparr>ub_fills = [], ub_next_cursor = cur, ub_source_hash = []\<rparr>)"
  "env_funding quiet_exchange = (\<lambda>_ cur. Ok \<lparr>fb_events = [], fb_next_cursor = cur, fb_source_hash = []\<rparr>)"
  "env_positions quiet_exchange = (\<lambda>_. Ok \<lparr>ps_positions = bempty, ps_account_equity = 1000, ps_observed_at = 90, ps_source_hash = []\<rparr>)"
  "env_equity quiet_exchange = (\<lambda>_. Ok \<lparr>es_equity = 1000, es_observed_at = 90, es_source_hash = []\<rparr>)"
  "env_ledger_save quiet_exchange = (\<lambda>_. None)"
  by (simp_all add: quiet_exchange_def sample_platform_def)

lemmas quiet_simps = ask_exchange_def ask_def act_bind_def

lemma sample_batches:
  "\<exists>live. apply_authenticated_batches exact_ops toy_hash (\<lambda>_. ''error'') reg
      \<lparr>ub_fills = [], ub_next_cursor = \<lparr>start_time_ms = 101, end_time_ms = Some 100\<rparr>, ub_source_hash = []\<rparr>
      \<lparr>fb_events = [], fb_next_cursor = \<lparr>start_time_ms = 101, end_time_ms = Some 100\<rparr>, fb_source_hash = []\<rparr>
      1000 None fresh_live = Ok (\<lparr>ab_fills = [], ab_funding = []\<rparr>, live) \<and> live_positions live = bempty"
  by (simp add: apply_authenticated_batches_def Let_def batch_events_def ledger_step_def advance_fill_cursor_def
      advance_funding_cursor_def reconcile_equity_def fresh_live_def new_live_state_def fail_if_def)
    code_simp

lemma sample_sync:
  assumes "sg_live s = fresh_live"
  shows "\<exists>applied live n. startup_sync sample_platform quiet_exchange 100 s = (Ok applied, s\<lparr>sg_clock := n, sg_live := live\<rparr>)"
proof -
  obtain k where k: "PAGE_LIMIT = Suc k" by (rule page_limit_Suc)
  have c: "lt_fill_cursor fresh_live = 5" "lt_funding_cursor fresh_live = 5"
    by (simp_all add: fresh_live_def new_live_state_def fail_if_def)
  have f: "read_all_fills sample_platform quiet_exchange 5 100 s = (Ok \<lparr>ub_fills = [],
      ub_next_cursor = \<lparr>start_time_ms = 101, end_time_ms = Some 100\<rparr>, ub_source_hash = []\<rparr>, s\<lparr>sg_clock := sg_clock s + 1\<rparr>)" for s
    by (simp add: read_all_fills_def k Let_def quiet_simps saturating_add_def)
  have g: "read_all_funding sample_platform quiet_exchange 5 100 s = (Ok \<lparr>fb_events = [],
      fb_next_cursor = \<lparr>start_time_ms = 101, end_time_ms = Some 100\<rparr>, fb_source_hash = []\<rparr>, s\<lparr>sg_clock := sg_clock s + 1\<rparr>)" for s
    by (simp add: read_all_funding_def k Let_def quiet_simps saturating_add_def)
  obtain live where l: "apply_authenticated_batches exact_ops toy_hash (\<lambda>_. ''error'') (sg_registry s)
      \<lparr>ub_fills = [], ub_next_cursor = \<lparr>start_time_ms = 101, end_time_ms = Some 100\<rparr>, ub_source_hash = []\<rparr>
      \<lparr>fb_events = [], fb_next_cursor = \<lparr>start_time_ms = 101, end_time_ms = Some 100\<rparr>, fb_source_hash = []\<rparr>
      1000 None fresh_live = Ok (\<lparr>ab_fills = [], ab_funding = []\<rparr>, live)" "live_positions live = bempty"
    using sample_batches by blast
  show ?thesis unfolding startup_sync_def
    by (simp add: act_bind_def c assms f g l read_account_def apply_batches_to_live_def quiet_simps fail_if_def
        reconcile_positions_def ledger_step_def) blast
qed

lemma sample_fresh:
  "sg_live fresh_signer = fresh_live" "sg_registry fresh_signer = authorized_registry" "sg_nonce fresh_signer = 1"
  "sg_sent fresh_signer = []"
  by (simp_all add: fresh_signer_def new_signer_def next_nonce_floor_def history_nonces_def authorized_registry_def map_filter_simps)

definition parked_registry :: submission_registry where
  "parked_registry = \<lparr>submissions = binsert sample_key (durable_intent sample_envelope, AuthorizedNotSubmitted) bempty,
     unknown_assets = bempty, not_found_confirmations = bempty, maximum_submissions = 10,
     history = [\<lparr>tr_cloid = sample_key, tr_state = Authorized, recorded_at_ms = 0\<rparr>,
       \<lparr>tr_cloid = sample_key, tr_state = AuthorizedNotSubmitted, recorded_at_ms = 100\<rparr>]\<rparr>"

lemma sample_parks: "transition_at authorized_registry sample_key AuthorizedNotSubmitted 100 = Ok parked_registry"
  by code_simp

lemma sample_startup:
  "\<exists>applied s. reconcile_startup sample_platform quiet_exchange 100 2 1000 fresh_signer = (Ok applied, s)
     \<and> sg_reconciled s \<and> sg_registry s = parked_registry \<and> sg_sent s = [] \<and> sg_nonce s = 1"
proof -
  have live: "sg_live (fresh_signer\<lparr>sg_reconciled := False\<rparr>) = fresh_live" by (simp add: sample_fresh)
  obtain applied live n where s: "startup_sync sample_platform quiet_exchange 100 (fresh_signer\<lparr>sg_reconciled := False\<rparr>)
      = (Ok applied, fresh_signer\<lparr>sg_reconciled := False, sg_clock := n, sg_live := live\<rparr>)"
    using sample_sync [OF live] by blast
  have e: "startup_entries (fresh_signer\<lparr>sg_reconciled := False, sg_clock := n, sg_live := live\<rparr>) = [(sample_key, Authorized)]"
    by (simp add: startup_entries_def sample_fresh authorized_registry_def binsert.rep_eq bempty.rep_eq)
  show ?thesis
    by (simp add: reconcile_startup_def act_bind_def s startup_orders_def e startup_entry_def on_registry_def act_assign_def
        sample_fresh sample_parks persist_def ask_def)
qed

definition sample_handed :: ioc_request where
  "sample_handed = \<lparr>rq_asset_index = 0, rq_is_buy = True, rq_limit_price = Scaled 100 0, rq_quantity = Scaled 2 1,
     rq_reduce_only = False, rq_cloid = replicate 16 2, rq_nonce = 200, rq_signature = [1]\<rparr>"

lemma sample_transitions:
  "\<exists>r1 r2 r3. transition_at parked_registry sample_key (NonceAllocated 200) 200 = Ok r1
     \<and> transition_at r1 sample_key (Signed 200) 200 = Ok r2
     \<and> transition_at r2 sample_key (SubmissionStarted 200) 200 = Ok r3"
  by (simp add: parked_registry_def transition_at_def transition_guards_def valid_transition_def fail_if_def)

lemma sample_signs: "sign_ioc sample_platform sample_envelope 200 = Ok sample_handed"
  by (simp add: sign_ioc_def sample_envelope_def canonical_decimal_def scaled_value_def fail_if_def sample_handed_def)

lemma sample_handed_over:
  assumes "sg_reconciled s" "sg_registry s = parked_registry" "sg_sent s = []" "sg_nonce s = 1"
  shows "sg_sent (snd (submit_begin sample_platform quiet_exchange sample_envelope 200 s)) = [sample_handed]"
proof -
  have c: "ai_planned_cloid sample_envelope = replicate 16 2" by (simp add: sample_envelope_def)
  have a: "approved_intent parked_registry sample_key = Ok (durable_intent sample_envelope)"
    by (simp add: approved_intent_def parked_registry_def fail_if_def)
  obtain r1 r2 r3 where r: "transition_at parked_registry sample_key (NonceAllocated 200) 200 = Ok r1"
    "transition_at r1 sample_key (Signed 200) 200 = Ok r2" "transition_at r2 sample_key (SubmissionStarted 200) 200 = Ok r3"
    using sample_transitions by blast
  show ?thesis unfolding submit_begin_def submit_prepare_def transition_and_persist_def c sample_key_eq
    by (simp add: act_bind_def assms a fail_if_def take_nonce_def Let_def checked_add_nat_def sample_signs
        on_registry_def act_assign_def persist_def ask_def r hand_over_def)
qed

definition sample_ops :: "signing_op list" where
  "sample_ops = [CallStartup 100 2 1000, BeginSubmit sample_envelope 200, FinishSubmit 0 210 (Err TransportUnknownResult)]"


interpretation same_sent: signing_invariant "\<lambda>s. sg_sent s = rs" "\<lambda>_ _. True" for rs
  by unfold_locales simp_all

lemma sample_run: "sg_sent (fold (signing_exec sample_platform quiet_exchange) sample_ops fresh_signer) = [sample_handed]"
proof -
  obtain applied s where s: "reconcile_startup sample_platform quiet_exchange 100 2 1000 fresh_signer = (Ok applied, s)"
    "sg_reconciled s" "sg_registry s = parked_registry" "sg_sent s = []" "sg_nonce s = 1"
    using sample_startup by blast
  show ?thesis
    using act_keepsD [OF same_sent.keeps_finish sample_handed_over [OF s(2-5)]]
    by (simp add: sample_ops_def s(1) Let_def sample_handed_over [OF s(2-5)])
qed

lemma each_order_sent_once_witness:
  "\<exists>s :: signing_state. sg_sent s = [sample_handed] \<and> distinct (map rq_cloid (sg_sent s))
     \<and> sorted_wrt (<) (map rq_nonce (sg_sent s))"
  using each_order_sent_once [OF authorized_registry_restores fresh_signer_eq refl,
      of sample_platform quiet_exchange sample_ops] sample_run by blast

lemma sent_orders_are_durable_witness:
  "\<exists>s :: signing_state. sg_sent s = [sample_handed] \<and> 200 \<in> set (history_nonces (sg_disk s))"
proof -
  let ?s = "fold (signing_exec sample_platform quiet_exchange) sample_ops fresh_signer"
  have "sample_handed \<in> set (sg_sent ?s)" by (simp add: sample_run)
  from sent_orders_are_durable [OF authorized_registry_restores fresh_signer_eq refl this, of "sg_disk ?s"]
  have "200 \<in> set (history_nonces (sg_disk ?s))" by (auto simp: sample_handed_def)
  then show ?thesis using sample_run by (intro exI [of _ ?s]) simp
qed

lemma ready_signer_has_no_doubtful_order_witness:
  "\<exists>s :: signing_state. sg_reconciled s \<and> bget (submissions (sg_registry s)) sample_key = Some (durable_intent sample_envelope, AuthorizedNotSubmitted)
     \<and> \<not> is_unknown_result AuthorizedNotSubmitted"
proof -
  obtain applied s where s: "reconcile_startup sample_platform quiet_exchange 100 2 1000 fresh_signer = (Ok applied, s)"
    "sg_reconciled s" "sg_registry s = parked_registry"
    using sample_startup by blast
  have f: "s = fold (signing_exec sample_platform quiet_exchange) [CallStartup 100 2 1000] fresh_signer" by (simp add: s(1))
  have b: "bget (submissions (sg_registry s)) sample_key = Some (durable_intent sample_envelope, AuthorizedNotSubmitted)"
    by (simp add: s(3) parked_registry_def)
  from ready_signer_has_no_doubtful_order [OF authorized_registry_restores fresh_signer_eq f s(2) b] s(2) b show ?thesis by blast
qed

end
