(* ===== verification/Canonical_Json.thy ===== *)
theory Canonical_Json
  imports Identity
begin

text \<open>
  The canonical encoding of JSON values under the configuration and risk-policy hashes
  (\<open>hash_canonical_value\<close> of \<open>copytrade-core/src/decision.rs\<close>). A value is what \<open>serde_json\<close> holds: numbers
  are unsigned, negative or finite floating point (by their bits), objects have distinct keys. Turning the
  configuration into a value (serde) is the caller's parameter.
\<close>

datatype json_number = PosInt nat | NegInt int | FloatBits nat

datatype json =
    JNull
  | JBool bool
  | JNumber json_number
  | JString string
  | JArray "json list"
  | JObject "(string \<times> json) list"

text \<open>\<open>f64::is_finite\<close> on the bits: the exponent is not all ones.\<close>

definition finite_bits :: "nat \<Rightarrow> bool" where
  "finite_bits b = (b div 2 ^ 52 mod 2 ^ 11 \<noteq> 2047)"

definition enc_i64 :: "int \<Rightarrow> bytes" where
  "enc_i64 i = be_bytes 8 (nat (i mod 2 ^ 64))"

fun enc_number :: "json_number \<Rightarrow> bytes identity" where
  "enc_number (PosInt n) = Ok (enc_u8 2 @ (if n < 2 ^ 63 then enc_u8 0 @ enc_i64 (int n) else enc_u8 1 @ enc_u64 n))"
| "enc_number (NegInt i) = Ok (enc_u8 2 @ enc_u8 0 @ enc_i64 i)"
| "enc_number (FloatBits b) = and_then (fail_if (\<not> finite_bits b) (InvalidIdentityInput ''non-finite canonical number''))
     (\<lambda>_. Ok (enc_u8 2 @ enc_u8 2 @ enc_u64 b))"

text \<open>
  An entry's value is encoded before the entries are brought into the order of their keys; the results
  are written, and the first error taken, in that order.
\<close>

definition enc_entry :: "string \<times> bytes identity \<Rightarrow> bytes identity" where
  "enc_entry e = and_then (enc_string (fst e)) (\<lambda>k. and_then (snd e) (\<lambda>v. Ok (k @ v)))"

fun enc_json :: "json \<Rightarrow> bytes identity" where
  "enc_json JNull = Ok (enc_u8 0)"
| "enc_json (JBool b) = Ok (enc_u8 1 @ enc_bool b)"
| "enc_json (JNumber n) = enc_number n"
| "enc_json (JString s) = and_then (enc_string s) (\<lambda>b. Ok (enc_u8 3 @ b))"
| "enc_json (JArray vs) = and_then (enc_length (length vs)) (\<lambda>l.
     and_then (enc_all id (map enc_json vs)) (\<lambda>b. Ok (enc_u8 4 @ l @ b)))"
| "enc_json (JObject es) = and_then (enc_length (length es)) (\<lambda>l.
     and_then (enc_all enc_entry (sort_by (\<lambda>x y. cmp (fst x) (fst y)) (map (\<lambda>(k, v). (k, enc_json v)) es)))
       (\<lambda>b. Ok (enc_u8 5 @ l @ b)))"

definition hash_canonical_value :: "(bytes \<Rightarrow> bytes) \<Rightarrow> bytes \<Rightarrow> json \<Rightarrow> bytes identity" where
  "hash_canonical_value H domain v = and_then (enc_json v) (\<lambda>b. Ok (H (domain @ b)))"

definition derive_config_hash :: "(bytes \<Rightarrow> bytes) \<Rightarrow> (json, string) outcome \<Rightarrow> config_hash identity" where
  "derive_config_hash H value = and_then (map_err InvalidIdentityInput value) (hash_canonical_value H CONFIG_DOMAIN)"

definition derive_risk_policy_hash :: "(bytes \<Rightarrow> bytes) \<Rightarrow> (json, string) outcome \<Rightarrow> risk_policy_hash identity" where
  "derive_risk_policy_hash H value = and_then (map_err InvalidIdentityInput value) (hash_canonical_value H RISK_DOMAIN)"

section \<open>The code is uniquely readable\<close>

text \<open>The values a parser can produce: numbers in range, keys distinct.\<close>

fun number_ok :: "json_number \<Rightarrow> bool" where
  "number_ok (PosInt n) = (n < 2 ^ 64)"
| "number_ok (NegInt i) = (- (2 ^ 63) \<le> i \<and> i < 0)"
| "number_ok (FloatBits b) = (b < 2 ^ 64)"

fun json_ok :: "json \<Rightarrow> bool" where
  "json_ok (JNumber n) = number_ok n"
| "json_ok (JArray vs) = (\<forall>v \<in> set vs. json_ok v)"
| "json_ok (JObject es) = (distinct (map fst es) \<and> (\<forall>e \<in> set es. json_ok (snd e)))"
| "json_ok _ = True"

text \<open>The value with every object's entries in the order of their keys.\<close>

fun sort_keys :: "json \<Rightarrow> json" where
  "sort_keys (JArray vs) = JArray (map sort_keys vs)"
| "sort_keys (JObject es) = JObject (sort_by (\<lambda>x y. cmp (fst x) (fst y)) (map (\<lambda>(k, v). (k, sort_keys v)) es))"
| "sort_keys v = v"

lemma enc_i64_inj: "enc_i64 i = enc_i64 j \<Longrightarrow> - (2 ^ 63) \<le> i \<Longrightarrow> i < 2 ^ 63 \<Longrightarrow> - (2 ^ 63) \<le> j \<Longrightarrow> j < 2 ^ 63 \<Longrightarrow> i = j"
proof -
  assume eq: "enc_i64 i = enc_i64 j" and b: "- (2 ^ 63) \<le> i" "i < 2 ^ 63" "- (2 ^ 63) \<le> j" "j < 2 ^ 63"
  have "nat (i mod 2 ^ 64) = nat (j mod 2 ^ 64)"
    using eq unfolding enc_i64_def by (rule be_bytes_inj) (simp_all add: nat_less_iff)
  then have "i mod 2 ^ 64 = j mod 2 ^ 64" by (simp add: nat_eq_iff)
  then have "(2 :: int) ^ 64 dvd i - j" by (simp add: mod_eq_dvd_iff)
  moreover have "\<bar>i - j\<bar> < 2 ^ 64" using b by simp
  ultimately have "i - j = 0" using dvd_imp_le_int [of "i - j" "2 ^ 64"] by fastforce
  then show "i = j" by simp
qed

lemma length_enc_i64 [simp]: "length (enc_i64 i) = 8"
  by (simp add: enc_i64_def)

lemma u8_head:
  "enc_u8 n @ r = enc_u8 m @ s \<longleftrightarrow> enc_u8 n = enc_u8 m \<and> r = s"
  by (simp add: append_eq_append_conv)

lemma u8_eq: "n < 256 \<Longrightarrow> m < 256 \<Longrightarrow> enc_u8 n = enc_u8 m \<longleftrightarrow> n = m"
  using enc_inj(1) [of n m] by auto

lemma number_unique:
  assumes "enc_number x = Ok b" "enc_number y = Ok c" "number_ok x" "number_ok y" "b @ r = c @ s"
  shows "x = y \<and> r = s"
proof -
  have i: "enc_i64 i @ r = enc_i64 j @ s \<longleftrightarrow> enc_i64 i = enc_i64 j \<and> r = s" for i j
    by (simp add: append_eq_append_conv)
  have u: "enc_u64 m @ r = enc_u64 n @ s \<longleftrightarrow> enc_u64 m = enc_u64 n \<and> r = s" for m n
    by (simp add: append_eq_append_conv)
  have ie: "enc_i64 i = enc_i64 j \<longleftrightarrow> i = j" if "- 9223372036854775808 \<le> i" "i < 9223372036854775808"
    "- 9223372036854775808 \<le> j" "j < 9223372036854775808" for i j
    using enc_i64_inj [of i j] that by auto
  have ue: "enc_u64 m = enc_u64 n \<longleftrightarrow> m = n" if "m < 18446744073709551616" "n < 18446744073709551616" for m n
    using enc_inj(3) [of m n] that by auto
  show ?thesis
    using assms
    by (cases x; cases y) (auto simp: u8_head u8_eq i u ie ue outcome_simps split: if_splits)
qed

text \<open>Both sides of an array or object, once the lengths agree.\<close>

lemma length_head: "enc_u32 n @ r = enc_u32 m @ s \<Longrightarrow> n < 2 ^ 32 \<Longrightarrow> m < 2 ^ 32 \<Longrightarrow> n = m \<and> r = s"
  using enc_inj(2) by (auto simp: append_eq_append_conv)

lemma items_unique:
  assumes "\<And>x y b c r s. x \<in> set xs \<Longrightarrow> f x = Ok b \<Longrightarrow> f y = Ok c \<Longrightarrow> ok y \<Longrightarrow> b @ r = c @ s \<Longrightarrow> g x = g y \<and> r = s"
    and "enc_all f xs = Ok b" "enc_all f ys = Ok c" "length xs = length ys" "list_all ok ys" "b @ r = c @ s"
  shows "map g xs = map g ys \<and> r = s"
  using assms
proof (induction xs arbitrary: ys b c)
  case (Cons x xs)
  obtain y ys' where ys: "ys = y # ys'" using Cons.prems(4) by (cases ys) auto
  from Cons.prems(2) obtain b1 b2 where b: "f x = Ok b1" "enc_all f xs = Ok b2" "b = b1 @ b2"
    by (auto simp: outcome_simps)
  from Cons.prems(3) obtain c1 c2 where c: "f y = Ok c1" "enc_all f ys' = Ok c2" "c = c1 @ c2"
    by (auto simp: outcome_simps ys)
  have "b1 @ (b2 @ r) = c1 @ (c2 @ s)" using Cons.prems(6) b(3) c(3) by simp
  from Cons.prems(1) [OF _ b(1) c(1) _ this] Cons.prems(5) have h: "g x = g y" "b2 @ r = c2 @ s"
    by (simp_all add: ys)
  have "map g xs = map g ys' \<and> r = s"
  proof (rule Cons.IH [OF _ b(2) c(2) _ _ h(2)])
    fix x' y b c r s assume a: "x' \<in> set xs" "f x' = Ok b" "f y = Ok c" "ok y" "b @ r = c @ s"
    show "g x' = g y \<and> r = s" by (rule Cons.prems(1) [OF _ a(2-5)]) (simp add: a(1))
  qed (use Cons.prems(4,5) in \<open>simp_all add: ys\<close>)
  with h(1) show ?case by (simp add: ys)
qed (auto simp: outcome_simps)

lemma enc_all_map: "enc_all f (map g xs) = enc_all (\<lambda>x. f (g x)) xs"
  by (induction xs) simp_all

text \<open>Sorting by the key commutes with a change of the values.\<close>

lemma insert_by_map:
  "insert_by (\<lambda>x y. cmp (fst x) (fst y)) (fst e, f (snd e)) (map (\<lambda>e. (fst e, f (snd e))) es)
     = map (\<lambda>e. (fst e, f (snd e))) (insert_by (\<lambda>x y. cmp (fst x) (fst y)) e es)"
  by (induction es) auto

lemma sort_by_map:
  "sort_by (\<lambda>x y. cmp (fst x) (fst y)) (map (\<lambda>e. (fst e, f (snd e))) es)
     = map (\<lambda>e. (fst e, f (snd e))) (sort_by (\<lambda>x y. cmp (fst x) (fst y)) es)"
  by (induction es) (simp_all add: insert_by_map)

lemma enc_object:
  "enc_json (JObject es) = and_then (enc_length (length es)) (\<lambda>l.
     and_then (enc_all (\<lambda>e. enc_entry (fst e, enc_json (snd e))) (sort_by (\<lambda>x y. cmp (fst x) (fst y)) es))
       (\<lambda>b. Ok (enc_u8 5 @ l @ b)))"
  by (simp add: sort_by_map enc_all_map case_prod_unfold)

lemma sort_object: "sort_keys (JObject es) = JObject (map (\<lambda>e. (fst e, sort_keys (snd e))) (sort_by (\<lambda>x y. cmp (fst x) (fst y)) es))"
  by (simp add: sort_by_map case_prod_unfold)

declare enc_json.simps(6) [simp del] sort_keys.simps(2) [simp del]

text \<open>The first byte tells the kinds apart.\<close>

fun json_tag :: "json \<Rightarrow> nat" where
  "json_tag JNull = 0"
| "json_tag (JBool _) = 1"
| "json_tag (JNumber _) = 2"
| "json_tag (JString _) = 3"
| "json_tag (JArray _) = 4"
| "json_tag (JObject _) = 5"

lemma enc_number_tag: "enc_number n = Ok b \<Longrightarrow> \<exists>b'. b = enc_u8 2 @ b'"
  by (cases n) (auto simp: outcome_simps)

lemma enc_json_tag: "enc_json v = Ok b \<Longrightarrow> \<exists>b'. b = enc_u8 (json_tag v) @ b'"
  by (cases v) (auto simp: outcome_simps enc_object dest: enc_number_tag)

lemma json_tag_less: "json_tag v < 256"
  by (cases v) simp_all

lemma same_tag:
  assumes "enc_json v = Ok b" "enc_json w = Ok c" "b @ r = c @ s"
  shows "json_tag v = json_tag w"
proof -
  obtain b' c' where "b = enc_u8 (json_tag v) @ b'" "c = enc_u8 (json_tag w) @ c'"
    using enc_json_tag [OF assms(1)] enc_json_tag [OF assms(2)] by blast
  with assms(3) have "enc_u8 (json_tag v) = enc_u8 (json_tag w)" by (simp add: u8_head)
  then show ?thesis by (simp add: u8_eq json_tag_less)
qed

lemma json_unique:
  "enc_json v = Ok b \<Longrightarrow> enc_json w = Ok c \<Longrightarrow> json_ok v \<Longrightarrow> json_ok w \<Longrightarrow> b @ r = c @ s
     \<Longrightarrow> sort_keys v = sort_keys w \<and> r = s"
proof (induction v arbitrary: w b c r s)
  case JNull
  then show ?case using same_tag [OF JNull.prems(1,2,5)] by (cases w) (auto simp: u8_head)
next
  case (JBool x)
  then show ?case using same_tag [OF JBool.prems(1,2,5)]
    by (cases w) (auto simp: u8_head enc_bool_def u8_eq split: if_splits)
next
  case (JNumber n)
  then show ?case using same_tag [OF JNumber.prems(1,2,5)] number_unique [of n b _ c r s] by (cases w) auto
next
  case (JString x)
  then obtain y where w: "w = JString y" using same_tag [OF JString.prems(1,2,5)] by (cases w) auto
  show ?case using JString.prems strings.unique [of x _ y _ r s] by (auto simp: w outcome_simps u8_head)
next
  case (JArray vs)
  then obtain ws where w: "w = JArray ws" using same_tag [OF JArray.prems(1,2,5)] by (cases w) auto
  obtain b' where b: "length vs < 2 ^ 32" "enc_all enc_json vs = Ok b'" "b = enc_u8 4 @ enc_u32 (length vs) @ b'"
    using JArray.prems(1) by (auto simp: outcome_simps enc_all_map)
  obtain c' where c: "length ws < 2 ^ 32" "enc_all enc_json ws = Ok c'" "c = enc_u8 4 @ enc_u32 (length ws) @ c'"
    using JArray.prems(2) by (auto simp: w outcome_simps enc_all_map)
  have "enc_u32 (length vs) @ (b' @ r) = enc_u32 (length ws) @ (c' @ s)" using JArray.prems(5) b(3) c(3) by simp
  then have l: "length vs = length ws" "b' @ r = c' @ s" using b(1) c(1) length_head by blast+
  have "map sort_keys vs = map sort_keys ws \<and> r = s"
  proof (rule items_unique [where ok = json_ok, OF _ b(2) c(2) l(1) _ l(2)])
    fix x y b c r s assume a: "x \<in> set vs" "enc_json x = Ok b" "enc_json y = Ok c" "json_ok y" "b @ r = c @ s"
    show "sort_keys x = sort_keys y \<and> r = s"
      by (rule JArray.IH [OF a(1-3) _ a(4,5)]) (use JArray.prems(3) a(1) in simp)
  next
    show "list_all json_ok ws" using JArray.prems(4) by (simp add: w list_all_iff)
  qed
  then show ?case by (simp add: w)
next
  case (JObject es)
  then obtain fs where w: "w = JObject fs" using same_tag [OF JObject.prems(1,2,5)] by (cases w) auto
  let ?f = "\<lambda>e. enc_entry (fst e, enc_json (snd e))" and ?sort = "sort_by (\<lambda>x y. cmp (fst x) (fst y))"
  obtain b' where b: "length es < 2 ^ 32" "enc_all ?f (?sort es) = Ok b'" "b = enc_u8 5 @ enc_u32 (length es) @ b'"
    using JObject.prems(1) by (auto simp: outcome_simps enc_object)
  obtain c' where c: "length fs < 2 ^ 32" "enc_all ?f (?sort fs) = Ok c'" "c = enc_u8 5 @ enc_u32 (length fs) @ c'"
    using JObject.prems(2) by (auto simp: w outcome_simps enc_object)
  have "enc_u32 (length es) @ (b' @ r) = enc_u32 (length fs) @ (c' @ s)" using JObject.prems(5) b(3) c(3) by simp
  then have l: "length es = length fs" "b' @ r = c' @ s" using b(1) c(1) length_head by blast+
  have "map (\<lambda>e. (fst e, sort_keys (snd e))) (?sort es) = map (\<lambda>e. (fst e, sort_keys (snd e))) (?sort fs) \<and> r = s"
  proof (rule items_unique [where ok = "\<lambda>e. json_ok (snd e)", OF _ b(2) c(2) _ _ l(2)])
    fix x y b c r s
    assume x: "x \<in> set (?sort es)" and e: "?f x = Ok b" "?f y = Ok c" "json_ok (snd y)" "b @ r = c @ s"
    obtain k1 b1 k2 c2 where k: "enc_string (fst x) = Ok k1" "enc_json (snd x) = Ok b1" "b = k1 @ b1"
      "enc_string (fst y) = Ok k2" "enc_json (snd y) = Ok c2" "c = k2 @ c2"
      using e(1,2) by (auto simp: enc_entry_def outcome_simps)
    have "k1 @ (b1 @ r) = k2 @ (c2 @ s)" using e(4) k(3,6) by simp
    from strings.unique [OF k(1,4) _ _ this] have "fst x = fst y" "b1 @ r = c2 @ s" by simp_all
    moreover have "sort_keys (snd x) = sort_keys (snd y) \<and> r = s"
    proof (rule JObject.IH)
      show "x \<in> set es" "snd x \<in> Basic_BNFs.snds x" using x by (simp_all add: set_sort_by snds.intros)
      show "json_ok (snd x)" using x JObject.prems(3) by (simp add: set_sort_by)
    qed (use k(2,5) e(3) calculation(2) in simp_all)
    ultimately show "(fst x, sort_keys (snd x)) = (fst y, sort_keys (snd y)) \<and> r = s" by simp
  next
    show "length (?sort es) = length (?sort fs)" using l(1) by (simp add: length_sort_by)
    show "list_all (\<lambda>e. json_ok (snd e)) (?sort fs)" using JObject.prems(4) by (simp add: w list_all_iff set_sort_by)
  qed
  then show ?case by (simp add: w sort_object)
qed

section \<open>Properties\<close>

text \<open>
  C39. Two configurations have the same hash exactly when they are the same value up to the order of object
  keys, unless the digest collides on their encodings.
\<close>

theorem configuration_hash_binds_value:
  assumes "json_ok v" and "json_ok w"
    and "hash_canonical_value H d v = Ok h" and "hash_canonical_value H d w = Ok h"
    and "\<forall>x y. enc_json v = Ok x \<and> enc_json w = Ok y \<and> H (d @ x) = H (d @ y) \<longrightarrow> x = y"
  shows "sort_keys v = sort_keys w"
proof -
  obtain x y where xy: "enc_json v = Ok x" "enc_json w = Ok y" "H (d @ x) = h" "H (d @ y) = h"
    using assms(3,4) by (auto simp: hash_canonical_value_def outcome_simps)
  have "H (d @ x) = H (d @ y)" by (simp only: xy(3,4))
  then have "x = y" using assms(5) xy(1,2) by blast
  with json_unique [OF xy(1,2) assms(1,2), of "[]" "[]"] show ?thesis by simp
qed

lemma configuration_hash_binds_value_witness:
  "sort_keys (JObject [(''b'', JNumber (PosInt 7)), (''a'', JArray [JNull, JBool True])])
     = sort_keys (JObject [(''a'', JArray [JNull, JBool True]), (''b'', JNumber (PosInt 7))])"
proof -
  have same: "enc_json (JObject [(''b'', JNumber (PosInt 7)), (''a'', JArray [JNull, JBool True])])
      = enc_json (JObject [(''a'', JArray [JNull, JBool True]), (''b'', JNumber (PosInt 7))])"
    by (simp add: enc_object cmp_def)
  obtain b where b: "enc_json (JObject [(''a'', JArray [JNull, JBool True]), (''b'', JNumber (PosInt 7))]) = Ok b"
    by (simp add: enc_object cmp_def enc_entry_def enc_string_def enc_length_def)
  show ?thesis
    by (rule configuration_hash_binds_value [of _ _ "\<lambda>b. b" "[]" b])
      (simp_all add: hash_canonical_value_def same b)
qed

end
