(* ===== verification/Release.thy ===== *)
theory Release
  imports Canonical_Json Transport
begin

text \<open>
  Release manifests (\<open>copytrade-core/src/release.rs\<close>) and their verification by the signer
  (\<open>verify_release\<close>, \<open>parse_hash32\<close> of \<open>copytrade-signer/src/main.rs\<close>). The file system is a function from paths to contents, SHA-256 is \<open>H\<close>; of the configuration a
  manifest takes its JSON values, its schema version and the text of its risk scale.
\<close>

record release_manifest =
  rm_deployment_scope :: string
  rm_source_tree_clean :: bool
  rm_git_commit_required :: bool
  rm_schema_version :: nat
  rm_architecture_version :: string
  rm_qualification_stage :: string
  rm_git_commit :: string
  rm_git_tree_state :: string
  rm_source_tree :: string
  rm_source_files :: "(string, string) bmap"
  rm_binary :: string
  rm_configuration :: string
  rm_risk_policy :: string
  rm_configuration_schema_version :: nat
  rm_test_report :: string
  rm_risk_policy_version :: string
  rm_global_risk_scale :: string
  rm_candidate_configuration :: "string option"
  rm_runtime_configuration :: "string option"
  rm_observer_binary :: "string option"
  rm_signer_binary :: "string option"
  rm_market_rule_policy :: "string option"
  rm_dynamic_floor_policy :: "string option"
  rm_ioc_pricing_policy :: "string option"
  rm_signer_protocol_schema_version :: "nat option"
  rm_signer_state_schema_version :: "nat option"
  rm_ipc_policy :: "string option"
  rm_systemd_units :: "string option"
  rm_linux_topology_policy :: "string option"
  rm_authorization_schema_version :: "nat option"
  rm_reconciliation_event_schema_version :: "nat option"

datatype release_error =
    ReleaseIo string
  | ReleaseIdentity identity_error
  | InvalidGitCommit
  | InvalidSourceTreeHash
  | ReleaseSerialize string

type_synonym 'a release = "('a, release_error) outcome"
type_synonym files = "string \<Rightarrow> (bytes, string) outcome"

record config_view =
  cv_schema_version :: nat
  cv_value :: "(json, string) outcome"
  cv_risk_value :: "(json, string) outcome"
  cv_scale_text :: string

definition digest_hex :: "bytes \<Rightarrow> string" where
  "digest_hex b = concat (map hex_pair b)"

definition sha256_file :: "(bytes \<Rightarrow> bytes) \<Rightarrow> files \<Rightarrow> string \<Rightarrow> string release" where
  "sha256_file H files path = and_then (map_err ReleaseIo (files path)) (\<lambda>b. Ok (digest_hex (H b)))"

definition ascii_lower :: "char \<Rightarrow> char" where
  "ascii_lower c = (let n = of_char c :: nat in if 65 \<le> n \<and> n \<le> 90 then char_of (n + 32) else c)"

definition to_ascii_lowercase :: "string \<Rightarrow> string" where
  "to_ascii_lowercase s = map ascii_lower s"

definition create_release_manifest ::
  "(bytes \<Rightarrow> bytes) \<Rightarrow> files \<Rightarrow> config_view \<Rightarrow> string \<Rightarrow> string \<Rightarrow> string \<Rightarrow> string \<Rightarrow> string \<Rightarrow> release_manifest release" where
  "create_release_manifest H files config binary_path test_report_path git_commit git_tree_state source_tree =
    and_then (fail_if (length git_commit \<noteq> 40 \<or> \<not> list_all is_ascii_hexdigit git_commit) InvalidGitCommit) (\<lambda>_.
    and_then (fail_if (git_tree_state \<notin> {''clean'', ''dirty''} \<or> length source_tree \<noteq> 64
        \<or> \<not> list_all is_ascii_hexdigit source_tree) InvalidSourceTreeHash) (\<lambda>_.
    and_then (sha256_file H files binary_path) (\<lambda>binary.
    and_then (map_err ReleaseIdentity (derive_config_hash H (cv_value config))) (\<lambda>configuration.
    and_then (map_err ReleaseIdentity (derive_risk_policy_hash H (cv_risk_value config))) (\<lambda>risk.
    and_then (sha256_file H files test_report_path) (\<lambda>test_report.
    Ok \<lparr>rm_deployment_scope = ''local-only'', rm_source_tree_clean = (git_tree_state = ''clean''),
        rm_git_commit_required = False, rm_schema_version = 1, rm_architecture_version = ''HL1C-1'',
        rm_qualification_stage = ''HL1J'', rm_git_commit = to_ascii_lowercase git_commit,
        rm_git_tree_state = git_tree_state, rm_source_tree = to_ascii_lowercase source_tree, rm_source_files = bempty,
        rm_binary = binary, rm_configuration = hex_bytes configuration, rm_risk_policy = hex_bytes risk,
        rm_configuration_schema_version = cv_schema_version config, rm_test_report = test_report,
        rm_risk_policy_version = ''HL1B-RISK-V1'', rm_global_risk_scale = cv_scale_text config,
        rm_candidate_configuration = None, rm_runtime_configuration = None, rm_observer_binary = None,
        rm_signer_binary = None, rm_market_rule_policy = None, rm_dynamic_floor_policy = None,
        rm_ioc_pricing_policy = None, rm_signer_protocol_schema_version = None, rm_signer_state_schema_version = None,
        rm_ipc_policy = None, rm_systemd_units = None, rm_linux_topology_policy = None,
        rm_authorization_schema_version = None, rm_reconciliation_event_schema_version = None\<rparr>))))))"

section \<open>The listing of source files\<close>

text \<open>\<open>str::lines\<close>: the parts up to each line feed, without it and without a CR before it.\<close>

fun split_inclusive :: "string \<Rightarrow> string list" where
  "split_inclusive [] = []"
| "split_inclusive (c # s) = (if c = CHR 0x0A then [c] # split_inclusive s
     else case split_inclusive s of [] \<Rightarrow> [[c]] | l # ls \<Rightarrow> (c # l) # ls)"

definition strip_ending :: "string \<Rightarrow> string" where
  "strip_ending l = (if l \<noteq> [] \<and> last l = CHR 0x0A
     then let l' = butlast l in if l' \<noteq> [] \<and> last l' = CHR 0x0D then butlast l' else l'
     else l)"

fun split_once :: "string \<Rightarrow> (string \<times> string) option" where
  "split_once (c # d # s) = (if c = CHR '' '' \<and> d = CHR '' '' then Some ([], s)
     else map_option (\<lambda>(a, b). (c # a, b)) (split_once (d # s)))"
| "split_once _ = None"

definition insert_source_file :: "(string, string) bmap \<Rightarrow> string \<Rightarrow> (string, string) bmap release" where
  "insert_source_file files line = and_then (ok_or InvalidSourceTreeHash (split_once line)) (\<lambda>(h, file).
     and_then (fail_if (length h \<noteq> 64 \<or> \<not> list_all is_ascii_hexdigit h \<or> file = [] \<or> bhas files file)
       InvalidSourceTreeHash) (\<lambda>_. Ok (binsert file (to_ascii_lowercase h) files)))"

definition parse_source_file_hashes :: "(string, string) outcome \<Rightarrow> (string, string) bmap release" where
  "parse_source_file_hashes text =
    and_then (map_err ReleaseIo text) (\<lambda>t.
    and_then (try_fold insert_source_file bempty (map strip_ending (split_inclusive t))) (\<lambda>files.
    and_then (fail_if (bsize files = 0) InvalidSourceTreeHash) (\<lambda>_. Ok files)))"

section \<open>Production manifests\<close>

record release_inputs =
  ri_observer_binary :: string
  ri_signer_binary :: string
  ri_test_report :: string
  ri_market_rule_policy :: string
  ri_dynamic_floor_policy :: string
  ri_ioc_pricing_policy :: string
  ri_ipc_policy :: string
  ri_systemd_units :: string
  ri_linux_topology_policy :: string
  ri_git_commit :: string
  ri_git_tree_state :: string
  ri_source_tree :: string
  ri_source_file_hashes :: "(string, string) outcome"
  ri_runtime_configuration :: string
  ri_signer_protocol_schema_version :: nat
  ri_signer_state_schema_version :: nat
  ri_authorization_schema_version :: nat
  ri_reconciliation_event_schema_version :: nat

definition create_production_release_manifest ::
  "(bytes \<Rightarrow> bytes) \<Rightarrow> files \<Rightarrow> config_view \<Rightarrow> release_inputs \<Rightarrow> release_manifest release" where
  "create_production_release_manifest H files config i =
    and_then (fail_if (ri_signer_protocol_schema_version i = 0 \<or> ri_signer_state_schema_version i = 0
        \<or> ri_authorization_schema_version i = 0 \<or> ri_reconciliation_event_schema_version i = 0) InvalidSourceTreeHash) (\<lambda>_.
    and_then (create_release_manifest H files config (ri_observer_binary i) (ri_test_report i) (ri_git_commit i)
        (ri_git_tree_state i) (ri_source_tree i)) (\<lambda>m.
    and_then (parse_source_file_hashes (ri_source_file_hashes i)) (\<lambda>sources.
    and_then (sha256_file H files (ri_runtime_configuration i)) (\<lambda>runtime.
    and_then (sha256_file H files (ri_signer_binary i)) (\<lambda>signer_binary.
    and_then (sha256_file H files (ri_market_rule_policy i)) (\<lambda>market.
    and_then (sha256_file H files (ri_dynamic_floor_policy i)) (\<lambda>dynamic_floor.
    and_then (sha256_file H files (ri_ioc_pricing_policy i)) (\<lambda>pricing.
    and_then (sha256_file H files (ri_ipc_policy i)) (\<lambda>ipc.
    and_then (sha256_file H files (ri_systemd_units i)) (\<lambda>units.
    and_then (sha256_file H files (ri_linux_topology_policy i)) (\<lambda>topology.
    Ok (m\<lparr>rm_schema_version := 2, rm_architecture_version := ''COPYTRADE-PRODUCTION-V1'',
        rm_qualification_stage := ''PRODUCTION_RELEASE'', rm_source_files := sources,
        rm_candidate_configuration := Some (rm_configuration m), rm_runtime_configuration := Some runtime,
        rm_observer_binary := Some (rm_binary m), rm_signer_binary := Some signer_binary,
        rm_market_rule_policy := Some market, rm_dynamic_floor_policy := Some dynamic_floor,
        rm_ioc_pricing_policy := Some pricing,
        rm_signer_protocol_schema_version := Some (ri_signer_protocol_schema_version i),
        rm_signer_state_schema_version := Some (ri_signer_state_schema_version i), rm_ipc_policy := Some ipc,
        rm_systemd_units := Some units, rm_linux_topology_policy := Some topology,
        rm_authorization_schema_version := Some (ri_authorization_schema_version i),
        rm_reconciliation_event_schema_version := Some (ri_reconciliation_event_schema_version i)\<rparr>))))))))))))"

section \<open>Verification by the signer\<close>

definition verify_release ::
  "(bytes \<Rightarrow> bytes) \<Rightarrow> files \<Rightarrow> (release_error \<Rightarrow> string) \<Rightarrow> release_manifest \<Rightarrow> string \<Rightarrow> string \<Rightarrow> (unit, string) outcome" where
  "verify_release H files show_error m executable ipc_policy =
    (let mismatch = Err ''production release manifest does not match signer artifact/policy'' in
     if rm_schema_version m < 2 \<or> rm_deployment_scope m \<noteq> ''local-only''
       \<or> rm_source_tree_clean m \<noteq> (rm_git_tree_state m = ''clean'') \<or> rm_git_commit_required m
       \<or> rm_qualification_stage m \<noteq> ''PRODUCTION_RELEASE'' \<or> rm_signer_protocol_schema_version m \<noteq> Some 1
       \<or> rm_global_risk_scale m \<noteq> ''0.1''
     then mismatch
     else and_then (map_err show_error (sha256_file H files executable)) (\<lambda>binary.
       if rm_signer_binary m \<noteq> Some binary then mismatch
       else and_then (map_err show_error (sha256_file H files ipc_policy)) (\<lambda>policy.
         if rm_ipc_policy m \<noteq> Some policy then mismatch else Ok ())))"

definition parse_hash32 :: "string \<Rightarrow> (bytes, string) outcome" where
  "parse_hash32 s = decode_hex ''invalid risk policy hash'' 32 (strip_0x s)"

section \<open>Properties\<close>

lemma digest_hex_parses: "length b = 32 \<Longrightarrow> parse_hash32 (digest_hex b) = Ok b"
proof -
  assume l: "length b = 32"
  have "take 2 (digest_hex b) \<noteq> ''0x''"
  proof
    assume x: "take 2 (digest_hex b) = ''0x''"
    have "CHR ''x'' \<in> set (take 2 (digest_hex b))" unfolding x by simp
    then have "CHR ''x'' \<in> set (digest_hex b)" by (rule in_set_takeD)
    moreover have "list_all is_ascii_hexdigit (digest_hex b)" using decode_hex_pairs [of b] by (simp add: digest_hex_def)
    moreover have "\<not> is_ascii_hexdigit (CHR ''x'')" by code_simp
    ultimately show False by (metis list_all_iff)
  qed
  then have "strip_0x (digest_hex b) = digest_hex b" by (simp add: strip_0x_def)
  then show ?thesis using decode_hex_pairs [of b] l by (simp add: parse_hash32_def decode_hex_def digest_hex_def fail_if_def)
qed

text \<open>
  C40. A manifest that the production release tool writes passes the signer's verification of the same files
  exactly when it was made for protocol version 1 and the risk scale 0.1, and its policy hashes are
  those the signer compares intents with.
\<close>

theorem production_manifest_verifies:
  assumes "create_production_release_manifest H files config i = Ok m" and "\<forall>b. length (H b) = 32"
  shows "(verify_release H files show_error m (ri_signer_binary i) (ri_ipc_policy i) = Ok ()
      \<longleftrightarrow> ri_signer_protocol_schema_version i = 1 \<and> cv_scale_text config = ''0.1'')
    \<and> (\<exists>market dynamic_floor pricing. files (ri_market_rule_policy i) = Ok market
        \<and> files (ri_dynamic_floor_policy i) = Ok dynamic_floor \<and> files (ri_ioc_pricing_policy i) = Ok pricing
        \<and> map_option parse_hash32 (rm_market_rule_policy m) = Some (Ok (H market))
        \<and> map_option parse_hash32 (rm_dynamic_floor_policy m) = Some (Ok (H dynamic_floor))
        \<and> map_option parse_hash32 (rm_ioc_pricing_policy m) = Some (Ok (H pricing)))"
proof -
  have parse: "parse_hash32 (digest_hex (H b)) = Ok (H b)" for b using assms(2) by (simp add: digest_hex_parses)
  from assms(1) obtain m0 sources runtime sb market dyn pricing ipc units topology where
    m0: "create_release_manifest H files config (ri_observer_binary i) (ri_test_report i) (ri_git_commit i)
        (ri_git_tree_state i) (ri_source_tree i) = Ok m0"
    and h: "sha256_file H files (ri_signer_binary i) = Ok sb" "sha256_file H files (ri_market_rule_policy i) = Ok market"
      "sha256_file H files (ri_dynamic_floor_policy i) = Ok dyn" "sha256_file H files (ri_ioc_pricing_policy i) = Ok pricing"
      "sha256_file H files (ri_ipc_policy i) = Ok ipc"
    and m: "rm_schema_version m = 2" "rm_qualification_stage m = ''PRODUCTION_RELEASE''" "rm_signer_binary m = Some sb"
      "rm_market_rule_policy m = Some market" "rm_dynamic_floor_policy m = Some dyn" "rm_ioc_pricing_policy m = Some pricing"
      "rm_signer_protocol_schema_version m = Some (ri_signer_protocol_schema_version i)" "rm_ipc_policy m = Some ipc"
      "rm_deployment_scope m = rm_deployment_scope m0" "rm_source_tree_clean m = rm_source_tree_clean m0"
      "rm_git_tree_state m = rm_git_tree_state m0" "rm_git_commit_required m = rm_git_commit_required m0"
      "rm_global_risk_scale m = rm_global_risk_scale m0"
    unfolding create_production_release_manifest_def by (auto simp: outcome_simps)
  have f: "rm_deployment_scope m0 = ''local-only''" "rm_source_tree_clean m0 = (rm_git_tree_state m0 = ''clean'')"
    "\<not> rm_git_commit_required m0" "rm_global_risk_scale m0 = cv_scale_text config"
    using m0 by (auto simp: create_release_manifest_def outcome_simps)
  have v: "verify_release H files show_error m (ri_signer_binary i) (ri_ipc_policy i) = Ok ()
      \<longleftrightarrow> ri_signer_protocol_schema_version i = 1 \<and> cv_scale_text config = ''0.1''"
    by (simp add: verify_release_def Let_def m f h)
  have "\<exists>b. files p = Ok b \<and> t = digest_hex (H b)" if "sha256_file H files p = Ok t" for p t
    using that by (auto simp: sha256_file_def outcome_simps)
  from this [OF h(2)] this [OF h(3)] this [OF h(4)] show ?thesis using v by (auto simp: m parse)
qed

definition sample_inputs :: release_inputs where
  "sample_inputs = \<lparr>ri_observer_binary = ''o'', ri_signer_binary = ''s'', ri_test_report = ''t'', ri_market_rule_policy = ''m'',
     ri_dynamic_floor_policy = ''f'', ri_ioc_pricing_policy = ''p'', ri_ipc_policy = ''i'', ri_systemd_units = ''u'',
     ri_linux_topology_policy = ''l'', ri_git_commit = replicate 40 (CHR ''a''), ri_git_tree_state = ''clean'',
     ri_source_tree = replicate 64 (CHR ''b''), ri_source_file_hashes = Ok (replicate 64 (CHR ''C'') @ ''  src/main.rs''),
     ri_runtime_configuration = ''r'', ri_signer_protocol_schema_version = 1, ri_signer_state_schema_version = 1,
     ri_authorization_schema_version = 1, ri_reconciliation_event_schema_version = 1\<rparr>"

definition sample_view :: config_view where
  "sample_view = \<lparr>cv_schema_version = 2, cv_value = Ok JNull, cv_risk_value = Ok (JBool True), cv_scale_text = ''0.1''\<rparr>"

definition fixed_hash :: "bytes \<Rightarrow> bytes" where
  "fixed_hash b = replicate 32 (word_of_nat (length b))"

lemma sample_manifest:
  "\<exists>m. create_production_release_manifest fixed_hash (\<lambda>p. Ok (str_bytes p)) sample_view sample_inputs = Ok m"
proof -
  have "is_ok (create_production_release_manifest fixed_hash (\<lambda>p. Ok (str_bytes p)) sample_view sample_inputs)"
    by code_simp
  then show ?thesis by (simp add: is_ok_def split: outcome.splits)
qed

lemma production_manifest_verifies_witness:
  "\<exists>m. create_production_release_manifest fixed_hash (\<lambda>p. Ok (str_bytes p)) sample_view sample_inputs = Ok m
     \<and> verify_release fixed_hash (\<lambda>p. Ok (str_bytes p)) (\<lambda>_. []) m ''s'' ''i'' = Ok ()"
proof -
  obtain m where m: "create_production_release_manifest fixed_hash (\<lambda>p. Ok (str_bytes p)) sample_view sample_inputs = Ok m"
    using sample_manifest by blast
  have "\<forall>b. length (fixed_hash b) = 32" by (simp add: fixed_hash_def)
  from production_manifest_verifies [OF m this, of "\<lambda>_. []"] m show ?thesis
    by (auto simp: sample_inputs_def sample_view_def)
qed

end
