(* ===== verification/Signer_Service.thy ===== *)
theory Signer_Service
  imports Signing_Runs Outbox Release
begin

text \<open>
  The signer process (\<open>copytrade-signer/src/main.rs\<close>): how a request of the observer is answered on an
  authenticated connection, and how the outbox follows the signer. Writing a response may fail, which
  closes the connection; an error that \<open>?\<close> passes on ends the process. Socket set-up, peer credentials,
  argument parsing and the texts of errors are outside.
\<close>

section \<open>State\<close>

record service_config =
  sc_platform :: platform
  sc_manifest :: release_manifest
  sc_policy :: ipc_policy
  sc_binary_hash :: bytes
  sc_policy_hash :: bytes
  sc_expected_observer :: "string option"
  sc_encode_payload :: "reconciliation_payload \<Rightarrow> (bytes, string) outcome"
  sc_show_ipc :: "ipc_error \<Rightarrow> string"
  sc_show_error :: "signer_error \<Rightarrow> string"
  sc_show_state :: "submission_state \<Rightarrow> string"

record service_environment =
  se_exchange :: environment
  se_now :: "nat \<Rightarrow> (nat, string) outcome"
  se_written :: "nat \<Rightarrow> bool"
  se_random :: "nat \<Rightarrow> (bytes, string) outcome"
  se_save :: "nat \<Rightarrow> (unit, string) outcome"

record service =
  sv_signer :: signing_state
  sv_outbox :: outbox
  sv_authenticated :: bool

type_synonym 'a serving = "(service, 'a, string) action"

definition on_signer :: "service_config \<Rightarrow> 'a signing \<Rightarrow> 'a serving" where
  "on_signer C m = (\<lambda>s. case m (sv_signer s) of (r, t) \<Rightarrow> (map_err (sc_show_error C) r, s\<lparr>sv_signer := t\<rparr>))"

text \<open>A call whose error is looked at instead of passed on.\<close>

definition attempt :: "'a signing \<Rightarrow> ('a, signer_error) outcome serving" where
  "attempt m = (\<lambda>s. case m (sv_signer s) of
     (Panic, t) \<Rightarrow> (Panic, s\<lparr>sv_signer := t\<rparr>) | (r, t) \<Rightarrow> (Ok r, s\<lparr>sv_signer := t\<rparr>))"

definition service_ask :: "service_config \<Rightarrow> (nat \<Rightarrow> 'a) \<Rightarrow> 'a serving" where
  "service_ask C f = on_signer C (ask f)"

definition current_time :: "service_config \<Rightarrow> service_environment \<Rightarrow> nat serving" where
  "current_time C E = act_bind (service_ask C (se_now E)) act_try"

text \<open>A response is the last of an answer unless stated otherwise; the flag says whether the connection stays.\<close>

type_synonym answer = "signer_response list \<times> bool"

definition respond :: "service_config \<Rightarrow> service_environment \<Rightarrow> signer_response \<Rightarrow> answer serving" where
  "respond C E r = act_bind (service_ask C (se_written E)) (\<lambda>written.
     act_return (if written then ([r], True) else ([], False)))"

definition hang_up :: "answer serving" where
  "hang_up = act_return ([], False)"

section \<open>Outbox\<close>

definition parse_event_cloid :: "string \<Rightarrow> (planned_cloid, string) outcome" where
  "parse_event_cloid s = (let v = strip_0x s in
     and_then (fail_if (length v \<noteq> 32) ''invalid CLOID'') (\<lambda>_. ok_or ''invalid digit found in string'' (decode_pairs v)))"

definition transition_payload ::
  "service_config \<Rightarrow> signing_state \<Rightarrow> nat \<times> transition_record \<Rightarrow> (reconciliation_payload option, string) outcome" where
  "transition_payload C s e = and_then (parse_event_cloid (tr_cloid (snd e))) (\<lambda>c. case tr_state (snd e) of
     Authorized \<Rightarrow> and_then (map_err (sc_show_error C) (signer_intent_identity c s)) (\<lambda>i. Ok (Some (IntentAccepted i (fst e))))
   | AuthorizedNotSubmitted \<Rightarrow> Ok (Some (NotSubmittedEvent c))
   | SubmissionStarted _ \<Rightarrow> Ok (Some (StartedEvent c))
   | UnknownResult _ \<Rightarrow> Ok (Some (UnknownEvent c))
   | Acknowledged oid \<Rightarrow> Ok (Some (AcknowledgedEvent c oid))
   | PartiallyFilled oid filled \<Rightarrow> Ok (Some (PartiallyFilledEvent c oid filled))
   | Filled _ _ \<Rightarrow> Ok (Some (ReconciledEvent c))
   | ReconciledNotFound \<Rightarrow> Ok (Some (ReconciledEvent c))
   | Cancelled _ filled \<Rightarrow> Ok (Some (CancelledEvent c filled))
   | Rejected reason \<Rightarrow> Ok (Some (RejectedEvent c reason))
   | NonceAllocated _ \<Rightarrow> Ok None
   | Signed _ \<Rightarrow> Ok None)"

definition append_event :: "service_config \<Rightarrow> string \<Rightarrow> reconciliation_payload \<Rightarrow> unit serving" where
  "append_event C key payload = act_zoom sv_outbox (\<lambda>ob s. s\<lparr>sv_outbox := ob\<rparr>)
     (act_bind (append_once (sc_encode_payload C) (pf_hash (sc_platform C)) (sc_show_ipc C) key payload) (\<lambda>_. act_return ()))"

definition append_transition :: "service_config \<Rightarrow> nat \<times> transition_record \<Rightarrow> unit serving" where
  "append_transition C e = act_bind (act_get (\<lambda>s. transition_payload C (sv_signer s) e)) (\<lambda>p. case p of
     None \<Rightarrow> act_return () | Some payload \<Rightarrow> append_event C (''transition:'' @ nat_str (fst e)) payload)"

fun fill_key :: "exchange_fill_identity \<Rightarrow> string" where
  "fill_key (ExchangeFillIdentity oid tid _) = ''fill:'' @ oid @ '':'' @ tid"

definition sync_outbox :: "service_config \<Rightarrow> unit serving" where
  "sync_outbox C =
    act_bind (on_signer C (act_get (durable_transitions_after 0))) (\<lambda>transitions.
    act_bind (act_each (append_transition C) transitions) (\<lambda>_.
    act_bind (act_get (\<lambda>s. Ok (verified_fills (sg_live (sv_signer s))))) (\<lambda>fills.
    act_bind (act_each (\<lambda>f. append_event C (fill_key (vf_identity f)) (FillEvent f)) fills) (\<lambda>_.
    act_bind (act_get (\<lambda>s. Ok (verified_fundings (sg_live (sv_signer s))))) (\<lambda>funding.
    act_each (\<lambda>f. append_event C (''funding:'' @ hex32 (fe_event_id f)) (FundingEvent f)) funding)))))"

definition save_outbox :: "service_config \<Rightarrow> service_environment \<Rightarrow> unit serving" where
  "save_outbox C E = act_bind (service_ask C (se_save E)) act_try"

section \<open>Requests\<close>

definition intent_identity_of :: "authorized_intent \<Rightarrow> intent_identity" where
  "intent_identity_of i = \<lparr>ii_cloid = ai_planned_cloid i, ii_target_version = ai_target_version i,
     ii_canonical_hash = ai_canonical_hash i\<rparr>"

fun contains :: "string \<Rightarrow> string \<Rightarrow> bool" where
  "contains [] p = (p = [])"
| "contains (c # s) p = (take (length p) (c # s) = p \<or> contains s p)"

definition signer_rejection_of :: "(signer_error \<Rightarrow> string) \<Rightarrow> signer_error \<Rightarrow> signer_rejection" where
  "signer_rejection_of show_error e = (case e of
     DuplicateCloid \<Rightarrow> RejectDuplicateCloid
   | CloidMismatch \<Rightarrow> RejectDuplicateCloid
   | RegistryCapacityExhausted \<Rightarrow> RejectCapacityExhausted
   | StartupNotReconciled \<Rightarrow> RejectNotReady
   | Authorization reason \<Rightarrow>
       if contains reason ''expired'' then RejectExpired
       else if contains reason ''policy'' then RejectPolicyMismatch
       else if contains reason ''projection'' then RejectRiskChanged
       else RejectInvalidIntent reason
   | other \<Rightarrow> RejectInternal (show_error other))"

text \<open>\<open>option.map(parse_hash32).transpose()? != Some(expected)\<close>.\<close>

definition bound_to :: "string option \<Rightarrow> bytes \<Rightarrow> (unit, string) outcome" where
  "bound_to text expected = (let mismatch = Err ''authorized intent release-policy binding mismatch'' in case text of
     None \<Rightarrow> mismatch
   | Some t \<Rightarrow> and_then (parse_hash32 t) (\<lambda>h. if h \<noteq> expected then mismatch else Ok ()))"

definition validate_release_bound_intent :: "service_config \<Rightarrow> authorized_intent \<Rightarrow> (unit, string) outcome" where
  "validate_release_bound_intent C i = (let P = sc_platform C; m = sc_manifest C in
    and_then (validate_canonical (pf_encode_intent P) (pf_hash P) i) (\<lambda>_.
    and_then (fail_if (ai_signer_release_hash i \<noteq> sc_binary_hash C) ''authorized intent release-policy binding mismatch'') (\<lambda>_.
    and_then (case sc_expected_observer C of None \<Rightarrow> Ok () | Some t \<Rightarrow> bound_to (Some t) (ai_observer_release_hash i)) (\<lambda>_.
    and_then (bound_to (rm_market_rule_policy m) (ai_market_rules_hash i)) (\<lambda>_.
    and_then (bound_to (rm_dynamic_floor_policy m) (ai_floor_policy_hash i)) (\<lambda>_.
    bound_to (rm_ioc_pricing_policy m) (ai_ioc_policy_hash i)))))))"

definition handshake_accepted :: "service_config \<Rightarrow> production_handshake \<Rightarrow> bool" where
  "handshake_accepted C peer = (hs_role peer = Observer \<and> hs_protocol_version peer = protocol_version (sc_policy C)
     \<and> hs_state_schema_version peer = IPC_STATE_SCHEMA_VERSION \<and> hs_source_tree peer = rm_source_tree (sc_manifest C)
     \<and> hs_policy_hash peer = sc_policy_hash C \<and> hs_peer_nonce peer = None
     \<and> (case sc_expected_observer C of None \<Rightarrow> True | Some t \<Rightarrow> parse_hash32 t = Ok (hs_binary_hash peer)))"

definition greet_peer :: "service_config \<Rightarrow> service_environment \<Rightarrow> production_handshake \<Rightarrow> answer serving" where
  "greet_peer C E peer = act_bind (act_modify (\<lambda>s. s\<lparr>sv_authenticated := True\<rparr>)) (\<lambda>_.
     act_bind (act_bind (service_ask C (se_random E)) act_try) (\<lambda>nonce.
     respond C E (HandshakeResponse \<lparr>hs_protocol_version = protocol_version (sc_policy C), hs_role = Signer,
       hs_binary_hash = sc_binary_hash C, hs_source_tree = rm_source_tree (sc_manifest C),
       hs_policy_hash = sc_policy_hash C, hs_state_schema_version = IPC_STATE_SCHEMA_VERSION, hs_nonce = nonce,
       hs_peer_nonce = Some (hs_nonce peer)\<rparr>)))"

definition handle_handshake ::
  "service_config \<Rightarrow> service_environment \<Rightarrow> production_handshake \<Rightarrow> answer serving" where
  "handle_handshake C E peer = (\<lambda>s.
    if sv_authenticated s \<or> \<not> handshake_accepted C peer then hang_up s else greet_peer C E peer s)"

text \<open>\<open>reconcile_startup\<close> as the process calls it: two confirmations, a second apart.\<close>

definition reconcile_now :: "service_config \<Rightarrow> service_environment \<Rightarrow> unit serving" where
  "reconcile_now C E = act_bind (current_time C E) (\<lambda>now.
     act_bind (attempt (reconcile_startup (sc_platform C) (se_exchange E) now 2 1000)) (\<lambda>_. act_return ()))"

definition publish :: "service_config \<Rightarrow> service_environment \<Rightarrow> unit serving" where
  "publish C E = act_bind (sync_outbox C) (\<lambda>_. save_outbox C E)"

text \<open>After an authorization that succeeded: the acknowledgment, and only when it was written the submission.\<close>

definition acknowledge_and_submit ::
  "service_config \<Rightarrow> service_environment \<Rightarrow> authorized_intent \<Rightarrow> answer serving" where
  "acknowledge_and_submit C E i =
    act_bind (on_signer C (act_get (durable_state (ai_planned_cloid i)))) (\<lambda>durable.
    let response = Accepted (intent_identity_of i) (snd durable) ''authorized'' in
    act_bind (service_ask C (se_written E)) (\<lambda>written.
    if \<not> written then hang_up
    else
      act_bind (current_time C E) (\<lambda>now.
      act_bind (attempt (submit_authorized (sc_platform C) (se_exchange E) i now)) (\<lambda>_.
      act_bind (reconcile_now C E) (\<lambda>_.
      act_bind (publish C E) (\<lambda>_.
      act_return ([response], True)))))))"

definition handle_submit :: "service_config \<Rightarrow> service_environment \<Rightarrow> authorized_intent \<Rightarrow> answer serving" where
  "handle_submit C E i =
    (case validate_release_bound_intent C i of
       Err _ \<Rightarrow> respond C E (RejectedResponse (ai_planned_cloid i) RejectPolicyMismatch)
     | Panic \<Rightarrow> act_try Panic
     | Ok _ \<Rightarrow> act_bind (on_signer C (act_get (idempotent_state i))) (\<lambda>known.
       if known = None \<or> known = Some AuthorizedNotSubmitted then
         act_bind (current_time C E) (\<lambda>now.
         act_bind (attempt (authorize (sc_platform C) (se_exchange E) i now)) (\<lambda>r. case r of
           Ok _ \<Rightarrow> acknowledge_and_submit C E i
         | Err e \<Rightarrow> respond C E (RejectedResponse (ai_planned_cloid i) (signer_rejection_of (sc_show_error C) e))
         | Panic \<Rightarrow> act_try Panic))
       else
         act_bind (on_signer C (act_get (durable_state (ai_planned_cloid i)))) (\<lambda>durable.
         respond C E (Accepted (intent_identity_of i) (snd durable) (sc_show_state C (the known))))))"

fun reconcilable :: "submission_state \<Rightarrow> bool" where
  "reconcilable (UnknownResult _) = True"
| "reconcilable (Acknowledged _) = True"
| "reconcilable (PartiallyFilled _ _) = True"
| "reconcilable _ = False"

definition accepted_durable ::
  "service_config \<Rightarrow> service_environment \<Rightarrow> planned_cloid \<Rightarrow> string \<Rightarrow> answer serving" where
  "accepted_durable C E c text =
    act_bind (on_signer C (act_get (durable_state c))) (\<lambda>durable.
    act_bind (on_signer C (act_get (signer_intent_identity c))) (\<lambda>identity.
    respond C E (Accepted identity (snd durable) text)))"

definition handle_reconcile :: "service_config \<Rightarrow> service_environment \<Rightarrow> planned_cloid \<Rightarrow> answer serving" where
  "handle_reconcile C E c =
    act_bind (attempt (act_get (durable_state c))) (\<lambda>r. case r of
      Ok (st, _) \<Rightarrow>
        if reconcilable st then
          act_bind (current_time C E) (\<lambda>now.
          act_bind (attempt (reconcile_unknown (sc_platform C) (se_exchange E) c now 2 1000)) (\<lambda>r. case r of
            Ok _ \<Rightarrow> act_bind (reconcile_now C E) (\<lambda>_. accepted_durable C E c ''reconciled'')
          | Err e \<Rightarrow> respond C E (RejectedResponse c (signer_rejection_of (sc_show_error C) e))
          | Panic \<Rightarrow> act_try Panic))
        else accepted_durable C E c (sc_show_state C st)
    | Err e \<Rightarrow> respond C E (if e = UnknownCloid then NotFoundResponse c
        else RejectedResponse c (signer_rejection_of (sc_show_error C) e))
    | Panic \<Rightarrow> act_try Panic)"

definition handle_status :: "service_config \<Rightarrow> service_environment \<Rightarrow> answer serving" where
  "handle_status C E =
    act_bind (act_get (\<lambda>s. Ok (is_ready (sv_signer s)))) (\<lambda>ready.
    act_bind (on_signer C (act_get (durable_transitions_after 0))) (\<lambda>transitions.
    respond C E (StatusResponse ready ready (length transitions))))"

definition handle_replay :: "service_config \<Rightarrow> service_environment \<Rightarrow> nat \<Rightarrow> answer serving" where
  "handle_replay C E n = act_bind (publish C E) (\<lambda>_.
     act_bind (act_get (\<lambda>s. Ok (events_after n (sv_outbox s)))) (\<lambda>events. respond C E (EventsResponse events)))"

definition handle_acknowledge :: "service_config \<Rightarrow> service_environment \<Rightarrow> nat \<Rightarrow> answer serving" where
  "handle_acknowledge C E n =
    act_bind (act_assign (\<lambda>s. acknowledge n (sv_outbox s)) (\<lambda>ob s. s\<lparr>sv_outbox := ob\<rparr>)) (\<lambda>_.
    act_bind (save_outbox C E) (\<lambda>_. respond C E (EventsAcknowledged n)))"

definition handle_request :: "service_config \<Rightarrow> service_environment \<Rightarrow> observer_request \<Rightarrow> answer serving" where
  "handle_request C E request = (\<lambda>s. case request of
     HandshakeRequest peer \<Rightarrow> handle_handshake C E peer s
   | _ \<Rightarrow> if \<not> sv_authenticated s then hang_up s else (case request of
       Submit i \<Rightarrow> handle_submit C E i s
     | Reconcile c \<Rightarrow> handle_reconcile C E c s
     | Status \<Rightarrow> handle_status C E s
     | ReplayFrom n \<Rightarrow> handle_replay C E n s
     | AcknowledgeEvents n \<Rightarrow> handle_acknowledge C E n s
     | HandshakeRequest _ \<Rightarrow> hang_up s))"

section \<open>The service and the signer\<close>

text \<open>Whatever the process does, the signer inside it has only served its own calls.\<close>

definition reached :: "service_config \<Rightarrow> service_environment \<Rightarrow> signing_state \<Rightarrow> service \<Rightarrow> bool" where
  "reached C E t s = (\<exists>ops. sv_signer s = fold (signing_exec (sc_platform C) (se_exchange E)) ops t)"

lemma keeps_case_outcome [keeps_intro]:
  "(\<And>x. act_keeps J (f x)) \<Longrightarrow> (\<And>e. act_keeps J (g e)) \<Longrightarrow> act_keeps J p
     \<Longrightarrow> act_keeps J (case r of Ok x \<Rightarrow> f x | Err e \<Rightarrow> g e | Panic \<Rightarrow> p)"
  by (cases r) simp_all

lemma keeps_case_option [keeps_intro]:
  "act_keeps J m \<Longrightarrow> (\<And>x. act_keeps J (f x)) \<Longrightarrow> act_keeps J (case r of None \<Rightarrow> m | Some x \<Rightarrow> f x)"
  by (cases r) simp_all

lemma keeps_on_signer:
  "(\<And>s. J s \<Longrightarrow> J (s\<lparr>sv_signer := snd (m (sv_signer s))\<rparr>)) \<Longrightarrow> act_keeps J (on_signer C m)"
  by (auto simp: act_keeps_def on_signer_def split: prod.split) (metis snd_conv)

lemma keeps_attempt:
  "(\<And>s. J s \<Longrightarrow> J (s\<lparr>sv_signer := snd (m (sv_signer s))\<rparr>)) \<Longrightarrow> act_keeps J (attempt m)"
  by (auto simp: act_keeps_def attempt_def split: prod.split outcome.split) (metis snd_conv)+

text \<open>
  What the process keeps: a property of its state that depends only on the signer, the outbox and the
  connection, and that survives the signer's calls, survives every request.
\<close>

locale service_invariant =
  fixes J :: "service \<Rightarrow> bool" and C :: service_config and E :: service_environment
  assumes call: "J s \<Longrightarrow> J (s\<lparr>sv_signer := signing_exec (sc_platform C) (se_exchange E) op (sv_signer s)\<rparr>)"
    and post: "J s \<Longrightarrow> J (s\<lparr>sv_outbox := ob\<rparr>)"
    and greet: "J s \<Longrightarrow> J (s\<lparr>sv_authenticated := b\<rparr>)"
begin

lemma calls: "J s \<Longrightarrow> J (s\<lparr>sv_signer := fold (signing_exec (sc_platform C) (se_exchange E)) ops (sv_signer s)\<rparr>)"
proof (induction ops arbitrary: s)
  case (Cons op ops)
  from Cons.IH [OF call [OF Cons.prems, of op]] show ?case by simp
qed simp

lemma keeps_get: "act_keeps J (on_signer C (act_get g))"
  by (rule keeps_on_signer) simp

lemma keeps_service_ask: "act_keeps J (service_ask C f)"
  unfolding service_ask_def by (rule keeps_on_signer) (use call [of _ ExternalCall] in \<open>simp add: ask_def\<close>)

lemma keeps_time: "act_keeps J (current_time C E)"
  unfolding current_time_def by (intro keeps_intro keeps_service_ask)

lemma keeps_respond: "act_keeps J (respond C E r)"
  unfolding respond_def by (intro keeps_intro keeps_service_ask)

lemma keeps_attempt_authorize: "act_keeps J (attempt (authorize (sc_platform C) (se_exchange E) i t))"
  by (rule keeps_attempt) (use call [of _ "CallAuthorize i t"] in simp)

lemma keeps_attempt_startup: "act_keeps J (attempt (reconcile_startup (sc_platform C) (se_exchange E) t k w))"
  by (rule keeps_attempt) (use call [of _ "CallStartup t k w"] in simp)

lemma keeps_attempt_reconcile: "act_keeps J (attempt (reconcile_unknown (sc_platform C) (se_exchange E) c t k w))"
  by (rule keeps_attempt) (use call [of _ "CallReconcile c t k w"] in simp)

lemma keeps_attempt_get: "act_keeps J (attempt (act_get g))"
  by (rule keeps_attempt) simp

lemma keeps_attempt_submit: "act_keeps J (attempt (submit_authorized (sc_platform C) (se_exchange E) i t))"
proof (rule keeps_attempt)
  fix s assume J: "J s"
  let ?P = "sc_platform C" and ?X = "se_exchange E"
  let ?first = "submit_begin ?P ?X i t"
  show "J (s\<lparr>sv_signer := snd (submit_authorized ?P ?X i t (sv_signer s))\<rparr>)"
  proof (cases "\<exists>r s1. ?first (sv_signer s) = (Ok r, s1)")
    case False
    then have "snd (submit_authorized ?P ?X i t (sv_signer s)) = snd (?first (sv_signer s))"
      by (auto simp: submit_authorized_def act_bind_def split: prod.split outcome.split)
    with call [OF J, of "BeginSubmit i t"] show ?thesis by simp
  next
    case True
    then obtain r s1 where b: "?first (sv_signer s) = (Ok r, s1)" by blast
    then obtain s0 where p: "submit_prepare ?P ?X i t (sv_signer s) = (Ok r, s0)" and s1: "s1 = hand_over r s0"
      by (auto simp: submit_begin_def act_bind_Ok)
    have c: "rq_cloid r = ai_planned_cloid i" using submit_prepare_Ok [OF p] by metis
    have last: "length (sg_sent s0) < length (sg_sent s1)" "sg_sent s1 ! length (sg_sent s0) = r"
      by (simp_all add: s1 hand_over_def)
    let ?r = "env_submit ?X (sg_clock s1) r"
    have "snd (submit_authorized ?P ?X i t (sv_signer s))
        = fold (signing_exec ?P ?X) [BeginSubmit i t, ExternalCall, FinishSubmit (length (sg_sent s0)) t ?r] (sv_signer s)"
      using b last c by (simp add: submit_authorized_def act_bind_def ask_def Let_def)
    with calls [OF J] show ?thesis by metis
  qed
qed

lemma keeps_append: "act_keeps J (append_event C k p)"
  by (auto simp: act_keeps_def append_event_def act_zoom_def post split: prod.split)

lemma keeps_append_transition: "act_keeps J (append_transition C e)"
  unfolding append_transition_def by (intro keeps_intro keeps_append)

lemma keeps_publish: "act_keeps J (publish C E)"
  unfolding publish_def sync_outbox_def save_outbox_def
  by (intro keeps_intro keeps_get keeps_append keeps_append_transition keeps_service_ask)

lemma keeps_reconcile_now: "act_keeps J (reconcile_now C E)"
  unfolding reconcile_now_def by (intro keeps_intro keeps_time keeps_attempt_startup)

lemma keeps_acknowledge_and_submit: "act_keeps J (acknowledge_and_submit C E i)"
  unfolding acknowledge_and_submit_def hang_up_def Let_def
  by (intro keeps_intro keeps_get keeps_service_ask keeps_time keeps_attempt_submit keeps_reconcile_now keeps_publish)

lemma keeps_submit: "act_keeps J (handle_submit C E i)"
  unfolding handle_submit_def
  by (intro keeps_intro keeps_get keeps_respond keeps_time keeps_attempt_authorize keeps_acknowledge_and_submit)

lemma keeps_accepted: "act_keeps J (accepted_durable C E c text)"
  unfolding accepted_durable_def by (intro keeps_intro keeps_get keeps_respond)

lemma keeps_reconcile_request: "act_keeps J (handle_reconcile C E c)"
  unfolding handle_reconcile_def
  by (intro keeps_intro keeps_attempt_get keeps_case_prod keeps_time keeps_attempt_reconcile keeps_reconcile_now
      keeps_accepted keeps_respond)

lemma keeps_request: "act_keeps J (handle_request C E r)"
proof (cases r)
  case (HandshakeRequest peer)
  have "act_keeps J (greet_peer C E peer)"
    unfolding greet_peer_def by (intro keeps_intro act_keeps_modify greet keeps_service_ask keeps_respond)
  with HandshakeRequest show ?thesis by (simp add: act_keeps_def handle_request_def handle_handshake_def hang_up_def)
next
  case (Submit i)
  then show ?thesis using keeps_submit by (simp add: act_keeps_def handle_request_def hang_up_def)
next
  case (Reconcile c)
  then show ?thesis using keeps_reconcile_request by (simp add: act_keeps_def handle_request_def hang_up_def)
next
  case (ReplayFrom n)
  have "act_keeps J (handle_replay C E n)"
    unfolding handle_replay_def by (intro keeps_intro keeps_publish keeps_respond)
  with ReplayFrom show ?thesis by (simp add: act_keeps_def handle_request_def hang_up_def)
next
  case (AcknowledgeEvents n)
  have "act_keeps J (handle_acknowledge C E n)"
    unfolding handle_acknowledge_def save_outbox_def
    by (intro keeps_intro act_keeps_assign post keeps_service_ask keeps_respond)
  with AcknowledgeEvents show ?thesis by (simp add: act_keeps_def handle_request_def hang_up_def)
next
  case Status
  have "act_keeps J (handle_status C E)"
    unfolding handle_status_def by (intro keeps_intro keeps_get keeps_respond)
  with Status show ?thesis by (simp add: act_keeps_def handle_request_def hang_up_def)
qed

end


interpretation reached: service_invariant "reached C E t" C E for C E t
proof
  fix s op assume "reached C E t s"
  then obtain ops where "sv_signer s = fold (signing_exec (sc_platform C) (se_exchange E)) ops t" by (auto simp: reached_def)
  then have "signing_exec (sc_platform C) (se_exchange E) op (sv_signer s)
      = fold (signing_exec (sc_platform C) (se_exchange E)) (ops @ [op]) t" by simp
  then show "reached C E t (s\<lparr>sv_signer := signing_exec (sc_platform C) (se_exchange E) op (sv_signer s)\<rparr>)"
    unfolding reached_def by (metis service.select_convs(1) service.surjective service.update_convs(1))
qed (simp_all add: reached_def)

text \<open>
  A run of the process: requests, connections that come and go, and restarts, which read the registry
  file, a ledger and an outbox and reconcile before the first connection.
\<close>

datatype service_op = Serve observer_request | Connect | Boot nat live_trading_state outbox

definition boot :: "service_config \<Rightarrow> service_environment \<Rightarrow> unit serving" where
  "boot C E = act_bind (current_time C E) (\<lambda>now.
     act_bind (on_signer C (reconcile_startup (sc_platform C) (se_exchange E) now 2 1000)) (\<lambda>_. publish C E))"

fun service_exec :: "service_config \<Rightarrow> service_environment \<Rightarrow> service_op \<Rightarrow> service \<Rightarrow> service" where
  "service_exec C E (Serve r) s = snd (handle_request C E r s)"
| "service_exec C E Connect s = s\<lparr>sv_authenticated := False\<rparr>"
| "service_exec C E (Boot n live ob) s = (let t = signing_exec (sc_platform C) (se_exchange E) (Restart n live) (sv_signer s) in
     snd (boot C E (s\<lparr>sv_signer := t, sv_outbox := ob, sv_authenticated := False\<rparr>)))"

context service_invariant
begin

lemma keeps_boot: "act_keeps J (boot C E)"
proof -
  have "act_keeps J (on_signer C (reconcile_startup (sc_platform C) (se_exchange E) t k w))" for t k w
    by (rule keeps_on_signer) (use call [of _ "CallStartup t k w"] in simp)
  then show ?thesis unfolding boot_def by (intro keeps_intro keeps_time keeps_publish)
qed

lemma exec: "J s \<Longrightarrow> J (service_exec C E op s)"
proof (cases op)
  case (Serve r)
  assume "J s"
  with Serve act_keepsD [OF keeps_request] show ?thesis by simp
next
  case Connect
  assume "J s"
  with Connect greet show ?thesis by simp
next
  case (Boot n live ob)
  assume "J s"
  from act_keepsD [OF keeps_boot greet [OF post [OF call [OF this, of "Restart n live"], of ob], of False]]
  show ?thesis using Boot by (simp add: Let_def)
qed

lemma run: "J s \<Longrightarrow> J (fold (service_exec C E) ops s)"
  by (induction ops arbitrary: s) (simp_all add: exec)

end

section \<open>Properties\<close>



text \<open>
  Reasons of a refused authorization are lost: the rejection is found by words in lower case, while the
  failures are printed by their constructors' names, so that an expired, mismatching or outdated intent is
  reported as invalid.
\<close>

theorem authorization_failures_are_misreported:
  "(case f of AuthorizationRisk _ \<Rightarrow> True
     | _ \<Rightarrow> signer_rejection_of show_error (Authorization (show_authorization f)) = RejectInvalidIntent (show_authorization f))"
  by (cases f) (simp_all add: signer_rejection_of_def)

section \<open>Durable acknowledgments\<close>

definition recorded :: "string \<Rightarrow> approved_execution_intent \<Rightarrow> submission_registry \<Rightarrow> bool" where
  "recorded key j reg = (\<exists>st. bget (submissions reg) key = Some (j, st))"

definition on_file :: "string \<Rightarrow> approved_execution_intent \<Rightarrow> signing_state \<Rightarrow> bool" where
  "on_file key j t = (recorded key j (sg_registry t) \<and> recorded key j (sg_disk t))"

lemma recorded_grows: "recorded key j a \<Longrightarrow> registry_grows a b \<Longrightarrow> recorded key j b"
  unfolding recorded_def registry_grows_def by blast

interpretation on_file: signing_invariant "on_file key j" registry_grows for key j
  by unfold_locales (auto simp: on_file_def intro: recorded_grows admit_grows confirm_grows transition_grows)

lemma on_file_begin: "on_file key j t \<Longrightarrow> on_file key j (snd (submit_begin P E i n t))"
proof -
  assume t: "on_file key j t"
  have "act_keeps (on_file key j) (submit_begin P E i n)" unfolding submit_begin_def
    by (intro keeps_intro on_file.keeps_prepare act_keeps_modify) (simp add: on_file_def hand_over_def)
  with t show ?thesis by (rule act_keepsD [rotated])
qed

lemma on_file_exec: "on_file key j t \<Longrightarrow> on_file key j (signing_exec P E op t)"
proof (cases op)
  case (CallAuthorize i n)
  assume "on_file key j t"
  then show ?thesis using CallAuthorize act_keepsD [OF on_file.keeps_authorize] by simp
next
  case (BeginSubmit i n)
  assume "on_file key j t"
  then show ?thesis using BeginSubmit on_file_begin by simp
next
  case (FinishSubmit k n r)
  assume "on_file key j t"
  then show ?thesis using FinishSubmit act_keepsD [OF on_file.keeps_finish] by (simp add: Let_def)
next
  case (CallReconcile c n k w)
  assume "on_file key j t"
  then show ?thesis using CallReconcile act_keepsD [OF on_file.keeps_reconcile] by simp
next
  case (CallStartup n k w)
  assume "on_file key j t"
  moreover have "act_keeps (on_file key j) (reconcile_startup P E n k w)"
    by (rule on_file.keeps_startup) (simp add: on_file_def)
  ultimately show ?thesis using CallStartup by (simp add: act_keepsD)
next
  case (Restart n live)
  assume "on_file key j t"
  then show ?thesis using Restart
    by (auto simp: restart_def new_signer_def outcome_simps on_file_def split: outcome.split dest!: restore_check_same)
next
  case ExternalCall
  assume "on_file key j t"
  then show ?thesis using ExternalCall by (simp add: on_file_def)
qed

interpretation service_file: service_invariant "\<lambda>s. on_file key j (sv_signer s)" C E for key j C E
  by unfold_locales (simp_all add: on_file_exec)

text \<open>A successful authorization has put its intent on file.\<close>

lemma authorize_Ok:
  assumes "authorize P E i now t = (Ok n, t')"
  obtains account equity t1 ctx reg where "authorize_checks P i t = Ok ()" "read_account P E t = (Ok (account, equity), t1)"
    "refreshed_context (pf_arith P) i now account equity (sg_registry t1) = Ok ctx"
    "validate_authorized_intent P i ctx (sg_registry t1) = Ok ()" "admit_intent i now (sg_registry t1) = Ok reg"
    "t' = t1\<lparr>sg_registry := reg, sg_clock := sg_clock t1 + 1, sg_disk := reg\<rparr>"
  using assms unfolding authorize_def by (auto simp: outcome_simps)

lemma authorize_on_file:
  assumes "authorize P E i now t = (Ok n, t')"
  shows "on_file (cloid_string (ai_planned_cloid i)) (durable_intent i) t'"
proof -
  obtain reg0 reg where r: "admit_intent i now reg0 = Ok reg"
    and t': "sg_registry t' = reg" "sg_disk t' = reg"
    by (rule authorize_Ok [OF assms]) simp
  have c: "ei_cloid (durable_intent i) = cloid_string (ai_planned_cloid i)" by (simp add: durable_intent_def)
  have "recorded (cloid_string (ai_planned_cloid i)) (durable_intent i) reg"
  proof (cases "submission_state_of reg0 (cloid_string (ai_planned_cloid i)) = Some AuthorizedNotSubmitted")
    case True
    then obtain st where "bget (submissions reg0) (cloid_string (ai_planned_cloid i)) = Some (durable_intent i, st)"
      and m: "transition_at reg0 (cloid_string (ai_planned_cloid i)) Authorized now = Ok reg"
      using r by (auto simp: admit_intent_def Let_def outcome_simps)
    with transition_entry [OF m this(1)] show ?thesis by (simp add: recorded_def)
  next
    case False
    then have "register reg0 (durable_intent i) = Ok reg" using r by (simp add: admit_intent_def Let_def)
    then show ?thesis by (auto simp: register_def outcome_simps recorded_def c)
  qed
  with t' show ?thesis by (simp add: on_file_def)
qed

lemma acknowledge_identity:
  assumes "acknowledge_and_submit C E i s = (Ok (rs, open_connection), s')" and "Accepted identity n text \<in> set rs"
  shows "identity = intent_identity_of i"
  using assms by (auto simp: acknowledge_and_submit_def outcome_simps hang_up_def Let_def split: if_splits)

lemma respond_rejected: "respond C E (RejectedResponse c x) s = (Ok (rs, b), s') \<Longrightarrow> Accepted identity n text \<notin> set rs"
  by (auto simp: respond_def outcome_simps split: if_splits)

text \<open>
  C5. A fresh acknowledgment is durable: when the process answers the submission of an intent it did not hold,
  or held as not submitted, with an acceptance, the intent with all its fields is in the registry and in
  its file, and stays there.
\<close>

theorem fresh_acknowledgment_is_durable:
  assumes "handle_request C E (Submit i) s = (Ok (rs, open_connection), s')" and "Accepted identity n text \<in> set rs"
    and "submission_state_of (sg_registry (sv_signer s)) (cloid_string (ai_planned_cloid i)) \<in> {None, Some AuthorizedNotSubmitted}"
  shows "identity = intent_identity_of i
    \<and> on_file (cloid_string (ai_planned_cloid i)) (durable_intent i) (sv_signer (fold (service_exec C E) later s'))"
proof -
  have h: "handle_submit C E i s = (Ok (rs, open_connection), s')"
    using assms(1,2) by (cases "sv_authenticated s") (simp_all add: handle_request_def hang_up_def)
  have v: "validate_release_bound_intent C i = Ok ()"
    using h assms(2)
    by (cases "validate_release_bound_intent C i") (auto simp: handle_submit_def dest: respond_rejected)
  obtain known where k: "idempotent_state i (sv_signer s) = Ok known" and known: "known = None \<or> known = Some AuthorizedNotSubmitted"
    and b: "act_bind (current_time C E) (\<lambda>now. act_bind (attempt (authorize (sc_platform C) (se_exchange E) i now)) (\<lambda>r. case r of
         Ok _ \<Rightarrow> acknowledge_and_submit C E i
       | Err e \<Rightarrow> respond C E (RejectedResponse (ai_planned_cloid i) (signer_rejection_of (sc_show_error C) e))
       | Panic \<Rightarrow> act_try Panic)) s = (Ok (rs, open_connection), s')"
  proof -
    have g: "on_signer C (act_get g) s = (map_err (sc_show_error C) (g (sv_signer s)), s)" for g :: "signing_state \<Rightarrow> submission_state option signer"
      by (simp add: on_signer_def)
    obtain known where k: "idempotent_state i (sv_signer s) = Ok known"
      using h v by (cases "idempotent_state i (sv_signer s)") (simp_all add: handle_submit_def act_bind_def g)
    then have "known = None \<or> known = Some AuthorizedNotSubmitted" using assms(3)
      by (auto simp: idempotent_state_def Let_def split: option.splits if_splits)
    with that [OF k] h v k show thesis by (simp add: handle_submit_def act_bind_Ok g)
  qed
  obtain now s2 where b2: "act_bind (attempt (authorize (sc_platform C) (se_exchange E) i now)) (\<lambda>r. case r of
         Ok _ \<Rightarrow> acknowledge_and_submit C E i
       | Err e \<Rightarrow> respond C E (RejectedResponse (ai_planned_cloid i) (signer_rejection_of (sc_show_error C) e))
       | Panic \<Rightarrow> act_try Panic) s2 = (Ok (rs, open_connection), s')"
    using b unfolding act_bind_Ok [of "current_time C E"] by blast
  then obtain r s3 where a: "attempt (authorize (sc_platform C) (se_exchange E) i now) s2 = (Ok r, s3)"
    and r: "(case r of Ok _ \<Rightarrow> acknowledge_and_submit C E i
         | Err e \<Rightarrow> respond C E (RejectedResponse (ai_planned_cloid i) (signer_rejection_of (sc_show_error C) e))
         | Panic \<Rightarrow> act_try Panic) s3 = (Ok (rs, open_connection), s')"
    unfolding act_bind_Ok by blast
  obtain q where q: "r = Ok q" using r assms(2) by (cases r) (auto dest: respond_rejected)
  have "authorize (sc_platform C) (se_exchange E) i now (sv_signer s2) = (Ok q, sv_signer s3)"
    using a q by (auto simp: attempt_def split: prod.splits outcome.splits)
  then have f3: "on_file (cloid_string (ai_planned_cloid i)) (durable_intent i) (sv_signer s3)" by (rule authorize_on_file)
  have a3: "acknowledge_and_submit C E i s3 = (Ok (rs, open_connection), s')" using r q by simp
  have "on_file (cloid_string (ai_planned_cloid i)) (durable_intent i) (sv_signer s')"
    using act_keepsD [OF service_file.keeps_acknowledge_and_submit f3, of C E i] a3 by simp
  from service_file.run [OF this] acknowledge_identity [OF a3 assms(2)] show ?thesis by simp
qed

text \<open>
  A retried intent is acknowledged although it is not on file: when the write of an authorization has
  failed, the registry in memory still holds the intent as authorized, and submitting it again is answered
  with an acceptance, while nothing is written and nothing is sent.
\<close>

theorem unsaved_intent_is_acknowledged:
  assumes "sv_authenticated s" and "validate_release_bound_intent C i = Ok ()"
    and "bget (submissions (sg_registry (sv_signer s))) (cloid_string (ai_planned_cloid i)) = Some (durable_intent i, Authorized)"
    and "length (history (sg_registry (sv_signer s))) < 2 ^ 64" and "se_written E (sg_clock (sv_signer s))"
  shows "handle_request C E (Submit i) s
    = (Ok ([Accepted (intent_identity_of i) (length (history (sg_registry (sv_signer s)))) (sc_show_state C Authorized)], True),
       s\<lparr>sv_signer := (sv_signer s)\<lparr>sg_clock := sg_clock (sv_signer s) + 1\<rparr>\<rparr>)"
  using assms
  by (simp add: handle_request_def handle_submit_def idempotent_state_def submission_state_of_def on_signer_def
      act_bind_def durable_state_def durable_sequence_def respond_def service_ask_def ask_def Let_def)

section \<open>Replay\<close>

definition has_key :: "string \<Rightarrow> service \<Rightarrow> bool" where
  "has_key k s = bhas (ob_source_keys (sv_outbox s)) k"

lemma append_keeps_key: "bhas (ob_source_keys ob) k \<Longrightarrow> bhas (ob_source_keys (snd (append_once enc H show_ipc key p ob))) k"
  by (auto simp: append_once_def Let_def split: option.split outcome.split)

lemma append_adds_key: "append_once enc H show_ipc key p ob = (Ok r, ob') \<Longrightarrow> bhas (ob_source_keys ob') key"
  by (auto simp: append_once_def Let_def split: option.splits outcome.splits if_splits)

lemma event_keeps_key: "act_keeps (has_key k) (append_event C key p)"
proof -
  have "has_key k s \<Longrightarrow> has_key k (snd (append_event C key p s))" for s
    using append_keeps_key [of "sv_outbox s" k "sc_encode_payload C" "pf_hash (sc_platform C)" "sc_show_ipc C" key p]
    by (cases "append_once (sc_encode_payload C) (pf_hash (sc_platform C)) (sc_show_ipc C) key p (sv_outbox s)";
        cases "fst (append_once (sc_encode_payload C) (pf_hash (sc_platform C)) (sc_show_ipc C) key p (sv_outbox s))")
      (simp_all add: append_event_def act_zoom_def has_key_def act_bind_def)
  then show ?thesis by (simp add: act_keeps_def)
qed

lemma event_adds_key: "append_event C key p s = (Ok u, s') \<Longrightarrow> has_key key s' \<and> sv_signer s' = sv_signer s"
  by (auto simp: append_event_def has_key_def outcome_simps dest: append_adds_key)

lemma transition_keeps_key: "act_keeps (has_key k) (append_transition C e)"
  unfolding append_transition_def by (intro keeps_intro event_keeps_key)

text \<open>What a loop over events leaves in the outbox.\<close>

lemma each_adds_keys:
  assumes "act_each f xs s = (Ok u, s')" and "\<And>x k. act_keeps (has_key k) (f x)"
    and "\<And>x s s'. x \<in> set xs \<Longrightarrow> f x s = (Ok (), s') \<Longrightarrow> (wanted x \<longrightarrow> has_key (key x) s') \<and> sv_signer s' = sv_signer s"
  shows "(\<forall>x \<in> set xs. wanted x \<longrightarrow> has_key (key x) s') \<and> (\<forall>k. has_key k s \<longrightarrow> has_key k s') \<and> sv_signer s' = sv_signer s"
  using assms(1,3)
proof (induction xs arbitrary: s)
  case (Cons x xs)
  from Cons.prems(1) obtain s1 where one: "f x s = (Ok (), s1)" and rest: "act_each f xs s1 = (Ok u, s')"
    by (auto simp: act_bind_Ok)
  have I: "(\<forall>x \<in> set xs. wanted x \<longrightarrow> has_key (key x) s') \<and> (\<forall>k. has_key k s1 \<longrightarrow> has_key k s') \<and> sv_signer s' = sv_signer s1"
    by (rule Cons.IH [OF rest]) (use Cons.prems(2) in auto)
  have x: "(wanted x \<longrightarrow> has_key (key x) s1) \<and> sv_signer s1 = sv_signer s" using Cons.prems(2) [OF _ one] by simp
  have "has_key k s \<Longrightarrow> has_key k s1" for k using act_keepsD [OF assms(2) [of k x], of s] one by simp
  with I x show ?case by auto
qed simp

fun reported :: "submission_state \<Rightarrow> bool" where
  "reported (NonceAllocated _) = False"
| "reported (Signed _) = False"
| "reported _ = True"

lemma transition_adds_key:
  assumes "append_transition C e s = (Ok u, s')"
  shows "(reported (tr_state (snd e)) \<longrightarrow> has_key (''transition:'' @ nat_str (fst e)) s') \<and> sv_signer s' = sv_signer s"
proof -
  from assms obtain p where p: "transition_payload C (sv_signer s) e = Ok p"
    and a: "(case p of None \<Rightarrow> act_return () | Some payload \<Rightarrow> append_event C (''transition:'' @ nat_str (fst e)) payload) s = (Ok u, s')"
    by (auto simp: append_transition_def act_bind_Ok)
  show ?thesis
  proof (cases p)
    case None
    then have "\<not> reported (tr_state (snd e))" using p
      by (cases "tr_state (snd e)") (auto simp: transition_payload_def outcome_simps)
    with None a show ?thesis by simp
  next
    case (Some payload)
    with a show ?thesis using event_adds_key by force
  qed
qed


section \<open>Sample service\<close>

definition sample_release :: release_manifest where
  "sample_release = \<lparr>rm_deployment_scope = ''production'', rm_source_tree_clean = True, rm_git_commit_required = True,
     rm_schema_version = 1, rm_architecture_version = [], rm_qualification_stage = [], rm_git_commit = [],
     rm_git_tree_state = ''clean'', rm_source_tree = [], rm_source_files = bempty, rm_binary = [], rm_configuration = [],
     rm_risk_policy = [], rm_configuration_schema_version = 2, rm_test_report = [], rm_risk_policy_version = [],
     rm_global_risk_scale = [], rm_candidate_configuration = None, rm_runtime_configuration = None,
     rm_observer_binary = None, rm_signer_binary = None, rm_market_rule_policy = Some (hex32 (replicate 32 10)),
     rm_dynamic_floor_policy = Some (hex32 (replicate 32 11)), rm_ioc_pricing_policy = Some (hex32 (replicate 32 12)),
     rm_signer_protocol_schema_version = None, rm_signer_state_schema_version = None, rm_ipc_policy = None,
     rm_systemd_units = None, rm_linux_topology_policy = None, rm_authorization_schema_version = None,
     rm_reconciliation_event_schema_version = None\<rparr>"

definition one_hash :: "bytes \<Rightarrow> bytes" where
  "one_hash b = replicate 32 1"

definition service_platform :: platform where
  "service_platform = sample_platform\<lparr>pf_hash := one_hash, pf_encode_intent := (\<lambda>_. Ok [1])\<rparr>"

definition sample_service :: service_config where
  "sample_service = \<lparr>sc_platform = service_platform, sc_manifest = sample_release, sc_policy = sample_policy,
     sc_binary_hash = replicate 32 14, sc_policy_hash = replicate 32 7, sc_expected_observer = None,
     sc_encode_payload = (\<lambda>_. Ok [1]), sc_show_ipc = (\<lambda>_. ''error''), sc_show_error = (\<lambda>_. ''error''),
     sc_show_state = (\<lambda>_. ''state'')\<rparr>"

text \<open>The exchange answers about the account, but has no fills to give.\<close>

definition sample_world :: service_environment where
  "sample_world = \<lparr>se_exchange = quiet_exchange\<lparr>env_fills := (\<lambda>_ _. Err (ReconciliationHttp 500))\<rparr>,
     se_now = (\<lambda>_. Ok 100), se_written = (\<lambda>_. True), se_random = (\<lambda>_. Ok [1]), se_save = (\<lambda>_. Ok ())\<rparr>"

definition sample_order :: authorized_intent where
  "sample_order = sample_envelope\<lparr>ai_quantity := Scaled 2 0, ai_limit_price := Scaled 10 0, ai_reference_price := 10,
     ai_projection_hash := replicate 32 1, ai_canonical_hash := replicate 32 1\<rparr>"

definition empty_registry :: submission_registry where
  "empty_registry = \<lparr>submissions = bempty, unknown_assets = bempty, not_found_confirmations = bempty,
     maximum_submissions = 10, history = []\<rparr>"

text \<open>The nonces are used up: the order that is acknowledged is not submitted.\<close>

definition sample_serving :: service where
  "sample_serving = \<lparr>sv_signer = fresh_signer\<lparr>sg_registry := empty_registry, sg_disk := empty_registry,
       sg_reconciled := True, sg_nonce := 2 ^ 64 - 1\<rparr>,
     sv_outbox = (case new_outbox [1] 10 of Ok ob \<Rightarrow> ob), sv_authenticated = True\<rparr>"

definition sample_current :: pre_signing_context where
  "sample_current = (ai_authorization sample_order)\<lparr>now_mono := 100,
     projection_input := (projection_input (ai_authorization sample_order))\<lparr>current_equity := 1000, filled_positions := bempty,
       acknowledged_open_orders := [], filled_position_state_complete := True, open_order_state_complete := True\<rparr>\<rparr>"

lemma sample_binding: "validate_release_bound_intent sample_service sample_order = Ok ()"
  by code_simp

lemma sample_projection:
  "case project_and_validate_portfolio exact_ops (projection_input sample_current) of
     Ok p \<Rightarrow> entries (constrained_targets p) = [(''BTC'', 20)] \<and> entries (proposed_deltas p) = [(''BTC'', 20)]
       \<and> entries (rounded_deltas p) = [(''BTC'', 20)] \<and> map fst (entries (exposure_ranges p)) = [''BTC'']
   | _ \<Rightarrow> False"
  by code_simp

lemma sample_canonical: "validate_canonical (\<lambda>_. Ok [1]) one_hash sample_order = Ok ()"
  by code_simp

lemma sample_grid:
  "on_market_grid sample_order sample_rules = Ok ()" "validates_rounded_order exact_ops 2 10 10 = Ok True"
  "bget (rules_of (projection_input sample_current)) ''BTC'' = Some sample_rules"
  by code_simp+

lemma sample_cloid: "cloid_string (ai_planned_cloid sample_order) = sample_key"
  by code_simp

lemma sample_amounts:
  "d_mul exact_ops 2 10 = Some 20" "side_matches Buy 20" "mark_price sample_rules = 10"
  by (code_simp, simp_all add: side_matches_def sample_rules_def)

lemma service_platform_fields [simp]:
  "pf_arith service_platform = exact_ops" "pf_hash service_platform = one_hash" "pf_decimal_text service_platform = (\<lambda>_. ''1'')"
  "pf_encode_intent service_platform = (\<lambda>_. Ok [1])" 
  by (simp_all add: service_platform_def)

lemma sample_order_fields:
  "ai_expires_at sample_order = 200" "ai_risk_policy_hash sample_order = replicate 32 7" "ai_asset sample_order = ''BTC''"
  "scaled_value (ai_quantity sample_order) = 2" "scaled_value (ai_limit_price sample_order) = 10" "ai_reference_price sample_order = 10"
  "ai_generation sample_order = 0" "ai_parent_cloid sample_order = None" "ai_projection_hash sample_order = replicate 32 1"
  "ai_side sample_order = Buy" "ai_reduce_only sample_order = False"
  by (simp_all add: sample_order_def sample_envelope_def scaled_value_def)

lemma sample_current_fields:
  "now_mono sample_current = 100" "deployed_risk_policy_hash sample_current = replicate 32 7"
  "pre_signing_context.exchange_minimum_notional sample_current = 10"
  by (simp_all add: sample_current_def sample_order_def sample_envelope_def sample_context_def)

lemma no_positions: "btry_vmap f (bempty :: (asset, rat) bmap) = Ok bempty"
  by (simp add: btry_vmap_def btraverse_def bkeys_def bempty.rep_eq)

lemma no_values: "bvals (bempty :: (string, 'b) bmap) = []"
  by (simp add: bvals_def bempty.rep_eq)

lemma sample_context_refreshed:
  "refreshed_context exact_ops sample_order 100 \<lparr>ps_positions = bempty, ps_account_equity = 1000, ps_observed_at = 90, ps_source_hash = []\<rparr>
     \<lparr>es_equity = 1000, es_observed_at = 90, es_source_hash = []\<rparr> empty_registry = Ok sample_current"
  by (simp add: refreshed_context_def positions_to_notional_def sample_current_def empty_registry_def Let_def
      no_positions no_values)

lemma sample_validates: "validate_authorized_intent service_platform sample_order sample_current empty_registry = Ok ()"
proof -
  obtain p where p: "project_and_validate_portfolio exact_ops (projection_input sample_current) = Ok p"
    and e: "entries (constrained_targets p) = [(''BTC'', 20)]" "entries (proposed_deltas p) = [(''BTC'', 20)]"
    "entries (rounded_deltas p) = [(''BTC'', 20)]" "map fst (entries (exposure_ranges p)) = [''BTC'']"
    using sample_projection by (auto split: outcome.splits)
  obtain r where r: "entries (exposure_ranges p) = [(''BTC'', r)]" using e(4) by auto
  have h: "derive_projection_hash one_hash (\<lambda>_. ''1'') p = Ok (replicate 32 1)"
    by (simp add: derive_projection_hash_def enc_decimal_map_def enc_length_def enc_string_def bsize_def e r one_hash_def)
  have d: "bget_or 0 (rounded_deltas p) ''BTC'' = 20" using e(3) by (simp add: bget_or_def bget.rep_eq)
  show ?thesis
    by (simp add: validate_authorized_intent_def sample_canonical sample_grid sample_order_fields sample_current_fields p h d
        sample_amounts submission_state_of_def empty_registry_def permits_increase_def fail_if_def)
qed

lemma sample_signer:
  "sg_registry (sv_signer sample_serving) = empty_registry" "sg_disk (sv_signer sample_serving) = empty_registry"
  "sg_reconciled (sv_signer sample_serving)" "sg_nonce (sv_signer sample_serving) = 2 ^ 64 - 1"
  "sg_live (sv_signer sample_serving) = fresh_live" "sv_authenticated sample_serving"
  "sg_risk_policy_hash (sv_signer sample_serving) = replicate 32 7"
  "sg_configuration_hash (sv_signer sample_serving) = replicate 32 8"
  "sg_manifest_hash (sv_signer sample_serving) = replicate 32 9"
  by (simp_all add: sample_serving_def sample_fresh fresh_signer_def new_signer_def next_nonce_floor_def history_nonces_def
      authorized_registry_def map_filter_simps)

lemma sample_order_hashes:
  "deployed_risk_policy_hash (ai_authorization sample_order) = replicate 32 7"
  "ai_configuration_hash sample_order = replicate 32 8" "ai_release_manifest_hash sample_order = replicate 32 9"
  by (simp_all add: sample_order_def sample_envelope_def sample_context_def)

lemma sample_checks: "authorize_checks service_platform sample_order (sv_signer sample_serving) = Ok ()"
  by (simp add: authorize_checks_def sample_canonical sample_signer sample_order_fields sample_order_hashes fail_if_def
      has_authorized_not_submitted_def empty_registry_def no_values)

definition order_registry :: submission_registry where
  "order_registry = \<lparr>submissions = binsert sample_key (durable_intent sample_order, Authorized) bempty,
     unknown_assets = bempty, not_found_confirmations = bempty, maximum_submissions = 10,
     history = [\<lparr>tr_cloid = sample_key, tr_state = Authorized, recorded_at_ms = 0\<rparr>]\<rparr>"

lemma sample_admitted: "admit_intent sample_order 100 empty_registry = Ok order_registry"
  by code_simp

lemma sample_authorized:
  "authorize service_platform (se_exchange sample_world) sample_order 100 (sv_signer sample_serving\<lparr>sg_clock := k\<rparr>)
    = (Ok 1, sv_signer sample_serving\<lparr>sg_clock := k + 3, sg_registry := order_registry, sg_disk := order_registry\<rparr>)"
proof -
  have w: "env_positions (se_exchange sample_world) = env_positions quiet_exchange"
    "env_equity (se_exchange sample_world) = env_equity quiet_exchange" "env_disk (se_exchange sample_world) = env_disk quiet_exchange"
    by (simp_all add: sample_world_def)
  have c: "authorize_checks service_platform sample_order (sv_signer sample_serving\<lparr>sg_clock := k\<rparr>) = Ok ()"
    using sample_checks by (simp add: authorize_checks_def)
  show ?thesis
    by (simp add: authorize_def act_bind_def c read_account_def w quiet_simps fail_if_def sample_signer
        sample_context_refreshed sample_validates on_registry_def act_assign_def sample_admitted persist_def durable_sequence_def
        order_registry_def)
qed

lemma sample_refused:
  assumes "sg_reconciled t" "sg_registry t = order_registry" "sg_nonce t = 2 ^ 64 - 1"
  shows "submit_authorized P E sample_order 100 t = (Err NonceOverflow, t)"
proof -
  have a: "approved_intent order_registry sample_key = Ok (durable_intent sample_order)"
    by (simp add: approved_intent_def order_registry_def fail_if_def)
  show ?thesis
    by (simp add: submit_authorized_def submit_begin_def submit_prepare_def act_bind_def assms fail_if_def sample_cloid a
        take_nonce_def Let_def checked_add_nat_def)
qed

lemma sample_unreconciled:
  fixes t :: signing_state
  assumes "sg_live t = fresh_live"
  shows "reconcile_startup service_platform (se_exchange sample_world) 100 2 1000 t
    = (Err (Reconciliation ''error''), t\<lparr>sg_reconciled := False, sg_clock := sg_clock t + 1\<rparr>)"
proof -
  obtain k where k: "PAGE_LIMIT = Suc k" by (rule page_limit_Suc)
  have c: "lt_fill_cursor fresh_live = 5" "lt_funding_cursor fresh_live = 5"
    by (simp_all add: fresh_live_def new_live_state_def fail_if_def)
  have f: "env_fills (se_exchange sample_world) = (\<lambda>_ _. Err (ReconciliationHttp 500))"
    "pf_show_reconciliation service_platform = (\<lambda>_. ''error'')"
    by (simp_all add: sample_world_def service_platform_def sample_platform_def)
  show ?thesis
    by (simp add: reconcile_startup_def startup_sync_def act_bind_def assms c read_all_fills_def k Let_def quiet_simps f)
qed

lemma sample_service_fields:
  "sc_platform sample_service = service_platform" "sc_encode_payload sample_service = (\<lambda>_. Ok [1])"
  "sc_show_ipc sample_service = (\<lambda>_. ''error'')" "sc_show_error sample_service = (\<lambda>_. ''error'')"
  "se_now sample_world = (\<lambda>_. Ok 100)" "se_written sample_world = (\<lambda>_. True)" "se_save sample_world = (\<lambda>_. Ok ())"
  by (simp_all add: sample_service_def sample_world_def)

lemma sample_payload:
  assumes "sg_registry t = order_registry"
  shows "\<exists>p. transition_payload sample_service t (Suc 0, \<lparr>tr_cloid = sample_key, tr_state = Authorized, recorded_at_ms = 0\<rparr>) = Ok (Some p)"
proof -
  have c: "parse_event_cloid sample_key = Ok (replicate 16 2)" by code_simp
  have k: "cloid_string (replicate 16 2) = sample_key" by (rule sample_key_eq)
  have h: "is_ok (decode_hex32 (ei_canonical_intent_hash (durable_intent sample_order)))" by code_simp
  then obtain h where "decode_hex32 (ei_canonical_intent_hash (durable_intent sample_order)) = Ok h"
    by (auto simp: is_ok_def split: outcome.splits)
  then show ?thesis
    by (simp add: transition_payload_def c signer_intent_identity_def assms k order_registry_def)
qed

lemma sample_published:
  assumes "sg_registry (sv_signer s) = order_registry" "sg_live (sv_signer s) = fresh_live" "sv_outbox s = sv_outbox sample_serving"
  shows "\<exists>s'. publish sample_service sample_world s = (Ok (), s')"
proof -
  obtain p where p: "transition_payload sample_service (sv_signer s)
      (Suc 0, \<lparr>tr_cloid = sample_key, tr_state = Authorized, recorded_at_ms = 0\<rparr>) = Ok (Some p)"
    using sample_payload [OF assms(1)] by blast
  have o: "sv_outbox sample_serving = \<lparr>ob_schema_version = OUTBOX_SCHEMA_VERSION, ob_signer = [1], ob_next_sequence = 1,
      ob_acknowledged = 0, ob_source_keys = bempty, ob_events = [], ob_maximum = 10\<rparr>"
    by (simp add: sample_serving_def new_outbox_def fail_if_def)
  have l: "verified_fills fresh_live = []" "verified_fundings fresh_live = []"
    by (simp_all add: fresh_live_def new_live_state_def fail_if_def)
  show ?thesis
    by (simp add: publish_def sync_outbox_def durable_transitions_after_def assms order_registry_def act_bind_def on_signer_def
        append_transition_def p append_event_def act_zoom_def append_once_def o checked_add_nat_def canonical_payload_hash_def
        sample_service_fields l save_outbox_def service_ask_def ask_def)
qed

lemma sample_acknowledged:
  "\<exists>s'. handle_request sample_service sample_world (Submit sample_order) sample_serving
     = (Ok ([Accepted (intent_identity_of sample_order) 1 ''authorized''], True), s')"
proof -
  have i: "idempotent_state sample_order (sv_signer sample_serving) = Ok None"
    by (simp add: idempotent_state_def sample_signer empty_registry_def)
  have b: "submission_state_of order_registry sample_key = Some Authorized" "durable_sequence order_registry = Ok 1"
    by (simp_all add: submission_state_of_def order_registry_def durable_sequence_def)
  have "\<exists>s'. acknowledge_and_submit sample_service sample_world sample_order
      (sample_serving\<lparr>sv_signer := sv_signer sample_serving\<lparr>sg_clock := k, sg_registry := order_registry, sg_disk := order_registry\<rparr>\<rparr>)
        = (Ok ([Accepted (intent_identity_of sample_order) 1 ''authorized''], True), s')" for k
  proof -
    obtain s' where "publish sample_service sample_world (sample_serving\<lparr>sv_signer := sv_signer sample_serving\<lparr>sg_registry := order_registry,
        sg_disk := order_registry, sg_reconciled := False, sg_clock := k + 1 + 1 + 1 + 1\<rparr>\<rparr>) = (Ok (), s')"
      using sample_published [of "sample_serving\<lparr>sv_signer := sv_signer sample_serving\<lparr>sg_registry := order_registry,
        sg_disk := order_registry, sg_reconciled := False, sg_clock := k + 1 + 1 + 1 + 1\<rparr>\<rparr>"] by (auto simp: sample_signer)
    then show ?thesis
    by (simp add: acknowledge_and_submit_def act_bind_def on_signer_def durable_state_def b sample_cloid service_ask_def ask_def
        current_time_def sample_service_fields attempt_def sample_refused sample_signer reconcile_now_def sample_unreconciled)
  qed
  then show ?thesis
    using sample_authorized [of "sg_clock (sv_signer sample_serving) + 1"]
    by (simp add: handle_request_def sample_signer handle_submit_def sample_binding on_signer_def act_bind_def i
        current_time_def service_ask_def ask_def sample_service_fields attempt_def)
qed


lemma fresh_acknowledgment_is_durable_witness:
  "\<exists>s'. handle_request sample_service sample_world (Submit sample_order) sample_serving
       = (Ok ([Accepted (intent_identity_of sample_order) 1 ''authorized''], True), s')
     \<and> on_file sample_key (durable_intent sample_order)
         (sv_signer (fold (service_exec sample_service sample_world) [Connect, Serve Status, Boot 1 fresh_live (sv_outbox s')] s'))"
proof -
  obtain s' where h: "handle_request sample_service sample_world (Submit sample_order) sample_serving
      = (Ok ([Accepted (intent_identity_of sample_order) 1 ''authorized''], True), s')"
    using sample_acknowledged by blast
  have f: "submission_state_of (sg_registry (sv_signer sample_serving)) (cloid_string (ai_planned_cloid sample_order))
      \<in> {None, Some AuthorizedNotSubmitted}"
    by (simp add: sample_signer submission_state_of_def empty_registry_def)
  from fresh_acknowledgment_is_durable [OF h _ f, of "intent_identity_of sample_order" 1 "''authorized''"] h
  show ?thesis unfolding sample_cloid by (metis list.set_intros(1))
qed

lemma unsaved_intent_is_acknowledged_witness:
  "handle_request sample_service sample_world (Submit sample_order)
     (sample_serving\<lparr>sv_signer := (sv_signer sample_serving)\<lparr>sg_registry := order_registry\<rparr>\<rparr>)
   = (Ok ([Accepted (intent_identity_of sample_order) (length (history order_registry)) ''state''], True),
      sample_serving\<lparr>sv_signer := (sv_signer sample_serving)\<lparr>sg_registry := order_registry,
        sg_clock := sg_clock (sv_signer sample_serving) + 1\<rparr>\<rparr>)
   \<and> bget (submissions (sg_disk (sv_signer sample_serving))) sample_key = None"
proof -
  let ?s = "sample_serving\<lparr>sv_signer := (sv_signer sample_serving)\<lparr>sg_registry := order_registry\<rparr>\<rparr>"
  have "sc_show_state sample_service Authorized = ''state''" by (simp add: sample_service_def)
  moreover have "bget (submissions (sg_registry (sv_signer ?s))) (cloid_string (ai_planned_cloid sample_order))
      = Some (durable_intent sample_order, Authorized)" "length (history (sg_registry (sv_signer ?s))) < 2 ^ 64"
    by (simp_all add: sample_cloid order_registry_def)
  ultimately show ?thesis
    using unsaved_intent_is_acknowledged [of ?s sample_service sample_order sample_world]
    by (simp add: sample_signer sample_binding sample_service_fields) (simp add: empty_registry_def)
qed


end
