(* ===== verification/Decision.thy ===== *)
theory Decision
  imports Identity Consensus Allocation Order_Planning
begin

text \<open>
  The construction of a decision (\<open>construct_decision\<close> of \<open>copytrade-core/src/decision.rs\<close>): the consensus of
  the sources per asset becomes unconstrained targets, the allocation admits targets worth trading, the
  portfolio projection constrains them, and the identities are derived. Decimal and floating point
  arithmetic, SHA-256 and the texts of two errors are the \<open>decision_platform\<close>.
\<close>

record decision_platform =
  dp_arith :: decimal_ops
  dp_floats :: float_ops
  dp_hash :: "bytes \<Rightarrow> bytes"
  dp_from_float :: "rat \<Rightarrow> rat option"
  dp_show_floor :: "execution_floor_error \<Rightarrow> string"
  dp_show_allocation :: "allocation_error \<Rightarrow> string"

record decision_construction_input =
  dc_engine :: bytes
  dc_sequence :: nat
  dc_config_hash :: config_hash
  dc_risk_policy_hash :: risk_policy_hash
  dc_members :: "snapshot_set_member list"
  dc_eligibility :: source_eligibility_summary
  dc_market_snapshot :: market_snapshot_id
  dc_consensus_inputs :: "(asset, consensus_input list) bmap"
  dc_maximum_exposure :: f64
  dc_maximum_age :: nat
  dc_floor_policy :: execution_floor_policy
  dc_hysteresis :: rat
  dc_projection_input :: portfolio_projection_input
  dc_previous_target :: "previous_target_state option"
  dc_created_at :: timestamp

datatype slot_lifecycle =
    ExitPending | RiskReductionPending | ExistingContinuation | NewPositionAdmitted
  | RetainedBelowMinimum | RetainedForCapacity

record micro_position_slot =
  ms_asset :: asset
  ms_desired :: rat
  ms_admitted :: rat
  ms_filled :: rat
  ms_committed :: rat
  ms_residual :: rat
  ms_conviction :: rat
  ms_agreement :: rat
  ms_floor :: asset_execution_floor
  ms_version :: target_version
  ms_lifecycle :: slot_lifecycle

record decision_record =
  dr_id :: decision_id
  dr_sequence :: nat
  dr_version :: target_version
  dr_target_hash :: target_hash
  dr_config_hash :: config_hash
  dr_risk_policy_hash :: risk_policy_hash
  dr_snapshot_set :: snapshot_set_id
  dr_eligibility :: eligibility_hash
  dr_market_snapshot :: market_snapshot_id
  dr_consensus :: "(asset, rat) bmap"
  dr_unconstrained :: "(asset, rat) bmap"
  dr_retained :: "(asset, rat) bmap"
  dr_slots :: "(asset, micro_position_slot) bmap"
  dr_projection :: portfolio_projection
  dr_created_at :: timestamp

section \<open>Consensus of the sources\<close>

definition sort_inputs :: "consensus_input list \<Rightarrow> consensus_input list" where
  "sort_inputs inputs = sort_by (\<lambda>l r. cmp (ci_candidate l) (ci_candidate r)) inputs"

text \<open>
  A source agrees when it counts and is on the side of the consensus; a consensus of zero is \<open>+0.0\<close>, whose
  sign is positive. Exposures are finite once the consensus has been accepted.
\<close>

definition agrees :: "nat \<Rightarrow> rat \<Rightarrow> consensus_input \<Rightarrow> bool" where
  "agrees max_age exposure c = (ci_enabled c \<and> \<not> ci_quarantined c \<and> ci_snapshot_age_ms c \<le> max_age
     \<and> (case ci_exposure c of Finite x \<Rightarrow> x \<noteq> 0 \<and> (0 < x) = (0 \<le> exposure) | NotFinite \<Rightarrow> False))"

definition float_product :: "float_ops \<Rightarrow> f64 \<Rightarrow> f64 \<Rightarrow> f64" where
  "float_product F x y = (case (x, y) of (Finite a, Finite b) \<Rightarrow> f_mul F a b | _ \<Rightarrow> NotFinite)"

definition from_f64 :: "decision_platform \<Rightarrow> f64 \<Rightarrow> string \<Rightarrow> rat identity" where
  "from_f64 P x name = map_err Risk (decimal_from_f64 (\<lambda>x. case x of Finite a \<Rightarrow> dp_from_float P a | NotFinite \<Rightarrow> None) x name)"

definition add_agreement :: "decision_platform \<Rightarrow> rat \<Rightarrow> consensus_input \<Rightarrow> rat identity" where
  "add_agreement P running c = and_then (from_f64 P (float_product (dp_floats P) (ci_weight c) (ci_confidence c)) ''agreement weight'')
     (\<lambda>weight. ok_or (IdentityOverflow ''agreement weight'') (d_add (dp_arith P) running weight))"

definition asset_consensus ::
  "decision_platform \<Rightarrow> f64 \<Rightarrow> nat \<Rightarrow> consensus_input list \<Rightarrow> (rat \<times> rat) identity" where
  "asset_consensus P max_exposure max_age inputs = (let sorted_inputs = sort_inputs inputs in
     case adjacent_duplicate ci_candidate sorted_inputs of
       Some c \<Rightarrow> Err (DuplicateCandidate c)
     | None \<Rightarrow>
       and_then (map_err InvalidIdentityInput
         (bounded_additive_consensus (dp_floats P) sorted_inputs max_exposure max_age)) (\<lambda>result.
       and_then (from_f64 P (Finite (cr_exposure result)) ''consensus exposure'') (\<lambda>exposure.
       and_then (try_fold (add_agreement P) 0 (filter (agrees max_age (cr_exposure result)) sorted_inputs)) (\<lambda>agreement.
       Ok (exposure, agreement)))))"

section \<open>Targets\<close>

definition target_scale :: "decimal_ops \<Rightarrow> portfolio_projection_input \<Rightarrow> rat identity" where
  "target_scale A inp = ok_or (IdentityOverflow ''target scale'')
     (Option.bind (d_mul A (current_equity inp) (curve_leverage inp)) (\<lambda>v. d_mul A v (global_risk_scale inp)))"

definition asset_floor ::
  "decision_platform \<Rightarrow> execution_floor_policy \<Rightarrow> portfolio_projection_input \<Rightarrow> (asset, rat) bmap \<Rightarrow> asset
     \<Rightarrow> asset_execution_floor identity" where
  "asset_floor P policy inp unconstrained a =
    (let side = (if bget_or 0 (filled_positions inp) a \<le> bget_or 0 unconstrained a then Buy else Sell) in
     and_then (ok_or (Risk (MissingMarketRules a)) (bget (rules_of inp) a)) (\<lambda>rules.
     map_err (\<lambda>e. InvalidIdentityInput (dp_show_floor P e)) (execution_floor_for_asset (dp_arith P) side rules policy)))"

definition execution_floors_of ::
  "decision_platform \<Rightarrow> execution_floor_policy \<Rightarrow> portfolio_projection_input \<Rightarrow> (asset, rat) bmap
     \<Rightarrow> (asset, asset_execution_floor) bmap identity" where
  "execution_floors_of P policy inp unconstrained =
     try_fold (\<lambda>m a. and_then (asset_floor P policy inp unconstrained a) (\<lambda>f. Ok (binsert a f m))) bempty
       (bkeys (bset_of (bkeys unconstrained @ bkeys (filled_positions inp))))"

definition slot_lifecycle_of :: "rat \<Rightarrow> rat \<Rightarrow> bool \<Rightarrow> slot_lifecycle" where
  "slot_lifecycle_of admitted filled retained =
    (if retained then RetainedBelowMinimum
     else if filled \<noteq> 0 \<and> admitted = 0 then ExitPending
     else if filled \<noteq> 0 \<and> \<bar>admitted\<bar> < \<bar>filled\<bar> then RiskReductionPending
     else if filled \<noteq> 0 then ExistingContinuation
     else if admitted \<noteq> 0 then NewPositionAdmitted
     else RetainedForCapacity)"

definition allocation_input ::
  "decision_construction_input \<Rightarrow> (asset, rat) bmap \<Rightarrow> (asset, rat) bmap \<Rightarrow> (asset, rat) bmap
     \<Rightarrow> (asset, asset_execution_floor) bmap \<Rightarrow> sparse_allocation_input" where
  "allocation_input d unconstrained consensus agreement floors = (let inp = dc_projection_input d in
     \<lparr>ai_raw_targets = unconstrained, ai_convictions = consensus, ai_agreement_weights = agreement, ai_floors = floors,
      ai_filled = filled_positions inp, ai_equity = current_equity inp, ai_leverage = curve_leverage inp,
      ai_risk_scale = global_risk_scale inp, ai_asset_pct = max_single_asset_equity_pct inp,
      ai_net_pct = max_net_equity_pct inp, ai_hysteresis = dc_hysteresis d\<rparr>)"

definition construct_slot ::
  "decimal_ops \<Rightarrow> decision_construction_input \<Rightarrow> (asset, rat) bmap \<Rightarrow> (asset, rat) bmap \<Rightarrow> (asset, rat) bmap
     \<Rightarrow> (asset, rat) bmap \<Rightarrow> portfolio_projection \<Rightarrow> target_version \<Rightarrow> asset \<Rightarrow> asset_execution_floor
     \<Rightarrow> micro_position_slot identity" where
  "construct_slot A d unconstrained consensus agreement retained projection version a fl =
    (let admitted = bget_or 0 (constrained_targets projection) a;
         filled = bget_or 0 (filled_positions (dc_projection_input d)) a in
     and_then (ok_or (IdentityOverflow ''micro slot residual'') (d_sub A admitted filled)) (\<lambda>residual.
     Ok \<lparr>ms_asset = a, ms_desired = bget_or 0 unconstrained a, ms_admitted = admitted, ms_filled = filled,
         ms_committed = filled, ms_residual = residual, ms_conviction = bget_or 0 consensus a,
         ms_agreement = bget_or 0 agreement a, ms_floor = fl, ms_version = version,
         ms_lifecycle = slot_lifecycle_of admitted filled (bhas retained a)\<rparr>))"

section \<open>The decision\<close>

text \<open>The targets before and after the allocation, with the consensus and the floors they rest on.\<close>

record decision_plan =
  pl_consensus :: "(asset, rat) bmap"
  pl_agreement :: "(asset, rat) bmap"
  pl_unconstrained :: "(asset, rat) bmap"
  pl_floors :: "(asset, asset_execution_floor) bmap"
  pl_allocation :: sparse_allocation

definition plan_decision :: "decision_platform \<Rightarrow> decision_construction_input \<Rightarrow> decision_plan identity" where
  "plan_decision P d = (let A = dp_arith P; inp = dc_projection_input d in
    and_then (btry_vmap (\<lambda>_. asset_consensus P (dc_maximum_exposure d) (dc_maximum_age d)) (dc_consensus_inputs d)) (\<lambda>results.
    let consensus = bvmap (\<lambda>_. fst) results; agreement = bvmap (\<lambda>_. snd) results in
    and_then (target_scale A inp) (\<lambda>scale.
    and_then (btry_vmap (\<lambda>_ x. ok_or (IdentityOverflow ''unconstrained target'') (d_mul A scale x)) consensus) (\<lambda>unconstrained.
    and_then (execution_floors_of P (dc_floor_policy d) inp unconstrained) (\<lambda>floors.
    and_then (map_err (\<lambda>e. InvalidIdentityInput (dp_show_allocation P e))
      (allocate_sparse_portfolio A (allocation_input d unconstrained consensus agreement floors))) (\<lambda>allocation.
    Ok \<lparr>pl_consensus = consensus, pl_agreement = agreement, pl_unconstrained = unconstrained, pl_floors = floors,
        pl_allocation = allocation\<rparr>))))))"

definition construct_decision :: "decision_platform \<Rightarrow> decision_construction_input \<Rightarrow> decision_record identity" where
  "construct_decision P d = (let A = dp_arith P; H = dp_hash P in
    and_then (fail_if (bset_of (map candidate_id (dc_members d)) \<noteq> active_ids (dc_eligibility d)) EligibilityMismatch) (\<lambda>_.
    and_then (derive_snapshot_set_id H (dc_members d)) (\<lambda>snapshot_set.
    and_then (derive_eligibility_hash H (dc_eligibility d)) (\<lambda>eligibility.
    and_then (plan_decision P d) (\<lambda>plan.
    and_then (map_err Risk (project_and_validate_portfolio A
      ((dc_projection_input d)\<lparr>unconstrained_targets := admitted_targets (pl_allocation plan)\<rparr>))) (\<lambda>projection.
    and_then (resolve_target_version H (dc_previous_target d) (constrained_targets projection)) (\<lambda>(version, h).
    let decision = derive_decision_id H \<lparr>di_engine_instance_id = dc_engine d, di_decision_sequence = dc_sequence d,
          di_config_hash = dc_config_hash d, di_risk_policy_hash = dc_risk_policy_hash d, di_snapshot_set_id = snapshot_set,
          di_eligibility_hash = eligibility, di_market_snapshot_id = dc_market_snapshot d, di_target_version = version\<rparr> in
    and_then (btry_vmap (construct_slot A d (pl_unconstrained plan) (pl_consensus plan) (pl_agreement plan)
      (retained_below_minimum (pl_allocation plan)) projection version) (pl_floors plan)) (\<lambda>slots.
    Ok \<lparr>dr_id = decision, dr_sequence = dc_sequence d, dr_version = version, dr_target_hash = h,
        dr_config_hash = dc_config_hash d, dr_risk_policy_hash = dc_risk_policy_hash d, dr_snapshot_set = snapshot_set,
        dr_eligibility = eligibility, dr_market_snapshot = dc_market_snapshot d, dr_consensus = pl_consensus plan,
        dr_unconstrained = pl_unconstrained plan, dr_retained = retained_below_minimum (pl_allocation plan),
        dr_slots = slots, dr_projection = projection, dr_created_at = dc_created_at d\<rparr>))))))))"


section \<open>Order of the sources\<close>

lemma no_duplicate_distinct:
  "sorted (map f xs) \<Longrightarrow> adjacent_duplicate f xs = None \<Longrightarrow> distinct (map f xs)"
proof (induction f xs rule: adjacent_duplicate.induct)
  case (1 f x y zs)
  then have "f x \<noteq> f y" and d: "distinct (map f (y # zs))" and s: "sorted (map f (y # zs))" by (auto split: if_splits)
  with 1(2) have "f x < f z" if "z \<in> set (y # zs)" for z using that by (fastforce intro: order.not_eq_order_implies_strict)
  with d show ?case by (auto dest: order.strict_implies_not_eq)
qed simp_all

lemma bmset_eq: "mset xs = mset ys \<Longrightarrow> bset_of xs = bset_of ys"
proof -
  assume "mset xs = mset ys"
  then have "set xs = set ys" by (rule mset_eq_setD)
  then have h: "bhas (bset_of xs) k = bhas (bset_of ys) k" for k by simp
  show ?thesis
  proof (rule bmap_eqI)
    fix k show "bget (bset_of xs) k = bget (bset_of ys) k"
      using h [of k] by (cases "bget (bset_of xs) k"; cases "bget (bset_of ys) k") (simp_all add: bhas_def)
  qed
qed

lemma asset_consensus_distinct:
  "asset_consensus P bound max_age xs = Ok r \<Longrightarrow> distinct (map ci_candidate xs)"
proof -
  assume "asset_consensus P bound max_age xs = Ok r"
  then have "adjacent_duplicate ci_candidate (sort_inputs xs) = None"
    by (auto simp: asset_consensus_def Let_def split: option.splits)
  moreover have "sorted (map ci_candidate (sort_inputs xs))" unfolding sort_inputs_def by (rule sorted_sort_by)
  ultimately have "distinct (map ci_candidate (sort_inputs xs))" by (rule no_duplicate_distinct [rotated])
  moreover have "mset (map ci_candidate (sort_inputs xs)) = mset (map ci_candidate xs)" by (simp add: sort_inputs_def)
  ultimately show ?thesis by (metis distinct_count_atmost_1 set_mset_mset)
qed

lemma asset_consensus_order:
  assumes "asset_consensus P bound max_age xs = Ok r" and "mset ys = mset xs"
  shows "asset_consensus P bound max_age ys = Ok r"
proof -
  have "sort_inputs xs = sort_inputs ys" unfolding sort_inputs_def
    by (rule sort_by_perm) (use assms asset_consensus_distinct in simp_all)
  with assms(1) show ?thesis by (simp add: asset_consensus_def)
qed

lemma btry_vmap_same:
  assumes "\<And>k. rel_option (\<lambda>x y. f k x = f k y) (bget m' k) (bget m k)"
  shows "btry_vmap f m' = btry_vmap f m"
proof -
  have "bhas m' k = bhas m k" for k using assms [of k] by (auto simp: bhas_def elim: option.rel_cases)
  then have "bkeys m' = bkeys m" by (rule keys_eq)
  moreover have "(case bget m' k of None \<Rightarrow> Panic | Some v \<Rightarrow> f k v) = (case bget m k of None \<Rightarrow> Panic | Some v \<Rightarrow> f k v)" for k
    using assms [of k] by (cases "bget m' k"; cases "bget m k") simp_all
  ultimately show ?thesis by (simp add: btry_vmap_def)
qed

text \<open>
  C12. A decision does not depend on the order in which the sources are listed: permuting the members of the
  snapshot set, and the inputs of every asset, leaves the whole record as it is.
\<close>

theorem decision_order_independent:
  assumes "construct_decision P d = Ok r" and "mset members = mset (dc_members d)"
    and "\<And>a. rel_option (\<lambda>xs ys. mset xs = mset ys) (bget inputs a) (bget (dc_consensus_inputs d) a)"
  shows "construct_decision P (d\<lparr>dc_members := members, dc_consensus_inputs := inputs\<rparr>) = Ok r"
proof -
  obtain snap plan where s: "derive_snapshot_set_id (dp_hash P) (dc_members d) = Ok snap" and p: "plan_decision P d = Ok plan"
    using assms(1) by (auto simp: construct_decision_def Let_def outcome_simps)
  have "distinct (map candidate_id (dc_members d))"
  proof -
    have "adjacent_duplicate candidate_id (sort_members (dc_members d)) = None"
      using s by (auto simp: derive_snapshot_set_id_def snapshot_set_bytes_def Let_def outcome_simps split: option.splits)
    moreover have "sorted (map candidate_id (sort_members (dc_members d)))" unfolding sort_members_def by (rule sorted_sort_by)
    ultimately have "distinct (map candidate_id (sort_members (dc_members d)))" by (rule no_duplicate_distinct [rotated])
    moreover have "mset (map candidate_id (sort_members (dc_members d))) = mset (map candidate_id (dc_members d))"
      by (simp add: sort_members_def)
    ultimately show ?thesis by (metis distinct_count_atmost_1 set_mset_mset)
  qed
  then have "sort_members members = sort_members (dc_members d)"
    unfolding sort_members_def by (intro sort_by_perm [symmetric]) (simp_all add: assms(2))
  then have m: "derive_snapshot_set_id (dp_hash P) members = derive_snapshot_set_id (dp_hash P) (dc_members d)"
    by (simp add: derive_snapshot_set_id_def snapshot_set_bytes_def)
  have ids: "bset_of (map candidate_id members) = bset_of (map candidate_id (dc_members d))"
    by (rule bmset_eq) (simp add: assms(2))
  let ?f = "\<lambda>_. asset_consensus P (dc_maximum_exposure d) (dc_maximum_age d)"
  obtain results where c: "btry_vmap ?f (dc_consensus_inputs d) = Ok results"
    using p by (auto simp: plan_decision_def Let_def outcome_simps)
  have "btry_vmap ?f inputs = btry_vmap ?f (dc_consensus_inputs d)"
  proof (rule btry_vmap_same)
    fix a
    show "rel_option (\<lambda>xs ys. ?f a xs = ?f a ys) (bget inputs a) (bget (dc_consensus_inputs d) a)"
    proof (cases "bget (dc_consensus_inputs d) a")
      case None
      with assms(3) [of a] show ?thesis by (cases "bget inputs a") simp_all
    next
      case (Some ys)
      with assms(3) [of a] obtain xs where x: "bget inputs a = Some xs" "mset xs = mset ys" by (cases "bget inputs a") auto
      from btry_vmap_Ok(2) [OF c Some] obtain w where "?f a ys = Ok w" by blast
      with asset_consensus_order [OF this x(2)] x(1) Some show ?thesis by simp
    qed
  qed
  then have "plan_decision P (d\<lparr>dc_members := members, dc_consensus_inputs := inputs\<rparr>) = plan_decision P d"
    by (simp add: plan_decision_def allocation_input_def Let_def)
  moreover have "construct_slot A (d\<lparr>dc_members := members, dc_consensus_inputs := inputs\<rparr>) = construct_slot A d" for A
    by (intro ext) (simp add: construct_slot_def)
  ultimately show ?thesis using assms(1) m ids by (simp add: construct_decision_def Let_def)
qed


section \<open>What an accepted decision allows\<close>

lemma construct_decision_Ok:
  assumes "construct_decision P d = Ok r"
  obtains plan where "plan_decision P d = Ok plan"
    "project_and_validate_portfolio (dp_arith P)
       ((dc_projection_input d)\<lparr>unconstrained_targets := admitted_targets (pl_allocation plan)\<rparr>) = Ok (dr_projection r)"
    "resolve_target_version (dp_hash P) (dc_previous_target d) (constrained_targets (dr_projection r))
       = Ok (dr_version r, dr_target_hash r)"
    "btry_vmap (construct_slot (dp_arith P) d (pl_unconstrained plan) (pl_consensus plan) (pl_agreement plan)
       (retained_below_minimum (pl_allocation plan)) (dr_projection r) (dr_version r)) (pl_floors plan) = Ok (dr_slots r)"
    "dr_unconstrained r = pl_unconstrained plan" "dr_consensus r = pl_consensus plan"
  using assms by (auto simp: construct_decision_def Let_def outcome_simps)

lemma plan_decision_Ok:
  assumes "plan_decision P d = Ok plan"
  obtains scale where "target_scale (dp_arith P) (dc_projection_input d) = Ok scale"
    "btry_vmap (\<lambda>_ x. ok_or (IdentityOverflow ''unconstrained target'') (d_mul (dp_arith P) scale x)) (pl_consensus plan)
       = Ok (pl_unconstrained plan)"
    "execution_floors_of P (dc_floor_policy d) (dc_projection_input d) (pl_unconstrained plan) = Ok (pl_floors plan)"
    "allocate_sparse_portfolio (dp_arith P)
       (allocation_input d (pl_unconstrained plan) (pl_consensus plan) (pl_agreement plan) (pl_floors plan)) = Ok (pl_allocation plan)"
  using assms by (auto simp: plan_decision_def Let_def outcome_simps)

text \<open>
  C11. What a slot of an accepted decision may hold, with exact arithmetic: its target is within the cap of one
  asset, and it is never larger than the exposure its sources want and on their side, or, when they do not
  want less than what is filled, never larger than what is filled and on its side. Its residual is the rest.
\<close>

theorem decision_slot_bounded:
  assumes "exact_arith (dp_arith P)" and "construct_decision P d = Ok r" and "bget (dr_slots r) a = Some s"
  defines "inp \<equiv> dc_projection_input d"
  defines "filled \<equiv> bget_or 0 (filled_positions inp) a" and "desired \<equiv> bget_or 0 (dr_unconstrained r) a"
  shows "ms_filled s = filled \<and> ms_desired s = desired \<and> ms_admitted s = bget_or 0 (constrained_targets (dr_projection r)) a
    \<and> ms_residual s = ms_admitted s - filled \<and> ms_version s = dr_version r
    \<and> \<bar>ms_admitted s\<bar> \<le> current_equity inp * max_single_asset_equity_pct inp
    \<and> (\<bar>ms_admitted s\<bar> \<le> \<bar>desired\<bar> \<and> 0 \<le> ms_admitted s * desired
       \<or> \<bar>ms_admitted s\<bar> \<le> \<bar>filled\<bar> \<and> 0 \<le> ms_admitted s * filled \<and> 0 < desired * filled \<and> \<bar>filled\<bar> \<le> \<bar>desired\<bar>)"
proof -
  let ?A = "dp_arith P"
  obtain plan where plan: "plan_decision P d = Ok plan"
    and proj: "project_and_validate_portfolio ?A (inp\<lparr>unconstrained_targets := admitted_targets (pl_allocation plan)\<rparr>) = Ok (dr_projection r)"
    and slots: "btry_vmap (construct_slot ?A d (pl_unconstrained plan) (pl_consensus plan) (pl_agreement plan)
       (retained_below_minimum (pl_allocation plan)) (dr_projection r) (dr_version r)) (pl_floors plan) = Ok (dr_slots r)"
    and un: "dr_unconstrained r = pl_unconstrained plan"
    unfolding inp_def by (rule construct_decision_Ok [OF assms(2)])
  obtain floors where alloc: "allocate_sparse_portfolio ?A
       (allocation_input d (pl_unconstrained plan) (pl_consensus plan) (pl_agreement plan) floors) = Ok (pl_allocation plan)"
    by (rule plan_decision_Ok [OF plan])
  let ?cap = "current_equity inp * max_single_asset_equity_pct inp"
  obtain fl where "construct_slot ?A d (pl_unconstrained plan) (pl_consensus plan) (pl_agreement plan)
       (retained_below_minimum (pl_allocation plan)) (dr_projection r) (dr_version r) a fl = Ok s"
    using btry_vmap_Ok(3) [OF slots assms(3)] by blast
  then have fields: "ms_filled s = filled" "ms_desired s = desired" "ms_version s = dr_version r"
      "ms_admitted s = bget_or 0 (constrained_targets (dr_projection r)) a" "ms_residual s = ms_admitted s - filled"
    using exact_arithD [OF assms(1)] by (auto simp: construct_slot_def Let_def outcome_simps filled_def desired_def un inp_def)
  obtain ac gc nc where caps: "portfolio_caps ?A (inp\<lparr>unconstrained_targets := admitted_targets (pl_allocation plan)\<rparr>) = Ok (ac, gc, nc)"
    by (rule project_inversion [OF proj])
  then have "ac = ?cap" using exact_arithD [OF assms(1)] by (auto simp: portfolio_caps_def checked_mul_def outcome_simps)
  let ?t = "bget_or 0 (admitted_targets (pl_allocation plan)) a"
  have v: "validate_input (inp\<lparr>unconstrained_targets := admitted_targets (pl_allocation plan)\<rparr>) = Ok ()"
    by (rule project_validated [OF proj])
  have "0 \<le> ?cap" using caps_nonneg(1) [OF assms(1) v caps] \<open>ac = ?cap\<close> by simp
  then have c: "\<bar>ms_admitted s\<bar> \<le> ?cap \<and> \<bar>ms_admitted s\<bar> \<le> \<bar>?t\<bar> \<and> 0 \<le> ms_admitted s * ?t"
    using constrain_sound [OF assms(1) project_targets [OF proj caps] caps_nonneg(2,3) [OF assms(1) v caps]] \<open>ac = ?cap\<close>
    by (cases "bget (constrained_targets (dr_projection r)) a") (auto simp: fields(4) bget_or_def)
  let ?w = "min (max desired (- ?cap)) ?cap"
  have t: "?t \<in> {0, filled, ?w}" "filled \<noteq> 0 \<and> (?w = 0 \<or> (0 \<le> filled) \<noteq> (0 \<le> ?w) \<or> \<bar>?w\<bar> < \<bar>filled\<bar>) \<longrightarrow> ?t \<in> {0, ?w}"
    using allocation_targets [OF assms(1) alloc, of a]
    by (simp_all add: allocation_input_def Let_def wanted_def filled_of_def filled_def desired_def un inp_def)
  have "\<bar>min (max x (- c)) c\<bar> \<le> \<bar>x\<bar> \<and> 0 \<le> min (max x (- c)) c * x" if "0 \<le> c" for x c :: rat
    using that by (auto simp: min_def max_def zero_le_mult_iff abs_if)
  from this [OF \<open>0 \<le> ?cap\<close>] have w: "\<bar>?w\<bar> \<le> \<bar>desired\<bar> \<and> 0 \<le> ?w * desired" .
  have side: "\<bar>x\<bar> \<le> \<bar>z\<bar> \<and> 0 \<le> x * z" if "\<bar>x\<bar> \<le> \<bar>y\<bar> \<and> 0 \<le> x * y" "\<bar>y\<bar> \<le> \<bar>z\<bar> \<and> 0 \<le> y * z" for x y z :: rat
    using that shrunk_step by (meson order_trans)
  have rest: "\<bar>ms_admitted s\<bar> \<le> \<bar>desired\<bar> \<and> 0 \<le> ms_admitted s * desired
       \<or> \<bar>ms_admitted s\<bar> \<le> \<bar>filled\<bar> \<and> 0 \<le> ms_admitted s * filled \<and> 0 < desired * filled \<and> \<bar>filled\<bar> \<le> \<bar>desired\<bar>"
  proof (cases "?t = 0 \<or> ?t = ?w")
    case True
    then have "\<bar>?t\<bar> \<le> \<bar>desired\<bar> \<and> 0 \<le> ?t * desired" using w by auto
    with c side show ?thesis by blast
  next
    case False
    then have f: "?t = filled" "filled \<noteq> 0" using t(1) by auto
    with t(2) False have n: "?w \<noteq> 0" "(0 \<le> filled) = (0 \<le> ?w)" "\<bar>filled\<bar> \<le> \<bar>?w\<bar>" by auto
    then have "0 < desired * filled" using w f(2) by (auto simp: zero_less_mult_iff zero_le_mult_iff)
    with c f n(3) w show ?thesis by auto
  qed
  from c rest fields show ?thesis by simp
qed

text \<open>The totals of the targets of an accepted decision are within the gross and the net cap.\<close>

theorem decision_totals_bounded:
  assumes "exact_arith (dp_arith P)" and "construct_decision P d = Ok r"
  defines "inp \<equiv> dc_projection_input d"
  shows "gross_of (bvals (constrained_targets (dr_projection r))) \<le> current_equity inp * curve_leverage inp * global_risk_scale inp
    \<and> \<bar>sum_list (bvals (constrained_targets (dr_projection r)))\<bar> \<le> current_equity inp * max_net_equity_pct inp"
proof -
  let ?A = "dp_arith P"
  obtain targets where proj: "project_and_validate_portfolio ?A (inp\<lparr>unconstrained_targets := targets\<rparr>) = Ok (dr_projection r)"
    unfolding inp_def by (rule construct_decision_Ok [OF assms(2)])
  obtain ac gc nc where caps: "portfolio_caps ?A (inp\<lparr>unconstrained_targets := targets\<rparr>) = Ok (ac, gc, nc)"
    by (rule project_inversion [OF proj])
  have v: "validate_input (inp\<lparr>unconstrained_targets := targets\<rparr>) = Ok ()" by (rule project_validated [OF proj])
  have "gc = current_equity inp * curve_leverage inp * global_risk_scale inp \<and> nc = current_equity inp * max_net_equity_pct inp"
    using caps exact_arithD [OF assms(1)] by (auto simp: portfolio_caps_def checked_mul_def outcome_simps)
  with constrain_sound [OF assms(1) project_targets [OF proj caps] caps_nonneg(2,3) [OF assms(1) v caps]] show ?thesis by simp
qed

section \<open>A sample decision\<close>

definition sample_decider :: decision_platform where
  "sample_decider = \<lparr>dp_arith = exact_ops, dp_floats = exact_float, dp_hash = (\<lambda>_. replicate 32 1), dp_from_float = Some,
     dp_show_floor = (\<lambda>_. ''error''), dp_show_allocation = (\<lambda>_. ''error'')\<rparr>"

definition sample_decision :: decision_construction_input where
  "sample_decision = \<lparr>dc_engine = replicate 16 1, dc_sequence = 1, dc_config_hash = replicate 32 2,
     dc_risk_policy_hash = replicate 32 3, dc_members = [sample_member ''a'', sample_member ''b''],
     dc_eligibility = \<lparr>active_ids = bset_of [''a'', ''b''], excluded = bempty\<rparr>, dc_market_snapshot = replicate 32 4,
     dc_consensus_inputs = binsert ''BTC'' [sample_source ''a'' (1 / 2), sample_source ''b'' (1 / 2)] bempty,
     dc_maximum_exposure = Finite 1, dc_maximum_age = 10,
     dc_floor_policy = \<lparr>exchange_minimum_notional = 10, rounding_buffer = 1, closeability_margin = 1, maximum_slippage_fraction = 0\<rparr>,
     dc_hysteresis = 0, dc_projection_input = sample_input [] [], dc_previous_target = None, dc_created_at = 7\<rparr>"

lemma sample_decision_plan:
  "case plan_decision sample_decider sample_decision of
     Ok plan \<Rightarrow> (case project_and_validate_portfolio exact_ops
         ((dc_projection_input sample_decision)\<lparr>unconstrained_targets := admitted_targets (pl_allocation plan)\<rparr>) of
       Ok p \<Rightarrow> entries (constrained_targets p) = [(''BTC'', 100), (''ETH'', 0)] \<and> bhas (pl_floors plan) ''BTC''
         \<and> is_ok (btry_vmap (construct_slot exact_ops sample_decision (pl_unconstrained plan) (pl_consensus plan) (pl_agreement plan)
             (retained_below_minimum (pl_allocation plan)) p 0) (pl_floors plan))
     | _ \<Rightarrow> False)
   | _ \<Rightarrow> False"
  by code_simp

lemma sample_sorted_members: "sort_members [sample_member ''a'', sample_member ''b''] = [sample_member ''a'', sample_member ''b'']"
  "bkeys (bset_of [''a'', ''b'']) = [''a'', ''b'']" "bset_of [''b'', ''a''] = bset_of [''a'', ''b'']"
  by code_simp+

lemma sample_decided:
  "\<exists>r. construct_decision sample_decider sample_decision = Ok r \<and> bget (constrained_targets (dr_projection r)) ''BTC'' = Some 100
     \<and> bhas (dr_slots r) ''BTC''"
proof -
  obtain plan p slots where plan: "plan_decision sample_decider sample_decision = Ok plan"
    and p: "project_and_validate_portfolio exact_ops
         ((dc_projection_input sample_decision)\<lparr>unconstrained_targets := admitted_targets (pl_allocation plan)\<rparr>) = Ok p"
    and t: "entries (constrained_targets p) = [(''BTC'', 100), (''ETH'', 0)]" and f: "bhas (pl_floors plan) ''BTC''"
    and slots: "btry_vmap (construct_slot exact_ops sample_decision (pl_unconstrained plan) (pl_consensus plan) (pl_agreement plan)
             (retained_below_minimum (pl_allocation plan)) p 0) (pl_floors plan) = Ok slots"
    using sample_decision_plan by (auto simp: is_ok_def split: outcome.splits)
  have v: "resolve_target_version (\<lambda>_. replicate 32 1) None (constrained_targets p) = Ok (0, replicate 32 1)"
    by (simp add: resolve_target_version_def canonical_target_hash_def target_bytes_def enc_length_def bsize_def t enc_string_def
        del: replicate.simps)
  have s: "derive_snapshot_set_id (\<lambda>_. replicate 32 1) [sample_member ''a'', sample_member ''b''] = Ok (replicate 32 1)"
    unfolding derive_snapshot_set_id_def snapshot_set_bytes_def Let_def sample_sorted_members
    by (simp add: enc_length_def enc_member_def enc_string_def sample_member_def fail_if_def del: replicate.simps)
  have n: "length (entries (bset_of [''a'', ''b''])) = 2" by code_simp
  have e: "derive_eligibility_hash (\<lambda>_. replicate 32 1) \<lparr>active_ids = bset_of [''a'', ''b''], excluded = bempty\<rparr> = Ok (replicate 32 1)"
    by (simp add: derive_eligibility_hash_def sample_sorted_members enc_length_def bsize_def enc_string_def bempty.rep_eq n
        del: replicate.simps)
  have fields: "dp_arith sample_decider = exact_ops" "dp_hash sample_decider = (\<lambda>_. replicate 32 1)"
    "dc_members sample_decision = [sample_member ''a'', sample_member ''b'']" "dc_previous_target sample_decision = None"
    "dc_eligibility sample_decision = \<lparr>active_ids = bset_of [''a'', ''b''], excluded = bempty\<rparr>"
    by (simp_all add: sample_decider_def sample_decision_def)
  have ids: "map candidate_id [sample_member ''a'', sample_member ''b''] = [''a'', ''b'']" by (simp add: sample_member_def)
  have "bget (constrained_targets p) ''BTC'' = Some 100" by (simp add: bget.rep_eq t)
  moreover have "bhas slots ''BTC''" using btry_vmap_Ok(1) [OF slots] f by simp
  ultimately show ?thesis
    by (simp add: construct_decision_def fields plan p v s e ids slots fail_if_def Let_def del: replicate.simps list.map)
qed

lemma decision_order_independent_witness:
  "\<exists>r. construct_decision sample_decider sample_decision = Ok r
     \<and> construct_decision sample_decider (sample_decision\<lparr>dc_members := [sample_member ''b'', sample_member ''a''],
         dc_consensus_inputs := binsert ''BTC'' [sample_source ''b'' (1 / 2), sample_source ''a'' (1 / 2)] bempty\<rparr>) = Ok r"
proof -
  obtain r where r: "construct_decision sample_decider sample_decision = Ok r" using sample_decided by blast
  from decision_order_independent [OF r, of "[sample_member ''b'', sample_member ''a'']"
      "binsert ''BTC'' [sample_source ''b'' (1 / 2), sample_source ''a'' (1 / 2)] bempty"] r
  show ?thesis by (auto simp: sample_decision_def)
qed

lemma sample_decider_exact: "exact_arith (dp_arith sample_decider)"
  by (simp add: sample_decider_def exact_ops_exact)

lemma decision_slot_bounded_witness:
  "\<exists>r s. construct_decision sample_decider sample_decision = Ok r \<and> bget (dr_slots r) ''BTC'' = Some s
     \<and> ms_admitted s = 100 \<and> 100 \<le> current_equity (dc_projection_input sample_decision) * max_single_asset_equity_pct (dc_projection_input sample_decision)"
proof -
  obtain r s where r: "construct_decision sample_decider sample_decision = Ok r"
    and t: "bget (constrained_targets (dr_projection r)) ''BTC'' = Some 100" and s: "bget (dr_slots r) ''BTC'' = Some s"
    using sample_decided by (auto simp: bhas_def)
  from decision_slot_bounded [OF sample_decider_exact r s] t r s show ?thesis by (auto simp: bget_or_def)
qed

lemma decision_totals_bounded_witness:
  "\<exists>r. construct_decision sample_decider sample_decision = Ok r \<and> gross_of (bvals (constrained_targets (dr_projection r))) \<le> 200"
proof -
  obtain r where r: "construct_decision sample_decider sample_decision = Ok r" using sample_decided by blast
  from decision_totals_bounded [OF sample_decider_exact r] r show ?thesis by (auto simp: sample_decision_def sample_input_def)
qed

end
