(* ===== verification/Observer_State.thy ===== *)
theory Observer_State
  imports Outbox
begin

text \<open>
  The observer's durable state (\<open>copytrade-observer/src/production_state.rs\<close>): how the verified events of
  the signer are applied once and in order, whatever the order of their delivery. Decimal arithmetic,
  SHA-256, the MessagePack form of a payload and the text of a ledger error are parameters; the JSON file
  is what \<open>load_state\<close> accepts.
\<close>

record observer_platform =
  op_arith :: decimal_ops
  op_hash :: "bytes \<Rightarrow> bytes"
  op_encode_payload :: "reconciliation_payload \<Rightarrow> (bytes, string) outcome"
  op_show_ledger :: "ledger_error \<Rightarrow> string"

section \<open>State\<close>

definition PRODUCTION_STATE_SCHEMA_VERSION :: nat where "PRODUCTION_STATE_SCHEMA_VERSION = 1"
definition MAXIMUM_REORDER_WINDOW :: nat where "MAXIMUM_REORDER_WINDOW = 256"

datatype observer_intent_state =
    IntentPlanned | IntentPersisted | IntentSent | IntentAcceptedBySigner | IntentUnknown | IntentAcknowledged
  | IntentPartiallyFilled | IntentFilled | IntentCancelled | IntentRejected | IntentSuperseded
  | IntentReconciled | IntentNotSubmitted

record production_trading_state =
  ot_schema_version :: nat
  ot_live :: live_trading_state
  ot_intents :: "(planned_cloid, observer_intent_state) bmap"
  ot_highest :: nat
  ot_applied :: "(nat, bytes) bmap"
  ot_buffer :: "(nat, reconciliation_event) bmap"
  ot_blocked :: "asset bset"
  ot_replan :: "asset bset"
  ot_position_mismatches :: "(asset, rat \<times> rat) bmap"
  ot_equity_mismatch :: "(rat \<times> rat) option"

datatype application = EventApplied nat | EventAlreadyApplied nat | EventBuffered nat

datatype apply_error =
    EventHashMismatch | SequenceIdentityConflict | SequenceRegression | ReorderWindowExhausted | UnknownIntent
  | ApplyLedger string | ApplyPersistence string | SchemaMismatch

definition new_production_state :: "live_trading_state \<Rightarrow> production_trading_state" where
  "new_production_state live = \<lparr>ot_schema_version = PRODUCTION_STATE_SCHEMA_VERSION, ot_live = live, ot_intents = bempty,
     ot_highest = 0, ot_applied = bempty, ot_buffer = bempty, ot_blocked = bempty, ot_replan = bempty,
     ot_position_mismatches = bempty, ot_equity_mismatch = None\<rparr>"

text \<open>The checks of \<open>load\<close> on a state that was read.\<close>

definition load_state :: "production_trading_state \<Rightarrow> (production_trading_state, apply_error) outcome" where
  "load_state s = (if ot_schema_version s \<noteq> PRODUCTION_STATE_SCHEMA_VERSION
      \<or> MAXIMUM_REORDER_WINDOW < bsize (ot_buffer s)
      \<or> bkeys (ot_applied s) \<noteq> [] \<and> last (bkeys (ot_applied s)) \<noteq> ot_highest s
    then Err SchemaMismatch else Ok s)"

section \<open>One event\<close>

definition require_intent ::
  "planned_cloid \<Rightarrow> observer_intent_state \<Rightarrow> production_trading_state \<Rightarrow> (production_trading_state, apply_error) outcome" where
  "require_intent c next s = and_then (fail_if (\<not> bhas (ot_intents s) c) UnknownIntent) (\<lambda>_.
     Ok (s\<lparr>ot_intents := binsert c next (ot_intents s)\<rparr>))"

definition mark_mismatch ::
  "(asset, rat) bmap \<Rightarrow> (asset, rat) bmap \<Rightarrow> asset \<Rightarrow> production_trading_state \<Rightarrow> production_trading_state" where
  "mark_mismatch local exchange a s = (let l = bget_or 0 local a; e = bget_or 0 exchange a in
     if l \<noteq> e then s\<lparr>ot_position_mismatches := binsert a (l, e) (ot_position_mismatches s),
                       ot_blocked := binsert a () (ot_blocked s)\<rparr> else s)"

definition compare_positions :: "(asset, rat) bmap \<Rightarrow> production_trading_state \<Rightarrow> production_trading_state" where
  "compare_positions exchange s = (let local = live_positions (ot_live s) in
     fold (mark_mismatch local exchange) (bkeys local @ bkeys exchange)
       (s\<lparr>ot_position_mismatches := bempty, ot_blocked := bempty\<rparr>))"

definition apply_fill_event ::
  "observer_platform \<Rightarrow> verified_fill \<Rightarrow> production_trading_state \<Rightarrow> (production_trading_state, apply_error) outcome" where
  "apply_fill_event P f s =
    and_then (map_err (\<lambda>e. ApplyLedger (op_show_ledger P e)) (apply_exchange_fill (op_arith P) (op_hash P) f (ot_live s)))
      (\<lambda>(r, live). let s = s\<lparr>ot_live := live\<rparr> in case r of
         AppliedFill _ _ \<Rightarrow>
           and_then (require_intent (fill_cloid (vf_identity f)) IntentPartiallyFilled s) (\<lambda>s.
           Ok (s\<lparr>ot_replan := binsert (vf_asset f) () (ot_replan s)\<rparr>))
       | FillAlreadyApplied \<Rightarrow> Ok s)"

definition apply_funding_payload ::
  "observer_platform \<Rightarrow> verified_funding \<Rightarrow> production_trading_state \<Rightarrow> (production_trading_state, apply_error) outcome" where
  "apply_funding_payload P f s =
    and_then (map_err (\<lambda>e. ApplyLedger (op_show_ledger P e)) (apply_funding_event (op_arith P) f (ot_live s)))
      (\<lambda>(r, live). let s = s\<lparr>ot_live := live\<rparr> in case r of
         AppliedFunding _ \<Rightarrow> Ok (s\<lparr>ot_replan := binsert (fe_asset f) () (ot_replan s)\<rparr>)
       | FundingAlreadyApplied \<Rightarrow> Ok s)"

definition apply_equity ::
  "observer_platform \<Rightarrow> rat \<Rightarrow> production_trading_state \<Rightarrow> (production_trading_state, apply_error) outcome" where
  "apply_equity P equity s = (let local = lt_current_equity (ot_live s);
      s = s\<lparr>ot_equity_mismatch := if local \<noteq> equity then Some (local, equity) else None\<rparr> in
    if local = equity then
      and_then (map_err (\<lambda>e. ApplyLedger (op_show_ledger P e)) (reconcile_equity equity (ot_live s))) (\<lambda>live.
      Ok (s\<lparr>ot_live := live\<rparr>))
    else Ok s)"

fun apply_payload ::
  "observer_platform \<Rightarrow> reconciliation_payload \<Rightarrow> production_trading_state \<Rightarrow> (production_trading_state, apply_error) outcome" where
  "apply_payload P (IntentAccepted i _) s = Ok (s\<lparr>ot_intents := binsert (ii_cloid i) IntentAcceptedBySigner (ot_intents s)\<rparr>)"
| "apply_payload P (StartedEvent c) s = require_intent c IntentSent s"
| "apply_payload P (UnknownEvent c) s = require_intent c IntentUnknown s"
| "apply_payload P (AcknowledgedEvent c _) s = require_intent c IntentAcknowledged s"
| "apply_payload P (RejectedEvent c _) s = require_intent c IntentRejected s"
| "apply_payload P (CancelledEvent c _) s = require_intent c IntentCancelled s"
| "apply_payload P (PartiallyFilledEvent c _ _) s = require_intent c IntentPartiallyFilled s"
| "apply_payload P (FillEvent f) s = apply_fill_event P f s"
| "apply_payload P (FundingEvent f) s = apply_funding_payload P f s"
| "apply_payload P (PositionSnapshot held _) s = Ok (compare_positions held s)"
| "apply_payload P (EquitySnapshot equity _) s = apply_equity P equity s"
| "apply_payload P (ReconciledEvent c) s = require_intent c IntentReconciled s"
| "apply_payload P (NotSubmittedEvent c) s = require_intent c IntentNotSubmitted s"

text \<open>The event is applied to a copy, which replaces the state only when nothing failed.\<close>

definition apply_contiguous ::
  "observer_platform \<Rightarrow> reconciliation_event \<Rightarrow> production_trading_state \<Rightarrow> (production_trading_state, apply_error) outcome" where
  "apply_contiguous P e s = and_then (apply_payload P (re_payload e) s) (\<lambda>s.
     Ok (s\<lparr>ot_applied := binsert (ev_sequence (re_identity e)) (ev_hash (re_identity e)) (ot_applied s),
           ot_highest := ev_sequence (re_identity e)\<rparr>))"

section \<open>Draining the buffer\<close>

text \<open>What an event leaves alone.\<close>

definition same_frame :: "production_trading_state \<Rightarrow> production_trading_state \<Rightarrow> bool" where
  "same_frame s t = (ot_buffer t = ot_buffer s \<and> ot_applied t = ot_applied s \<and> ot_highest t = ot_highest s
     \<and> ot_schema_version t = ot_schema_version s)"

lemma require_intent_frame: "require_intent c st s = Ok t \<Longrightarrow> same_frame s t"
  by (auto simp: require_intent_def outcome_simps same_frame_def)

lemma fill_frame:
  assumes "apply_fill_event P f s = Ok t"
  shows "same_frame s t"
proof -
  from assms obtain r live where r: "(case r of
         AppliedFill _ _ \<Rightarrow> and_then (require_intent (fill_cloid (vf_identity f)) IntentPartiallyFilled (s\<lparr>ot_live := live\<rparr>)) (\<lambda>s.
           Ok (s\<lparr>ot_replan := binsert (vf_asset f) () (ot_replan s)\<rparr>))
       | FillAlreadyApplied \<Rightarrow> Ok (s\<lparr>ot_live := live\<rparr>)) = Ok t"
    unfolding apply_fill_event_def Let_def by (auto simp: outcome_simps)
  show ?thesis
  proof (cases r)
    case (AppliedFill x y)
    with r obtain u where "require_intent (fill_cloid (vf_identity f)) IntentPartiallyFilled (s\<lparr>ot_live := live\<rparr>) = Ok u"
      "t = u\<lparr>ot_replan := binsert (vf_asset f) () (ot_replan u)\<rparr>" by (auto simp: outcome_simps)
    with require_intent_frame [OF this(1)] show ?thesis by (simp add: same_frame_def)
  next
    case FillAlreadyApplied
    with r show ?thesis by (auto simp: same_frame_def)
  qed
qed

lemma funding_frame:
  assumes "apply_funding_payload P f s = Ok t"
  shows "same_frame s t"
proof -
  from assms obtain r live where "(case r of
         AppliedFunding _ \<Rightarrow> Ok (s\<lparr>ot_live := live, ot_replan := binsert (fe_asset f) () (ot_replan (s\<lparr>ot_live := live\<rparr>))\<rparr>)
       | FundingAlreadyApplied \<Rightarrow> Ok (s\<lparr>ot_live := live\<rparr>)) = (Ok t :: (production_trading_state, apply_error) outcome)"
    unfolding apply_funding_payload_def Let_def by (auto simp: outcome_simps)
  then show ?thesis by (cases r) (auto simp: same_frame_def)
qed

lemma equity_frame: "apply_equity P e s = Ok t \<Longrightarrow> same_frame s t"
  by (auto simp: apply_equity_def Let_def outcome_simps same_frame_def split: if_splits)

lemma positions_frame: "same_frame s (compare_positions exchange s)"
proof -
  have "same_frame s (fold (mark_mismatch l x) as s)" for l x as s
    by (induction as arbitrary: s) (auto simp: mark_mismatch_def Let_def same_frame_def)
  from this [of "s\<lparr>ot_position_mismatches := bempty, ot_blocked := bempty\<rparr>"] show ?thesis
    by (simp add: compare_positions_def Let_def same_frame_def del: fold_append)
qed

lemma apply_payload_frame: "apply_payload P p s = Ok t \<Longrightarrow> same_frame s t"
  by (cases p) (auto intro: require_intent_frame fill_frame funding_frame equity_frame positions_frame, simp add: same_frame_def)

lemma apply_contiguous_frame:
  assumes "apply_contiguous P e s = Ok s'"
  shows "ot_buffer s' = ot_buffer s" "ot_highest s' = ev_sequence (re_identity e)"
    "ot_applied s' = binsert (ev_sequence (re_identity e)) (ev_hash (re_identity e)) (ot_applied s)"
    "ot_schema_version s' = ot_schema_version s"
  using assms by (auto simp: apply_contiguous_def outcome_simps same_frame_def dest!: apply_payload_frame)

text \<open>
  The loop that applies what has become contiguous. An event leaves the buffer before it is applied, and
  stays out when it fails; every round takes one event, so the loop ends.
\<close>

function drain :: "observer_platform \<Rightarrow> production_trading_state \<Rightarrow> (unit, apply_error) outcome \<times> production_trading_state" where
  "drain P s = (case checked_add_nat 64 (ot_highest s) 1 of
     None \<Rightarrow> (Err SequenceRegression, s)
   | Some next \<Rightarrow> (case bget (ot_buffer s) next of
       None \<Rightarrow> (Ok (), s)
     | Some e \<Rightarrow> (let s = s\<lparr>ot_buffer := bremove next (ot_buffer s)\<rparr> in
         (case apply_contiguous P e s of
            Ok s' \<Rightarrow> drain P s' | Err x \<Rightarrow> (Err x, s) | Panic \<Rightarrow> (Panic, s)))))"
  by pat_completeness auto

termination drain
proof (relation "measure (\<lambda>(P, s). bsize (ot_buffer s))")
  fix P s n e t s'
  assume "bget (ot_buffer s) n = Some e" and t: "t = s\<lparr>ot_buffer := bremove n (ot_buffer s)\<rparr>"
    and a: "apply_contiguous P e t = Ok s'"
  then have "bsize (ot_buffer t) < bsize (ot_buffer s)" using bsize_remove_has [of "ot_buffer s" n e] by simp
  then show "((P, s'), P, s) \<in> measure (\<lambda>(P, s). bsize (ot_buffer s))"
    using apply_contiguous_frame(1) [OF a] by simp
qed simp

declare drain.simps [simp del]

section \<open>Delivery\<close>

definition check_event_hash :: "observer_platform \<Rightarrow> reconciliation_event \<Rightarrow> (unit, apply_error) outcome" where
  "check_event_hash P e =
    and_then (map_err (\<lambda>_. EventHashMismatch) (canonical_payload_hash (op_encode_payload P) (op_hash P) (re_payload e))) (\<lambda>h.
    fail_if (h \<noteq> ev_hash (re_identity e)) EventHashMismatch)"

text \<open>An event ahead of the next one waits in the buffer.\<close>

definition buffer_event ::
  "reconciliation_event \<Rightarrow> nat \<Rightarrow> (production_trading_state, application, apply_error) action" where
  "buffer_event e next = (\<lambda>s. let sequence = ev_sequence (re_identity e) in
    if MAXIMUM_REORDER_WINDOW \<le> bsize (ot_buffer s) then (Err ReorderWindowExhausted, s)
    else (case bget (ot_buffer s) sequence of
        Some b \<Rightarrow> (if ev_hash (re_identity b) \<noteq> ev_hash (re_identity e) then Err SequenceIdentityConflict
                   else Ok (EventBuffered next), s)
      | None \<Rightarrow> (Ok (EventBuffered next), s\<lparr>ot_buffer := binsert sequence e (ot_buffer s)\<rparr>)))"

text \<open>The next event is applied, and with it what waited for it.\<close>

definition apply_next ::
  "observer_platform \<Rightarrow> reconciliation_event \<Rightarrow> (production_trading_state, application, apply_error) action" where
  "apply_next P e =
    act_bind (act_assign (apply_contiguous P e) (\<lambda>t _. t)) (\<lambda>_.
    act_bind (drain P) (\<lambda>_.
    act_get (\<lambda>s. Ok (EventApplied (ot_highest s)))))"

definition apply_reconciliation_event ::
  "observer_platform \<Rightarrow> reconciliation_event \<Rightarrow> (production_trading_state, application, apply_error) action" where
  "apply_reconciliation_event P e = act_bind (act_try (check_event_hash P e)) (\<lambda>_ s.
    let sequence = ev_sequence (re_identity e) in
    case bget (ot_applied s) sequence of
      Some h \<Rightarrow> (if h = ev_hash (re_identity e) then Ok (EventAlreadyApplied (ot_highest s)) else Err SequenceIdentityConflict, s)
    | None \<Rightarrow>
        if sequence \<le> ot_highest s then (Err SequenceRegression, s)
        else (case checked_add_nat 64 (ot_highest s) 1 of
            None \<Rightarrow> (Err SequenceRegression, s)
          | Some next \<Rightarrow> if sequence \<noteq> next then buffer_event e next s else apply_next P e s))"

definition deliver :: "observer_platform \<Rightarrow> reconciliation_event \<Rightarrow> (production_trading_state, unit, apply_error) action" where
  "deliver P e = act_bind (apply_reconciliation_event P e) (\<lambda>_. act_return ())"


section \<open>What every delivery keeps\<close>

text \<open>
  The events up to the highest number are applied, with their hashes, nothing else is, and what waits is
  ahead: by one at least while the buffer is drained, by two at least between deliveries, unless the
  numbers are used up.
\<close>

definition observer_holds :: "nat \<Rightarrow> production_trading_state \<Rightarrow> bool" where
  "observer_holds d s = (ot_schema_version s = PRODUCTION_STATE_SCHEMA_VERSION
     \<and> (\<forall>k. bhas (ot_applied s) k \<longleftrightarrow> 1 \<le> k \<and> k \<le> ot_highest s)
     \<and> (\<forall>k e. bget (ot_buffer s) k = Some e \<longrightarrow> ev_sequence (re_identity e) = k \<and> ot_highest s + d \<le> k)
     \<and> bsize (ot_buffer s) \<le> MAXIMUM_REORDER_WINDOW)"

definition observer_inv :: "production_trading_state \<Rightarrow> bool" where
  "observer_inv s = (observer_holds 1 s \<and> (ot_highest s + 1 < 2 ^ 64 \<longrightarrow> observer_holds 2 s))"

lemma observer_holdsI:
  assumes "ot_schema_version s = PRODUCTION_STATE_SCHEMA_VERSION" "\<And>k. bhas (ot_applied s) k \<longleftrightarrow> 1 \<le> k \<and> k \<le> ot_highest s"
    "\<And>k e. bget (ot_buffer s) k = Some e \<Longrightarrow> ev_sequence (re_identity e) = k \<and> ot_highest s + d \<le> k"
    "bsize (ot_buffer s) \<le> MAXIMUM_REORDER_WINDOW"
  shows "observer_holds d s"
  using assms unfolding observer_holds_def by blast

lemma observer_holdsD:
  assumes "observer_holds d s"
  shows "ot_schema_version s = PRODUCTION_STATE_SCHEMA_VERSION" "bhas (ot_applied s) k \<longleftrightarrow> 1 \<le> k \<and> k \<le> ot_highest s"
    "bget (ot_buffer s) k = Some e \<Longrightarrow> ev_sequence (re_identity e) = k \<and> ot_highest s + d \<le> k"
    "bsize (ot_buffer s) \<le> MAXIMUM_REORDER_WINDOW"
  using assms unfolding observer_holds_def by blast+

lemma observer_inv_new: "observer_inv (new_production_state live)"
  by (auto simp: observer_inv_def new_production_state_def intro!: observer_holdsI)

lemma holds_2_inv: "observer_holds 2 s \<Longrightarrow> observer_inv s"
  by (force simp: observer_inv_def observer_holds_def)

text \<open>The next event narrows the distance by one; when it is not in the buffer, taking it out widens it.\<close>

lemma contiguous_holds:
  assumes "observer_holds 2 s" and "apply_contiguous P e s = Ok t" and "ev_sequence (re_identity e) = ot_highest s + 1"
  shows "observer_holds 1 t"
proof (rule observer_holdsI)
  note F = apply_contiguous_frame [OF assms(2)] and I = observer_holdsD [OF assms(1)]
  show "ot_schema_version t = PRODUCTION_STATE_SCHEMA_VERSION" using F I by simp
  show "bhas (ot_applied t) k \<longleftrightarrow> 1 \<le> k \<and> k \<le> ot_highest t" for k using F(2,3) I(2) [of k] assms(3) by auto
  show "ev_sequence (re_identity x) = k \<and> ot_highest t + 1 \<le> k" if "bget (ot_buffer t) k = Some x" for k x
    using that I(3) [of k x] F(1,2) assms(3) by auto
  show "bsize (ot_buffer t) \<le> MAXIMUM_REORDER_WINDOW" using F(1) I(4) by simp
qed

lemma removed_holds:
  assumes "observer_holds 1 s"
  shows "observer_holds 2 (s\<lparr>ot_buffer := bremove (ot_highest s + 1) (ot_buffer s)\<rparr>)"
proof (rule observer_holdsI)
  let ?t = "s\<lparr>ot_buffer := bremove (ot_highest s + 1) (ot_buffer s)\<rparr>"
  show "ev_sequence (re_identity x) = k \<and> ot_highest ?t + 2 \<le> k" if "bget (ot_buffer ?t) k = Some x" for k x
    using that observer_holdsD(3) [OF assms, of k x] by (auto split: if_splits)
  show "bsize (ot_buffer ?t) \<le> MAXIMUM_REORDER_WINDOW" using observer_holdsD(4) [OF assms] by (auto simp: bsize_remove)
qed (use observer_holdsD [OF assms] in simp_all)

lemma absent_holds:
  assumes "observer_holds 1 s" and "bget (ot_buffer s) (ot_highest s + 1) = None"
  shows "observer_holds 2 s"
proof (rule observer_holdsI)
  fix k x assume x: "bget (ot_buffer s) k = Some x"
  then have "k \<noteq> ot_highest s + 1" using assms(2) by auto
  with observer_holdsD(3) [OF assms(1) x] show "ev_sequence (re_identity x) = k \<and> ot_highest s + 2 \<le> k" by simp
qed (use observer_holdsD [OF assms(1)] in simp_all)

lemma bremove_absent: "bget m k = None \<Longrightarrow> bremove k m = m"
  by (rule bmap_eqI) simp

lemma drain_cases:
  obtains (stop) r where "drain P s = (r, s)" "ot_highest s + 1 < 2 ^ 64 \<longrightarrow> bget (ot_buffer s) (ot_highest s + 1) = None"
    | (step) e t where "bget (ot_buffer s) (ot_highest s + 1) = Some e" "drain P s = drain P t"
        "apply_contiguous P e (s\<lparr>ot_buffer := bremove (ot_highest s + 1) (ot_buffer s)\<rparr>) = Ok t"
    | (fail) r where "drain P s = (r, s\<lparr>ot_buffer := bremove (ot_highest s + 1) (ot_buffer s)\<rparr>)"
proof (cases "ot_highest s + 1 < 2 ^ 64 \<and> bget (ot_buffer s) (ot_highest s + 1) \<noteq> None")
  case True
  then obtain e where e: "bget (ot_buffer s) (ot_highest s + 1) = Some e" by auto
  have c: "checked_add_nat 64 (ot_highest s) 1 = Some (ot_highest s + 1)" using True by (simp add: checked_add_nat_Some)
  show thesis
  proof (cases "apply_contiguous P e (s\<lparr>ot_buffer := bremove (ot_highest s + 1) (ot_buffer s)\<rparr>)")
    case (Ok t)
    then show thesis using e c by (intro step [OF e _ Ok]) (subst drain.simps, simp)
  qed (use e c in \<open>intro fail, subst drain.simps, simp\<close>)+
next
  case False
  then have "snd (drain P s) = s" by (subst drain.simps) (auto simp: checked_add_nat_def split: option.split)
  with False show thesis by (intro stop [of "fst (drain P s)"]) (auto simp: prod_eq_iff)
qed

lemma drain_keeps:
  "observer_holds 1 s \<Longrightarrow> observer_inv (snd (drain P s)) \<and> ot_highest s \<le> ot_highest (snd (drain P s))"
proof (induction "bsize (ot_buffer s)" arbitrary: s rule: less_induct)
  case less
  show ?case
  proof (cases rule: drain_cases [of P s])
    case (stop r)
    with less.prems absent_holds show ?thesis by (simp add: observer_inv_def)
  next
    case (step e t)
    have e: "ev_sequence (re_identity e) = ot_highest s + 1" using observer_holdsD(3) [OF less.prems step(1)] by simp
    note F = apply_contiguous_frame [OF step(3)]
    have "observer_holds 1 t" using contiguous_holds [OF removed_holds [OF less.prems] step(3)] e by simp
    moreover have "bsize (ot_buffer t) < bsize (ot_buffer s)" using F(1) bsize_remove_has [OF step(1)] by simp
    ultimately show ?thesis using less.hyps [of t] step(2) F(2) e by auto
  next
    case (fail r)
    with removed_holds [OF less.prems] show ?thesis by (simp add: holds_2_inv)
  qed
qed

lemma buffer_inv:
  assumes "observer_holds 2 s" and "ot_highest s + 1 < ev_sequence (re_identity e)"
  shows "observer_holds 2 (snd (buffer_event e n s)) \<and> ot_highest (snd (buffer_event e n s)) = ot_highest s"
proof (cases "bsize (ot_buffer s) < MAXIMUM_REORDER_WINDOW \<and> bget (ot_buffer s) (ev_sequence (re_identity e)) = None")
  case True
  let ?t = "s\<lparr>ot_buffer := binsert (ev_sequence (re_identity e)) e (ot_buffer s)\<rparr>"
  have "observer_holds 2 ?t"
  proof (rule observer_holdsI)
    show "bsize (ot_buffer ?t) \<le> MAXIMUM_REORDER_WINDOW" using True by (simp add: bsize_insert_new bhas_def)
    show "ev_sequence (re_identity x) = k \<and> ot_highest ?t + 2 \<le> k" if "bget (ot_buffer ?t) k = Some x" for k x
      using that observer_holdsD(3) [OF assms(1), of k x] assms(2) by (auto split: if_splits)
  qed (use observer_holdsD [OF assms(1)] in simp_all)
  with True show ?thesis by (simp add: buffer_event_def Let_def)
next
  case False
  then have "snd (buffer_event e n s) = s" by (auto simp: buffer_event_def Let_def split: option.split)
  with assms(1) show ?thesis by simp
qed

lemma next_inv:
  assumes "observer_holds 2 s" and "ev_sequence (re_identity e) = ot_highest s + 1"
  shows "observer_inv (snd (apply_next P e s)) \<and> ot_highest s \<le> ot_highest (snd (apply_next P e s))"
proof (cases "apply_contiguous P e s")
  case (Ok t)
  have t: "observer_holds 1 t" by (rule contiguous_holds [OF assms(1) Ok assms(2)])
  have "snd (apply_next P e s) = snd (drain P t)"
    by (cases "drain P t"; cases "fst (drain P t)") (simp_all add: apply_next_def act_bind_def act_assign_def Ok)
  with drain_keeps [OF t, of P] apply_contiguous_frame(2) [OF Ok] assms(2) show ?thesis by simp
qed (use holds_2_inv [OF assms(1)] in \<open>simp_all add: apply_next_def act_bind_def act_assign_def\<close>)

definition observer_exec :: "observer_platform \<Rightarrow> reconciliation_event \<Rightarrow> production_trading_state \<Rightarrow> production_trading_state" where
  "observer_exec P e s = snd (apply_reconciliation_event P e s)"

lemma apply_event_keeps:
  assumes "observer_inv s"
  shows "observer_inv (observer_exec P e s) \<and> ot_highest s \<le> ot_highest (observer_exec P e s)"
proof -
  let ?q = "ev_sequence (re_identity e)"
  consider (same) "observer_exec P e s = s"
    | (buffer) "observer_exec P e s = snd (buffer_event e (ot_highest s + 1) s)" "ot_highest s + 1 < 2 ^ 64" "ot_highest s + 1 < ?q"
    | (follow) "observer_exec P e s = snd (apply_next P e s)" "ot_highest s + 1 < 2 ^ 64" "?q = ot_highest s + 1"
  proof (cases "check_event_hash P e = Ok () \<and> bget (ot_applied s) ?q = None \<and> ot_highest s < ?q \<and> ot_highest s + 1 < 2 ^ 64")
    case True
    then show thesis
      by (cases "?q = ot_highest s + 1")
        (use buffer follow in \<open>auto simp: observer_exec_def apply_reconciliation_event_def act_bind_def checked_add_nat_def\<close>)
  next
    case False
    then have "observer_exec P e s = s"
      by (cases "check_event_hash P e")
        (auto simp: observer_exec_def apply_reconciliation_event_def act_bind_def Let_def checked_add_nat_def split: option.split)
    then show thesis by (rule same)
  qed
  then show ?thesis
  proof cases
    case same
    with assms show ?thesis by simp
  next
    case buffer
    then have "observer_holds 2 s" using assms by (simp add: observer_inv_def)
    from buffer_inv [OF this buffer(3), of "ot_highest s + 1"] buffer(1) holds_2_inv show ?thesis by simp
  next
    case follow
    with assms next_inv [of s e P] show ?thesis by (simp add: observer_inv_def)
  qed
qed

interpretation observer: ranked_machine "observer_exec P" observer_inv ot_highest for P
  by unfold_locales (simp_all add: apply_event_keeps)


section \<open>Delivery in any order\<close>

text \<open>The next events in order, as the signer numbers them.\<close>

definition follows :: "observer_platform \<Rightarrow> nat \<Rightarrow> reconciliation_event list \<Rightarrow> bool" where
  "follows P h es = (\<forall>k < length es. ev_sequence (re_identity (es ! k)) = h + 1 + k \<and> check_event_hash P (es ! k) = Ok ())"

definition apply_all ::
  "observer_platform \<Rightarrow> reconciliation_event list \<Rightarrow> production_trading_state \<Rightarrow> (production_trading_state, apply_error) outcome" where
  "apply_all P es s = try_fold (\<lambda>s e. apply_contiguous P e s) s es"

text \<open>The buffer takes no part in the application of an event.\<close>

lemma buffer_last:
  "s\<lparr>ot_buffer := b, ot_live := l\<rparr> = s\<lparr>ot_live := l, ot_buffer := b\<rparr>"
  "s\<lparr>ot_buffer := b, ot_position_mismatches := m\<rparr> = s\<lparr>ot_position_mismatches := m, ot_buffer := b\<rparr>"
  "s\<lparr>ot_buffer := b, ot_blocked := x\<rparr> = s\<lparr>ot_blocked := x, ot_buffer := b\<rparr>"
  for s :: production_trading_state
  by simp_all

lemma require_intent_buffer:
  "require_intent c st (s\<lparr>ot_buffer := b\<rparr>) = Ok (t\<lparr>ot_buffer := b\<rparr>)" if "require_intent c st s = Ok t"
  using that by (auto simp: require_intent_def outcome_simps fail_if_def split: if_splits)

lemma positions_buffer: "compare_positions x (s\<lparr>ot_buffer := b\<rparr>) = (compare_positions x s)\<lparr>ot_buffer := b\<rparr>"
proof -
  have "fold (mark_mismatch l x) as (s\<lparr>ot_buffer := b\<rparr>) = (fold (mark_mismatch l x) as s)\<lparr>ot_buffer := b\<rparr>" for l x as s
    by (induction as arbitrary: s) (auto simp: mark_mismatch_def Let_def buffer_last)
  from this [of _ _ _ "s\<lparr>ot_position_mismatches := bempty, ot_blocked := bempty\<rparr>"] show ?thesis
    by (simp add: compare_positions_def Let_def buffer_last del: fold_append)
qed

lemma apply_fill_buffer:
  assumes "apply_fill_event P f s = Ok t"
  shows "apply_fill_event P f (s\<lparr>ot_buffer := b\<rparr>) = Ok (t\<lparr>ot_buffer := b\<rparr>)"
proof -
  from assms obtain r live where e: "apply_exchange_fill (op_arith P) (op_hash P) f (ot_live s) = Ok (r, live)"
    by (auto simp: apply_fill_event_def outcome_simps)
  show ?thesis
  proof (cases r)
    case (AppliedFill x y)
    with assms e obtain u where u: "require_intent (fill_cloid (vf_identity f)) IntentPartiallyFilled (s\<lparr>ot_live := live\<rparr>) = Ok u"
      "t = u\<lparr>ot_replan := binsert (vf_asset f) () (ot_replan u)\<rparr>" by (auto simp: apply_fill_event_def Let_def outcome_simps)
    from require_intent_buffer [OF u(1), of b] u(2) e AppliedFill show ?thesis by (simp add: apply_fill_event_def buffer_last)
  next
    case FillAlreadyApplied
    with assms e show ?thesis by (auto simp: apply_fill_event_def Let_def)
  qed
qed

lemma apply_payload_buffer:
  assumes "apply_payload P p s = Ok t"
  shows "apply_payload P p (s\<lparr>ot_buffer := b\<rparr>) = Ok (t\<lparr>ot_buffer := b\<rparr>)"
proof (cases p)
  case (FundingEvent f)
  with assms obtain r live where "apply_funding_event (op_arith P) f (ot_live s) = Ok (r, live)"
    by (auto simp: apply_funding_payload_def outcome_simps)
  with assms FundingEvent show ?thesis by (cases r) (auto simp: apply_funding_payload_def Let_def)
next
  case (EquitySnapshot e n)
  with assms show ?thesis by (auto simp: apply_equity_def Let_def outcome_simps split: if_splits)
qed (use assms in \<open>auto simp: positions_buffer intro: require_intent_buffer apply_fill_buffer\<close>)

lemma apply_contiguous_buffer:
  assumes "apply_contiguous P e s = Ok t"
  shows "apply_contiguous P e (s\<lparr>ot_buffer := b\<rparr>) = Ok (t\<lparr>ot_buffer := b\<rparr>)"
proof -
  obtain u where "apply_payload P (re_payload e) s = Ok u"
    "t = u\<lparr>ot_applied := binsert (ev_sequence (re_identity e)) (ev_hash (re_identity e)) (ot_applied u), ot_highest := ev_sequence (re_identity e)\<rparr>"
    using assms by (auto simp: apply_contiguous_def outcome_simps)
  with apply_payload_buffer [of P "re_payload e" s u b] show ?thesis by (simp add: apply_contiguous_def)
qed


lemma apply_all_snoc: "apply_all P (es @ [e]) s = and_then (apply_all P es s) (apply_contiguous P e)"
proof -
  have "and_then m Ok = m" for m :: "(production_trading_state, apply_error) outcome" by (cases m) simp_all
  then show ?thesis by (simp add: apply_all_def try_fold_append)
qed

text \<open>
  The first \<open>j\<close> of the events are applied, and of those that were delivered (their indices are \<open>D\<close>) the
  others wait.
\<close>

definition stands ::
  "observer_platform \<Rightarrow> production_trading_state \<Rightarrow> reconciliation_event list \<Rightarrow> nat set \<Rightarrow> nat \<Rightarrow> production_trading_state \<Rightarrow> bool" where
  "stands P s0 es D j s = (j \<le> length es \<and> {..<j} \<subseteq> D \<and> D \<subseteq> {..<length es}
     \<and> apply_all P (take j es) s0 = Ok (s\<lparr>ot_buffer := bempty\<rparr>)
     \<and> (\<forall>k. bget (ot_buffer s) (ot_highest s0 + 1 + k) = (if k \<in> D \<and> j \<le> k then Some (es ! k) else None))
     \<and> (\<forall>q \<le> ot_highest s0. bget (ot_buffer s) q = None))"

lemma apply_all_prefix:
  assumes "apply_all P (take j es) s0 = Ok s" and "follows P (ot_highest s0) es" and "j \<le> length es"
  shows "ot_highest s = ot_highest s0 + j"
    and "bget (ot_applied s) q = (if ot_highest s0 < q \<and> q \<le> ot_highest s0 + j
           then Some (ev_hash (re_identity (es ! (q - ot_highest s0 - 1)))) else bget (ot_applied s0) q)"
proof -
  have "ot_highest s = ot_highest s0 + j \<and> (\<forall>q. bget (ot_applied s) q = (if ot_highest s0 < q \<and> q \<le> ot_highest s0 + j
           then Some (ev_hash (re_identity (es ! (q - ot_highest s0 - 1)))) else bget (ot_applied s0) q))"
    using assms(1,3)
  proof (induction j arbitrary: s)
    case (Suc j)
    then obtain t where t: "apply_all P (take j es) s0 = Ok t" and a: "apply_contiguous P (es ! j) t = Ok s"
      by (auto simp: take_Suc_conv_app_nth apply_all_snoc outcome_simps)
    note IH = Suc.IH [OF t] and F = apply_contiguous_frame [OF a]
    have "ev_sequence (re_identity (es ! j)) = ot_highest s0 + 1 + j" using assms(2) Suc.prems(2) by (simp add: follows_def)
    with IH F Suc.prems(2) show ?case by (auto simp: le_Suc_eq)
  qed (auto simp: apply_all_def)
  then show "ot_highest s = ot_highest s0 + j"
    and "bget (ot_applied s) q = (if ot_highest s0 < q \<and> q \<le> ot_highest s0 + j
           then Some (ev_hash (re_identity (es ! (q - ot_highest s0 - 1)))) else bget (ot_applied s0) q)" by blast+
qed

lemma apply_all_total:
  assumes "apply_all P es s0 = Ok t"
  obtains s where "apply_all P (take j es) s0 = Ok s"
proof -
  have "and_then (apply_all P (take j es) s0) (\<lambda>s. apply_all P (drop j es) s) = Ok t"
    using assms try_fold_append [of "\<lambda>s e. apply_contiguous P e s" s0 "take j es" "drop j es"] by (simp add: apply_all_def)
  then show thesis using that by (auto simp: outcome_simps)
qed

lemma stands_highest: "stands P s0 es D j s \<Longrightarrow> follows P (ot_highest s0) es \<Longrightarrow> ot_highest s = ot_highest s0 + j"
  using apply_all_prefix(1) [of P j es s0 "s\<lparr>ot_buffer := bempty\<rparr>"] by (simp add: stands_def)

text \<open>The next event is applied once it is out of the buffer.\<close>

lemma stands_step:
  assumes "stands P s0 es D j s" and "apply_all P es s0 = Ok t" and "j < length es"
  obtains u where "apply_contiguous P (es ! j) (s\<lparr>ot_buffer := bremove (ot_highest s0 + 1 + j) (ot_buffer s)\<rparr>) = Ok u"
    "stands P s0 es (insert j D) (Suc j) u"
proof -
  have a: "apply_all P (take j es) s0 = Ok (s\<lparr>ot_buffer := bempty\<rparr>)" using assms(1) by (simp add: stands_def)
  obtain v where v: "apply_all P (take (Suc j) es) s0 = Ok v" using apply_all_total [OF assms(2)] by blast
  then have c: "apply_contiguous P (es ! j) (s\<lparr>ot_buffer := bempty\<rparr>) = Ok v"
    using a assms(3) by (simp add: take_Suc_conv_app_nth apply_all_snoc)
  let ?b = "bremove (ot_highest s0 + 1 + j) (ot_buffer s)"
  have "apply_contiguous P (es ! j) (s\<lparr>ot_buffer := ?b\<rparr>) = Ok (v\<lparr>ot_buffer := ?b\<rparr>)"
    using apply_contiguous_buffer [OF c, of ?b] by simp
  moreover have "v\<lparr>ot_buffer := bempty\<rparr> = v" using apply_contiguous_frame(1) [OF c] by simp
  then have "stands P s0 es (insert j D) (Suc j) (v\<lparr>ot_buffer := ?b\<rparr>)"
    using assms(1,3) v by (auto simp: stands_def lessThan_Suc)
  ultimately show thesis by (rule that)
qed

lemma stands_drain:
  assumes "apply_all P es s0 = Ok t" and "follows P (ot_highest s0) es" and "ot_highest s0 + length es + 1 < 2 ^ 64"
    and "stands P s0 es D j s"
  shows "\<exists>i u. drain P s = (Ok (), u) \<and> stands P s0 es D i u \<and> i \<notin> D"
  using assms(4)
proof (induction "length es - j" arbitrary: j s rule: less_induct)
  case less
  have h: "ot_highest s = ot_highest s0 + j" by (rule stands_highest [OF less.prems assms(2)])
  have j: "j \<le> length es" "D \<subseteq> {..<length es}" using less.prems by (simp_all add: stands_def)
  have c: "checked_add_nat 64 (ot_highest s) 1 = Some (ot_highest s0 + 1 + j)"
    using h j assms(3) by (simp add: checked_add_nat_Some)
  have g: "bget (ot_buffer s) (ot_highest s0 + 1 + j) = (if j \<in> D then Some (es ! j) else None)"
    using less.prems unfolding stands_def by simp
  show ?case
  proof (cases "j \<in> D")
    case True
    then have l: "j < length es" using j by auto
    from stands_step [OF less.prems assms(1) l] obtain u where
      u: "apply_contiguous P (es ! j) (s\<lparr>ot_buffer := bremove (ot_highest s0 + 1 + j) (ot_buffer s)\<rparr>) = Ok u"
        "stands P s0 es (insert j D) (Suc j) u" by blast
    have "drain P s = drain P u" using c g True u(1) by (subst drain.simps) simp
    moreover have "stands P s0 es D (Suc j) u" using u(2) True by (simp add: insert_absorb)
    ultimately show ?thesis using less.hyps [of "Suc j" u] l by simp
  next
    case False
    then have "drain P s = (Ok (), s)" using c g by (subst drain.simps) simp
    with False less.prems show ?thesis by blast
  qed
qed

text \<open>What waits is less than a window.\<close>

lemma stands_window:
  assumes "stands P s0 es D j s" and "j \<notin> D" and "length es \<le> MAXIMUM_REORDER_WINDOW" and "j < length es"
  shows "bsize (ot_buffer s) < MAXIMUM_REORDER_WINDOW"
proof -
  have "set (bkeys (ot_buffer s)) \<subseteq> (\<lambda>k. ot_highest s0 + 1 + k) ` ({..<length es} - {j})"
  proof
    fix q assume "q \<in> set (bkeys (ot_buffer s))"
    then have q: "bget (ot_buffer s) q \<noteq> None" by (simp add: set_bkeys bhas_def)
    then have "ot_highest s0 < q" using assms(1) by (meson not_le stands_def)
    then obtain k where k: "q = ot_highest s0 + 1 + k" by (metis add.assoc less_iff_Suc_add plus_1_eq_Suc add.commute)
    with q have "k \<in> D" using assms(1) by (auto simp: stands_def split: if_splits)
    moreover have "D \<subseteq> {..<length es}" using assms(1) by (simp add: stands_def)
    ultimately show "q \<in> (\<lambda>k. ot_highest s0 + 1 + k) ` ({..<length es} - {j})" using k assms(2) by auto
  qed
  then have "card (set (bkeys (ot_buffer s))) \<le> card ((\<lambda>k. ot_highest s0 + 1 + k) ` ({..<length es} - {j}))"
    by (intro card_mono) auto
  also have "\<dots> \<le> card ({..<length es} - {j})" by (rule card_image_le) simp
  also have "\<dots> < length es" using assms(4) by simp
  finally show ?thesis using assms(3) distinct_card [OF bkeys_props(2), of "ot_buffer s"] by (simp add: bkeys_def bsize_def)
qed


lemma stands_deliver:
  assumes "apply_all P es s0 = Ok t" and "follows P (ot_highest s0) es" and "ot_highest s0 + length es + 1 < 2 ^ 64"
    and "length es \<le> MAXIMUM_REORDER_WINDOW" and "observer_inv s0" and "stands P s0 es D j s" "j \<notin> D" and "k < length es"
  shows "\<exists>i u. deliver P (es ! k) s = (Ok (), u) \<and> stands P s0 es (insert k D) i u \<and> i \<notin> insert k D"
proof -
  have h: "ot_highest s = ot_highest s0 + j" by (rule stands_highest [OF assms(6,2)])
  have S: "j \<le> length es" "{..<j} \<subseteq> D" "D \<subseteq> {..<length es}" "apply_all P (take j es) s0 = Ok (s\<lparr>ot_buffer := bempty\<rparr>)"
    "\<And>k. bget (ot_buffer s) (ot_highest s0 + 1 + k) = (if k \<in> D \<and> j \<le> k then Some (es ! k) else None)"
    using assms(6) unfolding stands_def by blast+
  have A: "bget (ot_applied s) (ot_highest s0 + 1 + i) = (if i < j then Some (ev_hash (re_identity (es ! i))) else None)" for i
    using apply_all_prefix(2) [OF S(4) assms(2) S(1)] assms(5) observer_holdsD(2) [of 1 s0 "ot_highest s0 + 1 + i"]
    by (auto simp: observer_inv_def bhas_def)
  have q: "ev_sequence (re_identity (es ! k)) = ot_highest s0 + 1 + k" and e: "check_event_hash P (es ! k) = Ok ()"
    using assms(2,8) by (auto simp: follows_def)
  have c: "checked_add_nat 64 (ot_highest s) 1 = Some (ot_highest s0 + 1 + j)"
    using h S(1) assms(3) by (simp add: checked_add_nat_Some)
  consider "k < j" | "k = j" | "j < k" by linarith
  then show ?thesis
  proof cases
    case 1
    then have "k \<in> D" using S(2) by auto
    have "deliver P (es ! k) s = (Ok (), s)"
      using A [of k] 1 by (simp add: deliver_def apply_reconciliation_event_def act_bind_def e q)
    then show ?thesis using assms(6,7) \<open>k \<in> D\<close> by (auto simp: insert_absorb)
  next
    case 2
    then have l: "j < length es" using assms(8) by simp
    from stands_step [OF assms(6,1) l] obtain u where
      u: "apply_contiguous P (es ! j) (s\<lparr>ot_buffer := bremove (ot_highest s0 + 1 + j) (ot_buffer s)\<rparr>) = Ok u"
        "stands P s0 es (insert j D) (Suc j) u" by blast
    have "bremove (ot_highest s0 + 1 + j) (ot_buffer s) = ot_buffer s" using S(5) [of j] assms(7) by (intro bremove_absent) simp
    with u(1) have n: "apply_contiguous P (es ! k) s = Ok u" using 2 by simp
    from stands_drain [OF assms(1-3) u(2)] obtain i v where
      v: "drain P u = (Ok (), v)" "stands P s0 es (insert j D) i v" "i \<notin> insert j D" by blast
    have "deliver P (es ! k) s = (Ok (), v)"
      using A [of j] n v(1) h c e q unfolding 2
      by (simp add: deliver_def apply_reconciliation_event_def act_bind_def act_assign_def apply_next_def)
    with v(2,3) 2 show ?thesis by blast
  next
    case 3
    then have l: "j < length es" using assms(8) by simp
    have w: "\<not> MAXIMUM_REORDER_WINDOW \<le> bsize (ot_buffer s)" using stands_window [OF assms(6,7,4) l] by simp
    let ?u = "if k \<in> D then s else s\<lparr>ot_buffer := binsert (ot_highest s0 + 1 + k) (es ! k) (ot_buffer s)\<rparr>"
    have "deliver P (es ! k) s = (Ok (), ?u)"
      using A [of k] 3 h c w S(5) [of k]
      by (simp add: deliver_def apply_reconciliation_event_def act_bind_def buffer_event_def e q)
    moreover have "stands P s0 es (insert k D) j ?u"
      using assms(6,8) 3 by (auto simp: stands_def insert_absorb)
    ultimately show ?thesis using 3 assms(7) by fastforce
  qed
qed

lemma stands_deliveries:
  assumes "apply_all P es s0 = Ok t" and "follows P (ot_highest s0) es" and "ot_highest s0 + length es + 1 < 2 ^ 64"
    and "length es \<le> MAXIMUM_REORDER_WINDOW" and "observer_inv s0"
    and "stands P s0 es D j s" "j \<notin> D" and "set ks \<subseteq> {..<length es}"
  shows "\<exists>i u. act_each (\<lambda>k. deliver P (es ! k)) ks s = (Ok (), u) \<and> stands P s0 es (D \<union> set ks) i u \<and> i \<notin> D \<union> set ks"
  using assms(6-8)
proof (induction ks arbitrary: D j s)
  case (Cons k ks)
  then obtain i u where u: "deliver P (es ! k) s = (Ok (), u)" "stands P s0 es (insert k D) i u" "i \<notin> insert k D"
    using stands_deliver [OF assms(1-5) Cons.prems(1,2), of k] by auto
  from Cons.IH [OF u(2,3)] Cons.prems(3) obtain i' v where
    "act_each (\<lambda>k. deliver P (es ! k)) ks u = (Ok (), v)" "stands P s0 es (insert k D \<union> set ks) i' v" "i' \<notin> insert k D \<union> set ks"
    by auto
  with u(1) show ?case by (auto simp: act_bind_def)
qed auto

text \<open>
  C14. Delivery order does not matter. Take a state between deliveries with nothing waiting, and the signer's
  next events, at most a reorder window of them, with their right hashes, each of which can be applied in
  order. Whatever the order in which they are delivered, and however often each is repeated, every delivery
  succeeds, and once each event was delivered the state is the one that applying them in order gives.
\<close>

theorem delivery_converges:
  assumes "observer_inv s" and "ot_buffer s = bempty"
    and "follows P (ot_highest s) es" and "apply_all P es s = Ok t"
    and "length es \<le> MAXIMUM_REORDER_WINDOW" and "ot_highest s + length es + 1 < 2 ^ 64"
    and "set ks = {..<length es}"
  shows "act_each (\<lambda>k. deliver P (es ! k)) ks s = (Ok (), t)"
proof -
  have "stands P s es {} 0 s" using assms(2) by (auto simp: stands_def apply_all_def)
  from stands_deliveries [OF assms(4,3,6,5,1) this, of ks] assms(7) obtain i u where
    u: "act_each (\<lambda>k. deliver P (es ! k)) ks s = (Ok (), u)" "stands P s es {..<length es} i u" "i \<notin> {..<length es}" by auto
  then have i: "i = length es" by (auto simp: stands_def)
  have "bget (ot_buffer u) q = None" for q
  proof (cases "q \<le> ot_highest s")
    case False
    then obtain k where "q = ot_highest s + 1 + k" by (metis add.assoc add.commute not_le less_iff_Suc_add plus_1_eq_Suc)
    with u(2) i show ?thesis by (auto simp: stands_def)
  qed (use u(2) in \<open>simp add: stands_def\<close>)
  then have "ot_buffer u = bempty" by (intro bmap_eqI) simp
  then have "u = t" using u(2) i assms(4) by (auto simp: stands_def)
  with u(1) show ?thesis by simp
qed

lemma observer_inv_applied: "observer_inv s \<Longrightarrow> bkeys (ot_applied s) = [1..<ot_highest s + 1]"
  by (rule sorted_distinct_set_unique)
    (use bkeys_props sorted_upt in \<open>auto simp: set_bkeys observer_inv_def observer_holdsD(2) simp del: upt_Suc\<close>)

lemma observer_inv_loads: "observer_inv s \<Longrightarrow> load_state s = Ok s"
  using observer_holdsD(1,4) [of 1 s] observer_inv_applied [of s]
  by (auto simp: load_state_def observer_inv_def PRODUCTION_STATE_SCHEMA_VERSION_def last_conv_nth)

text \<open>
  C15. Every state deliveries leave can be loaded again. From a new state, whatever events arrive, in whatever
  order and whether or not they are refused, the state passes the checks of the load: the numbers of the
  applied events are exactly \<open>1\<close> to the highest, without a gap, every waiting event is ahead of it, and at
  most a reorder window of them waits.
\<close>

theorem observer_state_loads:
  fixes P :: observer_platform
  defines "s es live \<equiv> fold (\<lambda>e s. snd (apply_reconciliation_event P e s)) es (new_production_state live)"
  shows "load_state (s es live) = Ok (s es live) \<and> bkeys (ot_applied (s es live)) = [1..<ot_highest (s es live) + 1]
    \<and> list_all (\<lambda>q. ot_highest (s es live) < q) (bkeys (ot_buffer (s es live)))"
proof -
  let ?s = "s es live"
  have i: "observer_inv ?s"
    using observer.invar_run [OF observer_inv_new, of P es live] by (simp add: s_def observer_exec_def [abs_def])
  then have "observer_holds 1 ?s" by (simp add: observer_inv_def)
  from observer_holdsD(3) [OF this] have "list_all (\<lambda>q. ot_highest ?s < q) (bkeys (ot_buffer ?s))"
    by (fastforce simp: list_all_iff set_bkeys bhas_def)
  with observer_inv_applied [OF i] observer_inv_loads [OF i] show ?thesis by simp
qed


section \<open>Errors of a delivery\<close>

lemma drain_applied:
  "observer_holds 1 s \<Longrightarrow> q \<le> ot_highest s \<Longrightarrow> bget (ot_applied (snd (drain P s))) q = bget (ot_applied s) q"
proof (induction "bsize (ot_buffer s)" arbitrary: s rule: less_induct)
  case less
  show ?case
  proof (cases rule: drain_cases [of P s])
    case (step e t)
    have e: "ev_sequence (re_identity e) = ot_highest s + 1" using observer_holdsD(3) [OF less.prems(1) step(1)] by simp
    note F = apply_contiguous_frame [OF step(3)]
    have "observer_holds 1 t" using contiguous_holds [OF removed_holds [OF less.prems(1)] step(3)] e by simp
    moreover have "bsize (ot_buffer t) < bsize (ot_buffer s)" using F(1) bsize_remove_has [OF step(1)] by simp
    moreover have "bget (ot_applied t) q = bget (ot_applied s) q" using F(3) e less.prems(2) by simp
    ultimately show ?thesis using less.hyps [of t] step(2) F(2) e less.prems(2) by simp
  qed simp_all
qed

text \<open>
  C16. What an error of a delivery means. Either nothing changed, or the delivered event itself was applied
  and a waiting one failed after it: then delivering the event again answers that it is applied, and the
  event that failed, whose number is the next one, is no longer waiting, so that the signer has to send it
  again.
\<close>

theorem delivery_error:
  assumes "observer_inv s" and "apply_reconciliation_event P e s = (Err x, t)"
  shows "t = s \<or> (apply_reconciliation_event P e t = (Ok (EventAlreadyApplied (ot_highest t)), t)
    \<and> ot_highest s < ot_highest t \<and> (ot_highest t + 1 < 2 ^ 64 \<longrightarrow> \<not> bhas (ot_buffer t) (ot_highest t + 1)))"
proof (cases "t = s")
  case False
  let ?q = "ev_sequence (re_identity e)" and ?h = "ev_hash (re_identity e)"
  have c: "check_event_hash P e = Ok ()"
    using False assms(2) by (cases "check_event_hash P e") (simp_all add: apply_reconciliation_event_def act_bind_def)
  have "buffer_event e n s \<noteq> (Err x, t)" for n
    using False by (auto simp: buffer_event_def Let_def split: option.splits if_splits)
  with False assms(2) c have n: "?q = ot_highest s + 1" "ot_highest s + 1 < 2 ^ 64" "apply_next P e s = (Err x, t)"
    by (auto simp: apply_reconciliation_event_def act_bind_def Let_def checked_add_nat_def split: option.splits if_splits)
  then obtain u where u: "apply_contiguous P e s = Ok u" "drain P u = (Err x, t)"
    using False by (cases "apply_contiguous P e s"; cases "drain P (case apply_contiguous P e s of Ok u \<Rightarrow> u | _ \<Rightarrow> s)";
      cases "fst (drain P (case apply_contiguous P e s of Ok u \<Rightarrow> u | _ \<Rightarrow> s))")
      (simp_all add: apply_next_def act_bind_def act_assign_def)
  have "observer_holds 2 s" using assms(1) n(2) by (simp add: observer_inv_def)
  from contiguous_holds [OF this u(1) n(1)] have U: "observer_holds 1 u" .
  note F = apply_contiguous_frame [OF u(1)] and K = drain_keeps [OF U, of P]
  have "bget (ot_applied t) ?q = Some ?h" using drain_applied [OF U, of ?q P] u(2) F by simp
  then have "apply_reconciliation_event P e t = (Ok (EventAlreadyApplied (ot_highest t)), t)"
    using c by (simp add: apply_reconciliation_event_def act_bind_def)
  moreover have "ot_highest s < ot_highest t" using K u(2) F(2) n(1) by simp
  moreover have "\<not> bhas (ot_buffer t) (ot_highest t + 1)" if "ot_highest t + 1 < 2 ^ 64"
  proof -
    have "observer_holds 2 t" using K u(2) that by (simp add: observer_inv_def)
    from observer_holdsD(3) [OF this, of "ot_highest t + 1"] show ?thesis
      by (cases "bget (ot_buffer t) (ot_highest t + 1)") (auto simp: bhas_def)
  qed
  ultimately show ?thesis by blast
qed simp

section \<open>The states of the intents\<close>

text \<open>The intent an event is about, and the state it moves it to.\<close>

fun moves_intent :: "reconciliation_payload \<Rightarrow> (planned_cloid \<times> observer_intent_state) option" where
  "moves_intent (IntentAccepted i _) = Some (ii_cloid i, IntentAcceptedBySigner)"
| "moves_intent (StartedEvent c) = Some (c, IntentSent)"
| "moves_intent (UnknownEvent c) = Some (c, IntentUnknown)"
| "moves_intent (AcknowledgedEvent c _) = Some (c, IntentAcknowledged)"
| "moves_intent (RejectedEvent c _) = Some (c, IntentRejected)"
| "moves_intent (CancelledEvent c _) = Some (c, IntentCancelled)"
| "moves_intent (PartiallyFilledEvent c _ _) = Some (c, IntentPartiallyFilled)"
| "moves_intent (FillEvent f) = Some (fill_cloid (vf_identity f), IntentPartiallyFilled)"
| "moves_intent (ReconciledEvent c) = Some (c, IntentReconciled)"
| "moves_intent (NotSubmittedEvent c) = Some (c, IntentNotSubmitted)"
| "moves_intent _ = None"

lemma positions_intents: "ot_intents (compare_positions x s) = ot_intents s"
proof -
  have "ot_intents (fold (mark_mismatch l x) as s) = ot_intents s" for l x as s
    by (induction as arbitrary: s) (auto simp: mark_mismatch_def Let_def)
  then show ?thesis by (simp add: compare_positions_def Let_def del: fold_append)
qed

lemma require_intent_moves:
  "require_intent c st s = Ok t \<Longrightarrow> bhas (ot_intents s) c \<and> ot_intents t = binsert c st (ot_intents s)"
  by (auto simp: require_intent_def outcome_simps fail_if_def split: if_splits)

lemma fill_intents:
  assumes "apply_fill_event P f s = Ok t"
  shows "if bhas (applied_fills (ot_live s)) (vf_identity f) then ot_intents t = ot_intents s
    else bhas (ot_intents s) (fill_cloid (vf_identity f))
      \<and> ot_intents t = binsert (fill_cloid (vf_identity f)) IntentPartiallyFilled (ot_intents s)"
proof -
  from assms obtain r live where e: "apply_exchange_fill (op_arith P) (op_hash P) f (ot_live s) = Ok (r, live)"
    by (auto simp: apply_fill_event_def outcome_simps)
  have r: "r = FillAlreadyApplied \<longleftrightarrow> bhas (applied_fills (ot_live s)) (vf_identity f)"
    using e by (auto simp: apply_exchange_fill_def Let_def outcome_simps split: if_splits)
  show ?thesis
  proof (cases r)
    case (AppliedFill x y)
    with assms e obtain u where u: "require_intent (fill_cloid (vf_identity f)) IntentPartiallyFilled (s\<lparr>ot_live := live\<rparr>) = Ok u"
      "t = u\<lparr>ot_replan := binsert (vf_asset f) () (ot_replan u)\<rparr>" by (auto simp: apply_fill_event_def Let_def outcome_simps)
    from require_intent_moves [OF u(1)] u(2) r AppliedFill show ?thesis by simp
  next
    case FillAlreadyApplied
    with assms e r show ?thesis by (auto simp: apply_fill_event_def Let_def)
  qed
qed

text \<open>
  C17. What an event does to the tracked intents. Only the accepted intents are tracked: every other event
  about an intent is refused unless the intent is known. An event moves only the intent it names, and moves
  it whatever its state was: the state is that of the last event, so a fill that is delivered after the
  order was reconciled makes the intent partially filled again. A fill that was recorded before moves
  nothing.
\<close>

theorem events_move_intents:
  assumes "apply_contiguous P e s = Ok t"
  shows "case moves_intent (re_payload e) of
      None \<Rightarrow> ot_intents t = ot_intents s
    | Some (c, st) \<Rightarrow> (case re_payload e of
          FillEvent f \<Rightarrow> if bhas (applied_fills (ot_live s)) (vf_identity f) then ot_intents t = ot_intents s
            else bhas (ot_intents s) c \<and> ot_intents t = binsert c st (ot_intents s)
        | IntentAccepted i n \<Rightarrow> ot_intents t = binsert c st (ot_intents s)
        | _ \<Rightarrow> bhas (ot_intents s) c \<and> ot_intents t = binsert c st (ot_intents s))"
proof -
  obtain u where u: "apply_payload P (re_payload e) s = Ok u" "ot_intents t = ot_intents u"
    using assms by (auto simp: apply_contiguous_def outcome_simps)
  show ?thesis
  proof (cases "re_payload e")
    case (FillEvent f)
    with u fill_intents [of P f s u] show ?thesis by simp
  next
    case (FundingEvent f)
    with u obtain r live where "apply_funding_event (op_arith P) f (ot_live s) = Ok (r, live)"
      by (auto simp: apply_funding_payload_def outcome_simps)
    with u FundingEvent show ?thesis by (cases r) (auto simp: apply_funding_payload_def Let_def)
  next
    case (EquitySnapshot eq n)
    with u show ?thesis by (auto simp: apply_equity_def Let_def outcome_simps split: if_splits)
  next
    case (PositionSnapshot held n)
    with u show ?thesis by (auto simp: positions_intents)
  qed (use u in \<open>auto dest: require_intent_moves\<close>)
qed

section \<open>Concrete runs\<close>

definition sample_platform :: observer_platform where
  "sample_platform = \<lparr>op_arith = exact_ops, op_hash = (\<lambda>b. b), op_encode_payload = (\<lambda>_. Ok []), op_show_ledger = (\<lambda>_. [])\<rparr>"

definition sample_event :: "nat \<Rightarrow> reconciliation_payload \<Rightarrow> reconciliation_event" where
  "sample_event n p = \<lparr>re_identity = \<lparr>ev_signer = [], ev_sequence = n, ev_hash = []\<rparr>, re_payload = p\<rparr>"

lemma sample_event_hash: "check_event_hash sample_platform (sample_event n p) = Ok ()"
  by (simp add: check_event_hash_def canonical_payload_hash_def sample_platform_def sample_event_def fail_if_def)

definition sample_events :: "reconciliation_event list" where
  "sample_events = [sample_event 1 (IntentAccepted \<lparr>ii_cloid = [1], ii_target_version = 1, ii_canonical_hash = [2]\<rparr> 1),
     sample_event 2 (StartedEvent [1])]"

lemma sample_follows: "follows sample_platform 0 sample_events"
  by (auto simp: follows_def sample_events_def sample_event_hash less_Suc_eq) (simp_all add: sample_event_def)

lemma delivery_converges_witness:
  "\<exists>live t. new_live_state 1000 5 = Ok live
     \<and> act_each (\<lambda>k. deliver sample_platform (sample_events ! k)) [1, 1, 0] (new_production_state live) = (Ok (), t)
     \<and> bget (ot_intents t) [1] = Some IntentSent"
proof -
  obtain live where l: "new_live_state 1000 5 = Ok live" using sample_live_run by blast
  let ?s = "new_production_state live"
  obtain t where t: "apply_all sample_platform sample_events ?s = Ok t" "bget (ot_intents t) [1] = Some IntentSent"
    by (simp add: apply_all_def sample_events_def sample_event_def apply_contiguous_def require_intent_def fail_if_def
        new_production_state_def)
  have "ot_highest ?s = 0" "ot_buffer ?s = bempty" by (simp_all add: new_production_state_def)
  then have "act_each (\<lambda>k. deliver sample_platform (sample_events ! k)) [1, 1, 0] ?s = (Ok (), t)"
    by (intro delivery_converges [OF observer_inv_new _ _ t(1)])
      (auto simp: sample_follows, auto simp: sample_events_def MAXIMUM_REORDER_WINDOW_def)
  with l t(2) show ?thesis by blast
qed

lemma delivery_error_witness:
  "\<exists>live s t. new_live_state 1000 5 = Ok live
     \<and> s = (new_production_state live)\<lparr>ot_buffer := binsert 2 (sample_event 2 (StartedEvent [7])) bempty\<rparr>
     \<and> apply_reconciliation_event sample_platform (hd sample_events) s = (Err UnknownIntent, t)
     \<and> apply_reconciliation_event sample_platform (hd sample_events) t = (Ok (EventAlreadyApplied 1), t) \<and> t \<noteq> s"
proof -
  obtain live where l: "new_live_state 1000 5 = Ok live" using sample_live_run by blast
  let ?s = "(new_production_state live)\<lparr>ot_buffer := binsert 2 (sample_event 2 (StartedEvent [7])) bempty\<rparr>"
  have "observer_holds 2 ?s"
    by (rule observer_holdsI) (auto simp: new_production_state_def sample_event_def bsize_insert_new MAXIMUM_REORDER_WINDOW_def split: if_splits)
  then have i: "observer_inv ?s" by (rule holds_2_inv)
  obtain t where t: "apply_reconciliation_event sample_platform (hd sample_events) ?s = (Err UnknownIntent, t)" "ot_highest t = 1"
    using sample_event_hash [of 1]
    by (simp add: apply_reconciliation_event_def act_bind_def act_assign_def sample_events_def apply_next_def)
      (simp add: sample_event_def new_production_state_def checked_add_nat_def act_assign_def act_bind_def apply_next_def
        apply_contiguous_def drain.simps require_intent_def fail_if_def)
  then have "t \<noteq> ?s" by (auto simp: new_production_state_def)
  with delivery_error [OF i t(1)] t l show ?thesis by auto
qed

lemma events_move_intents_witness:
  "\<exists>live s t. new_live_state 1000 5 = Ok live
     \<and> s = (new_production_state live)\<lparr>ot_intents := binsert [1] IntentReconciled bempty\<rparr>
     \<and> apply_contiguous sample_platform (sample_event 1 (FillEvent (sample_live_fill Buy 100 1000 ''a''))) s = Ok t
     \<and> bget (ot_intents t) [1] = Some IntentPartiallyFilled"
proof -
  let ?f = "sample_live_fill Buy 100 1000 ''a''"
  obtain live r s1 where l: "new_live_state 1000 5 = Ok live" "apply_exchange_fill exact_ops (\<lambda>b. b) ?f live = Ok (r, s1)"
    using sample_live_run by blast
  have n: "\<not> bhas (applied_fills live) (vf_identity ?f)"
    using l(1) by (auto simp: new_live_state_def outcome_simps fail_if_def split: if_splits)
  let ?s = "(new_production_state live)\<lparr>ot_intents := binsert [1] IntentReconciled bempty\<rparr>"
  have c: "fill_cloid (vf_identity ?f) = [1]" by (simp add: sample_live_fill_def)
  obtain t where t: "apply_contiguous sample_platform (sample_event 1 (FillEvent ?f)) ?s = Ok t"
    using l(2) c by (cases r) (simp_all add: apply_contiguous_def sample_event_def apply_fill_event_def sample_platform_def
        new_production_state_def require_intent_def fail_if_def)
  from events_move_intents [OF t] n c have "bget (ot_intents t) [1] = Some IntentPartiallyFilled"
    by (simp add: sample_event_def new_production_state_def)
  with t l(1) show ?thesis by blast
qed

end
