(* ===== verification/Handoff_Queue.thy ===== *)
theory Handoff_Queue
  imports Observer_State
begin

text \<open>
  The observer's handoff of intents to the signer (\<open>copytrade-observer/ipc_client.rs\<close>): the durable queue,
  the client of the signer, the dispatcher with its worker, and the reconciliation with the signer's events.
  What the socket and the disk answer are parameters, as are the encodings of the messages. Connecting, peer
  credentials and the hash of the peer's executable are outside.
\<close>

section \<open>State\<close>

datatype handoff_state =
    HandoffPlanned | HandoffPersisted | HandoffSent | HandoffAccepted | HandoffUnknown | HandoffAcknowledged
  | HandoffPartiallyFilled | HandoffFilled | HandoffCancelled | HandoffRejected string | HandoffSuperseded
  | HandoffReconciled

record pending_handoff =
  ph_intent :: authorized_intent
  ph_state :: handoff_state
  ph_sequence :: nat
  ph_frame :: bytes
  ph_frame_hash :: bytes

record handoff_queue =
  hq_schema_version :: nat
  hq_max_pending :: nat
  hq_max_reducing :: nat
  hq_max_increasing :: nat
  hq_next_sequence :: nat
  hq_by_cloid :: "(planned_cloid, pending_handoff) bmap"

datatype observer_ipc_error =
    HandoffIo string | HandoffCodec ipc_error | HandoffCapacity | HandoffConflict | HandoffUnknownCloid
  | HandoffUnexpected | HandoffPeerMismatch | HandoffHandshakeMismatch | HandoffInvalidState | HandoffOverflow

definition HANDOFF_SCHEMA_VERSION :: nat where "HANDOFF_SCHEMA_VERSION = 1"
definition HANDOFF_FRAME_BYTES :: nat where "HANDOFF_FRAME_BYTES = 16 * 1024 * 1024"

datatype save_answer = Saved | NotSaved string | SavedUnsynced string

text \<open>
  What is outside: the encodings, and the answers of the socket and the disk to the \<open>n\<close>-th external call.
  A reply is what \<open>read_framed\<close> returns, a timeout included.
\<close>

record handoff_environment =
  he_policy :: ipc_policy
  he_encode_intent :: "authorized_intent \<Rightarrow> (bytes, string) outcome"
  he_encode_request :: "observer_request \<Rightarrow> (bytes, string) outcome"
  he_hash :: "bytes \<Rightarrow> bytes"
  he_show_rejection :: "signer_rejection \<Rightarrow> string"
  he_show_apply :: "apply_error \<Rightarrow> string"
  he_raw_write :: "nat \<Rightarrow> (unit, string) outcome"
  he_framed_write :: "nat \<Rightarrow> write_answer"
  he_reply :: "nat \<Rightarrow> signer_response ipc"
  he_save :: "nat \<Rightarrow> save_answer"

section \<open>The queue\<close>

definition new_queue :: "nat \<Rightarrow> (handoff_queue, observer_ipc_error) outcome" where
  "new_queue n = and_then (fail_if (n = 0) HandoffCapacity) (\<lambda>_.
     Ok \<lparr>hq_schema_version = HANDOFF_SCHEMA_VERSION, hq_max_pending = n, hq_max_reducing = n, hq_max_increasing = n,
         hq_next_sequence = 1, hq_by_cloid = bempty\<rparr>)"

definition queue_with_lanes :: "nat \<Rightarrow> nat \<Rightarrow> (handoff_queue, observer_ipc_error) outcome" where
  "queue_with_lanes reducing increasing =
     and_then (ok_or HandoffCapacity (checked_add_nat 64 reducing increasing)) (\<lambda>n.
     and_then (fail_if (reducing = 0 \<or> increasing = 0) HandoffCapacity) (\<lambda>_.
     Ok \<lparr>hq_schema_version = HANDOFF_SCHEMA_VERSION, hq_max_pending = n, hq_max_reducing = reducing,
         hq_max_increasing = increasing, hq_next_sequence = 1, hq_by_cloid = bempty\<rparr>))"

text \<open>The checks of \<open>restore\<close> on a queue that was read.\<close>

definition restore_queue :: "handoff_queue \<Rightarrow> nat \<Rightarrow> (handoff_queue, observer_ipc_error) outcome" where
  "restore_queue q capacity = (if hq_schema_version q \<noteq> HANDOFF_SCHEMA_VERSION \<or> hq_max_pending q \<noteq> capacity
      \<or> hq_max_pending q < bsize (hq_by_cloid q) \<or> hq_next_sequence q = 0
    then Err HandoffInvalidState else Ok q)"

fun is_resolved :: "handoff_state \<Rightarrow> bool" where
  "is_resolved HandoffAccepted = True"
| "is_resolved (HandoffRejected _) = True"
| "is_resolved HandoffSuperseded = True"
| "is_resolved HandoffReconciled = True"
| "is_resolved _ = False"

definition unresolved_len :: "handoff_queue \<Rightarrow> nat" where
  "unresolved_len q = length (filter (\<lambda>e. \<not> is_resolved (ph_state e)) (bvals (hq_by_cloid q)))"

fun leaves_lane :: "handoff_state \<Rightarrow> bool" where
  "leaves_lane (HandoffRejected _) = True"
| "leaves_lane HandoffSuperseded = True"
| "leaves_lane HandoffReconciled = True"
| "leaves_lane _ = False"

definition lane_count :: "bool \<Rightarrow> handoff_queue \<Rightarrow> nat" where
  "lane_count reducing q =
    length (filter (\<lambda>e. ai_reduce_only (ph_intent e) = reducing \<and> \<not> leaves_lane (ph_state e)) (bvals (hq_by_cloid q)))"

definition lane_capacity :: "bool \<Rightarrow> handoff_queue \<Rightarrow> nat" where
  "lane_capacity reducing q = (if reducing then hq_max_reducing q else hq_max_increasing q)"

text \<open>Equality of intents: the decimals compare by value.\<close>

definition same_intent :: "authorized_intent \<Rightarrow> authorized_intent \<Rightarrow> bool" where
  "same_intent i j = (scaled_value (ai_quantity i) = scaled_value (ai_quantity j)
     \<and> scaled_value (ai_limit_price i) = scaled_value (ai_limit_price j)
     \<and> i\<lparr>ai_quantity := ai_quantity j, ai_limit_price := ai_limit_price j\<rparr> = j)"

text \<open>The number is taken before the frame is encoded, and is lost when that fails.\<close>

definition add_handoff ::
  "handoff_environment \<Rightarrow> authorized_intent \<Rightarrow> (handoff_queue, nat, observer_ipc_error) action" where
  "add_handoff E i =
    act_bind (act_get (\<lambda>q. Ok (hq_next_sequence q))) (\<lambda>sequence.
    act_bind (act_assign (\<lambda>q. ok_or HandoffOverflow (checked_add_nat 64 sequence 1)) (\<lambda>n q. q\<lparr>hq_next_sequence := n\<rparr>)) (\<lambda>_.
    let request = Submit i in
    act_bind (act_try (map_err HandoffCodec (encode_frame (he_encode_request E) (he_hash E) OBSERVER_MESSAGE_TYPE sequence
      request HANDOFF_FRAME_BYTES))) (\<lambda>frame.
    act_bind (act_try (map_err HandoffCodec (canonical_payload_hash (he_encode_request E) (he_hash E) request))) (\<lambda>h.
    act_bind (act_modify (\<lambda>q. q\<lparr>hq_by_cloid := binsert (ai_planned_cloid i) \<lparr>ph_intent = i, ph_state = HandoffPersisted,
        ph_sequence = sequence, ph_frame = frame, ph_frame_hash = h\<rparr> (hq_by_cloid q)\<rparr>)) (\<lambda>_.
    act_return sequence)))))"

definition enqueue ::
  "handoff_environment \<Rightarrow> authorized_intent \<Rightarrow> (handoff_queue, nat, observer_ipc_error) action" where
  "enqueue E i = (\<lambda>q. case bget (hq_by_cloid q) (ai_planned_cloid i) of
     Some e \<Rightarrow> (if same_intent (ph_intent e) i then Ok (ph_sequence e) else Err HandoffConflict, q)
   | None \<Rightarrow>
      act_bind (act_try (map_err (\<lambda>_. HandoffConflict) (validate_canonical (he_encode_intent E) (he_hash E) i))) (\<lambda>_.
      act_bind (act_get (\<lambda>q. fail_if (hq_max_pending q \<le> unresolved_len q) HandoffCapacity)) (\<lambda>_.
      act_bind (act_get (\<lambda>q. fail_if (lane_capacity (ai_reduce_only i) q \<le> lane_count (ai_reduce_only i) q) HandoffCapacity)) (\<lambda>_.
      add_handoff E i))) q)"

definition mark ::
  "planned_cloid \<Rightarrow> (handoff_state \<Rightarrow> handoff_state) \<Rightarrow> (handoff_queue, unit, observer_ipc_error) action" where
  "mark c f = (\<lambda>q. case bget (hq_by_cloid q) c of
     None \<Rightarrow> (Err HandoffUnknownCloid, q)
   | Some e \<Rightarrow> (Ok (), q\<lparr>hq_by_cloid := binsert c (e\<lparr>ph_state := f (ph_state e)\<rparr>) (hq_by_cloid q)\<rparr>))"

definition mark_disconnect :: "planned_cloid \<Rightarrow> (handoff_queue, unit, observer_ipc_error) action" where
  "mark_disconnect c = mark c (\<lambda>st. if st = HandoffSent then HandoffUnknown else st)"

definition mark_accepted :: "planned_cloid \<Rightarrow> (handoff_queue, unit, observer_ipc_error) action" where
  "mark_accepted c = mark c (\<lambda>_. HandoffAccepted)"

definition mark_rejected :: "planned_cloid \<Rightarrow> string \<Rightarrow> (handoff_queue, unit, observer_ipc_error) action" where
  "mark_rejected c reason = mark c (\<lambda>_. HandoffRejected reason)"

definition pending :: "handoff_queue \<Rightarrow> planned_cloid \<Rightarrow> pending_handoff option" where
  "pending q c = bget (hq_by_cloid q) c"

section \<open>The client\<close>

text \<open>
  The dispatcher: the queue, its file, every frame the client has tried to write, and the count of external
  calls.
\<close>

record dispatcher =
  dp_queue :: handoff_queue
  dp_file :: "handoff_queue option"
  dp_written :: "bytes list"
  dp_calls :: nat

type_synonym 'a dispatching = "(dispatcher, 'a, observer_ipc_error) action"

definition dispatch_ask :: "(nat \<Rightarrow> 'a) \<Rightarrow> 'a dispatching" where
  "dispatch_ask f = (\<lambda>s. (Ok (f (dp_calls s)), s\<lparr>dp_calls := dp_calls s + 1\<rparr>))"

definition on_queue :: "(handoff_queue, 'a, observer_ipc_error) action \<Rightarrow> 'a dispatching" where
  "on_queue m = act_zoom dp_queue (\<lambda>q s. s\<lparr>dp_queue := q\<rparr>) m"

text \<open>A save that reports an error may have replaced the file (the directory was not synced).\<close>

definition persist :: "handoff_environment \<Rightarrow> unit dispatching" where
  "persist E = act_bind (dispatch_ask (he_save E)) (\<lambda>r. case r of
     Saved \<Rightarrow> act_modify (\<lambda>s. s\<lparr>dp_file := Some (dp_queue s)\<rparr>)
   | NotSaved e \<Rightarrow> act_try (Err (HandoffIo e))
   | SavedUnsynced e \<Rightarrow> act_bind (act_modify (\<lambda>s. s\<lparr>dp_file := Some (dp_queue s)\<rparr>)) (\<lambda>_. act_try (Err (HandoffIo e))))"

definition log_frame :: "bytes \<Rightarrow> unit dispatching" where
  "log_frame frame = act_modify (\<lambda>s. s\<lparr>dp_written := dp_written s @ [frame]\<rparr>)"

definition send_raw :: "handoff_environment \<Rightarrow> bytes \<Rightarrow> unit dispatching" where
  "send_raw E frame = act_bind (log_frame frame) (\<lambda>_.
     act_bind (dispatch_ask (he_raw_write E)) (\<lambda>r. act_try (map_err HandoffIo r)))"

definition send_framed :: "handoff_environment \<Rightarrow> nat \<Rightarrow> observer_request \<Rightarrow> unit dispatching" where
  "send_framed E sequence request = (let framed = (\<lambda>a. map_err HandoffCodec
       (write_framed (he_encode_request E) (he_hash E) (he_policy E) OBSERVER_MESSAGE_TYPE sequence request a [])) in
     act_bind (act_try (framed Written)) (\<lambda>frame.
     act_bind (log_frame frame) (\<lambda>_.
     act_bind (dispatch_ask (he_framed_write E)) (\<lambda>a.
     act_bind (act_try (framed a)) (\<lambda>_. act_return ())))))"

definition await_reply :: "handoff_environment \<Rightarrow> signer_response dispatching" where
  "await_reply E = act_bind (dispatch_ask (he_reply E)) (\<lambda>r. act_try (map_err HandoffCodec r))"

text \<open>
  The handoff of one intent: the request, the reply, and the exact frame again when the signer does not know
  it. The entry that is marked as sent is there: it was read just before.
\<close>

definition request_handoff :: "handoff_environment \<Rightarrow> planned_cloid \<Rightarrow> pending_handoff \<Rightarrow> unit dispatching" where
  "request_handoff E c p = (case ph_state p of
     HandoffUnknown \<Rightarrow> send_framed E (ph_sequence p) (Reconcile c)
   | HandoffPersisted \<Rightarrow> act_bind (send_raw E (ph_frame p)) (\<lambda>_.
       act_bind (on_queue (mark c (\<lambda>_. HandoffSent))) (\<lambda>_. persist E))
   | HandoffSent \<Rightarrow> act_bind (send_raw E (ph_frame p)) (\<lambda>_.
       act_bind (on_queue (mark c (\<lambda>_. HandoffSent))) (\<lambda>_. persist E))
   | _ \<Rightarrow> act_try (Err HandoffInvalidState))"

definition replay_absent ::
  "handoff_environment \<Rightarrow> planned_cloid \<Rightarrow> pending_handoff \<Rightarrow> signer_response \<Rightarrow> signer_response dispatching" where
  "replay_absent E c p reply = (if reply = NotFoundResponse c \<and> ph_state p = HandoffUnknown
     then act_bind (send_raw E (ph_frame p)) (\<lambda>_. await_reply E) else act_return reply)"

fun settle_reply ::
  "handoff_environment \<Rightarrow> planned_cloid \<Rightarrow> pending_handoff \<Rightarrow> signer_response \<Rightarrow> unit dispatching" where
  "settle_reply E c p (Accepted i _ _) =
    (if ii_cloid i = c \<and> ii_target_version i = ai_target_version (ph_intent p)
        \<and> ii_canonical_hash i = ai_canonical_hash (ph_intent p)
     then on_queue (mark_accepted c) else act_try (Err HandoffUnexpected))"
| "settle_reply E c p (RejectedResponse c' reason) =
    (if c' = c then on_queue (mark_rejected c (he_show_rejection E reason)) else act_try (Err HandoffUnexpected))"
| "settle_reply E c p _ = act_try (Err HandoffUnexpected)"

definition handoff :: "handoff_environment \<Rightarrow> planned_cloid \<Rightarrow> signer_response dispatching" where
  "handoff E c =
    act_bind (act_get (\<lambda>s. ok_or HandoffUnknownCloid (pending (dp_queue s) c))) (\<lambda>p.
    act_bind (request_handoff E c p) (\<lambda>_.
    act_bind (await_reply E) (\<lambda>first.
    act_bind (replay_absent E c p first) (\<lambda>reply.
    act_bind (settle_reply E c p reply) (\<lambda>_.
    act_bind (persist E) (\<lambda>_.
    act_return reply))))))"

text \<open>The other requests of the client, and the check of the signer's handshake.\<close>

definition client_status :: "handoff_environment \<Rightarrow> nat \<Rightarrow> (bool \<times> bool) dispatching" where
  "client_status E sequence = act_bind (send_framed E sequence Status) (\<lambda>_.
     act_bind (await_reply E) (\<lambda>r. case r of
       StatusResponse ready reconciled _ \<Rightarrow> act_return (ready, reconciled) | _ \<Rightarrow> act_try (Err HandoffUnexpected)))"

definition replay_events :: "handoff_environment \<Rightarrow> nat \<Rightarrow> reconciliation_event list dispatching" where
  "replay_events E highest = act_bind (send_framed E highest (ReplayFrom highest)) (\<lambda>_.
     act_bind (await_reply E) (\<lambda>r. case r of EventsResponse es \<Rightarrow> act_return es | _ \<Rightarrow> act_try (Err HandoffUnexpected)))"

definition acknowledge_events :: "handoff_environment \<Rightarrow> nat \<Rightarrow> unit dispatching" where
  "acknowledge_events E highest = act_bind (send_framed E highest (AcknowledgeEvents highest)) (\<lambda>_.
     act_bind (await_reply E) (\<lambda>r. case r of
       EventsAcknowledged n \<Rightarrow> act_try (fail_if (n \<noteq> highest) HandoffUnexpected) | _ \<Rightarrow> act_try (Err HandoffUnexpected)))"

definition accepts_signer :: "ipc_policy \<Rightarrow> bytes \<Rightarrow> production_handshake \<Rightarrow> signer_response \<Rightarrow> bool" where
  "accepts_signer policy expected local response = (case response of
     HandshakeResponse peer \<Rightarrow> hs_role peer = Signer \<and> hs_protocol_version peer = protocol_version policy
       \<and> hs_state_schema_version peer = IPC_STATE_SCHEMA_VERSION \<and> hs_binary_hash peer = expected
       \<and> hs_source_tree peer = hs_source_tree local \<and> hs_policy_hash peer = hs_policy_hash local
       \<and> hs_peer_nonce peer = Some (hs_nonce local)
   | _ \<Rightarrow> False)"

definition greet_signer :: "handoff_environment \<Rightarrow> bytes \<Rightarrow> production_handshake \<Rightarrow> unit dispatching" where
  "greet_signer E expected local = act_bind (send_framed E 0 (HandshakeRequest local)) (\<lambda>_.
     act_bind (await_reply E) (\<lambda>r. act_try (fail_if (\<not> accepts_signer (he_policy E) expected local r) HandoffHandshakeMismatch)))"

section \<open>The dispatcher\<close>

datatype dispatch_state = DispatchAccepted nat | DispatchRetained | DispatchCapacityUnavailable | DispatchRejected string

definition persist_intent :: "handoff_environment \<Rightarrow> authorized_intent \<Rightarrow> planned_cloid dispatching" where
  "persist_intent E i =
    act_bind (act_try (map_err (\<lambda>_. HandoffConflict) (validate_canonical (he_encode_intent E) (he_hash E) i))) (\<lambda>_.
    act_bind (on_queue (enqueue E i)) (\<lambda>_.
    act_bind (persist E) (\<lambda>_.
    act_return (ai_planned_cloid i))))"

fun dispatchable :: "handoff_state \<Rightarrow> bool" where
  "dispatchable HandoffPersisted = True"
| "dispatchable HandoffSent = True"
| "dispatchable HandoffUnknown = True"
| "dispatchable _ = False"

text \<open>Risk reductions first, then by number.\<close>

definition next_dispatchable :: "handoff_queue \<Rightarrow> planned_cloid option" where
  "next_dispatchable q = map_option fst (min_by (\<lambda>l r.
     then_with (cmp (\<not> ai_reduce_only (ph_intent (snd l))) (\<not> ai_reduce_only (ph_intent (snd r))))
       (cmp (ph_sequence (snd l)) (ph_sequence (snd r))))
     (filter (\<lambda>e. dispatchable (ph_state (snd e))) (entries (hq_by_cloid q))))"

text \<open>Whatever went wrong, the handoff stays for another attempt; the results of marking and saving are ignored.\<close>

definition dispatch_persisted :: "handoff_environment \<Rightarrow> planned_cloid \<Rightarrow> dispatch_state dispatching" where
  "dispatch_persisted E c = (\<lambda>s. case handoff E c s of
     (Ok (Accepted _ n _), s) \<Rightarrow> (Ok (DispatchAccepted n), s)
   | (Ok (RejectedResponse _ reason), s) \<Rightarrow> (Ok (DispatchRejected (he_show_rejection E reason)), s)
   | (Ok _, s) \<Rightarrow> (Err HandoffUnexpected, s)
   | (Err _, s) \<Rightarrow> (Ok DispatchRetained, snd (persist E (snd (on_queue (mark_disconnect c) s))))
   | (Panic, s) \<Rightarrow> (Panic, s))"

definition persist_and_dispatch :: "handoff_environment \<Rightarrow> authorized_intent \<Rightarrow> dispatch_state dispatching" where
  "persist_and_dispatch E i = act_bind (persist_intent E i) (dispatch_persisted E)"

definition persist_and_queue :: "handoff_environment \<Rightarrow> authorized_intent \<Rightarrow> dispatch_state dispatching" where
  "persist_and_queue E i = (\<lambda>s. case persist_intent E i s of
     (Ok _, s) \<Rightarrow> (Ok DispatchRetained, s)
   | (Err e, s) \<Rightarrow> (if e = HandoffCapacity \<and> \<not> ai_reduce_only i then Ok DispatchCapacityUnavailable else Err e, s)
   | (Panic, s) \<Rightarrow> (Panic, s))"

text \<open>
  The worker dispatches as long as something is dispatchable, and sleeps only then. These are the first \<open>n\<close>
  rounds of its inner loop, which need not end.
\<close>

fun worker_rounds :: "handoff_environment \<Rightarrow> nat \<Rightarrow> dispatcher \<Rightarrow> dispatcher" where
  "worker_rounds E 0 s = s"
| "worker_rounds E (Suc n) s = (case next_dispatchable (dp_queue s) of
     None \<Rightarrow> s
   | Some c \<Rightarrow> worker_rounds E n (snd (dispatch_persisted E c s)))"

section \<open>Reconciliation\<close>

record observer_process =
  os_dispatcher :: dispatcher
  os_state :: production_trading_state
  os_state_file :: "production_trading_state option"

type_synonym 'a observing = "(observer_process, 'a, observer_ipc_error) action"

definition on_dispatcher :: "'a dispatching \<Rightarrow> 'a observing" where
  "on_dispatcher m = act_zoom os_dispatcher (\<lambda>d s. s\<lparr>os_dispatcher := d\<rparr>) m"

definition save_state :: "handoff_environment \<Rightarrow> unit observing" where
  "save_state E = act_bind (on_dispatcher (dispatch_ask (he_save E))) (\<lambda>r. case r of
     Saved \<Rightarrow> act_modify (\<lambda>s. s\<lparr>os_state_file := Some (os_state s)\<rparr>)
   | NotSaved e \<Rightarrow> act_try (Err (HandoffIo (he_show_apply E (ApplyPersistence e))))
   | SavedUnsynced e \<Rightarrow> act_bind (act_modify (\<lambda>s. s\<lparr>os_state_file := Some (os_state s)\<rparr>)) (\<lambda>_.
       act_try (Err (HandoffIo (he_show_apply E (ApplyPersistence e))))))"

definition apply_event ::
  "observer_platform \<Rightarrow> handoff_environment \<Rightarrow> reconciliation_event \<Rightarrow> unit observing" where
  "apply_event P E e = (\<lambda>s. case apply_reconciliation_event P e (os_state s) of
     (r, t) \<Rightarrow> (map_err (\<lambda>x. HandoffIo (he_show_apply E x)) (and_then r (\<lambda>_. Ok ())), s\<lparr>os_state := t\<rparr>))"

text \<open>An order that was authorized and never submitted is handed over again.\<close>

definition rearm :: "handoff_environment \<Rightarrow> reconciliation_payload \<Rightarrow> unit observing" where
  "rearm E payload = (case payload of
     NotSubmittedEvent c \<Rightarrow> on_dispatcher (act_bind (on_queue (mark c (\<lambda>_. HandoffPersisted))) (\<lambda>_. persist E))
   | _ \<Rightarrow> act_return ())"

definition reconcile_event ::
  "observer_platform \<Rightarrow> handoff_environment \<Rightarrow> reconciliation_event \<Rightarrow> unit observing" where
  "reconcile_event P E e = act_bind (apply_event P E e) (\<lambda>_. act_bind (save_state E) (\<lambda>_. rearm E (re_payload e)))"

definition reconcile_into :: "observer_platform \<Rightarrow> handoff_environment \<Rightarrow> nat observing" where
  "reconcile_into P E =
    act_bind (act_get (\<lambda>s. Ok (ot_highest (os_state s)))) (\<lambda>known.
    act_bind (on_dispatcher (replay_events E known)) (\<lambda>events.
    act_bind (act_each (reconcile_event P E) events) (\<lambda>_.
    act_bind (act_get (\<lambda>s. Ok (ot_highest (os_state s)))) (\<lambda>highest.
    act_bind (on_dispatcher (acknowledge_events E highest)) (\<lambda>_.
    act_return highest)))))"


section \<open>What every operation keeps\<close>

text \<open>
  A handoff is the intent, its number and the exact frame of its submission. Only its state ever changes, and
  no two have the same number.
\<close>

definition handoff_ok :: "handoff_environment \<Rightarrow> nat \<Rightarrow> planned_cloid \<Rightarrow> pending_handoff \<Rightarrow> bool" where
  "handoff_ok E n c p = (ai_planned_cloid (ph_intent p) = c
     \<and> validate_canonical (he_encode_intent E) (he_hash E) (ph_intent p) = Ok () \<and> ph_sequence p < n
     \<and> encode_frame (he_encode_request E) (he_hash E) OBSERVER_MESSAGE_TYPE (ph_sequence p) (Submit (ph_intent p))
         HANDOFF_FRAME_BYTES = Ok (ph_frame p)
     \<and> canonical_payload_hash (he_encode_request E) (he_hash E) (Submit (ph_intent p)) = Ok (ph_frame_hash p))"

definition queue_ok :: "handoff_environment \<Rightarrow> handoff_queue \<Rightarrow> bool" where
  "queue_ok E q = ((\<forall>c p. bget (hq_by_cloid q) c = Some p \<longrightarrow> handoff_ok E (hq_next_sequence q) c p)
     \<and> (\<forall>c p c' p'. bget (hq_by_cloid q) c = Some p \<longrightarrow> bget (hq_by_cloid q) c' = Some p'
          \<longrightarrow> ph_sequence p = ph_sequence p' \<longrightarrow> c = c') \<and> 0 < hq_next_sequence q)"

text \<open>The limits stay, and every handoff up to its state.\<close>

definition same_limits :: "handoff_queue \<Rightarrow> handoff_queue \<Rightarrow> bool" where
  "same_limits q t = (hq_schema_version t = hq_schema_version q \<and> hq_max_pending t = hq_max_pending q
     \<and> hq_max_reducing t = hq_max_reducing q \<and> hq_max_increasing t = hq_max_increasing q)"

definition extends :: "handoff_queue \<Rightarrow> handoff_queue \<Rightarrow> bool" where
  "extends q t = (same_limits q t \<and> (\<forall>c p. bget (hq_by_cloid q) c = Some p
     \<longrightarrow> (\<exists>st. bget (hq_by_cloid t) c = Some (p\<lparr>ph_state := st\<rparr>))))"

lemma extends_refl [simp]: "extends q q"
proof -
  have "\<exists>st. p = p\<lparr>ph_state := st\<rparr>" for p :: pending_handoff by (rule exI [of _ "ph_state p"]) simp
  then show ?thesis by (simp add: extends_def same_limits_def)
qed

lemma extends_trans: "extends q t \<Longrightarrow> extends t u \<Longrightarrow> extends q u"
  unfolding extends_def same_limits_def by (metis pending_handoff.update_convs(2) pending_handoff.surjective)

lemma mark_cases:
  obtains (absent) "bget (hq_by_cloid q) c = None" "mark c f q = (Err HandoffUnknownCloid, q)"
    | (marked) e where "bget (hq_by_cloid q) c = Some e"
        "mark c f q = (Ok (), q\<lparr>hq_by_cloid := binsert c (e\<lparr>ph_state := f (ph_state e)\<rparr>) (hq_by_cloid q)\<rparr>)"
  by (cases "bget (hq_by_cloid q) c") (auto simp: mark_def)

lemma mark_ok:
  assumes "queue_ok E q"
  shows "queue_ok E (snd (mark c f q)) \<and> extends q (snd (mark c f q))"
proof (cases rule: mark_cases [of q c f])
  case (marked e)
  let ?q = "q\<lparr>hq_by_cloid := binsert c (e\<lparr>ph_state := f (ph_state e)\<rparr>) (hq_by_cloid q)\<rparr>"
  have "queue_ok E ?q"
    using assms marked(1) by (auto simp: queue_ok_def handoff_ok_def split: if_splits)
  moreover have "extends q ?q"
  proof -
    have "\<exists>st. p = p\<lparr>ph_state := st\<rparr>" for p :: pending_handoff by (rule exI [of _ "ph_state p"]) simp
    with marked(1) show ?thesis by (auto simp: extends_def same_limits_def)
  qed
  ultimately show ?thesis using marked(2) by simp
qed (use assms in simp)

lemma add_handoff_cases:
  obtains (full) r where "add_handoff E i q = (r, q)" "\<not> is_ok r"
    | (burnt) r where "add_handoff E i q = (r, q\<lparr>hq_next_sequence := hq_next_sequence q + 1\<rparr>)" "\<not> is_ok r"
    | (added) f h where "encode_frame (he_encode_request E) (he_hash E) OBSERVER_MESSAGE_TYPE (hq_next_sequence q) (Submit i)
            HANDOFF_FRAME_BYTES = Ok f"
        "canonical_payload_hash (he_encode_request E) (he_hash E) (Submit i) = Ok h"
        "add_handoff E i q = (Ok (hq_next_sequence q), q\<lparr>hq_next_sequence := hq_next_sequence q + 1,
            hq_by_cloid := binsert (ai_planned_cloid i) \<lparr>ph_intent = i, ph_state = HandoffPersisted,
              ph_sequence = hq_next_sequence q, ph_frame = f, ph_frame_hash = h\<rparr> (hq_by_cloid q)\<rparr>)"
proof (cases "checked_add_nat 64 (hq_next_sequence q) 1")
  case None
  then show thesis by (intro full [of "Err HandoffOverflow"]) (simp_all add: add_handoff_def act_bind_def act_assign_def)
next
  case (Some n)
  then have n: "n = hq_next_sequence q + 1" by (simp add: checked_add_nat_Some)
  let ?f = "encode_frame (he_encode_request E) (he_hash E) OBSERVER_MESSAGE_TYPE (hq_next_sequence q) (Submit i) HANDOFF_FRAME_BYTES"
  let ?h = "canonical_payload_hash (he_encode_request E) (he_hash E) (Submit i)"
  show thesis
  proof (cases "is_ok ?f \<and> is_ok ?h")
    case True
    then obtain f h where "?f = Ok f" "?h = Ok h" by (cases ?f; cases ?h) simp_all
    then show thesis using Some n by (intro added) (simp_all add: add_handoff_def act_bind_def act_assign_def)
  next
    case False
    then show thesis using Some n
      by (intro burnt [of "fst (add_handoff E i q)"]; cases ?f; cases ?h) (simp_all add: add_handoff_def act_bind_def act_assign_def)
  qed
qed

lemma enqueue_cases:
  obtains (same) r where "enqueue E i q = (r, q)"
    | (add) "enqueue E i q = add_handoff E i q" "bget (hq_by_cloid q) (ai_planned_cloid i) = None"
        "validate_canonical (he_encode_intent E) (he_hash E) i = Ok ()"
proof (cases "bget (hq_by_cloid q) (ai_planned_cloid i)")
  case None
  show thesis
  proof (cases "validate_canonical (he_encode_intent E) (he_hash E) i = Ok () \<and> unresolved_len q < hq_max_pending q
      \<and> lane_count (ai_reduce_only i) q < lane_capacity (ai_reduce_only i) q")
    case True
    with None show thesis by (intro add) (simp_all add: enqueue_def act_bind_def fail_if_def)
  next
    case False
    with None show thesis
      by (intro same [of "fst (enqueue E i q)"]; cases "validate_canonical (he_encode_intent E) (he_hash E) i")
        (auto simp: enqueue_def act_bind_def fail_if_def)
  qed
next
  case (Some e)
  then show thesis by (intro same [of "fst (enqueue E i q)"]) (simp add: enqueue_def)
qed

lemma enqueue_queue_ok:
  assumes "queue_ok E q"
  shows "queue_ok E (snd (enqueue E i q)) \<and> extends q (snd (enqueue E i q))"
proof (cases rule: enqueue_cases [of E i q])
  case add
  have s: "\<exists>st. p = p\<lparr>ph_state := st\<rparr>" for p :: pending_handoff by (rule exI [of _ "ph_state p"]) simp
  show ?thesis
  proof (cases rule: add_handoff_cases [of E i q])
    case (burnt r)
    with add assms s show ?thesis by (auto simp: queue_ok_def handoff_ok_def extends_def same_limits_def less_Suc_eq)
  next
    case (added f h)
    have "ph_sequence p < hq_next_sequence q" if "bget (hq_by_cloid q) c = Some p" for c p
      using assms that by (auto simp: queue_ok_def handoff_ok_def)
    then have "ph_sequence p \<noteq> hq_next_sequence q" "hq_next_sequence q \<noteq> ph_sequence p" if "bget (hq_by_cloid q) c = Some p" for c p
      using that by fastforce+
    with added add assms s show ?thesis
      by (auto simp: queue_ok_def handoff_ok_def extends_def same_limits_def less_Suc_eq split: if_splits)
  qed (use add assms in simp)
qed (use assms in simp)


text \<open>
  The dispatcher: its queue is a later form of \<open>q0\<close>, its file is an earlier form of its queue, and every frame
  it has written is the frame of a handoff, or carries another request than a submission.
\<close>

definition other_request :: "handoff_environment \<Rightarrow> bytes \<Rightarrow> bool" where
  "other_request E frame = (\<exists>n request. (\<forall>i. request \<noteq> Submit i)
     \<and> write_framed (he_encode_request E) (he_hash E) (he_policy E) OBSERVER_MESSAGE_TYPE n request Written [] = Ok frame)"

definition queued_frame :: "handoff_queue \<Rightarrow> bytes \<Rightarrow> bool" where
  "queued_frame q frame = (\<exists>c p. bget (hq_by_cloid q) c = Some p \<and> frame = ph_frame p)"

definition dispatcher_ok :: "handoff_environment \<Rightarrow> handoff_queue \<Rightarrow> dispatcher \<Rightarrow> bool" where
  "dispatcher_ok E q0 s = (queue_ok E (dp_queue s) \<and> extends q0 (dp_queue s)
     \<and> (\<forall>q. dp_file s = Some q \<longrightarrow> queue_ok E q \<and> extends q (dp_queue s))
     \<and> (\<forall>frame \<in> set (dp_written s). queued_frame (dp_queue s) frame \<or> other_request E frame))"

lemma queued_frame_extends: "extends q t \<Longrightarrow> queued_frame q frame \<Longrightarrow> queued_frame t frame"
  unfolding extends_def queued_frame_def by fastforce

lemma dispatcher_ok_queue:
  assumes "dispatcher_ok E q0 s" "queue_ok E q" "extends (dp_queue s) q"
  shows "dispatcher_ok E q0 (s\<lparr>dp_queue := q\<rparr>)"
  using assms extends_trans queued_frame_extends unfolding dispatcher_ok_def by (simp, blast)

lemma keeps_on_queue:
  assumes "\<And>q. queue_ok E q \<Longrightarrow> queue_ok E (snd (m q)) \<and> extends q (snd (m q))"
  shows "act_keeps (dispatcher_ok E q0) (on_queue m)"
  unfolding act_keeps_def
proof (intro allI impI)
  fix s assume s: "dispatcher_ok E q0 s"
  then have "queue_ok E (dp_queue s)" by (simp add: dispatcher_ok_def)
  from dispatcher_ok_queue [OF s] assms [OF this] show "dispatcher_ok E q0 (snd (on_queue m s))"
    by (simp add: on_queue_def act_zoom_def split: prod.split) (metis snd_conv)
qed

lemma keeps_dispatch_ask: "act_keeps (dispatcher_ok E q0) (dispatch_ask f)"
  by (simp add: act_keeps_def dispatch_ask_def dispatcher_ok_def)

lemma keeps_file: "act_keeps (dispatcher_ok E q0) (act_modify (\<lambda>s. s\<lparr>dp_file := Some (dp_queue s)\<rparr>))"
  by (simp add: act_keeps_def dispatcher_ok_def)

lemma keeps_queue_persist: "act_keeps (dispatcher_ok E q0) (persist E)"
proof -
  have "act_keeps (dispatcher_ok E q0) (case r of Saved \<Rightarrow> act_modify (\<lambda>s. s\<lparr>dp_file := Some (dp_queue s)\<rparr>)
      | NotSaved e \<Rightarrow> act_try (Err (HandoffIo e))
      | SavedUnsynced e \<Rightarrow> act_bind (act_modify (\<lambda>s. s\<lparr>dp_file := Some (dp_queue s)\<rparr>)) (\<lambda>_. act_try (Err (HandoffIo e))))" for r
    by (cases r) (auto intro!: keeps_intro keeps_file)
  then show ?thesis unfolding persist_def by (intro keeps_intro keeps_dispatch_ask)
qed

lemma keeps_log:
  assumes "queued_frame q0 frame \<or> other_request E frame"
  shows "act_keeps (dispatcher_ok E q0) (log_frame frame)"
  using assms queued_frame_extends by (auto simp: act_keeps_def log_frame_def dispatcher_ok_def)

lemma keeps_send_raw: "bget (hq_by_cloid q0) c = Some p \<Longrightarrow> act_keeps (dispatcher_ok E q0) (send_raw E (ph_frame p))"
  unfolding send_raw_def by (intro keeps_intro keeps_log keeps_dispatch_ask) (auto simp: queued_frame_def)

lemma act_try_bind_keeps:
  assumes "\<And>x. r = Ok x \<Longrightarrow> act_keeps J (f x)"
  shows "act_keeps J (act_bind (act_try r) f)"
  using assms by (cases r) (simp_all add: act_keeps_def act_bind_def)

lemma keeps_send_framed:
  assumes "\<And>i. request \<noteq> Submit i"
  shows "act_keeps (dispatcher_ok E q0) (send_framed E n request)"
  unfolding send_framed_def Let_def
proof (rule act_try_bind_keeps)
  fix frame
  assume "map_err HandoffCodec (write_framed (he_encode_request E) (he_hash E) (he_policy E) OBSERVER_MESSAGE_TYPE n request Written [])
    = Ok frame"
  then have "other_request E frame" using assms by (auto simp: other_request_def map_err_Ok)
  then show "act_keeps (dispatcher_ok E q0) (act_bind (log_frame frame) (\<lambda>_. act_bind (dispatch_ask (he_framed_write E))
      (\<lambda>a. act_bind (act_try (map_err HandoffCodec (write_framed (he_encode_request E) (he_hash E) (he_policy E)
        OBSERVER_MESSAGE_TYPE n request a []))) (\<lambda>_. act_return ()))))"
    by (intro keeps_intro keeps_log keeps_dispatch_ask) simp
qed

lemma keeps_await: "act_keeps (dispatcher_ok E q0) (await_reply E)"
  unfolding await_reply_def by (intro keeps_intro keeps_dispatch_ask)

lemma keeps_mark: "act_keeps (dispatcher_ok E q0) (on_queue (mark c f))"
  by (intro keeps_on_queue mark_ok)

lemma keeps_request_handoff: "bget (hq_by_cloid q0) c = Some p \<Longrightarrow> act_keeps (dispatcher_ok E q0) (request_handoff E c p)"
  unfolding request_handoff_def
  by (cases "ph_state p") (auto intro!: keeps_intro keeps_send_raw keeps_send_framed keeps_mark keeps_queue_persist)

lemma keeps_replay: "bget (hq_by_cloid q0) c = Some p \<Longrightarrow> act_keeps (dispatcher_ok E q0) (replay_absent E c p r)"
  unfolding replay_absent_def by (auto intro!: keeps_intro keeps_send_raw keeps_await)

lemma keeps_settle_reply: "act_keeps (dispatcher_ok E q0) (settle_reply E c p r)"
  by (cases r) (auto simp: mark_accepted_def mark_rejected_def intro!: keeps_intro keeps_mark)

lemma dispatcher_ok_trans: "dispatcher_ok E (dp_queue s) t \<Longrightarrow> extends q0 (dp_queue s) \<Longrightarrow> dispatcher_ok E q0 t"
  unfolding dispatcher_ok_def using extends_trans by blast

lemma dispatcher_ok_self: "dispatcher_ok E q0 s \<Longrightarrow> dispatcher_ok E (dp_queue s) s"
  by (simp add: dispatcher_ok_def)

lemma keeps_handoff: "act_keeps (dispatcher_ok E q0) (handoff E c)"
  unfolding act_keeps_def
proof (intro allI impI)
  fix s assume s: "dispatcher_ok E q0 s"
  show "dispatcher_ok E q0 (snd (handoff E c s))"
  proof (cases "bget (hq_by_cloid (dp_queue s)) c")
    case None
    with s show ?thesis by (simp add: handoff_def act_bind_def pending_def)
  next
    case (Some p)
    let ?m = "act_bind (request_handoff E c p) (\<lambda>_. act_bind (await_reply E) (\<lambda>first.
      act_bind (replay_absent E c p first) (\<lambda>reply. act_bind (settle_reply E c p reply) (\<lambda>_.
      act_bind (persist E) (\<lambda>_. act_return reply)))))"
    have "act_keeps (dispatcher_ok E (dp_queue s)) ?m"
      by (intro keeps_intro keeps_request_handoff [OF Some] keeps_await keeps_replay [OF Some] keeps_settle_reply keeps_queue_persist)
    from act_keepsD [OF this dispatcher_ok_self [OF s]] have "dispatcher_ok E q0 (snd (?m s))"
      by (rule dispatcher_ok_trans) (use s in \<open>simp add: dispatcher_ok_def\<close>)
    moreover have "snd (handoff E c s) = snd (?m s)" using Some by (simp add: handoff_def act_bind_def pending_def)
    ultimately show ?thesis by simp
  qed
qed

lemma keeps_dispatch: "act_keeps (dispatcher_ok E q0) (dispatch_persisted E c)"
  unfolding act_keeps_def
proof (intro allI impI)
  fix s assume "dispatcher_ok E q0 s"
  then have h: "dispatcher_ok E q0 (snd (handoff E c s))" by (rule act_keepsD [OF keeps_handoff])
  let ?t = "snd (persist E (snd (on_queue (mark_disconnect c) (snd (handoff E c s)))))"
  have d: "dispatcher_ok E q0 ?t" unfolding mark_disconnect_def
    by (intro act_keepsD [OF keeps_queue_persist] act_keepsD [OF keeps_mark] h)
  have "snd (dispatch_persisted E c s) = snd (handoff E c s) \<or> snd (dispatch_persisted E c s) = ?t"
    by (cases "handoff E c s"; cases "fst (handoff E c s)")
      (auto simp: dispatch_persisted_def split: signer_response.split)
  with h d show "dispatcher_ok E q0 (snd (dispatch_persisted E c s))" by auto
qed

lemma keeps_persist_intent: "act_keeps (dispatcher_ok E q0) (persist_intent E i)"
  unfolding persist_intent_def by (intro keeps_intro keeps_on_queue enqueue_queue_ok keeps_queue_persist)

text \<open>The operations of the dispatcher, as the worker and its callers use them.\<close>

datatype dispatch_op =
    QueueIntent authorized_intent | DispatchIntent authorized_intent | WorkerRound | NotSubmittedReported planned_cloid
  | AskStatus nat | AskEvents nat | AcknowledgeUpTo nat

fun dispatch_exec :: "handoff_environment \<Rightarrow> dispatch_op \<Rightarrow> dispatcher \<Rightarrow> dispatcher" where
  "dispatch_exec E (QueueIntent i) s = snd (persist_and_queue E i s)"
| "dispatch_exec E (DispatchIntent i) s = snd (persist_and_dispatch E i s)"
| "dispatch_exec E WorkerRound s = worker_rounds E 1 s"
| "dispatch_exec E (NotSubmittedReported c) s = snd (act_bind (on_queue (mark c (\<lambda>_. HandoffPersisted))) (\<lambda>_. persist E) s)"
| "dispatch_exec E (AskStatus n) s = snd (client_status E n s)"
| "dispatch_exec E (AskEvents n) s = snd (replay_events E n s)"
| "dispatch_exec E (AcknowledgeUpTo n) s = snd (acknowledge_events E n s)"

lemma dispatch_exec_ok:
  assumes "dispatcher_ok E q0 s"
  shows "dispatcher_ok E q0 (dispatch_exec E op s)"
proof (cases op)
  case (QueueIntent i)
  have "dispatcher_ok E q0 (snd (persist_intent E i s))" by (rule act_keepsD [OF keeps_persist_intent assms])
  moreover have "snd (persist_and_queue E i s) = snd (persist_intent E i s)"
    by (simp add: persist_and_queue_def split: prod.split outcome.split)
  ultimately show ?thesis by (simp add: QueueIntent)
next
  case (DispatchIntent i)
  have "act_keeps (dispatcher_ok E q0) (persist_and_dispatch E i)"
    unfolding persist_and_dispatch_def by (intro keeps_intro keeps_persist_intent keeps_dispatch)
  from act_keepsD [OF this assms] show ?thesis by (simp add: DispatchIntent)
next
  case WorkerRound
  with act_keepsD [OF keeps_dispatch assms] assms show ?thesis by (auto split: option.split)
next
  case (NotSubmittedReported c)
  have "act_keeps (dispatcher_ok E q0) (act_bind (on_queue (mark c (\<lambda>_. HandoffPersisted))) (\<lambda>_. persist E))"
    by (intro keeps_intro keeps_mark keeps_queue_persist)
  from act_keepsD [OF this assms] show ?thesis by (simp add: NotSubmittedReported)
next
  case (AskStatus n)
  have k: "act_keeps (dispatcher_ok E q0) (case r of StatusResponse a b c \<Rightarrow> act_return (a, b) | _ \<Rightarrow> act_try (Err HandoffUnexpected))" for r
    by (cases r) (auto intro: keeps_intro)
  have "act_keeps (dispatcher_ok E q0) (client_status E n)"
    unfolding client_status_def by (intro keeps_intro keeps_send_framed keeps_await k) simp
  from act_keepsD [OF this assms] show ?thesis by (simp add: AskStatus)
next
  case (AskEvents n)
  have k: "act_keeps (dispatcher_ok E q0) (case r of EventsResponse es \<Rightarrow> act_return es | _ \<Rightarrow> act_try (Err HandoffUnexpected))" for r
    by (cases r) (auto intro: keeps_intro)
  have "act_keeps (dispatcher_ok E q0) (replay_events E n)"
    unfolding replay_events_def by (intro keeps_intro keeps_send_framed keeps_await k) simp
  from act_keepsD [OF this assms] show ?thesis by (simp add: AskEvents)
next
  case (AcknowledgeUpTo n)
  have k: "act_keeps (dispatcher_ok E q0) (case r of EventsAcknowledged k \<Rightarrow> act_try (fail_if (k \<noteq> n) HandoffUnexpected)
      | _ \<Rightarrow> act_try (Err HandoffUnexpected))" for r
    by (cases r) (auto intro: keeps_intro)
  have "act_keeps (dispatcher_ok E q0) (acknowledge_events E n)"
    unfolding acknowledge_events_def by (intro keeps_intro keeps_send_framed keeps_await k) simp
  from act_keepsD [OF this assms] show ?thesis by (simp add: AcknowledgeUpTo)
qed

interpretation dispatching: machine "dispatch_exec E" "dispatcher_ok E q0" for E q0
  by unfold_locales (rule dispatch_exec_ok)


definition new_dispatcher :: "handoff_queue \<Rightarrow> dispatcher" where
  "new_dispatcher q = \<lparr>dp_queue = q, dp_file = None, dp_written = [], dp_calls = 0\<rparr>"

lemma new_queue_ok: "new_queue n = Ok q \<Longrightarrow> queue_ok E q \<and> hq_max_pending q = n \<and> hq_schema_version q = HANDOFF_SCHEMA_VERSION"
  by (auto simp: new_queue_def fail_if_def queue_ok_def split: if_splits)

lemma queue_with_lanes_ok:
  "queue_with_lanes a b = Ok q \<Longrightarrow> queue_ok E q \<and> hq_max_pending q = a + b \<and> hq_schema_version q = HANDOFF_SCHEMA_VERSION"
  by (auto simp: queue_with_lanes_def fail_if_def queue_ok_def outcome_simps checked_add_nat_Some split: if_splits)

lemma new_dispatcher_ok: "queue_ok E q \<Longrightarrow> dispatcher_ok E q (new_dispatcher q)"
  by (simp add: dispatcher_ok_def new_dispatcher_def)

text \<open>
  C8. A handoff keeps its identity. Whatever the dispatcher is asked and whatever the signer, the socket and
  the disk answer, every queued handoff stays queued with its intent, its number and its exact frame, which
  encodes the canonical intent under that number; only its state changes. Every frame written to the signer
  is the frame of a queued handoff or carries no submission, so no other submission is ever sent.
\<close>

theorem handoffs_keep_identity:
  assumes "new_queue n = Ok q \<or> queue_with_lanes a b = Ok q"
    and "s = fold (dispatch_exec E) ops (new_dispatcher q)" and "t = fold (dispatch_exec E) ops' s"
  shows "(\<forall>c p. pending (dp_queue s) c = Some p \<longrightarrow> handoff_ok E (hq_next_sequence (dp_queue s)) c p
      \<and> (\<exists>st. pending (dp_queue t) c = Some (p\<lparr>ph_state := st\<rparr>)))
    \<and> (\<forall>frame \<in> set (dp_written t). queued_frame (dp_queue t) frame \<or> other_request E frame)"
proof -
  have "queue_ok E q" using assms(1) new_queue_ok queue_with_lanes_ok by blast
  then have s: "dispatcher_ok E q s" unfolding assms(2) by (intro dispatching.invar_run new_dispatcher_ok)
  then have "dispatcher_ok E (dp_queue s) t"
    unfolding assms(3) by (intro dispatching.invar_run) (rule dispatcher_ok_self)
  with s show ?thesis unfolding dispatcher_ok_def queue_ok_def extends_def pending_def by blast
qed

text \<open>
  The file and a restart. The queue on disk is an earlier form of the one in memory: the same limits, the
  same handoffs with the same frames up to their states. It can be restored exactly as long as no more
  handoffs than the capacity are in it, resolved ones included.
\<close>

theorem queue_file_restores:
  assumes "new_queue n = Ok q0 \<or> (queue_with_lanes a b = Ok q0 \<and> n = a + b)"
    and "s = fold (dispatch_exec E) ops (new_dispatcher q0)" and "dp_file s = Some q"
  shows "restore_queue q n = (if bsize (hq_by_cloid q) \<le> n then Ok q else Err HandoffInvalidState)
    \<and> extends q (dp_queue s)"
proof -
  have q0: "queue_ok E q0 \<and> hq_max_pending q0 = n \<and> hq_schema_version q0 = HANDOFF_SCHEMA_VERSION"
    using assms(1) new_queue_ok queue_with_lanes_ok by blast
  then have "dispatcher_ok E q0 s" unfolding assms(2) by (intro dispatching.invar_run new_dispatcher_ok) simp
  then have "queue_ok E q" "extends q (dp_queue s)" "extends q0 (dp_queue s)"
    using assms(3) by (auto simp: dispatcher_ok_def)
  moreover have "same_limits q0 q" using calculation(2,3) by (auto simp: extends_def same_limits_def)
  ultimately show ?thesis using q0 by (auto simp: restore_queue_def same_limits_def queue_ok_def)
qed

section \<open>The order of dispatch\<close>

lemma min_by_minimal:
  fixes c :: "'a \<Rightarrow> 'a \<Rightarrow> ordering"
  assumes tr: "\<And>x y z. c x y \<noteq> Greater \<Longrightarrow> c y z \<noteq> Greater \<Longrightarrow> c x z \<noteq> Greater"
    and as: "\<And>x y. c x y = Greater \<Longrightarrow> c y x \<noteq> Greater"
  shows "min_by c xs = Some m \<Longrightarrow> x \<in> set xs \<Longrightarrow> c m x \<noteq> Greater"
proof (induction "length xs" arbitrary: xs x)
  case (Suc n)
  have refl: "c y y \<noteq> Greater" for y using as [of y y] by blast
  show ?case
  proof (cases "\<exists>y z zs. xs = y # z # zs")
    case True
    then obtain y z zs where xs: "xs = y # z # zs" by blast
    show ?thesis
    proof (cases "c y z = Greater")
      case True
      then have m: "min_by c (z # zs) = Some m" using Suc.prems(1) xs by simp
      note IH = Suc.hyps(1) [OF _ m]
      have "c m z \<noteq> Greater" by (rule IH) (use Suc.hyps(2) xs in auto)
      then have "c m y \<noteq> Greater" using as [OF True] tr by blast
      moreover have "c m x \<noteq> Greater" if "x \<in> set (z # zs)" by (rule IH) (use Suc.hyps(2) xs that in auto)
      ultimately show ?thesis using Suc.prems(2) xs by auto
    next
      case False
      then have m: "min_by c (y # zs) = Some m" using Suc.prems(1) xs by simp
      note IH = Suc.hyps(1) [OF _ m]
      have "c m y \<noteq> Greater" by (rule IH) (use Suc.hyps(2) xs in auto)
      then have "c m z \<noteq> Greater" using False tr by blast
      moreover have "c m x \<noteq> Greater" if "x \<in> set (y # zs)" by (rule IH) (use Suc.hyps(2) xs that in auto)
      ultimately show ?thesis using Suc.prems(2) xs by auto
    qed
  next
    case False
    with Suc.prems(2) have "xs = [x]" by (cases xs; cases "tl xs") auto
    with Suc.prems refl show ?thesis by simp
  qed
qed simp

definition comes_before :: "pending_handoff \<Rightarrow> pending_handoff \<Rightarrow> bool" where
  "comes_before p p' = (if ai_reduce_only (ph_intent p) = ai_reduce_only (ph_intent p') then ph_sequence p < ph_sequence p'
     else ai_reduce_only (ph_intent p))"

lemma next_dispatchable_iff:
  assumes "queue_ok E q"
  shows "next_dispatchable q = Some c \<longleftrightarrow> (\<exists>p. bget (hq_by_cloid q) c = Some p \<and> dispatchable (ph_state p)
    \<and> (\<forall>c' p'. bget (hq_by_cloid q) c' = Some p' \<longrightarrow> dispatchable (ph_state p') \<longrightarrow> c' \<noteq> c \<longrightarrow> comes_before p p'))"
    (is "?L = ?R")
proof -
  let ?c = "\<lambda>l r :: planned_cloid \<times> pending_handoff.
     then_with (cmp (\<not> ai_reduce_only (ph_intent (snd l))) (\<not> ai_reduce_only (ph_intent (snd r))))
       (cmp (ph_sequence (snd l)) (ph_sequence (snd r)))"
  let ?xs = "filter (\<lambda>e. dispatchable (ph_state (snd e))) (entries (hq_by_cloid q))"
  have X: "(k, p) \<in> set ?xs \<longleftrightarrow> bget (hq_by_cloid q) k = Some p \<and> dispatchable (ph_state p)" for k p
    by (auto simp: bentries_iff)
  have C: "?c l r \<noteq> Greater \<longleftrightarrow> comes_before (snd l) (snd r)
      \<or> (ai_reduce_only (ph_intent (snd l)) = ai_reduce_only (ph_intent (snd r)) \<and> ph_sequence (snd l) = ph_sequence (snd r))" for l r
    by (cases "ai_reduce_only (ph_intent (snd l))"; cases "ai_reduce_only (ph_intent (snd r))"; auto simp: then_with_eq comes_before_def)
  have M: "?c m x \<noteq> Greater" if "min_by ?c ?xs = Some m" "x \<in> set ?xs" for m x
    by (rule min_by_minimal [OF _ _ that]; simp add: then_with_eq; fastforce)
  have min: "?R" if "min_by ?c ?xs = Some (k, p)" "k = c" for k p
  proof -
    have "(k, p) \<in> set ?xs" by (rule min_by_in [OF that(1)])
    moreover have "comes_before p p'" if "bget (hq_by_cloid q) c' = Some p'" "dispatchable (ph_state p')" "c' \<noteq> c" for c' p'
    proof -
      have "?c (k, p) (c', p') \<noteq> Greater" using M [OF \<open>min_by ?c ?xs = Some (k, p)\<close>, of "(c', p')"] that by (simp add: bentries_iff)
      moreover have "ph_sequence p \<noteq> ph_sequence p'"
        using assms that calculation \<open>(k, p) \<in> set ?xs\<close> \<open>k = c\<close> unfolding X queue_ok_def by metis
      ultimately show ?thesis unfolding C by simp
    qed
    ultimately show ?thesis using that(2) by (auto simp: bentries_iff)
  qed
  show ?thesis
  proof
    assume ?L
    then obtain p where "min_by ?c ?xs = Some (c, p)" by (auto simp: next_dispatchable_def)
    then show ?R by (rule min) simp
  next
    assume R: ?R
    then obtain p0 where "(c, p0) \<in> set ?xs" using X by blast
    then have "min_by ?c ?xs \<noteq> None" by (auto simp del: set_filter)
    then obtain m where "min_by ?c ?xs = Some m" by blast
    then obtain k p where k: "min_by ?c ?xs = Some (k, p)" by (cases m) simp
    have "k = c"
    proof (rule ccontr)
      assume "k \<noteq> c"
      have kp: "bget (hq_by_cloid q) k = Some p" "dispatchable (ph_state p)" using min_by_in [OF k] X by auto
      from R obtain p0 where p0: "bget (hq_by_cloid q) c = Some p0" "dispatchable (ph_state p0)" "comes_before p0 p"
        using kp \<open>k \<noteq> c\<close> by blast
      from M [OF k, of "(c, p0)"] p0(1,2) bentries_iff [of c p0] have "?c (k, p) (c, p0) \<noteq> Greater" by simp
      with p0(3) show False unfolding C by (auto simp: comes_before_def split: if_splits)
    qed
    with k show ?L by (simp add: next_dispatchable_def)
  qed
qed

text \<open>
  Risk reductions go first. The handoff the worker takes is one that still has to be delivered; every
  other one that has to be delivered is an exposure increase while it is a risk reduction, or is of the same
  kind and was queued later. The worker sleeps only when nothing has to be delivered.
\<close>

theorem dispatch_order:
  assumes "new_queue n = Ok q0 \<or> queue_with_lanes a b = Ok q0"
    and "q = dp_queue (fold (dispatch_exec E) ops (new_dispatcher q0))"
  shows "case next_dispatchable q of
      None \<Rightarrow> \<forall>c p. pending q c = Some p \<longrightarrow> \<not> dispatchable (ph_state p)
    | Some c \<Rightarrow> \<exists>p. pending q c = Some p \<and> dispatchable (ph_state p)
        \<and> (\<forall>c' p'. pending q c' = Some p' \<longrightarrow> dispatchable (ph_state p') \<longrightarrow> c' \<noteq> c \<longrightarrow> comes_before p p')"
proof -
  have "queue_ok E q0" using assms(1) new_queue_ok queue_with_lanes_ok by blast
  then have "dispatcher_ok E q0 (fold (dispatch_exec E) ops (new_dispatcher q0))"
    by (intro dispatching.invar_run new_dispatcher_ok)
  then have q: "queue_ok E q" unfolding assms(2) by (simp add: dispatcher_ok_def)
  show ?thesis
  proof (cases "next_dispatchable q")
    case None
    then have "filter (\<lambda>e. dispatchable (ph_state (snd e))) (entries (hq_by_cloid q)) = []" by (simp add: next_dispatchable_def)
    then have "\<not> dispatchable (ph_state p)" if "bget (hq_by_cloid q) c = Some p" for c p
      using that by (fastforce simp: filter_empty_conv bentries_iff [symmetric])
    with None show ?thesis by (simp add: pending_def)
  next
    case (Some c)
    from this [unfolded next_dispatchable_iff [OF q]] Some show ?thesis by (simp add: pending_def)
  qed
qed


section \<open>One handoff\<close>

lemma queue_unchanged [simp]:
  "dp_queue (snd (persist E s)) = dp_queue s" "dp_queue (snd (dispatch_ask f s)) = dp_queue s"
  "dp_queue (snd (log_frame frame s)) = dp_queue s" "dp_queue (snd (send_raw E frame s)) = dp_queue s"
  "dp_queue (snd (await_reply E s)) = dp_queue s"
proof -
  show a: "dp_queue (snd (dispatch_ask f s)) = dp_queue s" for f :: "nat \<Rightarrow> 'a" and s by (simp add: dispatch_ask_def)
  show l: "dp_queue (snd (log_frame frame s)) = dp_queue s" for s by (simp add: log_frame_def)
  show "dp_queue (snd (persist E s)) = dp_queue s"
    by (cases "he_save E (dp_calls s)") (simp_all add: persist_def act_bind_def dispatch_ask_def)
  show "dp_queue (snd (send_raw E frame s)) = dp_queue s"
    by (simp add: send_raw_def act_bind_def dispatch_ask_def log_frame_def)
  show "dp_queue (snd (await_reply E s)) = dp_queue s"
    by (simp add: await_reply_def act_bind_def dispatch_ask_def)
qed

lemma send_framed_queue [simp]: "dp_queue (snd (send_framed E n request s)) = dp_queue s"
proof -
  let ?w = "\<lambda>a. write_framed (he_encode_request E) (he_hash E) (he_policy E) OBSERVER_MESSAGE_TYPE n request a []"
  show ?thesis
    by (cases "?w Written"; cases "?w (he_framed_write E (dp_calls s))")
      (simp_all add: send_framed_def act_bind_def dispatch_ask_def log_frame_def)
qed

lemma act_bind_assoc: "act_bind (act_bind m f) g = act_bind m (\<lambda>x. act_bind (f x) g)"
proof
  show "act_bind (act_bind m f) g s = act_bind m (\<lambda>x. act_bind (f x) g) s" for s
    by (cases "m s"; cases "fst (m s)") (simp_all add: act_bind_def)
qed

lemma act_bind_modify: "act_bind (act_modify f) g s = g () (f s)"
  by (simp add: act_bind_def)

text \<open>A handoff changes the state of its own entry at most.\<close>

definition only_state :: "handoff_queue \<Rightarrow> planned_cloid \<Rightarrow> pending_handoff \<Rightarrow> handoff_state set \<Rightarrow> handoff_queue \<Rightarrow> bool" where
  "only_state q c p S t = (\<exists>st \<in> S. t = q\<lparr>hq_by_cloid := binsert c (p\<lparr>ph_state := st\<rparr>) (hq_by_cloid q)\<rparr>)"

lemma binsert_same: "bget m k = Some v \<Longrightarrow> binsert k v m = m"
  by (rule bmap_eqI) auto

lemma binsert_twice: "binsert k v (binsert k w m) = binsert k v m"
  by (rule bmap_eqI) auto

lemma only_state_start: "bget (hq_by_cloid q) c = Some p \<Longrightarrow> ph_state p \<in> S \<Longrightarrow> only_state q c p S q"
  by (auto simp: only_state_def binsert_same intro: bexI [of _ "ph_state p"])

lemma only_state_mark:
  assumes "only_state q c p S t" and "\<And>st. st \<in> S \<Longrightarrow> f st \<in> S"
  shows "only_state q c p S (snd (mark c f t))"
  using assms by (auto simp: only_state_def mark_def binsert_twice)

abbreviation settles :: "handoff_queue \<Rightarrow> planned_cloid \<Rightarrow> pending_handoff \<Rightarrow> handoff_state set \<Rightarrow> 'a dispatching \<Rightarrow> bool" where
  "settles q c p S \<equiv> act_keeps (\<lambda>s. only_state q c p S (dp_queue s))"

lemma settles_mark: "(\<And>st. st \<in> S \<Longrightarrow> f st \<in> S) \<Longrightarrow> settles q c p S (on_queue (mark c f))"
  by (auto simp: act_keeps_def on_queue_def act_zoom_def split: prod.split dest: only_state_mark) (metis only_state_mark snd_conv)

lemma settles_frame:
  "settles q c p S (persist E)" "settles q c p S (send_raw E frame)" "settles q c p S (send_framed E n request)"
  "settles q c p S (await_reply E)"
  by (simp_all add: act_keeps_def)

lemma settles_request: "HandoffSent \<in> S \<Longrightarrow> settles q c p S (request_handoff E c p')"
  unfolding request_handoff_def by (cases "ph_state p'") (auto intro!: keeps_intro settles_mark settles_frame)

lemma settles_handoff:
  assumes "bget (hq_by_cloid (dp_queue s)) c = Some p"
  shows "only_state (dp_queue s) c p UNIV (dp_queue (snd (handoff E c s)))"
proof -
  let ?m = "act_bind (request_handoff E c p) (\<lambda>_. act_bind (await_reply E) (\<lambda>first.
      act_bind (replay_absent E c p first) (\<lambda>reply. act_bind (settle_reply E c p reply) (\<lambda>_.
      act_bind (persist E) (\<lambda>_. act_return reply)))))"
  have "settles (dp_queue s) c p UNIV (settle_reply E c p r)" for r
    by (cases r) (auto simp: mark_accepted_def mark_rejected_def intro!: keeps_intro settles_mark)
  moreover have "settles (dp_queue s) c p UNIV (replay_absent E c p r)" for r
    unfolding replay_absent_def by (auto intro!: keeps_intro settles_frame)
  ultimately have "settles (dp_queue s) c p UNIV ?m" by (intro keeps_intro settles_request settles_frame) auto
  from act_keepsD [OF this, of s] only_state_start [OF assms] have "only_state (dp_queue s) c p UNIV (dp_queue (snd (?m s)))" by simp
  then show ?thesis using assms by (simp add: handoff_def act_bind_def pending_def)
qed

text \<open>
  What an accepted handoff means. A handoff is answered as accepted only when the reply names exactly this
  order, its target version and the hash of the intent; then its entry is marked accepted, nothing else in the
  queue has changed, and the queue is on file.
\<close>

theorem accepted_handoff_matches:
  assumes "handoff E c s = (Ok (Accepted i n text), t)"
  shows "\<exists>p. pending (dp_queue s) c = Some p
    \<and> i = \<lparr>ii_cloid = c, ii_target_version = ai_target_version (ph_intent p), ii_canonical_hash = ai_canonical_hash (ph_intent p)\<rparr>
    \<and> dp_queue t = (dp_queue s)\<lparr>hq_by_cloid := binsert c (p\<lparr>ph_state := HandoffAccepted\<rparr>) (hq_by_cloid (dp_queue s))\<rparr>
    \<and> dp_file t = Some (dp_queue t)"
proof -
  from assms obtain p s1 first s2 s3 s4 where p: "bget (hq_by_cloid (dp_queue s)) c = Some p"
    and s1: "request_handoff E c p s = (Ok (), s1)" and s2: "await_reply E s1 = (Ok first, s2)"
    and s3: "replay_absent E c p first s2 = (Ok (Accepted i n text), s3)"
    and s4: "settle_reply E c p (Accepted i n text) s3 = (Ok (), s4)" and t: "persist E s4 = (Ok (), t)"
    by (auto simp: handoff_def outcome_simps pending_def)
  have i: "ii_cloid i = c \<and> ii_target_version i = ai_target_version (ph_intent p)
      \<and> ii_canonical_hash i = ai_canonical_hash (ph_intent p)" using s4 by (simp split: if_splits)
  have "only_state (dp_queue s) c p UNIV (dp_queue s1)"
    using act_keepsD [OF settles_request [of UNIV], of "dp_queue s" c p s E p] only_state_start [OF p] s1 by simp
  moreover have "dp_queue s2 = dp_queue s1" using queue_unchanged(5) [of E s1] s2 by simp
  moreover have "dp_queue s3 = dp_queue s2"
  proof -
    have "act_keeps (\<lambda>u. dp_queue u = dp_queue s2) (replay_absent E c p first)"
      unfolding replay_absent_def by (intro keeps_intro) (simp_all add: act_keeps_def)
    from act_keepsD [OF this, of s2] s3 show ?thesis by simp
  qed
  ultimately obtain st where "dp_queue s3 = (dp_queue s)\<lparr>hq_by_cloid := binsert c (p\<lparr>ph_state := st\<rparr>) (hq_by_cloid (dp_queue s))\<rparr>"
    by (auto simp: only_state_def)
  then have "dp_queue s4 = (dp_queue s)\<lparr>hq_by_cloid := binsert c (p\<lparr>ph_state := HandoffAccepted\<rparr>) (hq_by_cloid (dp_queue s))\<rparr>"
    using s4 by (auto simp: on_queue_def act_zoom_def mark_accepted_def mark_def binsert_twice split: if_splits)
  moreover have "dp_queue t = dp_queue s4 \<and> dp_file t = Some (dp_queue s4)"
    using t by (cases "he_save E (dp_calls s4)") (auto simp: persist_def act_bind_def dispatch_ask_def)
  ultimately show ?thesis using p i by (auto simp: pending_def)
qed

text \<open>
  C9. An order of unknown fate is asked for before it is sent again. When the entry says that a submission was
  sent and its answer was lost, the client writes nothing but the question for this order, and then the exact
  frame once more only if the signer's answer to the question was that it does not know the order.
\<close>

theorem unknown_submission_asks_first:
  assumes "pending (dp_queue s) c = Some p" and "ph_state p = HandoffUnknown"
    and "handoff E c s = (r, t)"
  shows "\<exists>frames. dp_written t = dp_written s @ frames
    \<and> (frames = [] \<or> (\<exists>question. write_framed (he_encode_request E) (he_hash E) (he_policy E) OBSERVER_MESSAGE_TYPE
          (ph_sequence p) (Reconcile c) Written [] = Ok question
        \<and> (frames = [question] \<or> frames = [question, ph_frame p] \<and> he_reply E (dp_calls s + 1) = Ok (NotFoundResponse c))))"
proof -
  let ?w = "\<lambda>a. write_framed (he_encode_request E) (he_hash E) (he_policy E) OBSERVER_MESSAGE_TYPE (ph_sequence p) (Reconcile c) a []"
  have p: "bget (hq_by_cloid (dp_queue s)) c = Some p" using assms(1) by (simp add: pending_def)
  let ?rest = "\<lambda>first. act_bind (replay_absent E c p first) (\<lambda>reply. act_bind (settle_reply E c p reply) (\<lambda>_.
      act_bind (persist E) (\<lambda>_. act_return reply)))"
  have t: "t = snd (act_bind (send_framed E (ph_sequence p) (Reconcile c)) (\<lambda>_. act_bind (await_reply E) ?rest) s)"
    using assms(3) p by (simp add: handoff_def act_bind_def pending_def request_handoff_def assms(2))
  show ?thesis
  proof (cases "?w Written")
    case (Ok q)
    let ?s1 = "s\<lparr>dp_written := dp_written s @ [q], dp_calls := dp_calls s + 1\<rparr>"
    let ?s2 = "?s1\<lparr>dp_calls := dp_calls s + 2\<rparr>"
    have quiet: "act_keeps (\<lambda>u. dp_written u = w) (act_bind (settle_reply E c p reply) (\<lambda>_. act_bind (persist E) (\<lambda>_. act_return reply)))"
      for w reply
    proof -
      have "act_keeps (\<lambda>u. dp_written u = w) (persist E)"
        by (auto simp: act_keeps_def persist_def act_bind_def dispatch_ask_def split: save_answer.split)
      moreover have "act_keeps (\<lambda>u. dp_written u = w) (on_queue m)" for m :: "(handoff_queue, unit, observer_ipc_error) action"
        by (auto simp: act_keeps_def on_queue_def act_zoom_def split: prod.split)
      then have "act_keeps (\<lambda>u. dp_written u = w) (settle_reply E c p reply)" by (cases reply) (auto intro: keeps_intro)
      ultimately show ?thesis by (intro keeps_intro)
    qed
    have f: "send_framed E (ph_sequence p) (Reconcile c) s = (r', ?s1)" if "r' = fst (send_framed E (ph_sequence p) (Reconcile c) s)" for r'
      using Ok that by (cases "?w (he_framed_write E (dp_calls s))") (simp_all add: send_framed_def act_bind_def dispatch_ask_def log_frame_def)
    have a: "await_reply E ?s1 = (map_err HandoffCodec (he_reply E (dp_calls s + 1)), ?s2)"
      by (simp add: await_reply_def act_bind_def dispatch_ask_def)
    consider "t = ?s1" | "t = ?s2" | first where "he_reply E (dp_calls s + 1) = Ok first" "t = snd (?rest first ?s2)"
      using t f [OF refl] a
      by (cases "fst (send_framed E (ph_sequence p) (Reconcile c) s)"; cases "he_reply E (dp_calls s + 1)") (auto simp: act_bind_def)
    then have "dp_written t = dp_written s @ [q]
        \<or> dp_written t = dp_written s @ [q, ph_frame p] \<and> he_reply E (dp_calls s + 1) = Ok (NotFoundResponse c)"
    proof cases
      case 3
      show ?thesis
      proof (cases "first = NotFoundResponse c")
        case True
        let ?s3 = "?s2\<lparr>dp_written := dp_written s @ [q, ph_frame p]\<rparr>"
        let ?m = "act_bind (dispatch_ask (he_raw_write E)) (\<lambda>r. act_bind (act_try (map_err HandoffIo r)) (\<lambda>_.
            act_bind (await_reply E) (\<lambda>reply. act_bind (settle_reply E c p reply) (\<lambda>_.
              act_bind (persist E) (\<lambda>_. act_return reply)))))"
        have "act_keeps (\<lambda>u. dp_written u = dp_written s @ [q, ph_frame p]) ?m"
          unfolding await_reply_def by (intro keeps_intro quiet) (simp_all add: act_keeps_def dispatch_ask_def)
        moreover have "t = snd (?m ?s3)"
          using 3 True assms(2) by (simp add: replay_absent_def send_raw_def log_frame_def act_bind_assoc act_bind_modify)
        ultimately have "dp_written t = dp_written s @ [q, ph_frame p]" by (simp add: act_keeps_def)
        with 3 True show ?thesis by simp
      next
        case False
        then have "t = snd (act_bind (settle_reply E c p first) (\<lambda>_. act_bind (persist E) (\<lambda>_. act_return first)) ?s2)"
          using 3 by (simp add: replay_absent_def act_bind_def)
        with act_keepsD [OF quiet, of ?s2 "dp_written ?s2"] show ?thesis by simp
      qed
    qed simp_all
    with Ok show ?thesis by (auto intro: exI [of _ "[q]"] exI [of _ "[q, ph_frame p]"])
  qed (use t in \<open>simp_all add: send_framed_def act_bind_def\<close>)
qed


section \<open>What goes wrong\<close>

lemma lane_count_card:
  "lane_count r q = card {c. \<exists>p. bget (hq_by_cloid q) c = Some p \<and> ai_reduce_only (ph_intent p) = r \<and> \<not> leaves_lane (ph_state p)}"
proof -
  let ?P = "\<lambda>e. ai_reduce_only (ph_intent (snd e)) = r \<and> \<not> leaves_lane (ph_state (snd e))"
  let ?xs = "filter ?P (entries (hq_by_cloid q))"
  have d: "distinct (map fst (entries (hq_by_cloid q)))" using bkeys_props(2) [of "hq_by_cloid q"] by (simp add: bkeys_def)
  then have "distinct (map fst ?xs)" by (rule distinct_map_filter)
  from distinct_card [OF this] have "length ?xs = card (set (map fst ?xs))" by (simp only: length_map)
  also have "set (map fst ?xs) = {c. \<exists>p. bget (hq_by_cloid q) c = Some p \<and> ai_reduce_only (ph_intent p) = r \<and> \<not> leaves_lane (ph_state p)}"
  proof (intro equalityI subsetI)
    fix c assume "c \<in> set (map fst ?xs)"
    then obtain e where "e \<in> set ?xs" "c = fst e" by auto
    then show "c \<in> {c. \<exists>p. bget (hq_by_cloid q) c = Some p \<and> ai_reduce_only (ph_intent p) = r \<and> \<not> leaves_lane (ph_state p)}"
      using bentries_iff [of "fst e" "snd e"] by auto
  next
    fix c assume "c \<in> {c. \<exists>p. bget (hq_by_cloid q) c = Some p \<and> ai_reduce_only (ph_intent p) = r \<and> \<not> leaves_lane (ph_state p)}"
    then obtain p where "bget (hq_by_cloid q) c = Some p" "ai_reduce_only (ph_intent p) = r" "\<not> leaves_lane (ph_state p)" by auto
    then have "(c, p) \<in> set ?xs" using bentries_iff [of c p] by simp
    from imageI [OF this, of fst] show "c \<in> set (map fst ?xs)" by (simp only: fst_conv set_map)
  qed
  finally show ?thesis by (simp add: lane_count_def bvals_def filter_map o_def)
qed

text \<open>Accepted entries stay as they are, unless the signer reports one of them as not submitted.\<close>

definition entries_stay :: "planned_cloid set \<Rightarrow> handoff_queue \<Rightarrow> dispatcher \<Rightarrow> bool" where
  "entries_stay A q s = (\<forall>c \<in> A. bget (hq_by_cloid (dp_queue s)) c = bget (hq_by_cloid q) c)"

definition all_accepted :: "planned_cloid set \<Rightarrow> handoff_queue \<Rightarrow> bool" where
  "all_accepted A q = (\<forall>c \<in> A. \<exists>p. bget (hq_by_cloid q) c = Some p \<and> ph_state p = HandoffAccepted)"

lemma stay_frame:
  "act_keeps (entries_stay A q) (persist E)" "act_keeps (entries_stay A q) (await_reply E)"
  "act_keeps (entries_stay A q) (send_framed E n request)"
  by (simp_all add: act_keeps_def entries_stay_def)

lemma stay_mark:
  assumes "all_accepted A q" and "c \<notin> A \<or> f HandoffAccepted = HandoffAccepted"
  shows "act_keeps (entries_stay A q) (on_queue (mark c f))"
  unfolding act_keeps_def
proof (intro allI impI)
  fix s assume s: "entries_stay A q s"
  show "entries_stay A q (snd (on_queue (mark c f) s))"
  proof (cases rule: mark_cases [of "dp_queue s" c f])
    case (marked e)
    have "e\<lparr>ph_state := f (ph_state e)\<rparr> = e" if "c \<in> A"
    proof -
      have "ph_state e = HandoffAccepted" using that s assms(1) marked(1) by (auto simp: entries_stay_def all_accepted_def)
      then show ?thesis using assms(2) that by simp
    qed
    with marked s show ?thesis by (auto simp: on_queue_def act_zoom_def entries_stay_def)
  qed (use s in \<open>simp add: on_queue_def act_zoom_def\<close>)
qed

lemma stay_enqueue:
  assumes "all_accepted A q"
  shows "act_keeps (entries_stay A q) (on_queue (enqueue E i))"
  unfolding act_keeps_def
proof (intro allI impI)
  fix s assume s: "entries_stay A q s"
  show "entries_stay A q (snd (on_queue (enqueue E i) s))"
  proof (cases rule: enqueue_cases [of E i "dp_queue s"])
    case (same r)
    with s show ?thesis by (simp add: on_queue_def act_zoom_def)
  next
    case add
    then have "ai_planned_cloid i \<notin> A" using s assms by (auto simp: entries_stay_def all_accepted_def)
    then show ?thesis using s add
      by (cases rule: add_handoff_cases [of E i "dp_queue s"]) (auto simp: on_queue_def act_zoom_def entries_stay_def)
  qed
qed

lemma stay_handoff:
  assumes "all_accepted A q"
  shows "act_keeps (entries_stay A q) (handoff E c)"
  unfolding act_keeps_def
proof (intro allI impI)
  fix s assume s: "entries_stay A q s"
  show "entries_stay A q (snd (handoff E c s))"
  proof (cases "bget (hq_by_cloid (dp_queue s)) c")
    case None
    with s show ?thesis by (simp add: handoff_def act_bind_def pending_def)
  next
    case (Some p)
    show ?thesis
    proof (cases "c \<in> A")
      case True
      then have "ph_state p = HandoffAccepted" using Some s assms by (auto simp: entries_stay_def all_accepted_def)
      with Some s show ?thesis by (simp add: handoff_def act_bind_def pending_def request_handoff_def)
    next
      case False
      with settles_handoff [OF Some, of E] s show ?thesis by (auto simp: only_state_def entries_stay_def)
    qed
  qed
qed

lemma stay_dispatch:
  assumes "all_accepted A q"
  shows "act_keeps (entries_stay A q) (dispatch_persisted E c)"
  unfolding act_keeps_def
proof (intro allI impI)
  fix s assume "entries_stay A q s"
  then have h: "entries_stay A q (snd (handoff E c s))" by (rule act_keepsD [OF stay_handoff [OF assms]])
  let ?t = "snd (persist E (snd (on_queue (mark_disconnect c) (snd (handoff E c s)))))"
  have d: "entries_stay A q ?t" unfolding mark_disconnect_def
    by (intro act_keepsD [OF stay_frame(1)] act_keepsD [OF stay_mark [OF assms]] h) simp
  have "snd (dispatch_persisted E c s) = snd (handoff E c s) \<or> snd (dispatch_persisted E c s) = ?t"
    by (cases "handoff E c s"; cases "fst (handoff E c s)")
      (auto simp: dispatch_persisted_def split: signer_response.split)
  with h d show "entries_stay A q (snd (dispatch_persisted E c s))" by auto
qed

lemma stay_exec:
  assumes "all_accepted A q" and "entries_stay A q s" and "\<forall>c \<in> A. op \<noteq> NotSubmittedReported c"
  shows "entries_stay A q (dispatch_exec E op s)"
proof (cases op)
  case (QueueIntent i)
  have "act_keeps (entries_stay A q) (persist_intent E i)"
    unfolding persist_intent_def by (intro keeps_intro stay_enqueue [OF assms(1)] stay_frame)
  from act_keepsD [OF this assms(2)] have "entries_stay A q (snd (persist_intent E i s))" .
  moreover have "snd (persist_and_queue E i s) = snd (persist_intent E i s)"
    by (simp add: persist_and_queue_def split: prod.split outcome.split)
  ultimately show ?thesis by (simp add: QueueIntent)
next
  case (DispatchIntent i)
  have "act_keeps (entries_stay A q) (persist_and_dispatch E i)"
    unfolding persist_and_dispatch_def persist_intent_def
    by (intro keeps_intro stay_enqueue [OF assms(1)] stay_frame stay_dispatch [OF assms(1)])
  from act_keepsD [OF this assms(2)] show ?thesis by (simp add: DispatchIntent)
next
  case WorkerRound
  with act_keepsD [OF stay_dispatch [OF assms(1)] assms(2)] assms(2) show ?thesis by (auto split: option.split)
next
  case (NotSubmittedReported c)
  with assms(3) have "c \<notin> A" by auto
  then have "act_keeps (entries_stay A q) (act_bind (on_queue (mark c (\<lambda>_. HandoffPersisted))) (\<lambda>_. persist E))"
    by (intro keeps_intro stay_mark [OF assms(1)] stay_frame) simp
  from act_keepsD [OF this assms(2)] show ?thesis by (simp add: NotSubmittedReported)
next
  case (AskStatus n)
  have k: "act_keeps (entries_stay A q) (case r of StatusResponse a b c \<Rightarrow> act_return (a, b) | _ \<Rightarrow> act_try (Err HandoffUnexpected))" for r
    by (cases r) (auto intro: keeps_intro)
  have "act_keeps (entries_stay A q) (client_status E n)" unfolding client_status_def by (intro keeps_intro stay_frame k)
  from act_keepsD [OF this assms(2)] show ?thesis by (simp add: AskStatus)
next
  case (AskEvents n)
  have k: "act_keeps (entries_stay A q) (case r of EventsResponse es \<Rightarrow> act_return es | _ \<Rightarrow> act_try (Err HandoffUnexpected))" for r
    by (cases r) (auto intro: keeps_intro)
  have "act_keeps (entries_stay A q) (replay_events E n)" unfolding replay_events_def by (intro keeps_intro stay_frame k)
  from act_keepsD [OF this assms(2)] show ?thesis by (simp add: AskEvents)
next
  case (AcknowledgeUpTo n)
  have k: "act_keeps (entries_stay A q) (case r of EventsAcknowledged k \<Rightarrow> act_try (fail_if (k \<noteq> n) HandoffUnexpected)
      | _ \<Rightarrow> act_try (Err HandoffUnexpected))" for r
    by (cases r) (auto intro: keeps_intro)
  have "act_keeps (entries_stay A q) (acknowledge_events E n)" unfolding acknowledge_events_def by (intro keeps_intro stay_frame k)
  from act_keepsD [OF this assms(2)] show ?thesis by (simp add: AcknowledgeUpTo)
qed

lemma stay_run:
  "all_accepted A q \<Longrightarrow> entries_stay A q s \<Longrightarrow> \<forall>c \<in> A. NotSubmittedReported c \<notin> set ops
     \<Longrightarrow> entries_stay A q (fold (dispatch_exec E) ops s)"
proof (induction ops arbitrary: s)
  case (Cons op ops)
  have "entries_stay A q (dispatch_exec E op s)" by (rule stay_exec) (use Cons.prems in auto)
  with Cons show ?case by simp
qed simp

text \<open>
  C35. An accepted handoff occupies its lane for good. The capacity of a lane counts the accepted handoffs, and
  nothing ever takes an accepted handoff out of its lane but the signer's report that the order was not
  submitted. Once as many handoffs of a lane are accepted as the lane holds, every further intent of that
  lane is refused, whatever is done in between.
\<close>

theorem accepted_handoffs_fill_lane:
  assumes "new_queue n = Ok q0 \<or> queue_with_lanes a b = Ok q0" and "s = fold (dispatch_exec E) ops0 (new_dispatcher q0)"
    and "finite A" "lane_capacity r (dp_queue s) \<le> card A"
    and "\<forall>c \<in> A. \<exists>p. pending (dp_queue s) c = Some p \<and> ph_state p = HandoffAccepted \<and> ai_reduce_only (ph_intent p) = r"
    and "\<forall>c \<in> A. NotSubmittedReported c \<notin> set ops" and "t = fold (dispatch_exec E) ops s"
    and "pending (dp_queue t) (ai_planned_cloid i) = None" and "ai_reduce_only i = r"
    and "validate_canonical (he_encode_intent E) (he_hash E) i = Ok ()"
  shows "persist_and_queue E i t = (if r then Err HandoffCapacity else Ok DispatchCapacityUnavailable, t)"
proof -
  have "queue_ok E q0" using assms(1) new_queue_ok queue_with_lanes_ok by blast
  then have s: "dispatcher_ok E q0 s" unfolding assms(2) by (intro dispatching.invar_run new_dispatcher_ok)
  have "dispatcher_ok E (dp_queue s) t"
    unfolding assms(7) by (intro dispatching.invar_run dispatcher_ok_self [OF s])
  then have cap: "lane_capacity r (dp_queue t) = lane_capacity r (dp_queue s)"
    by (simp add: dispatcher_ok_def extends_def same_limits_def lane_capacity_def)
  have "all_accepted A (dp_queue s)" using assms(5) by (auto simp: all_accepted_def pending_def)
  then have "entries_stay A (dp_queue s) t"
    unfolding assms(7) using assms(6) by (intro stay_run) (auto simp: entries_stay_def)
  then have "A \<subseteq> {c. \<exists>p. bget (hq_by_cloid (dp_queue t)) c = Some p \<and> ai_reduce_only (ph_intent p) = r \<and> \<not> leaves_lane (ph_state p)}"
    using assms(5) by (fastforce simp: entries_stay_def pending_def)
  moreover have "finite {c. \<exists>p. bget (hq_by_cloid (dp_queue t)) c = Some p \<and> ai_reduce_only (ph_intent p) = r \<and> \<not> leaves_lane (ph_state p)}"
    by (rule finite_subset [of _ "set (bkeys (hq_by_cloid (dp_queue t)))"]) (auto simp: set_bkeys bhas_def)
  ultimately have "card A \<le> lane_count r (dp_queue t)" unfolding lane_count_card by (intro card_mono)
  then have full: "lane_capacity r (dp_queue t) \<le> lane_count r (dp_queue t)" using assms(4) cap by simp
  have "enqueue E i (dp_queue t) = (Err HandoffCapacity, dp_queue t)"
    using assms(8-10) full by (simp add: enqueue_def pending_def act_bind_def fail_if_def)
  then show ?thesis using assms(9,10)
    by (simp add: persist_and_queue_def persist_intent_def act_bind_def on_queue_def act_zoom_def)
qed


lemma settles_fails:
  assumes "\<And>n. \<not> is_ok (he_reply E n)"
  shows "settles q c p S (act_bind (await_reply E) g)"
  unfolding act_keeps_def
proof (intro allI impI)
  fix s :: dispatcher
  assume "only_state q c p S (dp_queue s)"
  then show "only_state q c p S (dp_queue (snd (act_bind (await_reply E) g s)))"
    using assms [of "dp_calls s"] by (cases "he_reply E (dp_calls s)") (simp_all add: await_reply_def act_bind_def dispatch_ask_def)
qed

lemma unanswered_handoff:
  assumes "\<And>n. \<not> is_ok (he_reply E n)" and "bget (hq_by_cloid (dp_queue s)) c = Some p" and "dispatchable (ph_state p)"
  shows "only_state (dp_queue s) c p (Collect dispatchable) (dp_queue (snd (dispatch_persisted E c s)))"
proof -
  let ?m = "act_bind (request_handoff E c p) (\<lambda>_. act_bind (await_reply E) (\<lambda>first.
      act_bind (replay_absent E c p first) (\<lambda>reply. act_bind (settle_reply E c p reply) (\<lambda>_.
      act_bind (persist E) (\<lambda>_. act_return reply)))))"
  have "settles (dp_queue s) c p (Collect dispatchable) ?m"
    by (intro keeps_intro settles_request settles_fails assms(1)) simp
  then have "only_state (dp_queue s) c p (Collect dispatchable) (dp_queue (snd (?m s)))"
    by (rule act_keepsD) (use only_state_start [OF assms(2)] assms(3) in simp)
  then have h: "only_state (dp_queue s) c p (Collect dispatchable) (dp_queue (snd (handoff E c s)))"
    using assms(2) by (simp add: handoff_def act_bind_def pending_def)
  have "settles (dp_queue s) c p (Collect dispatchable) (on_queue (mark_disconnect c))"
    unfolding mark_disconnect_def by (rule settles_mark) simp
  from act_keepsD [OF this h] have d: "only_state (dp_queue s) c p (Collect dispatchable)
      (dp_queue (snd (persist E (snd (on_queue (mark_disconnect c) (snd (handoff E c s)))))))" by simp
  have "snd (dispatch_persisted E c s) = snd (handoff E c s)
      \<or> snd (dispatch_persisted E c s) = snd (persist E (snd (on_queue (mark_disconnect c) (snd (handoff E c s)))))"
    by (cases "handoff E c s"; cases "fst (handoff E c s)")
      (auto simp: dispatch_persisted_def split: signer_response.split)
  with h d show ?thesis by auto
qed

lemma next_stays:
  assumes "queue_ok E q" and "queue_ok E t" and "next_dispatchable q = Some c" and "bget (hq_by_cloid q) c = Some p"
    and "only_state q c p (Collect dispatchable) t"
  shows "next_dispatchable t = Some c"
proof -
  from assms(3) next_dispatchable_iff [OF assms(1), of c] assms(4)
  have "\<And>c' p'. bget (hq_by_cloid q) c' = Some p' \<Longrightarrow> dispatchable (ph_state p') \<Longrightarrow> c' \<noteq> c \<Longrightarrow> comes_before p p'" by simp
  then show ?thesis unfolding next_dispatchable_iff [OF assms(2), of c]
    using assms(5) by (auto simp: only_state_def comes_before_def)
qed

text \<open>
  C36. The worker never rests while the signer does not answer. When no request gets a reply, as after the
  connection is lost, which is never opened again, the loop that should run until the queue is empty goes on
  for any number of rounds without a pause, and takes the same handoff in every round: the handoffs behind it
  are not tried.
\<close>

theorem worker_spins:
  assumes "new_queue n = Ok q0 \<or> queue_with_lanes a b = Ok q0" and "s = fold (dispatch_exec E) ops (new_dispatcher q0)"
    and "\<forall>n. \<not> is_ok (he_reply E n)" and "next_dispatchable (dp_queue s) = Some c"
  shows "next_dispatchable (dp_queue (worker_rounds E k s)) = Some c
    \<and> (\<forall>c'. c' \<noteq> c \<longrightarrow> pending (dp_queue (worker_rounds E k s)) c' = pending (dp_queue s) c')"
proof -
  have "queue_ok E q0" using assms(1) new_queue_ok queue_with_lanes_ok by blast
  then have "dispatcher_ok E q0 s" unfolding assms(2) by (intro dispatching.invar_run new_dispatcher_ok)
  then show ?thesis using assms(4)
  proof (induction k arbitrary: s)
    case (Suc k)
    let ?t = "snd (dispatch_persisted E c s)"
    have q: "queue_ok E (dp_queue s)" using Suc.prems(1) by (simp add: dispatcher_ok_def)
    have t: "dispatcher_ok E q0 ?t" by (rule act_keepsD [OF keeps_dispatch Suc.prems(1)])
    then have qt: "queue_ok E (dp_queue ?t)" by (simp add: dispatcher_ok_def)
    from Suc.prems(2) next_dispatchable_iff [OF q, of c] obtain p where
      p: "bget (hq_by_cloid (dp_queue s)) c = Some p" "dispatchable (ph_state p)" by auto
    have o: "only_state (dp_queue s) c p (Collect dispatchable) (dp_queue ?t)"
      by (rule unanswered_handoff [OF _ p]) (use assms(3) in blast)
    have "next_dispatchable (dp_queue ?t) = Some c" by (rule next_stays [OF q qt Suc.prems(2) p(1) o])
    from Suc.IH [OF t this] Suc.prems(2) o show ?case by (auto simp: only_state_def pending_def)
  qed simp
qed

text \<open>
  C37. A handoff that could not be saved is sent all the same. When the queue cannot be written after an
  intent was queued, the caller gets the error and the file is as before, but the handoff is in the queue of
  the worker, which writes its frame to the signer before it has been on file.
\<close>

theorem unsaved_handoff_is_sent:
  assumes "enqueue E i (dp_queue s) = (Ok n, q)" and "pending (dp_queue s) (ai_planned_cloid i) = None"
    and "he_save E (dp_calls s) = NotSaved e" and "persist_and_queue E i s = (r, t)"
  shows "r = Err (HandoffIo e) \<and> dp_file t = dp_file s
    \<and> (\<exists>p. pending (dp_queue t) (ai_planned_cloid i) = Some p \<and> ph_intent p = i \<and> dispatchable (ph_state p)
        \<and> ph_frame p \<in> set (dp_written (snd (dispatch_persisted E (ai_planned_cloid i) t))))"
proof -
  let ?c = "ai_planned_cloid i"
  have none: "bget (hq_by_cloid (dp_queue s)) ?c = None" using assms(2) by (simp add: pending_def)
  have v: "validate_canonical (he_encode_intent E) (he_hash E) i = Ok ()" and a: "add_handoff E i (dp_queue s) = (Ok n, q)"
    using assms(1) none by (auto simp: enqueue_def outcome_simps)
  have pi: "persist_intent E i s = (Err (HandoffIo e), s\<lparr>dp_queue := q, dp_calls := dp_calls s + 1\<rparr>)"
    using v assms(1,3) by (simp add: persist_intent_def act_bind_def on_queue_def act_zoom_def persist_def dispatch_ask_def)
  then have t: "r = Err (HandoffIo e)" "t = s\<lparr>dp_queue := q, dp_calls := dp_calls s + 1\<rparr>"
    using assms(4) by (auto simp: persist_and_queue_def)
  obtain p where p: "bget (hq_by_cloid q) ?c = Some p" "ph_intent p = i" "ph_state p = HandoffPersisted"
    using a by (cases rule: add_handoff_cases [of E i "dp_queue s"]) auto
  have w: "act_keeps (\<lambda>u. ph_frame p \<in> set (dp_written u)) m"
    if "\<And>u. set (dp_written u) \<subseteq> set (dp_written (snd (m u)))" for m :: "'a dispatching"
    using that by (auto simp: act_keeps_def)
  have grows: "set (dp_written u) \<subseteq> set (dp_written (snd (persist E u)))" "set (dp_written u) \<subseteq> set (dp_written (snd (await_reply E u)))"
    "set (dp_written u) \<subseteq> set (dp_written (snd (send_raw E f u)))" "set (dp_written u) \<subseteq> set (dp_written (snd (on_queue m u)))"
    for u f and m :: "(handoff_queue, unit, observer_ipc_error) action"
    by (auto simp: persist_def await_reply_def send_raw_def on_queue_def act_zoom_def log_frame_def act_bind_def dispatch_ask_def
        split: save_answer.split prod.split outcome.split)
  let ?J = "\<lambda>u. ph_frame p \<in> set (dp_written u)"
  let ?rest = "\<lambda>_::unit. act_bind (await_reply E) (\<lambda>first. act_bind (replay_absent E ?c p first) (\<lambda>reply.
      act_bind (settle_reply E ?c p reply) (\<lambda>_. act_bind (persist E) (\<lambda>_. act_return reply))))"
  let ?m = "act_bind (dispatch_ask (he_raw_write E)) (\<lambda>r. act_bind (act_try (map_err HandoffIo r))
      (\<lambda>_. act_bind (on_queue (mark ?c (\<lambda>_. HandoffSent))) (\<lambda>_. act_bind (persist E) ?rest)))"
  have settle: "act_keeps ?J (settle_reply E ?c p reply)" for reply
    by (cases reply) (auto simp: mark_accepted_def mark_rejected_def intro!: keeps_intro w [OF grows(4)])
  have "act_keeps ?J (replay_absent E ?c p first)" for first
    unfolding replay_absent_def by (intro keeps_intro w grows)
  then have "act_keeps ?J ?m"
    by (intro keeps_intro settle w [OF grows(1)] w [OF grows(2)] w [OF grows(4)]) (simp_all add: act_keeps_def dispatch_ask_def)
  moreover have "snd (handoff E ?c t) = snd (?m (t\<lparr>dp_written := dp_written t @ [ph_frame p]\<rparr>))"
    using p t(2) by (simp add: handoff_def act_bind_def [of "act_get _"] pending_def request_handoff_def send_raw_def
        log_frame_def act_bind_assoc act_bind_modify)
  ultimately have h: "?J (snd (handoff E ?c t))" by (simp add: act_keeps_def)
  then have d: "?J (snd (persist E (snd (on_queue (mark_disconnect ?c) (snd (handoff E ?c t))))))"
    using grows by blast
  have "snd (dispatch_persisted E ?c t) = snd (handoff E ?c t)
      \<or> snd (dispatch_persisted E ?c t) = snd (persist E (snd (on_queue (mark_disconnect ?c) (snd (handoff E ?c t)))))"
    by (cases "handoff E ?c t"; cases "fst (handoff E ?c t)")
      (auto simp: dispatch_persisted_def split: signer_response.split)
  with h d have "?J (snd (dispatch_persisted E ?c t))" by auto
  with p t show ?thesis by (auto simp: pending_def)
qed


section \<open>Concrete runs\<close>

definition handoff_policy :: ipc_policy where
  "handoff_policy = \<lparr>protocol_version = 1, maximum_frame_bytes = 1000, maximum_pending_intents = 2,
     maximum_pending_reducing = 1, maximum_pending_increasing = 1, maximum_pending_events = 1, maximum_reorder_window = 1,
     write_timeout_ms = 1, acknowledgment_timeout_ms = 1\<rparr>"

definition sample_environment :: "(nat \<Rightarrow> signer_response ipc) \<Rightarrow> (nat \<Rightarrow> save_answer) \<Rightarrow> handoff_environment" where
  "sample_environment replies saves = \<lparr>he_policy = handoff_policy, he_encode_intent = (\<lambda>_. Ok []),
     he_encode_request = (\<lambda>_. Ok []), he_hash = (\<lambda>_. replicate 32 0), he_show_rejection = (\<lambda>_. []), he_show_apply = (\<lambda>_. []),
     he_raw_write = (\<lambda>_. Ok ()), he_framed_write = (\<lambda>_. Written), he_reply = replies, he_save = saves\<rparr>"

lemma sample_environment_simps [simp]:
  "he_reply (sample_environment replies saves) = replies" "he_save (sample_environment replies saves) = saves"
  "he_raw_write (sample_environment replies saves) = (\<lambda>_. Ok ())" "he_show_rejection (sample_environment replies saves) = (\<lambda>_. [])"
  by (simp_all add: sample_environment_def)

definition sample_handoff :: "8 word \<Rightarrow> bool \<Rightarrow> authorized_intent" where
  "sample_handoff c r = sample_envelope\<lparr>ai_planned_cloid := [c], ai_reduce_only := r\<rparr>"

definition sample_frame :: "nat \<Rightarrow> bytes" where
  "sample_frame n = frame_bytes (\<lambda>_. replicate 32 0) OBSERVER_MESSAGE_TYPE n []"

definition sample_pending :: "8 word \<Rightarrow> bool \<Rightarrow> nat \<Rightarrow> handoff_state \<Rightarrow> pending_handoff" where
  "sample_pending c r n st = \<lparr>ph_intent = sample_handoff c r, ph_state = st, ph_sequence = n, ph_frame = sample_frame n,
     ph_frame_hash = replicate 32 0\<rparr>"

lemma sample_pending_simps [simp]:
  "ph_intent (sample_pending c r n st) = sample_handoff c r" "ph_state (sample_pending c r n st) = st"
  "ph_sequence (sample_pending c r n st) = n" "ph_frame (sample_pending c r n st) = sample_frame n"
  "(sample_pending c r n st)\<lparr>ph_state := st'\<rparr> = sample_pending c r n st'"
  by (simp_all add: sample_pending_def)

lemma sample_handoff_simps [simp]:
  "ai_planned_cloid (sample_handoff c r) = [c]" "ai_reduce_only (sample_handoff c r) = r"
  "ai_target_version (sample_handoff c r) = 1" "ai_canonical_hash (sample_handoff c r) = replicate 32 0"
  by (simp_all add: sample_handoff_def sample_envelope_def)

lemma sample_handoff_valid:
  "validate_canonical (he_encode_intent (sample_environment replies saves)) (he_hash (sample_environment replies saves))
     (sample_handoff c r) = Ok ()"
  by (simp add: validate_canonical_def compute_canonical_hash_def sample_environment_def sample_handoff_def sample_envelope_def
      scaled_value_def fail_if_def AUTHORIZED_INTENT_SCHEMA_VERSION_def)

lemma sample_encodes:
  "encode_frame (he_encode_request (sample_environment replies saves)) (he_hash (sample_environment replies saves))
     OBSERVER_MESSAGE_TYPE n (Submit (sample_handoff c r)) HANDOFF_FRAME_BYTES = Ok (sample_frame n)"
  "canonical_payload_hash (he_encode_request (sample_environment replies saves)) (he_hash (sample_environment replies saves))
     (Submit (sample_handoff c r)) = Ok (replicate 32 0)"
  by (simp_all add: encode_frame_def canonical_payload_hash_def sample_environment_def sample_frame_def fail_if_def
      IPC_HEADER_BYTES_def HANDOFF_FRAME_BYTES_def checked_add_nat_def)

definition sample_queue :: "nat \<Rightarrow> nat \<Rightarrow> (planned_cloid, pending_handoff) bmap \<Rightarrow> handoff_queue" where
  "sample_queue n next queued = \<lparr>hq_schema_version = HANDOFF_SCHEMA_VERSION, hq_max_pending = n, hq_max_reducing = n,
     hq_max_increasing = n, hq_next_sequence = next, hq_by_cloid = queued\<rparr>"

lemma sample_queue_new: "new_queue 1 = Ok (sample_queue 1 1 bempty)"
  by (simp add: new_queue_def fail_if_def sample_queue_def)

lemma sample_queue_simps [simp]:
  "hq_by_cloid (sample_queue n k m) = m" "hq_max_pending (sample_queue n k m) = n" "hq_next_sequence (sample_queue n k m) = k"
  "(sample_queue n k m)\<lparr>hq_by_cloid := m'\<rparr> = sample_queue n k m'" "lane_capacity r (sample_queue n k m) = n"
  "hq_schema_version (sample_queue n k m) = HANDOFF_SCHEMA_VERSION"
  by (simp_all add: sample_queue_def lane_capacity_def)

text \<open>The next intent enters a queue in which every earlier handoff is rejected.\<close>

lemma sample_enqueue:
  assumes "\<And>k p. bget m k = Some p \<Longrightarrow> \<exists>reason. ph_state p = HandoffRejected reason" and "bget m [c] = None"
    and "k < 1000"
  shows "enqueue (sample_environment replies saves) (sample_handoff c r) (sample_queue 1 k m)
    = (Ok k, sample_queue 1 (k + 1) (binsert [c] (sample_pending c r k HandoffPersisted) m))"
proof -
  have "unresolved_len (sample_queue 1 k m) = 0"
    using assms(1) by (force simp: unresolved_len_def filter_empty_conv set_bvals)
  moreover have "lane_count r (sample_queue 1 k m) = 0"
    using assms(1) by (force simp: lane_count_def filter_empty_conv set_bvals)
  moreover have "checked_add_nat 64 k 1 = Some (k + 1)" using assms(3) by (simp add: checked_add_nat_def)
  ultimately show ?thesis using assms(2)
    by (simp add: enqueue_def act_bind_def sample_handoff_valid fail_if_def add_handoff_def act_assign_def sample_encodes sample_pending_def
        sample_queue_def lane_capacity_def)
qed

text \<open>A dispatch whose saves succeed.\<close>

lemma sample_dispatch:
  assumes "\<And>n. saves n = Saved"
    and "\<And>k p. bget m k = Some p \<Longrightarrow> \<exists>reason. ph_state p = HandoffRejected reason" and "bget m [c] = None" and "k < 1000"
    and "replies (calls + 3) = Ok (if a then Accepted \<lparr>ii_cloid = [c], ii_target_version = 1, ii_canonical_hash = replicate 32 0\<rparr> 1 []
        else RejectedResponse [c] RejectExpired)"
  shows "dispatch_exec (sample_environment replies saves) (DispatchIntent (sample_handoff c r))
      \<lparr>dp_queue = sample_queue 1 k m, dp_file = f, dp_written = w, dp_calls = calls\<rparr>
    = (let q = sample_queue 1 (k + 1) (binsert [c] (sample_pending c r k (if a then HandoffAccepted else HandoffRejected [])) m)
       in \<lparr>dp_queue = q, dp_file = Some q, dp_written = w @ [sample_frame k], dp_calls = calls + 5\<rparr>)"
proof -
  have e: "enqueue (sample_environment replies saves) (sample_handoff c r) (sample_queue (Suc 0) k m)
      = (Ok k, sample_queue (Suc 0) (Suc k) (binsert [c] (sample_pending c r k HandoffPersisted) m))"
    using sample_enqueue [OF assms(2-4)] by simp
  have "calls + 3 = Suc (Suc (Suc calls))" by simp
  then have r: "replies (Suc (Suc (Suc calls))) = Ok (if a then Accepted \<lparr>ii_cloid = [c], ii_target_version = 1,
      ii_canonical_hash = replicate 32 0\<rparr> 1 [] else RejectedResponse [c] RejectExpired)" using assms(5) by metis
  show ?thesis using assms(1) r
    by (cases a) (simp_all add: persist_and_dispatch_def persist_intent_def act_bind_def sample_handoff_valid on_queue_def act_zoom_def e
      persist_def dispatch_ask_def dispatch_persisted_def handoff_def pending_def request_handoff_def send_raw_def log_frame_def
      mark_def binsert_twice await_reply_def replay_absent_def mark_accepted_def mark_rejected_def Let_def)
qed


definition accepting :: handoff_environment where
  "accepting = sample_environment (\<lambda>_. Ok (Accepted \<lparr>ii_cloid = [1], ii_target_version = 1,
     ii_canonical_hash = replicate 32 0\<rparr> 1 [])) (\<lambda>_. Saved)"

definition rejecting :: handoff_environment where
  "rejecting = sample_environment (\<lambda>n. Ok (RejectedResponse (if n < 5 then [1] else [2]) RejectExpired)) (\<lambda>_. Saved)"

lemma sample_accepted:
  "dispatch_exec accepting (DispatchIntent (sample_handoff 1 r)) (new_dispatcher (sample_queue 1 1 bempty))
    = (let q = sample_queue 1 2 (binsert [1] (sample_pending 1 r 1 HandoffAccepted) bempty)
       in \<lparr>dp_queue = q, dp_file = Some q, dp_written = [sample_frame 1], dp_calls = 5\<rparr>)"
  using sample_dispatch [of "\<lambda>_. Saved" bempty 1 1 "\<lambda>_. Ok (Accepted \<lparr>ii_cloid = [1], ii_target_version = 1,
     ii_canonical_hash = replicate 32 0\<rparr> 1 [])" 0 True r None "[]"]
  by (simp add: accepting_def new_dispatcher_def numeral_2_eq_2)

lemma handoffs_keep_identity_witness:
  "\<exists>s. s = dispatch_exec accepting (DispatchIntent (sample_handoff 1 True)) (new_dispatcher (sample_queue 1 1 bempty))
    \<and> (\<exists>st. pending (dp_queue (dispatch_exec accepting (NotSubmittedReported [1]) s)) [1] = Some ((sample_pending 1 True 1 HandoffAccepted)\<lparr>ph_state := st\<rparr>))
    \<and> (\<forall>frame \<in> set (dp_written s). queued_frame (dp_queue s) frame \<or> other_request accepting frame) \<and> dp_written s \<noteq> []"
proof -
  let ?s = "dispatch_exec accepting (DispatchIntent (sample_handoff 1 True)) (new_dispatcher (sample_queue 1 1 bempty))"
  have n: "new_queue 1 = Ok (sample_queue 1 1 bempty) \<or> queue_with_lanes 1 1 = Ok (sample_queue 1 1 bempty)"
    by (simp only: sample_queue_new simp_thms)
  have s: "?s = fold (dispatch_exec accepting) [DispatchIntent (sample_handoff 1 True)] (new_dispatcher (sample_queue 1 1 bempty))" by simp
  have t: "dispatch_exec accepting (NotSubmittedReported [1]) ?s = fold (dispatch_exec accepting) [NotSubmittedReported [1]] ?s" by simp
  have u: "?s = fold (dispatch_exec accepting) [] ?s" by simp
  have p: "pending (dp_queue ?s) [1] = Some (sample_pending 1 True 1 HandoffAccepted)" and w: "dp_written ?s \<noteq> []"
    unfolding sample_accepted by (simp_all add: pending_def Let_def)
  from handoffs_keep_identity [OF n s t] p have "\<exists>st. pending (dp_queue (dispatch_exec accepting (NotSubmittedReported [1]) ?s)) [1]
      = Some ((sample_pending 1 True 1 HandoffAccepted)\<lparr>ph_state := st\<rparr>)" by blast
  with handoffs_keep_identity [OF n s u] w show ?thesis by blast
qed

lemma queue_file_restores_witness:
  "\<exists>s q. s = fold (dispatch_exec rejecting) [DispatchIntent (sample_handoff 1 True), DispatchIntent (sample_handoff 2 True)]
      (new_dispatcher (sample_queue 1 1 bempty))
    \<and> dp_file s = Some q \<and> unresolved_len q = 0 \<and> restore_queue q 1 = Err HandoffInvalidState"
proof -
  let ?m = "binsert [1] (sample_pending 1 True 1 (HandoffRejected [])) bempty"
  let ?q = "sample_queue 1 3 (binsert [2] (sample_pending 2 True 2 (HandoffRejected [])) ?m)"
  let ?ops = "[DispatchIntent (sample_handoff 1 True), DispatchIntent (sample_handoff 2 True)]"
  let ?s = "fold (dispatch_exec rejecting) ?ops (new_dispatcher (sample_queue 1 1 bempty))"
  have "dispatch_exec rejecting (DispatchIntent (sample_handoff 1 True)) (new_dispatcher (sample_queue 1 1 bempty))
      = \<lparr>dp_queue = sample_queue 1 2 ?m, dp_file = Some (sample_queue 1 2 ?m), dp_written = [sample_frame 1], dp_calls = 5\<rparr>"
    using sample_dispatch [of "\<lambda>_. Saved" bempty 1 1 "\<lambda>n. Ok (RejectedResponse (if n < 5 then [1] else [2]) RejectExpired)" 0 False True None "[]"]
    unfolding rejecting_def [symmetric] by (simp add: new_dispatcher_def numeral_2_eq_2 Let_def del: dispatch_exec.simps)
  moreover have r: "\<And>k p. bget ?m k = Some p \<Longrightarrow> \<exists>reason. ph_state p = HandoffRejected reason" by (auto split: if_splits)
  have "dispatch_exec rejecting (DispatchIntent (sample_handoff 2 True))
      \<lparr>dp_queue = sample_queue 1 2 ?m, dp_file = Some (sample_queue 1 2 ?m), dp_written = [sample_frame 1], dp_calls = 5\<rparr>
      = \<lparr>dp_queue = ?q, dp_file = Some ?q, dp_written = [sample_frame 1, sample_frame 2], dp_calls = 10\<rparr>"
    using sample_dispatch [of "\<lambda>_. Saved" ?m 2 2 "\<lambda>n. Ok (RejectedResponse (if n < 5 then [1] else [2]) RejectExpired)" 5 False True
        "Some (sample_queue 1 2 ?m)" "[sample_frame 1]", OF _ r]
    unfolding rejecting_def [symmetric] by (simp add: Let_def del: dispatch_exec.simps)
  ultimately have f: "dp_file ?s = Some ?q" by (simp del: dispatch_exec.simps)
  have n: "new_queue 1 = Ok (sample_queue 1 1 bempty) \<or> (queue_with_lanes 1 1 = Ok (sample_queue 1 1 bempty) \<and> 1 = 1 + (1 :: nat))"
    by (simp only: sample_queue_new simp_thms)
  have "bsize (hq_by_cloid ?q) = 2" by (simp add: bsize_insert_new)
  with queue_file_restores [OF n refl f] have "restore_queue ?q 1 = Err HandoffInvalidState" by simp
  moreover have "unresolved_len ?q = 0" by (auto simp: unresolved_len_def filter_empty_conv set_bvals split: if_splits)
  ultimately show ?thesis using f by blast
qed

lemma accepted_handoffs_fill_lane_witness:
  "\<exists>s. s = dispatch_exec accepting (DispatchIntent (sample_handoff 1 True)) (new_dispatcher (sample_queue 1 1 bempty))
    \<and> unresolved_len (dp_queue s) = 0 \<and> persist_and_queue accepting (sample_handoff 2 True) s = (Err HandoffCapacity, s)"
proof -
  let ?s = "dispatch_exec accepting (DispatchIntent (sample_handoff 1 True)) (new_dispatcher (sample_queue 1 1 bempty))"
  have n: "new_queue 1 = Ok (sample_queue 1 1 bempty) \<or> queue_with_lanes 1 1 = Ok (sample_queue 1 1 bempty)"
    by (simp only: sample_queue_new simp_thms)
  have q: "dp_queue ?s = sample_queue 1 2 (binsert [1] (sample_pending 1 True 1 HandoffAccepted) bempty)"
    unfolding sample_accepted by (simp add: Let_def)
  have "persist_and_queue accepting (sample_handoff 2 True) ?s = (if True then Err HandoffCapacity else Ok DispatchCapacityUnavailable, ?s)"
  proof (rule accepted_handoffs_fill_lane [OF n, of ?s _ "[DispatchIntent (sample_handoff 1 True)]" "{[1]}" _ "[]"])
    show "lane_capacity True (dp_queue ?s) \<le> card {[1 :: 8 word]}" unfolding q by simp
    show "\<forall>c \<in> {[1]}. \<exists>p. pending (dp_queue ?s) c = Some p \<and> ph_state p = HandoffAccepted \<and> ai_reduce_only (ph_intent p) = True"
      unfolding q pending_def by simp
    show "pending (dp_queue ?s) (ai_planned_cloid (sample_handoff 2 True)) = None" unfolding q pending_def by simp
    show "validate_canonical (he_encode_intent accepting) (he_hash accepting) (sample_handoff 2 True) = Ok ()"
      unfolding accepting_def by (rule sample_handoff_valid)
  qed (simp_all del: dispatch_exec.simps)
  moreover have "unresolved_len (dp_queue ?s) = 0"
    unfolding q by (auto simp: unresolved_len_def filter_empty_conv set_bvals split: if_splits)
  ultimately show ?thesis by auto
qed


definition silent :: handoff_environment where
  "silent = sample_environment (\<lambda>_. Err Timeout) (\<lambda>_. Saved)"

lemma sample_queued:
  "dispatch_exec (sample_environment replies (\<lambda>_. Saved)) (QueueIntent (sample_handoff 1 r)) (new_dispatcher (sample_queue 1 1 bempty))
    = (let q = sample_queue 1 2 (binsert [1] (sample_pending 1 r 1 HandoffPersisted) bempty)
       in \<lparr>dp_queue = q, dp_file = Some q, dp_written = [], dp_calls = 1\<rparr>)"
proof -
  have e: "enqueue (sample_environment replies (\<lambda>_. Saved)) (sample_handoff 1 r) (sample_queue (Suc 0) (Suc 0) bempty)
      = (Ok (Suc 0), sample_queue (Suc 0) (Suc (Suc 0)) (binsert [1] (sample_pending 1 r (Suc 0) HandoffPersisted) bempty))"
    using sample_enqueue [of bempty 1 1 replies "\<lambda>_. Saved" r] by simp
  show ?thesis
    by (simp add: persist_and_queue_def persist_intent_def act_bind_def sample_handoff_valid on_queue_def act_zoom_def e
      persist_def dispatch_ask_def new_dispatcher_def Let_def numeral_2_eq_2)
qed

lemma sample_next: "next_dispatchable (sample_queue 1 2 (binsert [1] (sample_pending 1 r 1 HandoffPersisted) bempty)) = Some [1]"
  by (simp add: next_dispatchable_def binsert.rep_eq bempty.rep_eq)

lemma dispatch_order_witness:
  "\<exists>p. pending (dp_queue (dispatch_exec silent (QueueIntent (sample_handoff 1 True)) (new_dispatcher (sample_queue 1 1 bempty)))) [1] = Some p
     \<and> dispatchable (ph_state p)"
proof -
  let ?q = "dp_queue (fold (dispatch_exec silent) [QueueIntent (sample_handoff 1 True)] (new_dispatcher (sample_queue 1 1 bempty)))"
  have n: "new_queue 1 = Ok (sample_queue 1 1 bempty) \<or> queue_with_lanes 1 1 = Ok (sample_queue 1 1 bempty)"
    by (simp only: sample_queue_new simp_thms)
  have "?q = sample_queue 1 2 (binsert [1] (sample_pending 1 True 1 HandoffPersisted) bempty)"
    using sample_queued [of "\<lambda>_. Err Timeout" True] unfolding silent_def [symmetric] by (simp add: Let_def del: dispatch_exec.simps)
  then have "next_dispatchable ?q = Some [1]" using sample_next [of True] by (simp del: dispatch_exec.simps)
  with dispatch_order [OF n refl, of silent "[QueueIntent (sample_handoff 1 True)]"] show ?thesis by (auto simp del: dispatch_exec.simps)
qed

lemma worker_spins_witness:
  "next_dispatchable (dp_queue (worker_rounds silent 100
     (dispatch_exec silent (QueueIntent (sample_handoff 1 True)) (new_dispatcher (sample_queue 1 1 bempty))))) = Some [1]"
proof -
  let ?s = "dispatch_exec silent (QueueIntent (sample_handoff 1 True)) (new_dispatcher (sample_queue 1 1 bempty))"
  have n: "new_queue 1 = Ok (sample_queue 1 1 bempty) \<or> queue_with_lanes 1 1 = Ok (sample_queue 1 1 bempty)"
    by (simp only: sample_queue_new simp_thms)
  have s: "?s = fold (dispatch_exec silent) [QueueIntent (sample_handoff 1 True)] (new_dispatcher (sample_queue 1 1 bempty))" by simp
  have "dp_queue ?s = sample_queue 1 2 (binsert [1] (sample_pending 1 True 1 HandoffPersisted) bempty)"
    using sample_queued [of "\<lambda>_. Err Timeout" True] unfolding silent_def [symmetric] by (simp add: Let_def del: dispatch_exec.simps)
  then have "next_dispatchable (dp_queue ?s) = Some [1]" using sample_next [of True] by (simp del: dispatch_exec.simps)
  moreover have "\<forall>n. \<not> is_ok (he_reply silent n)" by (simp add: silent_def)
  ultimately show ?thesis using worker_spins [OF n s] by blast
qed

lemma unsaved_handoff_is_sent_witness:
  "\<exists>E t p. persist_and_queue E (sample_handoff 1 True) (new_dispatcher (sample_queue 1 1 bempty)) = (Err (HandoffIo ''disk full''), t)
     \<and> dp_file t = None \<and> pending (dp_queue t) [1] = Some p \<and> ph_frame p \<in> set (dp_written (snd (dispatch_persisted E [1] t)))"
proof -
  let ?E = "sample_environment (\<lambda>_. Err Timeout) (\<lambda>_. NotSaved ''disk full'')"
  let ?s = "new_dispatcher (sample_queue 1 1 bempty)"
  have e: "enqueue ?E (sample_handoff 1 True) (dp_queue ?s)
      = (Ok 1, sample_queue 1 (1 + 1) (binsert [1] (sample_pending 1 True 1 HandoffPersisted) bempty))"
    using sample_enqueue [of bempty 1 1 "\<lambda>_. Err Timeout" "\<lambda>_. NotSaved ''disk full''" True] by (simp add: new_dispatcher_def)
  have p: "pending (dp_queue ?s) (ai_planned_cloid (sample_handoff 1 True)) = None" by (simp add: new_dispatcher_def pending_def)
  obtain r t where rt: "persist_and_queue ?E (sample_handoff 1 True) ?s = (r, t)" by (cases "persist_and_queue ?E (sample_handoff 1 True) ?s")
  have sv: "he_save ?E (dp_calls ?s) = NotSaved ''disk full''" by simp
  from unsaved_handoff_is_sent [OF e p sv rt] rt show ?thesis
    by (intro exI [of _ ?E]) (auto simp: new_dispatcher_def)
qed


lemma accepted_handoff_matches_witness:
  "\<exists>s t. pending (dp_queue s) [1] = Some (sample_pending 1 True 1 HandoffPersisted)
     \<and> handoff accepting [1] s = (Ok (Accepted \<lparr>ii_cloid = [1], ii_target_version = 1, ii_canonical_hash = replicate 32 0\<rparr> 1 []), t)
     \<and> dp_file t = Some (dp_queue t)"
proof -
  let ?s = "new_dispatcher (sample_queue 1 2 (binsert [1] (sample_pending 1 True 1 HandoffPersisted) bempty))"
  obtain t where t: "handoff accepting [1] ?s = (Ok (Accepted \<lparr>ii_cloid = [1], ii_target_version = 1, ii_canonical_hash = replicate 32 0\<rparr> 1 []), t)"
    by (simp add: handoff_def act_bind_def pending_def new_dispatcher_def request_handoff_def send_raw_def log_frame_def
        dispatch_ask_def on_queue_def act_zoom_def mark_def persist_def await_reply_def replay_absent_def mark_accepted_def
        accepting_def binsert_twice)
  have "pending (dp_queue ?s) [1] = Some (sample_pending 1 True 1 HandoffPersisted)" by (simp add: pending_def new_dispatcher_def)
  with accepted_handoff_matches [OF t] t show ?thesis by blast
qed

lemma unknown_submission_asks_first_witness:
  "\<exists>E s frames. pending (dp_queue s) [1] = Some (sample_pending 1 True 1 HandoffUnknown)
     \<and> dp_written (snd (handoff E [1] s)) = dp_written s @ frames \<and> length frames = 2 \<and> last frames = sample_frame 1
     \<and> he_reply E (dp_calls s + 1) = Ok (NotFoundResponse [1])"
proof -
  let ?E = "sample_environment (\<lambda>_. Ok (NotFoundResponse [1])) (\<lambda>_. Saved)"
  let ?s = "new_dispatcher (sample_queue 1 2 (binsert [1] (sample_pending 1 True 1 HandoffUnknown) bempty))"
  have p: "pending (dp_queue ?s) [1] = Some (sample_pending 1 True 1 HandoffUnknown)" by (simp add: pending_def new_dispatcher_def)
  have u: "ph_state (sample_pending 1 True 1 HandoffUnknown) = HandoffUnknown" by simp
  obtain r t where rt: "handoff ?E [1] ?s = (r, t)" by (cases "handoff ?E [1] ?s")
  have w: "write_framed (he_encode_request ?E) (he_hash ?E) (he_policy ?E) OBSERVER_MESSAGE_TYPE n (Reconcile [1]) Written [] = Ok (sample_frame n)" for n
    by (simp add: write_framed_def encode_frame_def validate_policy_def sample_environment_def handoff_policy_def fail_if_def sample_frame_def
        IPC_PROTOCOL_VERSION_def IPC_HEADER_BYTES_def checked_add_nat_def)
  have "length (dp_written t) = 2"
    using rt w by (auto simp: handoff_def act_bind_def pending_def new_dispatcher_def request_handoff_def send_framed_def send_raw_def
        log_frame_def dispatch_ask_def await_reply_def replay_absent_def sample_environment_def)
  moreover have "dp_written ?s = []" by (simp add: new_dispatcher_def)
  ultimately show ?thesis using unknown_submission_asks_first [OF p u rt] rt p w
    by (intro exI [of _ ?E] exI [of _ ?s] exI [of _ "dp_written t"]) auto
qed

section \<open>What is acknowledged is on file\<close>

lemma on_dispatcher_keeps: "act_keeps (\<lambda>s. os_state s = x \<and> os_state_file s = y) (on_dispatcher m)"
  by (simp add: act_keeps_def on_dispatcher_def act_zoom_def split: prod.split)

lemma on_dispatcher_Ok: "on_dispatcher m s = (Ok x, t) \<Longrightarrow> os_state t = os_state s \<and> os_state_file t = os_state_file s"
  using act_keepsD [OF on_dispatcher_keeps, of s "os_state s" "os_state_file s" m] by simp

definition in_sync :: "observer_process \<Rightarrow> bool" where
  "in_sync s = (observer_inv (os_state s) \<and> os_state_file s = Some (os_state s))"

lemma reconcile_event_sync:
  assumes "observer_inv (os_state s)" and "reconcile_event P E e s = (Ok (), t)"
  shows "in_sync t \<and> ot_highest (os_state s) \<le> ot_highest (os_state t)"
proof -
  from assms(2) obtain s1 s2 where s1: "apply_event P E e s = (Ok (), s1)" and s2: "save_state E s1 = (Ok (), s2)"
    and t: "rearm E (re_payload e) s2 = (Ok (), t)" by (auto simp: reconcile_event_def outcome_simps)
  have "os_state s1 = observer_exec P e (os_state s)"
    using s1 by (auto simp: apply_event_def observer_exec_def split: prod.splits)
  then have i: "observer_inv (os_state s1) \<and> ot_highest (os_state s) \<le> ot_highest (os_state s1)"
    using apply_event_keeps [OF assms(1)] by simp
  have "os_state s2 = os_state s1 \<and> os_state_file s2 = Some (os_state s2)"
    using s2 by (cases "he_save E (dp_calls (os_dispatcher s1))")
      (auto simp: save_state_def act_bind_def on_dispatcher_def act_zoom_def dispatch_ask_def)
  moreover have "os_state t = os_state s2 \<and> os_state_file t = os_state_file s2"
    using t by (cases "re_payload e") (auto simp: rearm_def dest: on_dispatcher_Ok)
  ultimately show ?thesis using i by (simp add: in_sync_def)
qed

lemma reconcile_events_sync:
  "in_sync s \<Longrightarrow> act_each (reconcile_event P E) es s = (Ok (), t) \<Longrightarrow> in_sync t \<and> ot_highest (os_state s) \<le> ot_highest (os_state t)"
proof (induction es arbitrary: s)
  case (Cons e es)
  then obtain u where u: "reconcile_event P E e s = (Ok (), u)" "act_each (reconcile_event P E) es u = (Ok (), t)"
    by (auto simp: outcome_simps)
  with reconcile_event_sync [OF _ u(1)] Cons.prems(1) Cons.IH [OF _ u(2)] show ?case by (auto simp: in_sync_def)
qed simp



lemma sample_applies:
  "\<exists>o1 o2. apply_reconciliation_event sample_platform (sample_events ! 0) (new_production_state live) = (Ok (EventApplied 1), o1)
     \<and> apply_reconciliation_event sample_platform (sample_events ! 1) o1 = (Ok (EventApplied 2), o2) \<and> ot_highest o2 = 2"
  using sample_event_hash [of 1] sample_event_hash [of 2]
  by (simp add: apply_reconciliation_event_def act_bind_def act_assign_def sample_events_def apply_next_def)
    (simp add: sample_event_def new_production_state_def checked_add_nat_def act_assign_def act_bind_def apply_next_def
      apply_contiguous_def drain.simps require_intent_def fail_if_def)


end
