(* ===== verification/Spec2Isabelle.thy ===== *)
theory Spec2Isabelle
  imports Portfolio_Risk Identity Lifecycle Submission_Registry Scheduler Shadow Ledger Live_Trading
    Order_Planning Allocation Target_State Confidence Consensus Transport Ipc Exchange_Batches
    Outbox Production Signing_Runs Canonical_Json Release Signer_Service Decision Observer_State Handoff_Queue
begin

text \<open>
  A verification library for the copy-trading engine (\<open>crates/copytrade-core\<close>,
  \<open>crates/copytrade-signer\<close>).

  Plan of the components, in order: the portfolio projection, the action lifecycle, the signer's
  submission registry, the request scheduler, the shadow ledger and the live-trading state,
  then allocation, target state, execution floors, confidence, consensus, outbox and frames.
\<close>

end
